(* ===== verification/Prelude.thy ===== *)
theory Prelude
  imports Main "HOL-Library.Word" "HOL-Library.Monad_Syntax"
begin

text \<open>
  Shared vocabulary of the kernel model.

  \<^item> Machine integers keep the width they have in the Rust sources; \<open>usize\<close> is 64 bits on
    both supported targets.
  \<^item> A Rust panic (failed \<open>assert!\<close>, \<open>unwrap\<close> of a \<open>None\<close>, index out of range, explicit
    \<open>panic!\<close>) is the value \<open>None\<close> of an option; \<open>ensure\<close> is \<open>assert!\<close> and the option
    monad sequences the statements that follow it.
  \<^item> A Rust \<open>Result<T, E>\<close> is a sum: \<open>Ok\<close> and \<open>Err\<close> name its two injections.
  \<^item> The generic facts on lists, \<open>find\<close> and words that several components share.
\<close>

unbundle bit_operations_syntax

type_synonym u8 = "8 word"
type_synonym u16 = "16 word"
type_synonym u32 = "32 word"
type_synonym u64 = "64 word"
type_synonym usize = "64 word"

named_theorems inv_simps \<open>unfolding rules of the component invariants\<close>
named_theorems op_simps \<open>unfolding rules of the component operations\<close>

abbreviation Ok :: "'a \<Rightarrow> 'e + 'a" where "Ok \<equiv> Inr"
abbreviation Err :: "'e \<Rightarrow> 'e + 'a" where "Err \<equiv> Inl"

definition ensure :: "bool \<Rightarrow> unit option" where
  "ensure b = (if b then Some () else None)"

lemma ensure_True [simp]: "ensure True = Some ()"
  by (simp add: ensure_def)

lemma ensure_False [simp]: "ensure False = None"
  by (simp add: ensure_def)

lemma ensure_bind_Some [simp]:
  "(ensure b \<bind> f = Some y) \<longleftrightarrow> b \<and> f () = Some y"
  by (simp add: ensure_def)

lemma ensure_bind_None [simp]:
  "(ensure b \<bind> f = None) \<longleftrightarrow> (b \<longrightarrow> f () = None)"
  by (simp add: ensure_def)

subsection \<open>Search in an index range\<close>

lemma find_upt_Some:
  "List.find P [m..<n] = Some i \<longleftrightarrow> m \<le> i \<and> i < n \<and> P i \<and> (\<forall>j. m \<le> j \<and> j < i \<longrightarrow> \<not> P j)"
  (is "?l \<longleftrightarrow> ?r")
proof
  assume ?l
  then obtain k where k: "k < n - m" "P (m + k)" "i = m + k" "\<forall>j<k. \<not> P (m + j)"
    by (auto simp: find_Some_iff)
  have "\<not> P j" if "m \<le> j" "j < i" for j
    using k(4) [rule_format, of "j - m"] that k(3) by simp
  then show ?r using k by simp
next
  assume r: ?r
  then have "\<exists>k<n - m. P (m + k) \<and> i = m + k \<and> (\<forall>j<k. \<not> P (m + j))"
    by (intro exI [of _ "i - m"]) auto
  then show ?l
    by (auto simp: find_Some_iff)
qed

lemma find_upt_None:
  "List.find P [m..<n] = None \<longleftrightarrow> (\<forall>i. m \<le> i \<and> i < n \<longrightarrow> \<not> P i)"
  by (auto simp: find_None_iff)

subsection \<open>Words\<close>

lemma and_push_bit_1:
  fixes w :: "'a :: len word"
  shows "(w AND push_bit b 1 \<noteq> 0) \<longleftrightarrow> bit w b"
proof
  assume "w AND push_bit b 1 \<noteq> 0"
  then obtain n where "bit (w AND push_bit b 1) n"
    by (metis bit_eqI bit_0_eq bot_apply bot_bool_def)
  then show "bit w b"
    by (auto simp: bit_simps)
next
  assume "bit w b"
  then have "bit (w AND push_bit b 1) b"
    by (simp add: bit_simps bit_imp_le_length)
  then show "w AND push_bit b 1 \<noteq> 0"
    by auto
qed

lemma and_exp_2: "(w AND 2 ^ b \<noteq> 0) \<longleftrightarrow> bit (w :: 'a :: len word) b"
  using and_push_bit_1 [of w b] by simp

lemma and_exp_2_eq_0: "(w AND 2 ^ b = 0) \<longleftrightarrow> \<not> bit (w :: 'a :: len word) b"
  using and_exp_2 [of w b] by blast

lemma bit_usize_less: "bit (w :: 64 word) n \<Longrightarrow> n < 64"
  using bit_imp_le_length [of w n] by simp

lemma word_not_max_has_clear:
  fixes w :: "64 word"
  shows "w \<noteq> - 1 \<longleftrightarrow> (\<exists>b<64. \<not> bit w b)"
  by (auto simp: bit_eq_iff [of w "- 1"] bit_simps)

end
