(* ===== verification/Resource_Pool.thy ===== *)
theory Resource_Pool
  imports Prelude
begin

text \<open>
  The contract that the kernel's allocators of numbered resources share: pids
  (\<open>task/id.rs\<close>) and physical page frames (\<open>mm/frame_allocator.rs\<close>).  The provider gives an
  allocation that may fail and a deallocation that may panic; the laws say that an allocation
  returns a number that was not in use and that a deallocation succeeds exactly for the numbers
  in use.  The client part follows the numbers that are live along any sequence of requests.
\<close>

datatype pool_op = PAlloc | PDealloc nat

text \<open>
  A run of requests: the list of live numbers, newest first, is threaded beside the
  allocator.  An allocation that fails changes nothing; a deallocation that panics stops the run.
\<close>

fun pool_run :: "('s \<Rightarrow> (nat \<times> 's) option) \<Rightarrow> ('s \<Rightarrow> nat \<Rightarrow> 's option) \<Rightarrow> pool_op list
    \<Rightarrow> 's \<times> nat list \<Rightarrow> ('s \<times> nat list) option" where
  "pool_run alloc dealloc [] (s, live) = Some (s, live)"
| "pool_run alloc dealloc (PAlloc # ops) (s, live) =
     (case alloc s of
        None \<Rightarrow> pool_run alloc dealloc ops (s, live)
      | Some (i, s') \<Rightarrow> pool_run alloc dealloc ops (s', i # live))"
| "pool_run alloc dealloc (PDealloc i # ops) (s, live) =
     (case dealloc s i of
        None \<Rightarrow> None
      | Some s' \<Rightarrow> pool_run alloc dealloc ops (s', remove1 i live))"

text \<open>A sequence of requests that only gives back what it was given.\<close>

fun pool_polite :: "('s \<Rightarrow> (nat \<times> 's) option) \<Rightarrow> ('s \<Rightarrow> nat \<Rightarrow> 's option) \<Rightarrow> pool_op list
    \<Rightarrow> 's \<times> nat list \<Rightarrow> bool" where
  "pool_polite alloc dealloc [] (s, live) = True"
| "pool_polite alloc dealloc (PAlloc # ops) (s, live) =
     (case alloc s of
        None \<Rightarrow> pool_polite alloc dealloc ops (s, live)
      | Some (i, s') \<Rightarrow> pool_polite alloc dealloc ops (s', i # live))"
| "pool_polite alloc dealloc (PDealloc i # ops) (s, live) =
     (i \<in> set live \<and>
      (case dealloc s i of
         None \<Rightarrow> True
       | Some s' \<Rightarrow> pool_polite alloc dealloc ops (s', remove1 i live)))"

locale resource_pool =
  fixes invar :: "'s \<Rightarrow> bool"
    and used :: "'s \<Rightarrow> nat set"
    and alloc :: "'s \<Rightarrow> (nat \<times> 's) option"
    and dealloc :: "'s \<Rightarrow> nat \<Rightarrow> 's option"
  assumes alloc_fresh: "invar s \<Longrightarrow> alloc s = Some (i, s') \<Longrightarrow> i \<notin> used s"
    and alloc_used: "invar s \<Longrightarrow> alloc s = Some (i, s') \<Longrightarrow> used s' = insert i (used s)"
    and alloc_invar: "invar s \<Longrightarrow> alloc s = Some (i, s') \<Longrightarrow> invar s'"
    and dealloc_iff: "invar s \<Longrightarrow> (dealloc s i \<noteq> None) \<longleftrightarrow> i \<in> used s"
    and dealloc_used: "invar s \<Longrightarrow> dealloc s i = Some s' \<Longrightarrow> used s' = used s - {i}"
    and dealloc_invar: "invar s \<Longrightarrow> dealloc s i = Some s' \<Longrightarrow> invar s'"
begin

lemma run_live:
  assumes "pool_run alloc dealloc ops (s, live) = Some (s', live')"
    and "invar s" "used s = set live" "distinct live"
  shows "invar s' \<and> used s' = set live' \<and> distinct live'"
  using assms
proof (induction ops arbitrary: s live)
  case Nil
  then show ?case by simp
next
  case (Cons a ops)
  show ?case
  proof (cases a)
    case PAlloc
    show ?thesis
    proof (cases "alloc s")
      case None
      then show ?thesis using Cons PAlloc by simp
    next
      case (Some p)
      then obtain i s1 where p: "alloc s = Some (i, s1)" by (cases p) simp
      then show ?thesis
        using Cons PAlloc alloc_fresh [of s i s1] alloc_used [of s i s1] alloc_invar [of s i s1]
        by simp
    qed
  next
    case (PDealloc i)
    then obtain s1 where p: "dealloc s i = Some s1"
      using Cons.prems(1) by (auto split: option.splits)
    then show ?thesis
      using Cons PDealloc dealloc_used [of s i s1] dealloc_invar [of s i s1] by simp
  qed
qed

lemma run_polite:
  assumes "pool_polite alloc dealloc ops (s, live)"
    and "invar s" "used s = set live" "distinct live"
  shows "\<exists>s' live'. pool_run alloc dealloc ops (s, live) = Some (s', live')"
  using assms
proof (induction ops arbitrary: s live)
  case Nil
  then show ?case by simp
next
  case (Cons a ops)
  show ?case
  proof (cases a)
    case PAlloc
    show ?thesis
    proof (cases "alloc s")
      case None
      then show ?thesis using Cons PAlloc by simp
    next
      case (Some p)
      then obtain i s1 where p: "alloc s = Some (i, s1)" by (cases p) simp
      then show ?thesis
        using Cons PAlloc alloc_fresh [of s i s1] alloc_used [of s i s1] alloc_invar [of s i s1]
        by simp
    qed
  next
    case (PDealloc i)
    then obtain s1 where p: "dealloc s i = Some s1"
      using Cons.prems dealloc_iff [of s i] by auto
    then show ?thesis
      using Cons PDealloc dealloc_used [of s i s1] dealloc_invar [of s i s1] by simp
  qed
qed

lemma dealloc_after_alloc:
  assumes "invar s" "alloc s = Some (i, s')"
  shows "\<exists>s''. dealloc s' i = Some s'' \<and> invar s'' \<and> used s'' = used s"
proof -
  note s' = alloc_fresh [OF assms] alloc_used [OF assms] alloc_invar [OF assms]
  then obtain s'' where "dealloc s' i = Some s''"
    using dealloc_iff [of s' i] by auto
  then show ?thesis
    using s' dealloc_used [of s' i s''] dealloc_invar [of s' i s''] by auto
qed

lemma double_dealloc_panics:
  assumes "invar s" "dealloc s i = Some s'"
  shows "dealloc s' i = None"
  using assms dealloc_iff [of s' i] dealloc_used [of s i s'] dealloc_invar [of s i s'] by blast

end

end
