(* ===== verification/Bit_Field.thy ===== *)
theory Bit_Field
  imports Prelude
begin

text \<open>
  The vendored crate \<open>bit_field\<close> (\<open>os/vendor/bit_field/src/lib.rs\<close>): single-bit and bit-range
  access on a 64-bit word, and single-bit access on a slice of words.  Every \<open>assert!\<close> of the
  crate is a branch to \<open>None\<close>.  The lemmas characterise each accessor bit by bit.
\<close>

definition usize_get_bit :: "usize \<Rightarrow> nat \<Rightarrow> bool option" where
  "usize_get_bit w b = do { ensure (b < 64); Some (w AND push_bit b 1 \<noteq> 0) }"

definition usize_set_bit :: "usize \<Rightarrow> nat \<Rightarrow> bool \<Rightarrow> usize option" where
  "usize_set_bit w b v = do {
     ensure (b < 64);
     Some (if v then w OR push_bit b 1 else w AND NOT (push_bit b 1)) }"

definition usize_get_bits :: "usize \<Rightarrow> nat \<Rightarrow> nat \<Rightarrow> usize option" where
  "usize_get_bits w s e = do {
     ensure (s < 64);
     ensure (e \<le> 64);
     ensure (s < e);
     Some (drop_bit s (drop_bit (64 - e) (push_bit (64 - e) w))) }"

definition usize_set_bits :: "usize \<Rightarrow> nat \<Rightarrow> nat \<Rightarrow> usize \<Rightarrow> usize option" where
  "usize_set_bits w s e v = do {
     ensure (s < 64);
     ensure (e \<le> 64);
     ensure (s < e);
     ensure (drop_bit (64 - (e - s)) (push_bit (64 - (e - s)) v) = v);
     (let bitmask = NOT (push_bit s (drop_bit s (drop_bit (64 - e) (push_bit (64 - e) (NOT 0)))))
      in Some ((w AND bitmask) OR push_bit s v)) }"

definition arr_get_bit :: "usize list \<Rightarrow> nat \<Rightarrow> bool option" where
  "arr_get_bit ws i = do {
     ensure (i div 64 < length ws);
     usize_get_bit (ws ! (i div 64)) (i mod 64) }"

definition arr_set_bit :: "usize list \<Rightarrow> nat \<Rightarrow> bool \<Rightarrow> usize list option" where
  "arr_set_bit ws i v = do {
     ensure (i div 64 < length ws);
     w \<leftarrow> usize_set_bit (ws ! (i div 64)) (i mod 64) v;
     Some (ws[i div 64 := w]) }"

subsection \<open>Single words\<close>

lemma usize_get_bit_eq: "b < 64 \<Longrightarrow> usize_get_bit w b = Some (bit w b)"
  by (simp add: usize_get_bit_def and_exp_2_eq_0)

lemma usize_set_bit_bit:
  assumes "usize_set_bit w b v = Some w'"
  shows "b < 64" and "bit w' n \<longleftrightarrow> (if n = b then v else bit w n)"
  using assms by (auto simp: usize_set_bit_def bit_simps split: if_splits dest: bit_usize_less)

lemma usize_get_bits_bit:
  assumes "usize_get_bits w s e = Some r"
  shows "bit r n \<longleftrightarrow> n < e - s \<and> bit w (s + n)"
  using assms
  by (auto simp: usize_get_bits_def bit_simps add.commute dest: bit_usize_less)

lemma usize_set_bits_fits:
  assumes "s < e" "e \<le> 64"
  shows "drop_bit (64 - (e - s)) (push_bit (64 - (e - s)) v) = v \<longleftrightarrow>
    (\<forall>n. bit (v :: usize) n \<longrightarrow> n < e - s)"
proof -
  have "bit (drop_bit (64 - (e - s)) (push_bit (64 - (e - s)) v)) n \<longleftrightarrow> n < e - s \<and> bit v n" for n
    using assms by (auto simp: bit_simps dest: bit_usize_less)
  then show ?thesis
    by (metis (full_types) bit_eq_iff)
qed

lemma usize_set_bits_bit:
  assumes "usize_set_bits w s e v = Some w'"
  shows "bit w' n \<longleftrightarrow> (if s \<le> n \<and> n < e then bit v (n - s) else bit w n)"
proof -
  have se: "s < e" "e \<le> 64"
    and fit: "drop_bit (64 - (e - s)) (push_bit (64 - (e - s)) v) = v"
    and w': "w' = (w AND NOT (push_bit s (drop_bit s (drop_bit (64 - e) (push_bit (64 - e) (NOT 0))))))
      OR push_bit s v"
    using assms by (auto simp: usize_set_bits_def Let_def)
  have lim: "bit v m \<Longrightarrow> m < e - s" for m
    using fit usize_set_bits_fits [OF se] by simp
  show ?thesis
  proof (cases "n < 64")
    case True
    have "bit (push_bit s (drop_bit s (drop_bit (64 - e) (push_bit (64 - e) (NOT (0 :: usize)))))) n
        \<longleftrightarrow> s \<le> n \<and> n < e"
      using se True by (auto simp: bit_simps)
    then show ?thesis
      using True se lim [of "n - s"] by (auto simp: w' bit_simps)
  next
    case False
    then show ?thesis
      using se by (auto dest: bit_usize_less)
  qed
qed

lemma usize_get_set_bits:
  assumes "usize_set_bits w s e v = Some w'"
  shows "usize_get_bits w' s e = Some v"
proof -
  have se: "s < 64" "e \<le> 64" "s < e" and fit: "\<forall>n. bit v n \<longrightarrow> n < e - s"
    using assms usize_set_bits_fits by (auto simp: usize_set_bits_def Let_def)
  then obtain r where r: "usize_get_bits w' s e = Some r"
    by (simp add: usize_get_bits_def)
  have "bit r n \<longleftrightarrow> bit v n" for n
    using usize_get_bits_bit [OF r, of n] usize_set_bits_bit [OF assms, of "s + n"] fit by auto
  then have "r = v"
    by (simp add: bit_eq_iff)
  with r show ?thesis by simp
qed

subsection \<open>Slices of words\<close>

text \<open>The bit of a slice at an absolute position, as a total predicate.\<close>

definition abit :: "usize list \<Rightarrow> nat \<Rightarrow> bool" where
  "abit ws i = bit (ws ! (i div 64)) (i mod 64)"

lemma div64_less: "i < 64 * n \<longleftrightarrow> i div 64 < (n :: nat)"
  by (simp add: div_less_iff_less_mult mult.commute)

lemma arr_get_bit_eq: "i < 64 * length ws \<Longrightarrow> arr_get_bit ws i = Some (abit ws i)"
  by (simp add: arr_get_bit_def div64_less usize_get_bit_eq abit_def)

lemma arr_get_bit_None: "arr_get_bit ws i = None \<longleftrightarrow> 64 * length ws \<le> i"
proof -
  have "i mod 64 < 64" by simp
  then show ?thesis
    by (auto simp: arr_get_bit_def usize_get_bit_def div64_less [symmetric] not_less)
qed

lemma arr_set_bit_ex:
  "i < 64 * length ws \<Longrightarrow> \<exists>ws'. arr_set_bit ws i v = Some ws'"
  by (simp add: arr_set_bit_def usize_set_bit_def div64_less)

lemma abit_update:
  assumes "\<And>n. bit w' n \<longleftrightarrow> (if n = b then v else bit (ws ! i) n)" "b < 64" "i < length ws"
  shows "abit (ws[i := w']) j \<longleftrightarrow> (if j = i * 64 + b then v else abit ws j)"
proof (cases "j div 64 = i")
  case True
  then have "j = i * 64 + j mod 64"
    by (metis div_mult_mod_eq)
  then show ?thesis
    using assms True unfolding abit_def by (metis add_left_cancel nth_list_update_eq)
next
  case False
  moreover have "(i * 64 + b) div 64 = i"
    using assms by simp
  ultimately show ?thesis
    using False unfolding abit_def by auto
qed

lemma arr_set_bit_abit:
  assumes "arr_set_bit ws i v = Some ws'"
  shows "i < 64 * length ws" and "length ws' = length ws"
    and "abit ws' j \<longleftrightarrow> (if j = i then v else abit ws j)"
proof -
  obtain w where i: "i div 64 < length ws"
    and w: "usize_set_bit (ws ! (i div 64)) (i mod 64) v = Some w"
    and ws': "ws' = ws[i div 64 := w]"
    using assms by (auto simp: arr_set_bit_def ensure_def bind_eq_Some_conv split: if_splits)
  show "i < 64 * length ws" using i by (simp add: div64_less)
  show "length ws' = length ws" by (simp add: ws')
  show "abit ws' j \<longleftrightarrow> (if j = i then v else abit ws j)"
    unfolding ws' using abit_update [OF usize_set_bit_bit(2) [OF w] _ i] by simp
qed

end
