(* ===== verification/Config.thy ===== *)
theory Config
  imports Prelude
begin

text \<open>
  The constants of \<open>os/src/config.rs\<close> that the model uses, with the expressions the source has.
  They all fit in 64 bits, so they are natural numbers here and are injected into words where the
  code computes with machine words.
\<close>

definition MAX_SHM_SIZE :: nat where "MAX_SHM_SIZE = 1024 * 1024 * 1024"
definition MNT_TABLE_MAX_ENTRIES :: nat where "MNT_TABLE_MAX_ENTRIES = 16"
definition FD_SETSIZE :: nat where "FD_SETSIZE = 1024"
definition MAX_KERNEL_RW_BUFFER_SIZE :: nat where "MAX_KERNEL_RW_BUFFER_SIZE = 4096 * 4"
definition SS_DISABLE :: u32 where "SS_DISABLE = 2"
definition UIO_MAXIOV :: nat where "UIO_MAXIOV = 1024"
definition PRE_ALLOC_PAGES :: nat where "PRE_ALLOC_PAGES = 8"
definition CLOCK_FREQ :: nat where "CLOCK_FREQ = 12500000"
definition KERNEL_DIRECT_OFFSET :: nat where "KERNEL_DIRECT_OFFSET = 0x9000000000000000"
definition PAGE_SIZE :: nat where "PAGE_SIZE = 4096"
definition PAGE_SIZE_BITS :: nat where "PAGE_SIZE_BITS = 12"
definition KERNEL_PGNUM_OFFSET :: nat where
  "KERNEL_PGNUM_OFFSET = drop_bit PAGE_SIZE_BITS KERNEL_DIRECT_OFFSET"
definition USER_SPACE_SIZE :: nat where "USER_SPACE_SIZE = 0x3000000000"
definition THREAD_MAX_NUM :: nat where "THREAD_MAX_NUM = 3000"
definition USER_TRAP_CONTEXT_TOP :: nat where "USER_TRAP_CONTEXT_TOP = USER_SPACE_SIZE"
definition USER_STACK_TOP :: nat where
  "USER_STACK_TOP = USER_TRAP_CONTEXT_TOP - PAGE_SIZE * THREAD_MAX_NUM"
definition USER_STACK_SIZE :: nat where "USER_STACK_SIZE = 4096 * 16 * 16 * 10"
definition MMAP_TOP :: nat where
  "MMAP_TOP = USER_TRAP_CONTEXT_TOP - PAGE_SIZE * THREAD_MAX_NUM
     - USER_STACK_SIZE * THREAD_MAX_NUM - PAGE_SIZE"
definition MMAP_PGNUM_TOP :: nat where "MMAP_PGNUM_TOP = drop_bit PAGE_SIZE_BITS MMAP_TOP"
definition MMAP_BASE :: nat where "MMAP_BASE = MMAP_TOP - 134217728 * 4"
definition USER_HEAP_SIZE :: nat where "USER_HEAP_SIZE = 0x40000"
definition DL_INTERP_OFFSET :: nat where "DL_INTERP_OFFSET = 0x1500000000"
definition MAX_FD_NUM :: nat where "MAX_FD_NUM = 100"
definition PATH_MAX :: nat where "PATH_MAX = 4096"

lemma page_size_exp: "PAGE_SIZE = 2 ^ PAGE_SIZE_BITS"
  by (simp add: PAGE_SIZE_def PAGE_SIZE_BITS_def)

lemmas mmap_layout_defs = MMAP_PGNUM_TOP_def MMAP_BASE_def MMAP_TOP_def USER_TRAP_CONTEXT_TOP_def
  USER_SPACE_SIZE_def THREAD_MAX_NUM_def USER_STACK_SIZE_def PAGE_SIZE_def PAGE_SIZE_BITS_def

text \<open>The subtractions of the layout do not underflow, and the window is page aligned.\<close>

lemma mmap_window:
  "PAGE_SIZE * THREAD_MAX_NUM + USER_STACK_SIZE * THREAD_MAX_NUM + PAGE_SIZE < USER_TRAP_CONTEXT_TOP"
  "MMAP_BASE < MMAP_TOP" "PAGE_SIZE dvd MMAP_TOP" "PAGE_SIZE dvd MMAP_BASE"
  by (simp_all add: mmap_layout_defs)

lemma mmap_pgnum_top: "MMAP_PGNUM_TOP * PAGE_SIZE = MMAP_TOP" "0 < MMAP_PGNUM_TOP"
  by (simp_all add: mmap_layout_defs drop_bit_eq_div)

end
