(* ===== verification/Address.thy ===== *)
theory Address
  imports Config
begin

text \<open>
  Addresses, page numbers and page ranges (\<open>os/src/mm/address.rs\<close>), in the loongarch64
  configuration the sources are built for.  An address is a 64-bit word and its arithmetic wraps,
  as in the release build.  A page number is a natural number: it is the quotient of an address by
  the page size, so it is below \<open>2 ^ 52\<close> and no sum of two of them reaches \<open>2 ^ 64\<close>.
\<close>

type_synonym virt_addr = usize
type_synonym phys_addr = usize
type_synonym kernel_addr = usize
type_synonym vpn = nat
type_synonym ppn = nat

definition VA_WIDTH_SV39 :: nat where "VA_WIDTH_SV39 = 39"

subsection \<open>Conversions\<close>

definition kernel_of_phys :: "phys_addr \<Rightarrow> kernel_addr option" where
  "kernel_of_phys pa = do { ensure (pa \<noteq> 0); Some (pa + of_nat KERNEL_DIRECT_OFFSET) }"

definition phys_of_kernel :: "kernel_addr \<Rightarrow> phys_addr" where
  "phys_of_kernel ka = ka - of_nat KERNEL_DIRECT_OFFSET"

definition usize_of_va :: "virt_addr \<Rightarrow> usize" where
  "usize_of_va v =
     (if push_bit (VA_WIDTH_SV39 - 1) 1 \<le> v then v OR NOT (push_bit VA_WIDTH_SV39 1 - 1) else v)"

definition va_floor :: "virt_addr \<Rightarrow> vpn" where
  "va_floor v = unat (v div of_nat PAGE_SIZE)"

definition va_ceil :: "virt_addr \<Rightarrow> vpn option" where
  "va_ceil v = do { ensure (v \<noteq> 0); Some (unat ((v - 1 + of_nat PAGE_SIZE) div of_nat PAGE_SIZE)) }"

definition va_page_offset :: "virt_addr \<Rightarrow> nat" where
  "va_page_offset v = unat (v AND (of_nat PAGE_SIZE - 1))"

definition va_aligned :: "virt_addr \<Rightarrow> bool" where
  "va_aligned v = (va_page_offset v = 0)"

definition vpn_of_va :: "virt_addr \<Rightarrow> vpn option" where
  "vpn_of_va v = do { ensure (va_page_offset v = 0); Some (va_floor v) }"

definition va_of_vpn :: "vpn \<Rightarrow> virt_addr" where
  "va_of_vpn n = push_bit PAGE_SIZE_BITS (of_nat n)"

definition pa_floor :: "phys_addr \<Rightarrow> ppn" where
  "pa_floor p = unat (p div of_nat PAGE_SIZE)"

definition pa_ceil :: "phys_addr \<Rightarrow> ppn" where
  "pa_ceil p = unat ((p - 1 + of_nat PAGE_SIZE) div of_nat PAGE_SIZE)"

definition pa_page_offset :: "phys_addr \<Rightarrow> nat" where
  "pa_page_offset p = unat (p AND (of_nat PAGE_SIZE - 1))"

definition ppn_of_pa :: "phys_addr \<Rightarrow> ppn option" where
  "ppn_of_pa p = do { ensure (pa_page_offset p = 0); Some (pa_floor p) }"

definition pa_of_ppn :: "ppn \<Rightarrow> phys_addr" where
  "pa_of_ppn n = push_bit PAGE_SIZE_BITS (of_nat n)"

definition ppn_of_kernel :: "kernel_addr \<Rightarrow> ppn" where
  "ppn_of_kernel ka = pa_floor (phys_of_kernel ka)"

subsection \<open>Page-table indexes\<close>

definition pn_index :: "vpn \<Rightarrow> nat \<Rightarrow> nat" where
  "pn_index v n = drop_bit (9 * n) v AND 0x1ff"

definition pn_offset :: "vpn \<Rightarrow> nat \<Rightarrow> nat" where
  "pn_offset v n = v AND (push_bit (9 * n) 1 - 1)"

definition indexes :: "vpn \<Rightarrow> nat list" where
  "indexes v = [drop_bit 27 v AND 0x1ff, drop_bit 18 v AND 0x1ff, drop_bit 9 v AND 0x1ff,
     v AND 0x1ff]"

subsection \<open>Ranges of page numbers\<close>

record vpn_range =
  get_start :: vpn
  get_end :: vpn

definition range_new :: "vpn \<Rightarrow> vpn \<Rightarrow> vpn_range option" where
  "range_new s e = do { ensure (s \<le> e); Some \<lparr> get_start = s, get_end = e \<rparr> }"

definition range_contains :: "vpn_range \<Rightarrow> vpn \<Rightarrow> bool" where
  "range_contains rg v = (get_start rg \<le> v \<and> get_end rg \<ge> v)"

definition range_empty :: "vpn_range \<Rightarrow> bool" where
  "range_empty rg = (get_start rg = get_end rg)"

definition range_set_end :: "vpn_range \<Rightarrow> vpn \<Rightarrow> vpn_range option" where
  "range_set_end rg v = do { ensure (get_start rg \<le> v); Some (rg\<lparr> get_end := v \<rparr>) }"

definition range_iter_next :: "vpn \<times> vpn \<Rightarrow> (vpn \<times> (vpn \<times> vpn)) option" where
  "range_iter_next it = (case it of (cur, e) \<Rightarrow> if cur = e then None else Some (cur, (cur + 1, e)))"

text \<open>
  A \<open>for\<close> loop over the range drains the iterator.  The loop ends because \<open>range_new\<close> and
  \<open>range_set_end\<close> keep \<open>get_start \<le> get_end\<close>; the fuel is the number of steps to the end.
\<close>

fun range_drain :: "nat \<Rightarrow> vpn \<times> vpn \<Rightarrow> vpn list option" where
  "range_drain n it =
     (case range_iter_next it of
        None \<Rightarrow> Some []
      | Some (v, it') \<Rightarrow> (case n of 0 \<Rightarrow> None | Suc m \<Rightarrow> map_option ((#) v) (range_drain m it')))"

abbreviation range_list :: "vpn_range \<Rightarrow> vpn list" where
  "range_list rg \<equiv> [get_start rg..<get_end rg]"

declare range_drain.simps [simp del]

lemma range_drain_upt: "s \<le> e \<Longrightarrow> range_drain (e - s) (s, e) = Some [s..<e]"
proof (induction "e - s" arbitrary: s)
  case 0
  then show ?case
    by (subst range_drain.simps) (simp add: range_iter_next_def)
next
  case (Suc k)
  then have "range_drain k (Suc s, e) = Some [Suc s..<e]"
    by (metis Suc_diff_Suc Suc_leI diff_Suc_Suc nat.inject zero_less_Suc zero_less_diff)
  moreover have "e - s = Suc k" "s \<noteq> e" "s < e"
    using Suc(2) by auto
  ultimately show ?case
    by (subst range_drain.simps) (simp add: range_iter_next_def upt_conv_Cons)
qed

lemma range_new_Some: "range_new s e = Some rg \<longleftrightarrow> s \<le> e \<and> rg = \<lparr> get_start = s, get_end = e \<rparr>"
  by (auto simp: range_new_def)

subsection \<open>Facts on addresses\<close>

lemma unat_va_div: "va_floor v = unat v div 4096"
  by (simp add: va_floor_def PAGE_SIZE_def unat_div)

lemma va_page_offset_eq: "va_page_offset v = unat v mod 4096"
proof -
  have "v AND (4096 - 1) = take_bit 12 v"
    using take_bit_eq_mask [of 12 v] by (simp add: mask_eq_exp_minus_1)
  then show ?thesis
    by (simp add: va_page_offset_def PAGE_SIZE_def take_bit_eq_mod unat_mod)
qed

lemma va_floor_less: "va_floor v < 2 ^ 52"
proof -
  have "unat v < 2 ^ 64" using unsigned_less [of v] by simp
  then have "unat v < 2 ^ 52 * 4096" by simp
  then show ?thesis
    unfolding unat_va_div by (rule less_mult_imp_div_less)
qed

lemma va_split: "unat v = va_floor v * 4096 + va_page_offset v"
  by (simp add: unat_va_div va_page_offset_eq)

lemma va_page_offset_less: "va_page_offset v < 4096"
  by (simp add: va_page_offset_eq)

lemma unat_va_of_vpn: "n < 2 ^ 52 \<Longrightarrow> unat (va_of_vpn n) = n * 4096"
  by (simp add: va_of_vpn_def PAGE_SIZE_BITS_def push_bit_eq_mult unat_word_ariths unat_of_nat)

lemma va_floor_of_vpn: "n < 2 ^ 52 \<Longrightarrow> va_floor (va_of_vpn n) = n"
  by (simp add: unat_va_div unat_va_of_vpn)

lemma va_floor_of_vpn_offset:
  assumes "n < 2 ^ 52" "off < 4096"
  shows "va_floor (va_of_vpn n + of_nat off) = n" "va_page_offset (va_of_vpn n + of_nat off) = off"
proof -
  have "n * 4096 + off < 2 ^ 64" using assms by simp
  then have "unat (va_of_vpn n + of_nat off) = n * 4096 + off"
    using assms by (simp add: unat_word_ariths unat_va_of_vpn unat_of_nat)
  then show "va_floor (va_of_vpn n + of_nat off) = n"
    "va_page_offset (va_of_vpn n + of_nat off) = off"
    using assms by (simp_all add: unat_va_div va_page_offset_eq)
qed

lemma vpn_of_va_round_trip: "n < 2 ^ 52 \<Longrightarrow> vpn_of_va (va_of_vpn n) = Some n"
  by (simp add: vpn_of_va_def va_floor_of_vpn va_page_offset_eq unat_va_of_vpn)

lemma va_of_vpn_round_trip:
  assumes "vpn_of_va v = Some n"
  shows "va_of_vpn n = v"
proof -
  have n: "n = va_floor v" and 0: "va_page_offset v = 0"
    using assms by (auto simp: vpn_of_va_def)
  then have "unat (va_of_vpn n) = unat v"
    using va_split [of v] va_floor_less [of v] by (simp add: unat_va_of_vpn)
  then show ?thesis by (rule word_unat_eq_iff [THEN iffD2])
qed

text \<open>
  \<open>ceil\<close> is the least page boundary at or above the address, except in the last page of the
  address space, where the sum wraps.
\<close>

lemma va_ceil_eq:
  assumes "v \<noteq> 0" "unat v \<le> 2 ^ 64 - 4096"
  shows "va_ceil v = Some ((unat v + 4095) div 4096)"
proof -
  have "unat (v - 1 + 4096) = unat v + 4095"
    using assms by (simp add: unat_word_ariths unat_minus_one)
  then show ?thesis
    using assms by (simp add: va_ceil_def PAGE_SIZE_def unat_div)
qed

lemma kernel_phys_round_trip: "kernel_of_phys pa = Some ka \<Longrightarrow> phys_of_kernel ka = pa"
  by (auto simp: kernel_of_phys_def phys_of_kernel_def)

lemma pa_of_ppn_0: "n < 2 ^ 52 \<Longrightarrow> pa_of_ppn n = 0 \<longleftrightarrow> n = 0"
  by (metis (mono_tags) mult_is_0 numeral_neq_zero pa_of_ppn_def unat_0 unat_va_of_vpn va_of_vpn_def
    word_unat_eq_iff)

lemma pn_index_eq: "pn_index v n = v div 2 ^ (9 * n) mod 512"
  using take_bit_eq_mask [of 9 "drop_bit (9 * n) v"]
  by (simp add: pn_index_def mask_eq_exp_minus_1 take_bit_eq_mod drop_bit_eq_div)

lemma indexes_eq: "indexes v = map (pn_index v) [3, 2, 1, 0]"
  by (simp add: indexes_def pn_index_def)

lemma pn_index_less: "pn_index v n < 512"
  by (simp add: pn_index_eq)

text \<open>The three low indexes determine a page number below \<open>2 ^ 27\<close>.\<close>

lemma pn_index_split:
  assumes "v < 2 ^ 27"
  shows "v = pn_index v 2 * 2 ^ 18 + pn_index v 1 * 2 ^ 9 + pn_index v 0"
proof -
  from assms have "v div 2 ^ 18 mod 512 = v div 512 div 512"
    by (simp add: div_mult2_eq [symmetric] less_mult_imp_div_less)
  moreover have "v = (v div 512 div 512 * 512 + v div 512 mod 512) * 512 + v mod 512"
    by simp
  moreover have "(a * 512 + b) * 512 + c = a * 2 ^ 18 + b * 2 ^ 9 + c" for a b c :: nat
    by simp
  ultimately have "v = v div 2 ^ 18 mod 512 * 2 ^ 18 + v div 512 mod 512 * 2 ^ 9 + v mod 512"
    by metis
  moreover have "pn_index v 2 = v div 2 ^ 18 mod 512" "pn_index v 1 = v div 512 mod 512"
    "pn_index v 0 = v mod 512"
    by (simp_all add: pn_index_eq)
  ultimately show ?thesis
    by (simp only:)
qed

lemma pn_index_inj:
  assumes "v < 2 ^ 27" "w < 2 ^ 27" "pn_index v 2 = pn_index w 2" "pn_index v 1 = pn_index w 1"
    "pn_index v 0 = pn_index w 0"
  shows "v = w"
  using pn_index_split [OF assms(1)] pn_index_split [OF assms(2)] assms(3-5) by simp


lemma pn_index_mod: "n \<le> 2 \<Longrightarrow> pn_index (v mod 2 ^ 27) n = pn_index v n"
proof -
  assume n: "n \<le> 2"
  have p: "pn_index x n = take_bit 9 (drop_bit (9 * n) x)" for x
    by (simp add: pn_index_eq take_bit_eq_mod drop_bit_eq_div)
  have "take_bit 9 (drop_bit (9 * n) (take_bit 27 v)) = take_bit 9 (drop_bit (9 * n) v)"
    using n by (intro bit_eqI) (auto simp: bit_simps)
  then show ?thesis unfolding p by (simp add: take_bit_eq_mod)
qed

lemma pn_index_eq_iff:
  "pn_index v 2 = pn_index w 2 \<and> pn_index v 1 = pn_index w 1 \<and> pn_index v 0 = pn_index w 0
     \<longleftrightarrow> v mod 2 ^ 27 = w mod 2 ^ 27"
  using pn_index_inj [of "v mod 2 ^ 27" "w mod 2 ^ 27"] pn_index_mod [of _ v] pn_index_mod [of _ w]
  by (metis mod_less_divisor one_le_numeral order_refl zero_le zero_less_numeral zero_less_power)

end
