(* ===== verification/Frame_Allocator.thy ===== *)
theory Frame_Allocator
  imports Resource_Pool Bit_Field Address
begin

text \<open>
  The physical frame allocator (\<open>os/src/mm/frame_allocator.rs\<close>): one bitmap per contiguous
  region, a list of regions, and the global operations that hand out reference-counted
  \<open>FrameTracker\<close>s and zero the frames.  The \<open>policy\<close> argument of the source is ignored there
  and has no counterpart here.
\<close>

record frame_region_map =
  bits :: "usize list"
  start_ppn :: ppn
  end_ppn :: ppn

subsection \<open>One region\<close>

fun mark_all :: "usize list \<Rightarrow> nat list \<Rightarrow> usize list option" where
  "mark_all ws [] = Some ws"
| "mark_all ws (i # is) = do { ws' \<leftarrow> arr_set_bit ws i True; mark_all ws' is }"

definition region_new :: "phys_addr \<Rightarrow> phys_addr \<Rightarrow> frame_region_map option" where
  "region_new start_paddr end_paddr = (
     let s = pa_floor start_paddr; e = pa_floor end_paddr; num_pages = e - s;
         nw = (num_pages + 63) div 64
     in do {
       ensure (s \<le> e);
       ws \<leftarrow> mark_all (replicate nw 0) [num_pages..<nw * 64];
       Some \<lparr> bits = ws, start_ppn = s, end_ppn = e \<rparr> })"

fun region_alloc_scan :: "usize list \<Rightarrow> nat list \<Rightarrow> (nat \<times> usize list) option" where
  "region_alloc_scan ws [] = None"
| "region_alloc_scan ws (i # is) =
     (if ws ! i \<noteq> - 1 then
        (case List.find (\<lambda>b. usize_get_bit (ws ! i) b = Some False) [0..<64] of
           Some b \<Rightarrow> map_option (\<lambda>w. (i * 64 + b, ws[i := w])) (usize_set_bit (ws ! i) b True)
         | None \<Rightarrow> region_alloc_scan ws is)
      else region_alloc_scan ws is)"

definition region_alloc :: "frame_region_map \<Rightarrow> (ppn \<times> frame_region_map) option" where
  "region_alloc rg =
     map_option (\<lambda>(page_offset, ws). (start_ppn rg + page_offset, rg\<lparr> bits := ws \<rparr>))
       (region_alloc_scan (bits rg) [0..<length (bits rg)])"

text \<open>
  The search of \<open>alloc_contiguous\<close>: \<open>found_start\<close> and \<open>consecutive_free\<close> are the loop's two
  variables.  The bit index is below the number of pages, hence inside the bitmap.
\<close>

fun contiguous_scan :: "usize list \<Rightarrow> nat \<Rightarrow> nat list \<Rightarrow> nat \<Rightarrow> nat \<Rightarrow> nat option" where
  "contiguous_scan ws count [] found_start consecutive_free = None"
| "contiguous_scan ws count (i # is) found_start consecutive_free =
     (if arr_get_bit ws i = Some False then
        (let found_start = (if consecutive_free = 0 then i else found_start);
             consecutive_free = consecutive_free + 1
         in if consecutive_free = count then Some found_start
            else contiguous_scan ws count is found_start consecutive_free)
      else contiguous_scan ws count is found_start 0)"

definition region_alloc_contiguous ::
    "frame_region_map \<Rightarrow> nat \<Rightarrow> (ppn list \<times> frame_region_map) option" where
  "region_alloc_contiguous rg count =
     (if count = 0 then Some ([], rg)
      else let num_pages = end_ppn rg - start_ppn rg in
        if count > num_pages then None
        else do {
          found_start \<leftarrow> contiguous_scan (bits rg) count [0..<num_pages] 0 0;
          ws \<leftarrow> mark_all (bits rg) (map (\<lambda>j. found_start + j) [0..<count]);
          Some (map (\<lambda>j. start_ppn rg + (found_start + j)) [0..<count], rg\<lparr> bits := ws \<rparr>) })"

definition region_dealloc :: "frame_region_map \<Rightarrow> ppn \<Rightarrow> frame_region_map option" where
  "region_dealloc rg p = do {
     ensure (start_ppn rg \<le> p);
     (let bit_index = p - start_ppn rg in do {
       b \<leftarrow> arr_get_bit (bits rg) bit_index;
       ensure b;
       ws \<leftarrow> arr_set_bit (bits rg) bit_index False;
       Some (rg\<lparr> bits := ws \<rparr>) }) }"

definition count_zeros :: "usize \<Rightarrow> nat" where
  "count_zeros w = length (filter (\<lambda>b. \<not> bit w b) [0..<64])"

definition region_free_pages :: "frame_region_map \<Rightarrow> nat" where
  "region_free_pages rg = sum_list (map count_zeros (bits rg))"

subsection \<open>The list of regions\<close>

record frame_allocator =
  regions :: "frame_region_map list"

definition frame_allocator_new :: frame_allocator where
  "frame_allocator_new = \<lparr> regions = [] \<rparr>"

definition fa_add_memory_region ::
    "frame_allocator \<Rightarrow> phys_addr \<Rightarrow> phys_addr \<Rightarrow> frame_allocator option" where
  "fa_add_memory_region fa s e = do {
     rg \<leftarrow> region_new s e;
     Some (fa\<lparr> regions := regions fa @ [rg] \<rparr>) }"

fun regions_alloc :: "frame_region_map list \<Rightarrow> (ppn \<times> frame_region_map list) option" where
  "regions_alloc [] = None"
| "regions_alloc (rg # rgs) =
     (case region_alloc rg of
        Some (p, rg') \<Rightarrow> Some (p, rg' # rgs)
      | None \<Rightarrow> map_option (\<lambda>(p, rgs'). (p, rg # rgs')) (regions_alloc rgs))"

definition fa_alloc :: "frame_allocator \<Rightarrow> (ppn \<times> frame_allocator) option" where
  "fa_alloc fa = map_option (\<lambda>(p, rgs). (p, fa\<lparr> regions := rgs \<rparr>)) (regions_alloc (regions fa))"

fun regions_dealloc :: "frame_region_map list \<Rightarrow> ppn \<Rightarrow> frame_region_map list option" where
  "regions_dealloc [] p = None"
| "regions_dealloc (rg # rgs) p =
     (if p \<ge> start_ppn rg \<and> p < end_ppn rg
      then map_option (\<lambda>rg'. rg' # rgs) (region_dealloc rg p)
      else map_option ((#) rg) (regions_dealloc rgs p))"

definition fa_dealloc :: "frame_allocator \<Rightarrow> ppn \<Rightarrow> frame_allocator option" where
  "fa_dealloc fa p = map_option (\<lambda>rgs. fa\<lparr> regions := rgs \<rparr>) (regions_dealloc (regions fa) p)"

fun regions_alloc_contiguous ::
    "frame_region_map list \<Rightarrow> nat \<Rightarrow> (ppn list \<times> frame_region_map list) option" where
  "regions_alloc_contiguous [] count = None"
| "regions_alloc_contiguous (rg # rgs) count =
     (case region_alloc_contiguous rg count of
        Some (ps, rg') \<Rightarrow> Some (ps, rg' # rgs)
      | None \<Rightarrow> map_option (\<lambda>(ps, rgs'). (ps, rg # rgs')) (regions_alloc_contiguous rgs count))"

definition fa_alloc_contiguous ::
    "frame_allocator \<Rightarrow> nat \<Rightarrow> (ppn list \<times> frame_allocator) option" where
  "fa_alloc_contiguous fa count =
     map_option (\<lambda>(ps, rgs). (ps, fa\<lparr> regions := rgs \<rparr>))
       (regions_alloc_contiguous (regions fa) count)"

definition fa_remaining_frames :: "frame_allocator \<Rightarrow> nat" where
  "fa_remaining_frames fa = sum_list (map region_free_pages (regions fa))"

subsection \<open>Bitmaps\<close>

lemma mark_all_abit:
  assumes "mark_all ws is = Some ws'"
  shows "length ws' = length ws" "abit ws' j \<longleftrightarrow> abit ws j \<or> j \<in> set is"
proof -
  have "length ws' = length ws \<and> (abit ws' j \<longleftrightarrow> abit ws j \<or> j \<in> set is)"
    using assms
  proof (induction "is" arbitrary: ws)
    case Nil
    then show ?case by simp
  next
    case (Cons i "is")
    then obtain w1 where w1: "arr_set_bit ws i True = Some w1" "mark_all w1 is = Some ws'"
      by (auto simp: bind_eq_Some_conv)
    show ?case
      using Cons.IH [OF w1(2)] arr_set_bit_abit [OF w1(1)] by auto
  qed
  then show "length ws' = length ws" "abit ws' j \<longleftrightarrow> abit ws j \<or> j \<in> set is" by auto
qed

lemma mark_all_ex:
  assumes "\<forall>i\<in>set is. i < 64 * length ws"
  shows "\<exists>ws'. mark_all ws is = Some ws'"
  using assms
proof (induction "is" arbitrary: ws)
  case Nil
  then show ?case by simp
next
  case (Cons i "is")
  then obtain w1 where w1: "arr_set_bit ws i True = Some w1"
    using arr_set_bit_ex [of i ws True] by auto
  then show ?case
    using Cons arr_set_bit_abit(2) [OF w1] by simp
qed

lemma find_clear_None:
  assumes "w \<noteq> - 1"
  shows "List.find (\<lambda>b. usize_get_bit w b = Some False) [0..<64] \<noteq> None"
  using assms by (auto simp: find_upt_None word_not_max_has_clear usize_get_bit_eq)

lemma abit_offset: "b < 64 \<Longrightarrow> abit ws (i * 64 + b) = bit (ws ! i) b"
  by (simp add: abit_def)

lemma abit_block:
  assumes "j < 64 * n" "\<forall>k<n. ws ! k = - 1"
  shows "abit ws j"
proof -
  have "ws ! (j div 64) = - 1" using assms div64_less by blast
  then show ?thesis by (simp add: abit_def)
qed

lemma region_alloc_scan_eq:
  assumes "s \<le> n"
  shows "region_alloc_scan ws [s..<n] =
    (case List.find (\<lambda>i. ws ! i \<noteq> - 1) [s..<n] of
       None \<Rightarrow> None
     | Some i \<Rightarrow> (case List.find (\<lambda>b. usize_get_bit (ws ! i) b = Some False) [0..<64] of
         None \<Rightarrow> None
       | Some b \<Rightarrow> map_option (\<lambda>w. (i * 64 + b, ws[i := w])) (usize_set_bit (ws ! i) b True)))"
  using assms
proof (induction "n - s" arbitrary: s)
  case 0
  then show ?case by simp
next
  case (Suc k)
  then have "s < n" "k = n - Suc s" by auto
  then have ih: "region_alloc_scan ws [Suc s..<n] =
    (case List.find (\<lambda>i. ws ! i \<noteq> - 1) [Suc s..<n] of
       None \<Rightarrow> None
     | Some i \<Rightarrow> (case List.find (\<lambda>b. usize_get_bit (ws ! i) b = Some False) [0..<64] of
         None \<Rightarrow> None
       | Some b \<Rightarrow> map_option (\<lambda>w. (i * 64 + b, ws[i := w])) (usize_set_bit (ws ! i) b True)))"
    using Suc(1) [of "Suc s"] by simp
  have up: "[s..<n] = s # [Suc s..<n]"
    using \<open>s < n\<close> by (rule upt_conv_Cons)
  show ?case
  proof (cases "ws ! s = - 1")
    case True
    then show ?thesis by (simp only: up region_alloc_scan.simps find.simps ih simp_thms if_False)
  next
    case False
    then obtain b where "List.find (\<lambda>b. usize_get_bit (ws ! s) b = Some False) [0..<64] = Some b"
      using find_clear_None by blast
    then show ?thesis
      using False
      by (simp only: up region_alloc_scan.simps find.simps simp_thms if_True option.case)
  qed
qed

lemma region_alloc_scan_None:
  "region_alloc_scan ws [0..<length ws] = None \<longleftrightarrow> (\<forall>j<64 * length ws. abit ws j)"
proof
  assume none: "region_alloc_scan ws [0..<length ws] = None"
  have "List.find (\<lambda>i. ws ! i \<noteq> - 1) [0..<length ws] = None"
  proof (rule ccontr)
    assume "\<not> ?thesis"
    then obtain i where i: "List.find (\<lambda>i. ws ! i \<noteq> - 1) [0..<length ws] = Some i" by auto
    then have "ws ! i \<noteq> - 1" by (simp add: find_upt_Some)
    then obtain b where b: "List.find (\<lambda>b. usize_get_bit (ws ! i) b = Some False) [0..<64] = Some b"
      using find_clear_None by blast
    then have "b < 64" by (simp add: find_upt_Some)
    then show False using none i b by (simp add: region_alloc_scan_eq usize_set_bit_def)
  qed
  then show "\<forall>j<64 * length ws. abit ws j"
    using abit_block by (auto simp: find_upt_None)
next
  assume all: "\<forall>j<64 * length ws. abit ws j"
  have "ws ! i = - 1" if "i < length ws" for i
  proof (rule ccontr)
    assume "ws ! i \<noteq> - 1"
    then obtain b where b: "b < 64" "\<not> bit (ws ! i) b"
      using word_not_max_has_clear by blast
    then have "\<not> abit ws (i * 64 + b)" by (simp add: abit_offset)
    moreover have "i * 64 + b < 64 * length ws" using that b by simp
    ultimately show False using all by blast
  qed
  then have "List.find (\<lambda>i. ws ! i \<noteq> - 1) [0..<length ws] = None"
    by (simp add: find_upt_None)
  then show "region_alloc_scan ws [0..<length ws] = None"
    by (simp add: region_alloc_scan_eq)
qed

lemma region_alloc_scan_Some:
  assumes "region_alloc_scan ws [0..<length ws] = Some (j, ws')"
  shows "j < 64 * length ws" "\<not> abit ws j" "\<forall>k<j. abit ws k" "length ws' = length ws"
    "abit ws' k \<longleftrightarrow> k = j \<or> abit ws k"
proof -
  obtain i b w where i: "List.find (\<lambda>i. ws ! i \<noteq> - 1) [0..<length ws] = Some i"
    and b: "List.find (\<lambda>b. usize_get_bit (ws ! i) b = Some False) [0..<64] = Some b"
    and w: "usize_set_bit (ws ! i) b True = Some w"
    and j: "j = i * 64 + b" and ws': "ws' = ws[i := w]"
    using assms by (auto simp: region_alloc_scan_eq split: option.splits)
  have i': "i < length ws" "\<forall>k<i. ws ! k = - 1"
    using i by (auto simp: find_upt_Some)
  have b': "b < 64" "\<not> bit (ws ! i) b" "\<forall>c<b. bit (ws ! i) c"
    using b by (auto simp: find_upt_Some usize_get_bit_eq)
  show "j < 64 * length ws" using i' b' by (simp add: j)
  show "\<not> abit ws j" using b' by (simp add: j abit_offset)
  show "length ws' = length ws" by (simp add: ws')
  show "abit ws' k \<longleftrightarrow> k = j \<or> abit ws k"
    unfolding ws' j using abit_update [OF usize_set_bit_bit(2) [OF w] b'(1) i'(1)] by auto
  show "\<forall>k<j. abit ws k"
  proof (intro allI impI)
    fix k assume "k < j"
    show "abit ws k"
    proof (cases "k < 64 * i")
      case True
      then show ?thesis using i'(2) by (rule abit_block)
    next
      case False
      then have k: "i * 64 + (k - 64 * i) = k" "k - 64 * i < b"
        using \<open>k < j\<close> j by auto
      then have "abit ws (i * 64 + (k - 64 * i))"
        using b' by (subst abit_offset) auto
      then show ?thesis by (simp only: k)
    qed
  qed
qed

subsection \<open>The search for a contiguous run\<close>

lemma contiguous_scan_Some:
  assumes "contiguous_scan ws count [i..<n] fs c = Some f" "i \<le> n" "c < count" "c \<le> i"
    "0 < c \<longrightarrow> fs = i - c" "\<forall>k. i - c \<le> k \<and> k < i \<longrightarrow> arr_get_bit ws k = Some False"
  shows "f + count \<le> n \<and> (\<forall>k. f \<le> k \<and> k < f + count \<longrightarrow> arr_get_bit ws k = Some False)"
  using assms
proof (induction "n - i" arbitrary: i fs c)
  case 0
  then show ?case by simp
next
  case (Suc d)
  then have up: "[i..<n] = i # [Suc i..<n]" and d: "d = n - Suc i" "Suc i \<le> n"
    by (auto simp: upt_conv_Cons)
  show ?case
  proof (cases "arr_get_bit ws i = Some False")
    case False
    then have "contiguous_scan ws count [Suc i..<n] fs 0 = Some f"
      using Suc.prems(1) by (simp add: up)
    then show ?thesis
      using Suc.hyps(1) [OF d(1) _ d(2), of fs 0] Suc.prems by simp
  next
    case True
    define fs' where "fs' = (if c = 0 then i else fs)"
    have free: "\<forall>k. i - c \<le> k \<and> k < Suc i \<longrightarrow> arr_get_bit ws k = Some False"
      using Suc.prems(6) True by (metis less_Suc_eq)
    have fs': "fs' = i - c" using Suc.prems by (auto simp: fs'_def)
    show ?thesis
    proof (cases "c + 1 = count")
      case True
      then have "f = i - c" "f + count = Suc i"
        using Suc.prems fs' \<open>arr_get_bit ws i = Some False\<close> by (auto simp: up fs'_def Let_def)
      then show ?thesis using free d by simp
    next
      case False
      then have "contiguous_scan ws count [Suc i..<n] fs' (c + 1) = Some f"
        using Suc.prems(1) True by (simp add: up fs'_def Let_def)
      then show ?thesis
        using Suc.hyps(1) [OF d(1) _ d(2), of fs' "c + 1"] Suc.prems fs' free False by simp
    qed
  qed
qed

lemma contiguous_scan_None:
  assumes "contiguous_scan ws count [i..<n] fs c = None" "i \<le> n" "c < count"
    "i - c \<le> f" "f + count \<le> n"
  shows "\<exists>k. f \<le> k \<and> k < f + count \<and> arr_get_bit ws k \<noteq> Some False"
  using assms
proof (induction "n - i" arbitrary: i fs c)
  case 0
  then show ?case by simp
next
  case (Suc d)
  then have up: "[i..<n] = i # [Suc i..<n]" and d: "d = n - Suc i" "Suc i \<le> n"
    by (auto simp: upt_conv_Cons)
  show ?case
  proof (cases "arr_get_bit ws i = Some False")
    case False
    show ?thesis
    proof (cases "f \<le> i")
      case True
      moreover have "i < f + count" using Suc.prems by linarith
      ultimately show ?thesis using False by blast
    next
      case f: False
      have "contiguous_scan ws count [Suc i..<n] fs 0 = None"
        using Suc.prems(1) False by (simp add: up)
      then show ?thesis
        using Suc.hyps(1) [OF d(1) _ d(2), of fs 0] Suc.prems f by simp
    qed
  next
    case True
    have ne: "c + 1 \<noteq> count"
      using Suc.prems(1) True by (auto simp: up Let_def)
    then have "contiguous_scan ws count [Suc i..<n] (if c = 0 then i else fs) (c + 1) = None"
      using Suc.prems(1) True by (simp add: up Let_def)
    then show ?thesis
      using Suc.hyps(1) [OF d(1) _ d(2), of _ "c + 1"] Suc.prems ne by simp
  qed
qed

subsection \<open>The invariant of a region and what it manages\<close>

definition region_inv :: "frame_region_map \<Rightarrow> bool" where
  "region_inv rg \<longleftrightarrow> start_ppn rg \<le> end_ppn rg
     \<and> length (bits rg) = (end_ppn rg - start_ppn rg + 63) div 64
     \<and> (\<forall>i\<in>{end_ppn rg - start_ppn rg..<64 * length (bits rg)}. abit (bits rg) i)"

definition region_frames :: "frame_region_map \<Rightarrow> ppn set" where
  "region_frames rg = {start_ppn rg..<end_ppn rg}"

definition region_used :: "frame_region_map \<Rightarrow> ppn set" where
  "region_used rg = {p \<in> region_frames rg. abit (bits rg) (p - start_ppn rg)}"

lemma region_used_frames: "region_used rg \<subseteq> region_frames rg"
  by (auto simp: region_used_def)

lemma region_pages_fit: "region_inv rg \<Longrightarrow> end_ppn rg - start_ppn rg \<le> 64 * length (bits rg)"
  by (auto simp: region_inv_def)

lemma region_offset_less:
  assumes "region_inv rg" "p \<in> region_frames rg"
  shows "p - start_ppn rg < 64 * length (bits rg)"
proof -
  have "p - start_ppn rg < end_ppn rg - start_ppn rg"
    using assms(2) by (auto simp: region_frames_def)
  then show ?thesis using region_pages_fit [OF assms(1)] by linarith
qed

lemma region_new_inv:
  assumes "region_new s e = Some rg"
  shows "region_inv rg" "region_used rg = {}" "region_frames rg = {pa_floor s..<pa_floor e}"
proof -
  define n where "n = pa_floor e - pa_floor s"
  obtain ws where ws: "mark_all (replicate ((n + 63) div 64) 0) [n..<(n + 63) div 64 * 64] = Some ws"
    and rg: "rg = \<lparr> bits = ws, start_ppn = pa_floor s, end_ppn = pa_floor e \<rparr>"
    and le: "pa_floor s \<le> pa_floor e"
    using assms by (auto simp: region_new_def Let_def n_def ensure_def bind_eq_Some_conv split: if_splits)
  have "abit (replicate ((n + 63) div 64) 0) j \<longleftrightarrow> False" if "j < 64 * ((n + 63) div 64)" for j
    using that by (simp add: abit_def div64_less)
  then have ab: "abit ws j \<longleftrightarrow> n \<le> j" if "j < 64 * ((n + 63) div 64)" for j
    using that mark_all_abit(2) [OF ws, of j] by auto
  have n: "n \<le> 64 * ((n + 63) div 64)" by linarith
  show "region_inv rg"
    using le ab mark_all_abit(1) [OF ws] by (auto simp: region_inv_def rg n_def [symmetric])
  show "region_used rg = {}"
    using n ab by (auto simp: region_used_def region_frames_def rg n_def)
  show "region_frames rg = {pa_floor s..<pa_floor e}"
    by (simp add: region_frames_def rg)
qed

lemma region_alloc_Some:
  assumes "region_inv rg" "region_alloc rg = Some (p, rg')"
  shows "p \<in> region_frames rg" "p \<notin> region_used rg" "region_used rg' = insert p (region_used rg)"
    "region_inv rg'" "region_frames rg' = region_frames rg"
    "\<forall>q\<in>region_frames rg. q < p \<longrightarrow> q \<in> region_used rg"
proof -
  obtain j ws where j: "region_alloc_scan (bits rg) [0..<length (bits rg)] = Some (j, ws)"
    and p: "p = start_ppn rg + j" and rg': "rg' = rg\<lparr> bits := ws \<rparr>"
    using assms(2) by (auto simp: region_alloc_def)
  note sc = region_alloc_scan_Some [OF j]
  have le: "start_ppn rg \<le> end_ppn rg" using assms(1) by (simp add: region_inv_def)
  have jn: "j < end_ppn rg - start_ppn rg"
  proof (rule ccontr)
    assume "\<not> ?thesis"
    then have "abit (bits rg) j" using assms(1) sc(1) by (auto simp: region_inv_def)
    then show False using sc(2) by contradiction
  qed
  then show pf: "p \<in> region_frames rg" by (auto simp: region_frames_def p)
  show fr: "region_frames rg' = region_frames rg" by (simp add: region_frames_def rg')
  show "p \<notin> region_used rg" using sc(2) by (simp add: region_used_def p)
  have ab: "abit ws k \<longleftrightarrow> k = j \<or> abit (bits rg) k" for k by (rule sc(5))
  show "region_used rg' = insert p (region_used rg)"
    using pf unfolding region_used_def fr
    by (auto simp: rg' ab p region_frames_def)
  show "region_inv rg'"
    using assms(1) ab sc(4) by (auto simp: region_inv_def rg')
  show "\<forall>q\<in>region_frames rg. q < p \<longrightarrow> q \<in> region_used rg"
    using sc(3) by (auto simp: region_used_def region_frames_def p)
qed

lemma region_alloc_None:
  assumes "region_inv rg"
  shows "region_alloc rg = None \<longleftrightarrow> region_used rg = region_frames rg"
proof
  assume "region_alloc rg = None"
  then have "\<forall>j<64 * length (bits rg). abit (bits rg) j"
    by (simp add: region_alloc_def region_alloc_scan_None)
  then show "region_used rg = region_frames rg"
    using region_offset_less [OF assms] by (auto simp: region_used_def)
next
  assume eq: "region_used rg = region_frames rg"
  have "abit (bits rg) j" if "j < 64 * length (bits rg)" for j
  proof (cases "j < end_ppn rg - start_ppn rg")
    case True
    then have "start_ppn rg + j \<in> region_used rg" by (auto simp: eq region_frames_def)
    then show ?thesis by (simp add: region_used_def)
  next
    case False
    then show ?thesis using assms that by (auto simp: region_inv_def)
  qed
  then show "region_alloc rg = None"
    by (simp add: region_alloc_def region_alloc_scan_None)
qed

lemma region_dealloc_iff:
  assumes "region_inv rg" "p \<in> region_frames rg"
  shows "region_dealloc rg p \<noteq> None \<longleftrightarrow> p \<in> region_used rg"
  using assms(2) region_offset_less [OF assms] arr_set_bit_ex [of "p - start_ppn rg" "bits rg" False]
  by (auto simp: region_dealloc_def arr_get_bit_eq region_used_def region_frames_def)

lemma region_dealloc_Some:
  assumes "region_inv rg" "p \<in> region_frames rg" "region_dealloc rg p = Some rg'"
  shows "region_used rg' = region_used rg - {p}" "region_inv rg'"
    "region_frames rg' = region_frames rg"
proof -
  obtain ws where ws: "arr_set_bit (bits rg) (p - start_ppn rg) False = Some ws"
    and rg': "rg' = rg\<lparr> bits := ws \<rparr>"
    using assms(3) by (auto simp: region_dealloc_def Let_def ensure_def bind_eq_Some_conv split: if_splits)
  have ab: "abit ws k \<longleftrightarrow> k \<noteq> p - start_ppn rg \<and> abit (bits rg) k" for k
    using arr_set_bit_abit(3) [OF ws] by simp
  have p: "start_ppn rg \<le> p" "p - start_ppn rg < end_ppn rg - start_ppn rg"
    using assms(2) by (auto simp: region_frames_def)
  show "region_frames rg' = region_frames rg" by (simp add: region_frames_def rg')
  show "region_used rg' = region_used rg - {p}"
    using p by (auto simp: region_used_def region_frames_def rg' ab)
  show "region_inv rg'"
    using assms(1) p arr_set_bit_abit(2) [OF ws] by (auto simp: region_inv_def rg' ab)
qed

lemma region_contiguous_Some:
  assumes "region_inv rg" "region_alloc_contiguous rg count = Some (ps, rg')"
  shows "\<exists>f. ps = [f..<f + count]" "set ps \<subseteq> region_frames rg - region_used rg"
    "region_used rg' = set ps \<union> region_used rg" "region_inv rg'"
    "region_frames rg' = region_frames rg"
proof -
  have "(\<exists>f. ps = [f..<f + count]) \<and> set ps \<subseteq> region_frames rg - region_used rg
    \<and> region_used rg' = set ps \<union> region_used rg \<and> region_inv rg'
    \<and> region_frames rg' = region_frames rg"
  proof (cases "count = 0")
    case True
    then show ?thesis using assms by (simp add: region_alloc_contiguous_def)
  next
    case False
    define n where "n = end_ppn rg - start_ppn rg"
    obtain f ws where f: "contiguous_scan (bits rg) count [0..<n] 0 0 = Some f"
      and ws: "mark_all (bits rg) (map (\<lambda>j. f + j) [0..<count]) = Some ws"
      and ps: "ps = map (\<lambda>j. start_ppn rg + (f + j)) [0..<count]" and rg': "rg' = rg\<lparr> bits := ws \<rparr>"
      using assms(2) False
      by (auto simp: region_alloc_contiguous_def n_def Let_def bind_eq_Some_conv split: if_splits)
    have run: "f + count \<le> n" "\<forall>k. f \<le> k \<and> k < f + count \<longrightarrow> arr_get_bit (bits rg) k = Some False"
      using contiguous_scan_Some [OF f] False by auto
    have fit: "n \<le> 64 * length (bits rg)" using region_pages_fit [OF assms(1)] n_def by simp
    have free: "\<not> abit (bits rg) k" if "f \<le> k" "k < f + count" for k
      using that run fit arr_get_bit_eq [of k "bits rg"] by auto
    have ps_upt: "ps = [start_ppn rg + f..<start_ppn rg + f + count]"
      unfolding ps by (rule nth_equalityI) auto
    have ab: "abit ws k \<longleftrightarrow> abit (bits rg) k \<or> (f \<le> k \<and> k < f + count)" for k
    proof -
      have "k \<in> set (map (\<lambda>j. f + j) [0..<count]) \<longleftrightarrow> f \<le> k \<and> k < f + count"
        by (auto simp: image_iff intro: bexI [of _ "k - f"])
      then show ?thesis using mark_all_abit(2) [OF ws, of k] by simp
    qed
    have fr: "region_frames rg' = region_frames rg" by (simp add: region_frames_def rg')
    have "region_used rg' = set ps \<union> region_used rg"
      using run(1) by (auto simp: region_used_def region_frames_def rg' ab ps_upt n_def)
    moreover have "set ps \<subseteq> region_frames rg - region_used rg"
      using run(1) free by (auto simp: region_used_def region_frames_def ps_upt n_def)
    moreover have "region_inv rg'"
      using assms(1) mark_all_abit(1) [OF ws] by (auto simp: region_inv_def rg' ab)
    ultimately show ?thesis using ps_upt fr by blast
  qed
  then show "\<exists>f. ps = [f..<f + count]" "set ps \<subseteq> region_frames rg - region_used rg"
    "region_used rg' = set ps \<union> region_used rg" "region_inv rg'"
    "region_frames rg' = region_frames rg" by auto
qed

lemma region_contiguous_None:
  assumes "region_inv rg" "region_alloc_contiguous rg count = None"
  shows "\<not> {f..<f + count} \<subseteq> region_frames rg - region_used rg"
proof
  assume sub: "{f..<f + count} \<subseteq> region_frames rg - region_used rg"
  define n where "n = end_ppn rg - start_ppn rg"
  have c: "count \<noteq> 0"
    using assms(2) by (auto simp: region_alloc_contiguous_def split: if_splits)
  have fit: "n \<le> 64 * length (bits rg)" using region_pages_fit [OF assms(1)] n_def by simp
  have "f \<in> region_frames rg" "f + count - 1 \<in> region_frames rg"
    using sub c by (auto simp: subset_iff)
  then have f: "start_ppn rg \<le> f" "f - start_ppn rg + count \<le> n"
    using c by (auto simp: region_frames_def n_def)
  have "count \<le> n" using f by linarith
  have scan: "contiguous_scan (bits rg) count [0..<n] 0 0 = None"
  proof (cases "contiguous_scan (bits rg) count [0..<n] 0 0")
    case (Some g)
    then have "g + count \<le> n" using contiguous_scan_Some [OF Some] c by auto
    then have "\<exists>ws. mark_all (bits rg) (map (\<lambda>j. g + j) [0..<count]) = Some ws"
      using fit by (intro mark_all_ex) auto
    then show ?thesis
      using assms(2) Some c \<open>count \<le> n\<close> by (auto simp: region_alloc_contiguous_def n_def Let_def)
  qed simp
  obtain k where k: "f - start_ppn rg \<le> k" "k < f - start_ppn rg + count"
    "arr_get_bit (bits rg) k \<noteq> Some False"
    using contiguous_scan_None [OF scan _ _ _ f(2)] c by auto
  then have "abit (bits rg) k"
    using f fit arr_get_bit_eq [of k "bits rg"] by auto
  moreover have "start_ppn rg + k \<in> {f..<f + count}" using k f by auto
  ultimately show False
    using sub by (auto simp: region_used_def subset_iff)
qed

subsection \<open>Counting free frames\<close>

lemma abit_append:
  "abit (ws @ [w]) j = (if j < 64 * length ws then abit ws j else bit ((ws @ [w]) ! (j div 64)) (j mod 64))"
  by (auto simp: abit_def nth_append div64_less)

lemma count_zeros_card: "count_zeros w = card {b. b < 64 \<and> \<not> bit w b}"
  unfolding count_zeros_def
  by (subst distinct_card [symmetric]) (auto intro: arg_cong [of _ _ card])

lemma count_clear: "sum_list (map count_zeros ws) = card {j. j < 64 * length ws \<and> \<not> abit ws j}"
proof (induction ws rule: rev_induct)
  case Nil
  then show ?case by simp
next
  case (snoc w ws)
  let ?n = "64 * length ws"
  let ?A = "{j. j < ?n \<and> \<not> abit ws j}" and ?B = "(\<lambda>b. ?n + b) ` {b. b < 64 \<and> \<not> bit w b}"
  have hi: "abit (ws @ [w]) (?n + b) = bit w b" if "b < 64" for b
    using that by (simp add: abit_append)
  have "{j. j < 64 * length (ws @ [w]) \<and> \<not> abit (ws @ [w]) j} = ?A \<union> ?B" (is "?L = _")
  proof (intro equalityI subsetI)
    fix j assume j: "j \<in> ?L"
    show "j \<in> ?A \<union> ?B"
    proof (cases "j < ?n")
      case True
      then show ?thesis using j by (simp add: abit_append)
    next
      case False
      then have "j = ?n + (j - ?n)" "j - ?n < 64" using j by auto
      then show ?thesis using j hi [of "j - ?n"] by auto
    qed
  next
    fix j assume "j \<in> ?A \<union> ?B"
    then show "j \<in> ?L" using hi by (auto simp: abit_append)
  qed
  moreover have "card (?A \<union> ?B) = card ?A + card ?B"
    by (rule card_Un_disjoint) auto
  moreover have "card ?B = count_zeros w"
    by (simp add: count_zeros_card card_image)
  ultimately show ?case using snoc by simp
qed

lemma region_free_pages_card:
  assumes "region_inv rg"
  shows "region_free_pages rg = card (region_frames rg - region_used rg)"
proof -
  have "region_frames rg - region_used rg =
      (\<lambda>j. start_ppn rg + j) ` {j. j < 64 * length (bits rg) \<and> \<not> abit (bits rg) j}" (is "?L = ?R")
  proof (intro equalityI subsetI)
    fix p assume p: "p \<in> ?L"
    then have "start_ppn rg \<le> p" "\<not> abit (bits rg) (p - start_ppn rg)"
      by (auto simp: region_used_def region_frames_def)
    moreover have "p - start_ppn rg < 64 * length (bits rg)"
      using p region_offset_less [OF assms] by blast
    ultimately show "p \<in> ?R" by (intro image_eqI [of _ _ "p - start_ppn rg"]) auto
  next
    fix p assume "p \<in> ?R"
    then obtain j where j: "p = start_ppn rg + j" "j < 64 * length (bits rg)" "\<not> abit (bits rg) j"
      by auto
    then have "j < end_ppn rg - start_ppn rg"
      using assms by (auto simp: region_inv_def)
    then show "p \<in> ?L" using j by (auto simp: region_used_def region_frames_def)
  qed
  then show ?thesis
    by (simp add: region_free_pages_def count_clear card_image)
qed

subsection \<open>The allocator over all regions\<close>

fun regions_frames :: "frame_region_map list \<Rightarrow> ppn set" where
  "regions_frames [] = {}"
| "regions_frames (rg # rgs) = region_frames rg \<union> regions_frames rgs"

fun regions_used :: "frame_region_map list \<Rightarrow> ppn set" where
  "regions_used [] = {}"
| "regions_used (rg # rgs) = region_used rg \<union> regions_used rgs"

definition fa_frames :: "frame_allocator \<Rightarrow> ppn set" where
  "fa_frames fa = regions_frames (regions fa)"

definition fa_used :: "frame_allocator \<Rightarrow> ppn set" where
  "fa_used fa = regions_used (regions fa)"

text \<open>Every region is well formed and no two regions share a frame.\<close>

fun regions_inv :: "frame_region_map list \<Rightarrow> bool" where
  "regions_inv [] = True"
| "regions_inv (rg # rgs) =
     (region_inv rg \<and> region_frames rg \<inter> regions_frames rgs = {} \<and> regions_inv rgs)"

definition fa_inv :: "frame_allocator \<Rightarrow> bool" where
  "fa_inv fa = regions_inv (regions fa)"

lemma regions_used_frames:
  "regions_used rgs \<subseteq> regions_frames rgs"
  using region_used_frames by (induction rgs) auto

lemma regions_alloc_Some:
  assumes "regions_inv rgs" "regions_alloc rgs = Some (p, rgs')"
  shows "p \<in> regions_frames rgs - regions_used rgs
    \<and> regions_used rgs' = insert p (regions_used rgs)
    \<and> regions_inv rgs' \<and> regions_frames rgs' = regions_frames rgs"
  using assms
proof (induction rgs arbitrary: rgs')
  case Nil
  then show ?case by simp
next
  case (Cons rg rgs)
  show ?case
  proof (cases "region_alloc rg")
    case (Some q)
    then obtain rg' where q: "region_alloc rg = Some (p, rg')" "rgs' = rg' # rgs"
      using Cons.prems(2) by (cases q) auto
    have "region_inv rg" using Cons.prems by simp
    note sc = region_alloc_Some [OF this q(1)]
    have "p \<notin> regions_used rgs"
      using sc(1) Cons.prems(1) regions_used_frames [of rgs] by auto
    then show ?thesis
      using Cons.prems(1) sc q(2) by auto
  next
    case None
    then obtain rgs1 where r: "regions_alloc rgs = Some (p, rgs1)" "rgs' = rg # rgs1"
      using Cons.prems(2) by auto
    then show ?thesis
      using Cons region_used_frames [of rg] by auto
  qed
qed

lemma regions_alloc_None:
  assumes "regions_inv rgs"
  shows "regions_alloc rgs = None \<longleftrightarrow> regions_used rgs = regions_frames rgs"
  using assms
proof (induction rgs)
  case Nil
  then show ?case by simp
next
  case (Cons rg rgs)
  then have ih: "regions_alloc rgs = None \<longleftrightarrow>
      regions_used rgs = regions_frames rgs"
    and rg: "region_alloc rg = None \<longleftrightarrow> region_used rg = region_frames rg"
    and dis: "region_frames rg \<inter> regions_frames rgs = {}"
    using region_alloc_None by auto
  have "regions_alloc (rg # rgs) = None \<longleftrightarrow> region_alloc rg = None \<and> regions_alloc rgs = None"
    by (auto split: option.splits)
  also have "\<dots> \<longleftrightarrow> region_used rg \<union> regions_used rgs =
      region_frames rg \<union> regions_frames rgs"
    unfolding ih rg using dis regions_used_frames [of rgs] region_used_frames [of rg] by blast
  finally show ?case by simp
qed

lemma regions_dealloc_iff:
  assumes "regions_inv rgs"
  shows "regions_dealloc rgs p \<noteq> None \<longleftrightarrow> p \<in> regions_used rgs"
  using assms
proof (induction rgs)
  case Nil
  then show ?case by simp
next
  case (Cons rg rgs)
  show ?case
  proof (cases "p \<in> region_frames rg")
    case True
    then have "p \<notin> regions_used rgs"
      using Cons.prems regions_used_frames [of rgs] by auto
    then show ?thesis
      using True Cons.prems region_dealloc_iff [of rg p] by (auto simp: region_frames_def)
  next
    case False
    then have "p \<notin> region_used rg" using region_used_frames by blast
    then show ?thesis
      using False Cons by (auto simp: region_frames_def)
  qed
qed

lemma regions_dealloc_Some:
  assumes "regions_inv rgs" "regions_dealloc rgs p = Some rgs'"
  shows "regions_used rgs' = regions_used rgs - {p}
    \<and> regions_inv rgs' \<and> regions_frames rgs' = regions_frames rgs"
  using assms
proof (induction rgs arbitrary: rgs')
  case Nil
  then show ?case by simp
next
  case (Cons rg rgs)
  show ?case
  proof (cases "p \<in> region_frames rg")
    case True
    then obtain rg' where r: "region_dealloc rg p = Some rg'" "rgs' = rg' # rgs"
      using Cons.prems(2) by (auto simp: region_frames_def)
    have "region_inv rg" using Cons.prems by simp
    note d = region_dealloc_Some [OF this True r(1)]
    have "p \<notin> regions_used rgs"
      using True Cons.prems regions_used_frames [of rgs] by auto
    then show ?thesis using d Cons.prems(1) r(2) by auto
  next
    case False
    then obtain rgs1 where r: "regions_dealloc rgs p = Some rgs1" "rgs' = rg # rgs1"
      using Cons.prems(2) by (auto simp: region_frames_def split: if_splits)
    moreover have "p \<notin> region_used rg" using False region_used_frames by blast
    ultimately show ?thesis using Cons by auto
  qed
qed

lemma regions_contiguous_Some:
  assumes "regions_inv rgs" "regions_alloc_contiguous rgs count = Some (ps, rgs')"
  shows "(\<exists>f. ps = [f..<f + count])
    \<and> set ps \<subseteq> regions_frames rgs - regions_used rgs
    \<and> regions_used rgs' = set ps \<union> regions_used rgs
    \<and> regions_inv rgs' \<and> regions_frames rgs' = regions_frames rgs"
  using assms
proof (induction rgs arbitrary: rgs')
  case Nil
  then show ?case by simp
next
  case (Cons rg rgs)
  show ?case
  proof (cases "region_alloc_contiguous rg count")
    case (Some q)
    then obtain rg' where q: "region_alloc_contiguous rg count = Some (ps, rg')" "rgs' = rg' # rgs"
      using Cons.prems(2) by (cases q) auto
    have "region_inv rg" using Cons.prems by simp
    note sc = region_contiguous_Some [OF this q(1)]
    have "set ps \<inter> regions_used rgs = {}"
      using sc(2) Cons.prems(1) regions_used_frames [of rgs] by fastforce
    then show ?thesis
      using Cons.prems(1) sc q(2) by auto
  next
    case None
    then obtain rgs1 where r: "regions_alloc_contiguous rgs count = Some (ps, rgs1)" "rgs' = rg # rgs1"
      using Cons.prems(2) by auto
    have inv: "regions_inv rgs" "region_frames rg \<inter> regions_frames rgs = {}"
      using Cons.prems(1) by auto
    note ih = Cons.IH [OF inv(1) r(1)]
    have "set ps \<inter> region_used rg = {}"
      using ih inv(2) region_used_frames [of rg] by blast
    then show ?thesis
      using ih inv Cons.prems(1) r(2) by auto
  qed
qed

interpretation frames: resource_pool fa_inv fa_used fa_alloc fa_dealloc
proof unfold_locales
  fix s i s'
  assume inv: "fa_inv s"
  show "i \<notin> fa_used s" "fa_used s' = insert i (fa_used s)" "fa_inv s'"
    if "fa_alloc s = Some (i, s')"
    using that inv regions_alloc_Some [of "regions s" i]
    by (auto simp: fa_alloc_def fa_inv_def fa_used_def)
  show "(fa_dealloc s i \<noteq> None) = (i \<in> fa_used s)"
    using inv regions_dealloc_iff [of "regions s" i]
    by (auto simp: fa_dealloc_def fa_inv_def fa_used_def)
  show "fa_used s' = fa_used s - {i}" "fa_inv s'" if "fa_dealloc s i = Some s'"
    using that inv regions_dealloc_Some [of "regions s" i]
    by (auto simp: fa_dealloc_def fa_inv_def fa_used_def)
qed

lemma finite_regions_frames: "finite (regions_frames rgs)"
  by (induction rgs) (auto simp: region_frames_def)

lemma remaining_frames_card:
  assumes "fa_inv fa"
  shows "fa_remaining_frames fa = card (fa_frames fa - fa_used fa)"
proof -
  have "sum_list (map region_free_pages rgs) =
      card (regions_frames rgs - regions_used rgs)" if "regions_inv rgs" for rgs
    using that
  proof (induction rgs)
    case Nil
    then show ?case by simp
  next
    case (Cons rg rgs)
    let ?F = "regions_frames rgs" and ?U = "regions_used rgs"
    have dis: "region_frames rg \<inter> ?F = {}" using Cons.prems by simp
    have fin: "finite (region_frames rg)" "finite ?F"
      using finite_regions_frames by (auto simp: region_frames_def)
    have "(region_frames rg \<union> ?F) - (region_used rg \<union> ?U) =
        (region_frames rg - region_used rg) \<union> (?F - ?U)"
      using dis regions_used_frames [of rgs] region_used_frames [of rg] by blast
    moreover have "card ((region_frames rg - region_used rg) \<union> (?F - ?U)) =
        card (region_frames rg - region_used rg) + card (?F - ?U)"
      using fin dis by (intro card_Un_disjoint) auto
    ultimately show ?case
      using Cons region_free_pages_card [of rg] by simp
  qed
  then show ?thesis
    using assms by (simp add: fa_remaining_frames_def fa_inv_def fa_frames_def fa_used_def)
qed

end
