(* ===== verification/Phys_Mem.thy ===== *)
theory Phys_Mem
  imports Frame_Allocator
begin

text \<open>
  Physical memory and the reference-counted frames (\<open>FrameTracker\<close> and the global functions of
  \<open>os/src/mm/frame_allocator.rs\<close>).

  The kernel reaches a physical page through the direct mapping, either as 512 page-table entries
  (\<open>get_pte_array\<close>) or as 4096 bytes (\<open>get_bytes_array\<close>).  Both views are of the same memory: a page is
  a function from cell indexes to 64-bit cells, and a byte is read from its cell in little-endian order.
  \<open>arcs\<close> counts the strong references to each frame's \<open>FrameTracker\<close>; dropping the last one
  deallocates the frame.
\<close>

type_synonym page = "nat \<Rightarrow> usize"

record kmem =
  allocator :: frame_allocator
  mem :: "ppn \<Rightarrow> page"
  arcs :: "ppn \<Rightarrow> nat"
  frame_vec :: "ppn list"

subsection \<open>Frames\<close>

text \<open>The page behind a page number, reached through \<open>KernelAddr::from(pa)\<close>, which refuses address 0.\<close>

definition get_bytes_array :: "ppn \<Rightarrow> ppn option" where
  "get_bytes_array p = do { ka \<leftarrow> kernel_of_phys (pa_of_ppn p); Some (ppn_of_kernel ka) }"

definition frame_tracker_new :: "kmem \<Rightarrow> ppn \<Rightarrow> kmem option" where
  "frame_tracker_new k p = do {
     q \<leftarrow> get_bytes_array p;
     Some (k\<lparr> mem := (mem k)(q := (\<lambda>_. 0)), arcs := (arcs k)(p := 1) \<rparr>) }"

definition frame_alloc :: "kmem \<Rightarrow> (ppn option \<times> kmem) option" where
  "frame_alloc k =
     (case fa_alloc (allocator k) of
        None \<Rightarrow> Some (None, k)
      | Some (p, fa) \<Rightarrow> do {
          k' \<leftarrow> frame_tracker_new (k\<lparr> allocator := fa \<rparr>) p;
          Some (Some p, k') })"

definition frame_dealloc :: "kmem \<Rightarrow> ppn \<Rightarrow> kmem option" where
  "frame_dealloc k p = do {
     fa \<leftarrow> fa_dealloc (allocator k) p;
     Some (k\<lparr> allocator := fa \<rparr>) }"

fun frame_trackers_new :: "kmem \<Rightarrow> ppn list \<Rightarrow> kmem option" where
  "frame_trackers_new k [] = Some k"
| "frame_trackers_new k (p # ps) = do { k' \<leftarrow> frame_tracker_new k p; frame_trackers_new k' ps }"

definition frame_alloc_continue :: "kmem \<Rightarrow> nat \<Rightarrow> (ppn list option \<times> kmem) option" where
  "frame_alloc_continue k count =
     (case fa_alloc_contiguous (allocator k) count of
        None \<Rightarrow> Some (None, k)
      | Some (ps, fa) \<Rightarrow> do {
          k' \<leftarrow> frame_trackers_new (k\<lparr> allocator := fa \<rparr>) ps;
          Some (Some ps, k') })"

definition arc_clone :: "kmem \<Rightarrow> ppn \<Rightarrow> kmem" where
  "arc_clone k p = k\<lparr> arcs := (arcs k)(p := arcs k p + 1) \<rparr>"

definition arc_drop :: "kmem \<Rightarrow> ppn \<Rightarrow> kmem option" where
  "arc_drop k p = (
     let k' = k\<lparr> arcs := (arcs k)(p := arcs k p - 1) \<rparr>
     in if arcs k' p = 0 then frame_dealloc k' p else Some k')"

definition frame_alloc_persist :: "kmem \<Rightarrow> (usize option \<times> kmem) option" where
  "frame_alloc_persist k = do {
     (r, k') \<leftarrow> frame_alloc k;
     (case r of
        None \<Rightarrow> Some (None, k')
      | Some p \<Rightarrow> Some (Some (push_bit PAGE_SIZE_BITS (of_nat p)),
                        k'\<lparr> frame_vec := List.insert p (frame_vec k') \<rparr>)) }"

definition frame_dealloc_persist :: "kmem \<Rightarrow> usize \<Rightarrow> kmem option" where
  "frame_dealloc_persist k paddr = (
     let p = unat (drop_bit PAGE_SIZE_BITS paddr)
     in do {
       ensure (p \<in> set (frame_vec k));
       arc_drop (k\<lparr> frame_vec := remove1 p (frame_vec k) \<rparr>) p })"

subsection \<open>Bytes\<close>

definition cell_byte :: "usize \<Rightarrow> nat \<Rightarrow> u8" where
  "cell_byte w i = ucast (drop_bit (8 * i) w)"

definition cell_set_byte :: "usize \<Rightarrow> nat \<Rightarrow> u8 \<Rightarrow> usize" where
  "cell_set_byte w i b = (w AND NOT (push_bit (8 * i) 0xff)) OR push_bit (8 * i) (ucast b)"

definition read_byte :: "kmem \<Rightarrow> ppn \<Rightarrow> nat \<Rightarrow> u8" where
  "read_byte k p off = cell_byte (mem k p (off div 8)) (off mod 8)"

definition write_byte :: "kmem \<Rightarrow> ppn \<Rightarrow> nat \<Rightarrow> u8 \<Rightarrow> kmem" where
  "write_byte k p off b =
     k\<lparr> mem := (mem k)(p := (mem k p)(off div 8 := cell_set_byte (mem k p (off div 8)) (off mod 8) b)) \<rparr>"

fun write_bytes :: "kmem \<Rightarrow> ppn \<Rightarrow> nat \<Rightarrow> u8 list \<Rightarrow> kmem" where
  "write_bytes k p off [] = k"
| "write_bytes k p off (b # bs) = write_bytes (write_byte k p off b) p (off + 1) bs"

definition read_bytes :: "kmem \<Rightarrow> ppn \<Rightarrow> nat \<Rightarrow> nat \<Rightarrow> u8 list" where
  "read_bytes k p off n = map (\<lambda>i. read_byte k p (off + i)) [0..<n]"

lemma cell_byte_bit: "bit (cell_byte w i) n \<longleftrightarrow> n < 8 \<and> bit w (8 * i + n)"
  by (auto simp: cell_byte_def bit_simps)

lemma cell_set_byte_bit:
  "bit (cell_set_byte w i b) n \<longleftrightarrow>
     n < 64 \<and> (if 8 * i \<le> n \<and> n < 8 * i + 8 then bit b (n - 8 * i) else bit w n)"
proof -
  have m: "(255 :: usize) = mask 8" by (simp add: mask_eq_exp_minus_1)
  have "bit (push_bit (8 * i) (mask 8 :: usize)) n \<longleftrightarrow> n < 64 \<and> 8 * i \<le> n \<and> n < 8 * i + 8"
    by (auto simp: bit_simps)
  moreover have "bit b (n - 8 * i) \<Longrightarrow> n - 8 * i < 8"
    using bit_imp_le_length [of b "n - 8 * i"] by simp
  ultimately show ?thesis
    unfolding cell_set_byte_def m
    by (auto simp: bit_or_iff bit_and_iff bit_not_iff bit_push_bit_iff bit_ucast_iff bit_usize_less)
qed

lemma cell_byte_set_byte:
  assumes "i < 8" "j < 8"
  shows "cell_byte (cell_set_byte w i b) j = (if i = j then b else cell_byte w j)"
proof (rule bit_word_eqI)
  fix n assume "n < LENGTH(8)"
  then show "bit (cell_byte (cell_set_byte w i b) j) n = bit (if i = j then b else cell_byte w j) n"
    using assms by (auto simp: cell_byte_bit cell_set_byte_bit)
qed

lemma read_write_byte:
  "read_byte (write_byte k p off b) q off' =
     (if p = q \<and> off = off' then b else read_byte k q off')"
proof -
  have "off = off' \<longleftrightarrow> off div 8 = off' div 8 \<and> off mod 8 = off' mod 8"
    by (metis div_mult_mod_eq)
  then show ?thesis
    by (simp add: read_byte_def write_byte_def cell_byte_set_byte)
qed

lemma read_write_bytes:
  "read_byte (write_bytes k p off bs) q off' =
     (if p = q \<and> off \<le> off' \<and> off' < off + length bs then bs ! (off' - off)
      else read_byte k q off')"
proof (induction bs arbitrary: k off)
  case Nil
  then show ?case by auto
next
  case (Cons b bs)
  show ?case
    by (auto simp: Cons.IH read_write_byte nth_Cons' Suc_diff_Suc)
qed

lemma write_byte_frame [simp]:
  "allocator (write_byte k p off b) = allocator k" "arcs (write_byte k p off b) = arcs k"
  "frame_vec (write_byte k p off b) = frame_vec k"
  by (simp_all add: write_byte_def)

lemma write_bytes_frame [simp]:
  "allocator (write_bytes k p off bs) = allocator k" "arcs (write_bytes k p off bs) = arcs k"
  "frame_vec (write_bytes k p off bs) = frame_vec k"
  by (induction bs arbitrary: k off) auto

lemma write_bytes_other: "q \<noteq> p \<Longrightarrow> mem (write_bytes k p off bs) q = mem k q"
  by (induction bs arbitrary: k off) (auto simp: write_byte_def)

lemma read_bytes_write_bytes: "read_bytes (write_bytes k p off bs) p off (length bs) = bs"
  by (rule nth_equalityI) (auto simp: read_bytes_def read_write_bytes)

subsection \<open>Invariant\<close>

text \<open>
  A frame is in use exactly when some \<open>FrameTracker\<close> of it is alive; frame 0, which the direct
  mapping refuses, is not managed; page numbers fit the 36 bits of a page-table entry.
\<close>

definition kmem_inv :: "kmem \<Rightarrow> bool" where
  "kmem_inv k \<longleftrightarrow> fa_inv (allocator k) \<and> fa_used (allocator k) = {p. 0 < arcs k p}
     \<and> fa_frames (allocator k) \<subseteq> {0<..<2 ^ 36} \<and> set (frame_vec k) \<subseteq> fa_used (allocator k)
     \<and> distinct (frame_vec k)"

lemma kmem_inv_mem [simp]: "kmem_inv (k\<lparr> mem := m \<rparr>) \<longleftrightarrow> kmem_inv k"
  by (simp add: kmem_inv_def)

lemma kmem_inv_write_bytes [simp]: "kmem_inv (write_bytes k p off bs) \<longleftrightarrow> kmem_inv k"
  by (simp add: kmem_inv_def)

lemma pa_of_ppn_facts:
  assumes "p < 2 ^ 52"
  shows "pa_floor (pa_of_ppn p) = p"
  using va_floor_of_vpn [OF assms] by (simp add: pa_floor_def va_floor_def pa_of_ppn_def va_of_vpn_def)

lemma get_bytes_array_ok:
  assumes "0 < p" "p < 2 ^ 52"
  shows "get_bytes_array p = Some p"
  using assms pa_of_ppn_0 [OF assms(2)] pa_of_ppn_facts [OF assms(2)]
  by (simp add: get_bytes_array_def kernel_of_phys_def ppn_of_kernel_def phys_of_kernel_def)

lemma fa_alloc_frames:
  assumes "fa_inv fa" "fa_alloc fa = Some (p, fa')"
  shows "p \<in> fa_frames fa" "fa_frames fa' = fa_frames fa"
  using assms regions_alloc_Some [of "regions fa" p]
  by (auto simp: fa_alloc_def fa_inv_def fa_frames_def)

lemma fa_dealloc_frames:
  assumes "fa_inv fa" "fa_dealloc fa p = Some fa'"
  shows "fa_frames fa' = fa_frames fa"
  using assms regions_dealloc_Some [of "regions fa" p]
  by (auto simp: fa_dealloc_def fa_inv_def fa_frames_def)

lemma fa_used_frames: "fa_used fa \<subseteq> fa_frames fa"
  by (simp add: fa_used_def fa_frames_def regions_used_frames)

lemma finite_fa_frames: "finite (fa_frames fa)"
  by (simp add: fa_frames_def finite_regions_frames)

lemma fa_alloc_None:
  assumes "fa_inv fa"
  shows "fa_alloc fa = None \<longleftrightarrow> fa_used fa = fa_frames fa"
  using assms regions_alloc_None [of "regions fa"]
  by (simp add: fa_alloc_def fa_inv_def fa_used_def fa_frames_def)

lemma frame_alloc_ok:
  assumes "kmem_inv k"
  obtains "frame_alloc k = Some (None, k)" "fa_used (allocator k) = fa_frames (allocator k)"
  | p k' where "frame_alloc k = Some (Some p, k')" "p \<in> fa_frames (allocator k)"
      "p \<notin> fa_used (allocator k)" "fa_used (allocator k') = insert p (fa_used (allocator k))"
      "fa_frames (allocator k') = fa_frames (allocator k)" "kmem_inv k'"
      "mem k' = (mem k)(p := (\<lambda>_. 0))" "arcs k' = (arcs k)(p := 1)" "frame_vec k' = frame_vec k"
proof (cases "fa_alloc (allocator k)")
  case None
  then show thesis
    using that(1) assms fa_alloc_None by (auto simp: frame_alloc_def kmem_inv_def)
next
  case (Some a)
  then obtain p fa where p: "fa_alloc (allocator k) = Some (p, fa)" by (cases a) auto
  have inv: "fa_inv (allocator k)" using assms by (simp add: kmem_inv_def)
  note fr = fa_alloc_frames [OF inv p] and us = frames.alloc_used [OF inv p]
    and fresh = frames.alloc_fresh [OF inv p] and inv' = frames.alloc_invar [OF inv p]
  have "p \<in> {0<..<2 ^ 36}" using fr(1) assms by (auto simp: kmem_inv_def)
  then have g: "get_bytes_array p = Some p" by (intro get_bytes_array_ok) auto
  let ?k = "k\<lparr> allocator := fa, mem := (mem k)(p := (\<lambda>_. 0)), arcs := (arcs k)(p := 1) \<rparr>"
  have "frame_alloc k = Some (Some p, ?k)"
    by (simp add: frame_alloc_def p frame_tracker_new_def g)
  moreover have "kmem_inv ?k"
    using assms fr us inv' by (auto simp: kmem_inv_def)
  ultimately show thesis
    using that(2) [of p ?k] fr us fresh by simp
qed

lemma frame_alloc_total: "kmem_inv k \<Longrightarrow> \<exists>r k'. frame_alloc k = Some (r, k')"
  by (erule frame_alloc_ok) auto

lemma arc_drop_ok:
  assumes "kmem_inv k" "0 < arcs k p" "p \<notin> set (frame_vec k) \<or> 1 < arcs k p"
  shows "\<exists>k'. arc_drop k p = Some k' \<and> kmem_inv k' \<and> mem k' = mem k
    \<and> arcs k' = (arcs k)(p := arcs k p - 1) \<and> fa_frames (allocator k') = fa_frames (allocator k)
    \<and> frame_vec k' = frame_vec k"
proof (cases "arcs k p = 1")
  case False
  then show ?thesis
    using assms by (auto simp: arc_drop_def kmem_inv_def Let_def)
next
  case True
  have inv: "fa_inv (allocator k)" "p \<in> fa_used (allocator k)"
    using assms by (auto simp: kmem_inv_def)
  then obtain fa where fa: "fa_dealloc (allocator k) p = Some fa"
    using frames.dealloc_iff by auto
  note d = frames.dealloc_used [OF inv(1) fa] frames.dealloc_invar [OF inv(1) fa]
    fa_dealloc_frames [OF inv(1) fa]
  show ?thesis
    using assms True d by (auto simp: arc_drop_def frame_dealloc_def fa kmem_inv_def Let_def)
qed

lemma arc_clone_inv: "kmem_inv k \<Longrightarrow> 0 < arcs k p \<Longrightarrow> kmem_inv (arc_clone k p)"
  by (auto simp: kmem_inv_def arc_clone_def)

end
