(* ===== verification/Bitflags.thy ===== *)
theory Bitflags
  imports Prelude
begin

text \<open>
  The operations that the vendored crate \<open>bitflags\<close> (\<open>os/vendor/bitflags-1.3.2/src/lib.rs\<close>)
  generates for a flag type.  A flag set is its underlying word; \<open>all\<close> is the union of the declared
  constants.  The lemmas read the operations bit by bit.
\<close>

definition fl_from_bits :: "'a :: len word \<Rightarrow> 'a word \<Rightarrow> 'a word option" where
  "fl_from_bits all w = (if w AND NOT all = 0 then Some w else None)"

definition fl_from_bits_truncate :: "'a :: len word \<Rightarrow> 'a word \<Rightarrow> 'a word" where
  "fl_from_bits_truncate all w = w AND all"

definition fl_contains :: "'a :: len word \<Rightarrow> 'a word \<Rightarrow> bool" where
  "fl_contains f x = (f AND x = x)"

definition fl_intersects :: "'a :: len word \<Rightarrow> 'a word \<Rightarrow> bool" where
  "fl_intersects f x = (f AND x \<noteq> 0)"

definition fl_insert :: "'a :: len word \<Rightarrow> 'a word \<Rightarrow> 'a word" where
  "fl_insert f x = f OR x"

definition fl_remove :: "'a :: len word \<Rightarrow> 'a word \<Rightarrow> 'a word" where
  "fl_remove f x = f AND NOT x"

lemma fl_contains_bit: "fl_contains f x \<longleftrightarrow> (\<forall>n. bit x n \<longrightarrow> bit f n)"
  by (auto simp: fl_contains_def bit_eq_iff bit_simps dest: bit_imp_le_length)

lemma fl_contains_exp: "n < LENGTH('a) \<Longrightarrow> fl_contains (f :: 'a :: len word) (2 ^ n) \<longleftrightarrow> bit f n"
  by (auto simp: fl_contains_bit bit_simps)

lemma fl_insert_bit: "bit (fl_insert f x) n \<longleftrightarrow> bit f n \<or> bit x n"
  by (simp add: fl_insert_def bit_simps)

lemma fl_remove_bit: "bit (fl_remove f x) n \<longleftrightarrow> bit f n \<and> \<not> bit x n"
  by (auto simp: fl_remove_def bit_simps dest: bit_imp_le_length)

lemma fl_intersects_bit: "fl_intersects f x \<longleftrightarrow> (\<exists>n. bit f n \<and> bit x n)"
proof -
  have "f AND x = 0 \<longleftrightarrow> (\<forall>n. \<not> (bit f n \<and> bit x n))"
    by (auto simp: bit_eq_iff bit_simps dest: bit_imp_le_length)
  then show ?thesis by (simp add: fl_intersects_def)
qed

lemma fl_from_bits_Some: "fl_from_bits all w = Some f \<longleftrightarrow> f = w \<and> (\<forall>n. bit w n \<longrightarrow> bit all n)"
proof -
  have "w AND NOT all = 0 \<longleftrightarrow> (\<forall>n. bit w n \<longrightarrow> bit all n)"
    by (auto simp: bit_eq_iff bit_simps dest: bit_imp_le_length)
  then show ?thesis by (auto simp: fl_from_bits_def)
qed

lemma fl_truncate_bit: "bit (fl_from_bits_truncate all w) n \<longleftrightarrow> bit w n \<and> bit all n"
  by (simp add: fl_from_bits_truncate_def bit_simps)

lemmas fl_bits = fl_insert_bit fl_remove_bit fl_intersects_bit fl_truncate_bit

end
