(* ===== verification/Pte.thy ===== *)
theory Pte
  imports Bit_Field Bitflags Address
begin

text \<open>
  Page-table entries of the loongarch64 port (\<open>os/src/mm/arch/loongarch64.rs\<close>): the flag
  constants, construction and field access, the copy-on-write marks, and the conversions from and to
  \<open>MapPermission\<close> (declared in \<open>os/src/mm/area.rs\<close>).  The lemmas describe every operation by the bits of
  its result; they show that \<open>new\<close> and the two readers are inverse, that \<open>set_cow\<close> withdraws the write
  permission and remembers it, and that \<open>set_flags\<close> keeps bits 48 and 49, so the two marks, once set,
  stay set.
\<close>

type_synonym pte = usize
type_synonym pte_flags = usize
type_synonym map_permission = u8

definition PALEN :: nat where "PALEN = 48"
definition PAGE_LEVEL :: nat where "PAGE_LEVEL = 3"
definition PTE_NUM_IN_PAGE :: nat where "PTE_NUM_IN_PAGE = 0x200"

text \<open>
  What the memory code expects of an entry format: an entry built from a page number and flags reads
  back as them, so it determines them.
\<close>

locale pte_codec =
  fixes pnew :: "ppn \<Rightarrow> usize \<Rightarrow> usize option"
    and pppn :: "usize \<Rightarrow> ppn option"
    and pflags :: "usize \<Rightarrow> usize option"
    and ppn_ok :: "ppn \<Rightarrow> bool"
    and flags_ok :: "usize \<Rightarrow> bool"
  assumes codec: "ppn_ok p \<Longrightarrow> flags_ok f \<Longrightarrow>
    \<exists>e. pnew p f = Some e \<and> pppn e = Some p \<and> pflags e = Some f"
begin

lemma pnew_inj:
  assumes "ppn_ok p" "flags_ok f" "ppn_ok q" "flags_ok g" "pnew p f = pnew q g"
  shows "p = q \<and> f = g"
  using codec [of p f] codec [of q g] assms by auto

end

subsection \<open>Flags\<close>

definition PTE_V :: pte_flags where "PTE_V = push_bit 0 1"
definition PTE_D :: pte_flags where "PTE_D = push_bit 1 1"
definition PTE_PLV_USER :: pte_flags where "PTE_PLV_USER = push_bit 2 0b11"
definition PTE_MAT_NOCACHE :: pte_flags where "PTE_MAT_NOCACHE = push_bit 4 0b01"
definition PTE_GH :: pte_flags where "PTE_GH = push_bit 6 1"
definition PTE_P :: pte_flags where "PTE_P = push_bit 7 1"
definition PTE_W :: pte_flags where "PTE_W = push_bit 8 1"
definition PTE_G :: pte_flags where "PTE_G = push_bit 10 1"
definition PTE_NR :: pte_flags where "PTE_NR = push_bit 11 1"
definition PTE_NX :: pte_flags where "PTE_NX = push_bit 12 1"
definition PTE_RPLV :: pte_flags where "PTE_RPLV = push_bit 63 1"
definition PTE_COW :: pte_flags where "PTE_COW = push_bit 49 1"
definition PTE_W_BACKUP :: pte_flags where "PTE_W_BACKUP = push_bit 48 1"

definition PTE_all :: pte_flags where
  "PTE_all = PTE_V OR PTE_D OR PTE_PLV_USER OR PTE_MAT_NOCACHE OR PTE_GH OR PTE_P OR PTE_W OR PTE_G
     OR PTE_NR OR PTE_NX OR PTE_RPLV OR PTE_COW OR PTE_W_BACKUP"

definition MP_R :: map_permission where "MP_R = push_bit 1 1"
definition MP_W :: map_permission where "MP_W = push_bit 2 1"
definition MP_X :: map_permission where "MP_X = push_bit 3 1"
definition MP_U :: map_permission where "MP_U = push_bit 4 1"
definition MP_D :: map_permission where "MP_D = push_bit 6 1"

subsection \<open>Entries\<close>

definition pte_new_table :: "phys_addr \<Rightarrow> pte option" where
  "pte_new_table paddr = do { ensure (paddr mod of_nat PAGE_SIZE = 0); Some paddr }"

definition pte_new :: "ppn \<Rightarrow> pte_flags \<Rightarrow> pte option" where
  "pte_new p flags = do {
     w \<leftarrow> usize_set_bits 0 PAGE_SIZE_BITS PALEN (of_nat p);
     Some (w OR flags) }"

definition pte_empty :: pte where
  "pte_empty = 0"

definition pte_ppn :: "pte \<Rightarrow> ppn option" where
  "pte_ppn e = map_option unat (usize_get_bits e PAGE_SIZE_BITS PALEN)"

definition pte_address :: "pte \<Rightarrow> phys_addr" where
  "pte_address e = e AND 0xfffffffff000"

definition pte_flags_of :: "pte \<Rightarrow> pte_flags option" where
  "pte_flags_of e = do {
     w \<leftarrow> usize_set_bits e PAGE_SIZE_BITS PALEN 0;
     fl_from_bits PTE_all w }"

definition pte_is_valid :: "pte \<Rightarrow> bool" where
  "pte_is_valid e = (e \<noteq> 0)"

definition pte_writable :: "pte \<Rightarrow> bool option" where
  "pte_writable e = do { f \<leftarrow> pte_flags_of e; Some (f AND PTE_W \<noteq> 0) }"

definition pte_readable :: "pte \<Rightarrow> bool option" where
  "pte_readable e = do { f \<leftarrow> pte_flags_of e; Some (\<not> (f AND PTE_NR \<noteq> 0)) }"

definition pte_executable :: "pte \<Rightarrow> bool option" where
  "pte_executable e = do { f \<leftarrow> pte_flags_of e; Some (\<not> (f AND PTE_NX \<noteq> 0)) }"

definition pte_set_dirty :: "pte \<Rightarrow> pte option" where
  "pte_set_dirty e = usize_set_bit e 1 True"

definition pte_set_flags :: "pte \<Rightarrow> pte_flags \<Rightarrow> pte" where
  "pte_set_flags e flags = (
     let ppn_bits = e AND NOT (push_bit PAGE_SIZE_BITS 1 - 1) AND NOT (push_bit 61 7 OR push_bit 9 3)
     in ppn_bits OR flags)"

definition pte_set_ppn :: "pte \<Rightarrow> phys_addr \<Rightarrow> pte" where
  "pte_set_ppn e paddr = (
     let p = drop_bit PAGE_SIZE_BITS paddr;
         flags_bits = (e AND (push_bit PAGE_SIZE_BITS 1 - 1)) OR (e AND push_bit 61 7) OR (e AND push_bit 9 3)
     in flags_bits OR push_bit PAGE_SIZE_BITS (p AND (push_bit (PALEN - PAGE_SIZE_BITS) 1 - 1)))"

definition pte_set_cow :: "pte \<Rightarrow> pte option" where
  "pte_set_cow e = do {
     flags \<leftarrow> pte_flags_of e;
     (let flags = (if fl_contains flags PTE_W
                   then fl_remove (fl_insert flags PTE_W_BACKUP) PTE_W else flags);
          flags = fl_insert flags PTE_COW
      in Some (pte_set_flags e flags)) }"

definition pte_is_cow :: "pte \<Rightarrow> bool option" where
  "pte_is_cow e = do { f \<leftarrow> pte_flags_of e; Some (fl_contains f PTE_COW) }"

definition pte_un_cow :: "pte \<Rightarrow> pte option" where
  "pte_un_cow e = do {
     flags \<leftarrow> pte_flags_of e;
     (let flags = (if fl_contains flags PTE_W_BACKUP then fl_insert flags PTE_W else flags);
          flags = fl_remove flags PTE_COW;
          flags = fl_remove flags PTE_W_BACKUP
      in Some (pte_set_flags e flags)) }"

definition pte_clear_cow :: "pte \<Rightarrow> pte option" where
  "pte_clear_cow e = do {
     flags \<leftarrow> pte_flags_of e;
     (let flags = fl_remove flags PTE_COW;
          flags = (if fl_contains flags PTE_W_BACKUP
                   then fl_remove (fl_insert flags PTE_W) PTE_W_BACKUP else flags)
      in Some (pte_set_flags e flags)) }"

subsection \<open>Permissions\<close>

definition pte_flags_of_perm :: "map_permission \<Rightarrow> pte_flags" where
  "pte_flags_of_perm v = (
     let flags = PTE_V OR PTE_P;
         flags = (if fl_contains v MP_W then flags OR (PTE_W OR PTE_D) else flags);
         flags = (if fl_contains v MP_U then flags OR PTE_PLV_USER else flags)
     in flags)"

definition perm_of_pte_flags :: "pte_flags \<Rightarrow> map_permission" where
  "perm_of_pte_flags v = (
     let flags = 0;
         flags = (if fl_contains v PTE_W then flags OR MP_W else flags);
         flags = (if fl_contains v PTE_D then flags OR MP_D else flags);
         flags = (if fl_contains v PTE_PLV_USER then flags OR MP_U else flags)
     in flags)"

subsection \<open>Bits of the constants\<close>

lemma PTE_const_bits:
  "bit PTE_V n \<longleftrightarrow> n = 0" "bit PTE_D n \<longleftrightarrow> n = 1" "bit PTE_PLV_USER n \<longleftrightarrow> n = 2 \<or> n = 3"
  "bit PTE_MAT_NOCACHE n \<longleftrightarrow> n = 4" "bit PTE_GH n \<longleftrightarrow> n = 6" "bit PTE_P n \<longleftrightarrow> n = 7"
  "bit PTE_W n \<longleftrightarrow> n = 8" "bit PTE_G n \<longleftrightarrow> n = 10" "bit PTE_NR n \<longleftrightarrow> n = 11"
  "bit PTE_NX n \<longleftrightarrow> n = 12" "bit PTE_RPLV n \<longleftrightarrow> n = 63" "bit PTE_COW n \<longleftrightarrow> n = 49"
  "bit PTE_W_BACKUP n \<longleftrightarrow> n = 48"
proof -
  have e: "PTE_PLV_USER = push_bit 2 1 OR push_bit 3 1" "PTE_MAT_NOCACHE = push_bit 4 1"
    by (simp_all add: PTE_PLV_USER_def PTE_MAT_NOCACHE_def)
  show "bit PTE_PLV_USER n \<longleftrightarrow> n = 2 \<or> n = 3" "bit PTE_MAT_NOCACHE n \<longleftrightarrow> n = 4"
    unfolding e bit_or_iff bit_push_bit_iff bit_1_iff by auto
qed (unfold PTE_V_def PTE_D_def PTE_GH_def PTE_P_def PTE_W_def PTE_G_def PTE_NR_def PTE_NX_def
    PTE_RPLV_def PTE_COW_def PTE_W_BACKUP_def bit_push_bit_iff bit_1_iff, auto)

lemma PTE_all_bit: "bit PTE_all n \<longleftrightarrow> n \<in> {0, 1, 2, 3, 4, 6, 7, 8, 10, 11, 12, 48, 49, 63}"
  by (auto simp: PTE_all_def bit_or_iff PTE_const_bits)


lemma MP_const_bits:
  "bit MP_R n \<longleftrightarrow> n = 1" "bit MP_W n \<longleftrightarrow> n = 2" "bit MP_X n \<longleftrightarrow> n = 3" "bit MP_U n \<longleftrightarrow> n = 4"
  "bit MP_D n \<longleftrightarrow> n = 6"
  unfolding MP_R_def MP_W_def MP_X_def MP_U_def MP_D_def bit_push_bit_iff bit_1_iff by auto

lemma fl_contains_const:
  "fl_contains f PTE_W \<longleftrightarrow> bit f 8" "fl_contains f PTE_COW \<longleftrightarrow> bit f 49"
  "fl_contains f PTE_W_BACKUP \<longleftrightarrow> bit f 48" "fl_contains f PTE_D \<longleftrightarrow> bit f 1"
  "fl_contains f PTE_PLV_USER \<longleftrightarrow> bit f 2 \<and> bit f 3"
  by (auto simp: fl_contains_bit PTE_const_bits)

lemma perm_contains_const:
  "fl_contains v MP_R \<longleftrightarrow> bit v 1" "fl_contains v MP_W \<longleftrightarrow> bit v 2" "fl_contains v MP_X \<longleftrightarrow> bit v 3"
  "fl_contains v MP_U \<longleftrightarrow> bit v 4"
  by (auto simp: fl_contains_bit MP_const_bits)

subsection \<open>Bits of the operations\<close>

lemma and_neq_0_const: "(f AND PTE_W \<noteq> 0) \<longleftrightarrow> bit f 8" "(f AND PTE_NX \<noteq> 0) \<longleftrightarrow> bit f 12"
  "(f AND PTE_NR \<noteq> 0) \<longleftrightarrow> bit f 11"
  using fl_intersects_bit [of f PTE_W] fl_intersects_bit [of f PTE_NX] fl_intersects_bit [of f PTE_NR]
  by (auto simp: fl_intersects_def PTE_const_bits)

lemma pte_flags_of_Some:
  "pte_flags_of e = Some f \<longleftrightarrow>
     (\<forall>n. bit f n \<longleftrightarrow> bit e n \<and> \<not> (12 \<le> n \<and> n < 48)) \<and>
     (\<forall>n. bit e n \<and> \<not> (12 \<le> n \<and> n < 48) \<longrightarrow> bit PTE_all n)"
proof -
  obtain w where w: "usize_set_bits e PAGE_SIZE_BITS PALEN 0 = Some w"
    by (simp add: usize_set_bits_def PAGE_SIZE_BITS_def PALEN_def)
  have b: "bit w n \<longleftrightarrow> bit e n \<and> \<not> (12 \<le> n \<and> n < 48)" for n
    using usize_set_bits_bit [OF w, of n] by (auto simp: PAGE_SIZE_BITS_def PALEN_def)
  have "pte_flags_of e = Some f \<longleftrightarrow> f = w \<and> (\<forall>n. bit w n \<longrightarrow> bit PTE_all n)"
    by (simp add: pte_flags_of_def w fl_from_bits_Some)
  also have "f = w \<longleftrightarrow> (\<forall>n. bit f n \<longleftrightarrow> bit w n)"
    by (metis bit_word_eqI)
  finally show ?thesis by (simp add: b)
qed

lemma pte_set_flags_bit:
  "bit (pte_set_flags e f) n \<longleftrightarrow> bit f n \<or> (bit e n \<and> 12 \<le> n \<and> n < 61)"
proof -
  have m: "bit (push_bit PAGE_SIZE_BITS 1 - 1 :: usize) n \<longleftrightarrow> n < 12" for n
    using bit_mask_iff [where ?'a = "64 word", of 12 n] by (auto simp: mask_eq_exp_minus_1 PAGE_SIZE_BITS_def)
  have h: "bit (push_bit 61 7 :: usize) n \<longleftrightarrow> 61 \<le> n \<and> n < 64" for n
  proof -
    have m: "(7 :: usize) = mask 3" by (simp add: mask_eq_exp_minus_1)
    show ?thesis unfolding m bit_push_bit_iff bit_mask_iff by auto
  qed
  have l: "bit (push_bit 9 3 :: usize) n \<longleftrightarrow> n = 9 \<or> n = 10" for n
  proof -
    have m: "(3 :: usize) = mask 2" by (simp add: mask_eq_exp_minus_1)
    show ?thesis unfolding m bit_push_bit_iff bit_mask_iff by auto
  qed
  show ?thesis
    unfolding pte_set_flags_def Let_def bit_or_iff bit_and_iff bit_not_iff m h l
    by (auto dest: bit_usize_less)
qed

lemma pte_new_bit:
  assumes "pte_new p f = Some e"
  shows "p < 2 ^ 36 \<or> 2 ^ 64 \<le> p" "bit e n \<longleftrightarrow> bit f n \<or> (12 \<le> n \<and> n < 48 \<and> bit (of_nat p :: usize) (n - 12))"
proof -
  obtain w where w: "usize_set_bits 0 12 48 (of_nat p) = Some w" and e: "e = w OR f"
    using assms by (auto simp: pte_new_def PAGE_SIZE_BITS_def PALEN_def bind_eq_Some_conv)
  have fit: "\<forall>n. bit (of_nat p :: usize) n \<longrightarrow> n < 36"
    using w usize_set_bits_fits [of 12 48 "of_nat p"] by (auto simp: usize_set_bits_def Let_def)
  then have "take_bit 36 (of_nat p :: usize) = of_nat p"
    by (intro bit_word_eqI) (auto simp: bit_take_bit_iff)
  then have "unat (of_nat p :: usize) < 2 ^ 36"
    by (metis take_bit_nat_less_exp unsigned_take_bit_eq)
  then show "p < 2 ^ 36 \<or> 2 ^ 64 \<le> p"
    by (cases "p < 2 ^ 64") (auto simp: unat_of_nat)
  show "bit e n \<longleftrightarrow> bit f n \<or> (12 \<le> n \<and> n < 48 \<and> bit (of_nat p :: usize) (n - 12))"
    using usize_set_bits_bit [OF w, of n] by (auto simp: e bit_or_iff)
qed


lemma pte_new_ex:
  assumes "p < 2 ^ 36"
  shows "\<exists>e. pte_new p f = Some e"
proof -
  have "\<forall>n. bit (of_nat p :: usize) n \<longrightarrow> n < 36"
  proof (intro allI impI)
    fix n assume b: "bit (of_nat p :: usize) n"
    have "take_bit 36 p = p" using assms by (simp add: take_bit_nat_eq_self)
    then have "bit (take_bit 36 p) n"
      using b by (simp add: bit_of_nat_iff)
    then show "n < 36" by (simp add: bit_take_bit_iff)
  qed
  then show ?thesis
    using usize_set_bits_fits [of 12 48 "of_nat p"]
    by (simp add: pte_new_def usize_set_bits_def PAGE_SIZE_BITS_def PALEN_def Let_def)
qed

text \<open>The page number in an entry, read from its bits.\<close>

lemma pte_ppn_eqI:
  assumes "\<And>n. n < 36 \<Longrightarrow> bit e (n + 12) \<longleftrightarrow> bit (of_nat p :: usize) n" "p < 2 ^ 36"
  shows "pte_ppn e = Some p"
proof -
  obtain r where r: "usize_get_bits e 12 48 = Some r" by (simp add: usize_get_bits_def)
  have p: "take_bit 36 p = p" using assms(2) by (simp add: take_bit_nat_eq_self)
  have "bit r n \<longleftrightarrow> bit (of_nat p :: usize) n" for n
  proof (cases "n < 36")
    case True
    then show ?thesis using usize_get_bits_bit [OF r, of n] assms(1) by (simp add: add.commute)
  next
    case False
    then have "\<not> bit p n" by (metis bit_take_bit_iff p)
    then show ?thesis using False usize_get_bits_bit [OF r, of n] by (simp add: bit_of_nat_iff)
  qed
  then have "r = of_nat p" by (intro bit_word_eqI) simp
  then show ?thesis
    using assms(2) by (simp add: pte_ppn_def PAGE_SIZE_BITS_def PALEN_def r unat_of_nat)
qed

lemma pte_ppn_cong:
  assumes "\<And>n. 12 \<le> n \<Longrightarrow> n < 48 \<Longrightarrow> bit e n \<longleftrightarrow> bit e' n"
  shows "pte_ppn e = pte_ppn e'"
proof -
  obtain r where r: "usize_get_bits e 12 48 = Some r" by (simp add: usize_get_bits_def)
  obtain r' where r': "usize_get_bits e' 12 48 = Some r'" by (simp add: usize_get_bits_def)
  have "bit r n \<longleftrightarrow> bit r' n" for n
    using usize_get_bits_bit [OF r, of n] usize_get_bits_bit [OF r', of n] assms [of "n + 12"]
    by (auto simp: add.commute)
  then have "r = r'" by (intro bit_word_eqI) simp
  then show ?thesis by (simp add: pte_ppn_def PAGE_SIZE_BITS_def PALEN_def r r')
qed

lemma pte_new_ppn:
  assumes "p < 2 ^ 36" "pte_new p f = Some e" "\<forall>n. bit f n \<longrightarrow> n < 12 \<or> 48 \<le> n"
  shows "pte_ppn e = Some p"
  using assms(1,3) pte_new_bit(2) [OF assms(2)] by (intro pte_ppn_eqI) auto

definition pte_flags_ok :: "pte_flags \<Rightarrow> bool" where
  "pte_flags_ok f = fl_contains (fl_remove PTE_all PTE_NX) f"

lemma pte_flags_ok_bits:
  "pte_flags_ok f \<longleftrightarrow> (\<forall>n. bit f n \<longrightarrow> n \<in> {0, 1, 2, 3, 4, 6, 7, 8, 10, 11, 48, 49, 63})"
  by (auto simp: pte_flags_ok_def fl_contains_bit fl_remove_bit PTE_all_bit PTE_const_bits)

lemma pte_flags_ok_iff: "pte_flags_ok f \<longleftrightarrow> (\<forall>n. bit f n \<longrightarrow> bit PTE_all n \<and> n \<noteq> 12)"
  by (auto simp: pte_flags_ok_def fl_contains_bit fl_remove_bit PTE_const_bits)

lemma PTE_all_mem: "bit PTE_all 8" "bit PTE_all 48" "bit PTE_all 49"
  by (simp_all add: PTE_all_bit)

interpretation la64: pte_codec pte_new pte_ppn pte_flags_of "\<lambda>p. p < 2 ^ 36" pte_flags_ok
proof unfold_locales
  fix p :: nat and f
  assume p: "p < 2 ^ 36" and f: "pte_flags_ok f"
  then obtain e where e: "pte_new p f = Some e" using pte_new_ex by blast
  have fb: "\<And>n. bit f n \<Longrightarrow> (n < 12 \<or> 48 \<le> n) \<and> bit PTE_all n"
    using f by (auto simp: pte_flags_ok_bits PTE_all_bit)
  have "pte_flags_of e = Some f"
    unfolding pte_flags_of_Some pte_new_bit(2) [OF e] using fb by (metis not_le)
  then show "\<exists>e. pte_new p f = Some e \<and> pte_ppn e = Some p \<and> pte_flags_of e = Some f"
    using e pte_new_ppn [OF p e] fb by blast
qed

subsection \<open>Copy on write\<close>

lemma pte_set_flags_of:
  assumes "pte_flags_of e = Some f" "pte_flags_ok g"
  shows "pte_flags_of (pte_set_flags e g) = Some (fl_insert g (f AND (PTE_COW OR PTE_W_BACKUP)))"
    "pte_ppn (pte_set_flags e g) = pte_ppn e"
proof -
  have g: "bit g n \<Longrightarrow> (n < 12 \<or> 48 \<le> n) \<and> bit PTE_all n" for n
    using assms(2) by (auto simp: pte_flags_ok_bits PTE_all_bit)
  have f: "bit f n \<longleftrightarrow> bit e n \<and> \<not> (12 \<le> n \<and> n < 48)" "bit f n \<Longrightarrow> bit PTE_all n" for n
    using assms(1) by (auto simp: pte_flags_of_Some)
  have keep: "bit e n \<and> 48 \<le> n \<and> n < 61 \<longleftrightarrow> bit f n \<and> (n = 48 \<or> n = 49)" for n
    using f(1) [of n] f(2) [of n] by (auto simp: PTE_all_bit)
  show "pte_flags_of (pte_set_flags e g) = Some (fl_insert g (f AND (PTE_COW OR PTE_W_BACKUP)))"
    unfolding pte_flags_of_Some pte_set_flags_bit fl_insert_bit bit_and_iff bit_or_iff PTE_const_bits
  proof (intro conjI allI impI)
    fix n :: nat
    consider "n < 12" | "12 \<le> n" "n < 48" | "48 \<le> n" "n < 61" | "61 \<le> n" by linarith
    then show "(bit g n \<or> bit f n \<and> (n = 49 \<or> n = 48)) =
        ((bit g n \<or> bit e n \<and> 12 \<le> n \<and> n < 61) \<and> \<not> (12 \<le> n \<and> n < 48))"
      using g [of n] keep [of n] by cases auto
    assume "(bit g n \<or> bit e n \<and> 12 \<le> n \<and> n < 61) \<and> \<not> (12 \<le> n \<and> n < 48)"
    then show "bit PTE_all n"
      using g [of n] f [of n] by blast
  qed
  show "pte_ppn (pte_set_flags e g) = pte_ppn e"
  proof (rule pte_ppn_cong)
    fix n :: nat assume "12 \<le> n" "n < 48"
    then show "bit (pte_set_flags e g) n = bit e n"
      using g [of n] by (auto simp: pte_set_flags_bit)
  qed
qed

lemma pte_flags_of_ok: "pte_flags_of e = Some f \<Longrightarrow> pte_flags_ok f"
  unfolding pte_flags_of_Some pte_flags_ok_iff by fastforce

lemma pte_set_cow_flags:
  assumes "pte_flags_of e = Some f"
  obtains e' f' where "pte_set_cow e = Some e'" "pte_ppn e' = pte_ppn e" "pte_flags_of e' = Some f'"
    "\<And>n. bit f' n \<longleftrightarrow> n = 49 \<or> (n = 48 \<and> bit f 8) \<or> (bit f n \<and> n \<noteq> 8)"
proof -
  define g where "g = fl_insert (if fl_contains f PTE_W
    then fl_remove (fl_insert f PTE_W_BACKUP) PTE_W else f) PTE_COW"
  have gb: "bit g n \<longleftrightarrow> n = 49 \<or> (n = 48 \<and> bit f 8) \<or> (bit f n \<and> n \<noteq> 8)" for n
    by (auto simp: g_def fl_bits PTE_const_bits fl_contains_const)
  have ok: "pte_flags_ok g"
    using pte_flags_of_ok [OF assms] PTE_all_mem by (auto simp: pte_flags_ok_iff gb)
  have s: "pte_set_cow e = Some (pte_set_flags e g)"
    using assms by (simp add: pte_set_cow_def g_def)
  have "bit (fl_insert g (f AND (PTE_COW OR PTE_W_BACKUP))) n \<longleftrightarrow> n = 49 \<or> (n = 48 \<and> bit f 8) \<or> (bit f n \<and> n \<noteq> 8)"
    for n unfolding fl_insert_bit bit_and_iff bit_or_iff PTE_const_bits gb by auto
  then show thesis
    by (rule that [OF s pte_set_flags_of(2) [OF assms ok] pte_set_flags_of(1) [OF assms ok]])
qed

lemma pte_un_cow_flags:
  assumes "pte_flags_of e = Some f"
  obtains e' f' where "pte_un_cow e = Some e'" "pte_ppn e' = pte_ppn e" "pte_flags_of e' = Some f'"
    "\<And>n. bit f' n \<longleftrightarrow> bit f n \<or> (n = 8 \<and> bit f 48)"
proof -
  define g where "g = fl_remove (fl_remove (if fl_contains f PTE_W_BACKUP
    then fl_insert f PTE_W else f) PTE_COW) PTE_W_BACKUP"
  have gb: "bit g n \<longleftrightarrow> n \<noteq> 48 \<and> n \<noteq> 49 \<and> (bit f n \<or> (n = 8 \<and> bit f 48))" for n
    by (auto simp: g_def fl_bits PTE_const_bits fl_contains_const)
  have ok: "pte_flags_ok g"
    using pte_flags_of_ok [OF assms] PTE_all_mem by (auto simp: pte_flags_ok_iff gb)
  have s: "pte_un_cow e = Some (pte_set_flags e g)"
    using assms by (simp add: pte_un_cow_def g_def)
  have "bit (fl_insert g (f AND (PTE_COW OR PTE_W_BACKUP))) n \<longleftrightarrow> bit f n \<or> (n = 8 \<and> bit f 48)"
    for n unfolding fl_insert_bit bit_and_iff bit_or_iff PTE_const_bits gb by auto
  then show thesis
    by (rule that [OF s pte_set_flags_of(2) [OF assms ok] pte_set_flags_of(1) [OF assms ok]])
qed

lemma pte_writable_bit: "pte_flags_of e = Some f \<Longrightarrow> pte_writable e = Some (bit f 8)"
  by (simp add: pte_writable_def and_neq_0_const)

lemma pte_is_cow_bit: "pte_flags_of e = Some f \<Longrightarrow> pte_is_cow e = Some (bit f 49)"
  by (simp add: pte_is_cow_def fl_contains_const)

text \<open>
  The declared \<open>NX\<close> bit lies in the page-number field, which \<open>flags\<close> clears: every entry whose flags
  can be read is reported executable.
\<close>

lemma pte_executable_always: "pte_flags_of e = Some f \<Longrightarrow> pte_executable e = Some True"
  using pte_flags_of_ok [of e f] unfolding pte_executable_def pte_flags_ok_iff
  by (auto simp: and_neq_0_const)

end
