(* ===== verification/Errno.thy ===== *)
theory Errno
  imports Prelude
begin

text \<open>
  The kernel's error numbers (\<open>os/src/utils/error.rs\<close>).  \<open>SysErrNo\<close> is a \<open>repr(i32)\<close> enum;
  the model keeps its discriminant, the table below lists the declared variants, and every
  variant has an abbreviation with the name it has in the source.  \<open>from_primitive\<close> is the
  conversion the \<open>FromPrimitive\<close> derive gives, with \<open>Default\<close> for an undeclared number;
  \<open>err_str\<close> is the message function, whose \<open>Default\<close> arm panics.
\<close>

datatype sys_err_no = SysErrNo nat

primrec errno :: "sys_err_no \<Rightarrow> nat" where
  "errno (SysErrNo n) = n"

definition sys_err_table :: "(nat \<times> string) list" where
  "sys_err_table = [
     (0, ''EUNDEF''), (1, ''EPERM''), (2, ''ENOENT''), (3, ''ESRCH''), (4, ''EINTR''),
     (5, ''EIO''), (6, ''ENXIO''), (7, ''E2BIG''), (8, ''ENOEXEC''), (9, ''EBADF''),
     (10, ''ECHILD''), (11, ''EAGAIN''), (12, ''ENOMEM''), (13, ''EACCES''), (14, ''EFAULT''),
     (15, ''ENOTBLK''), (16, ''EBUSY''), (17, ''EEXIST''), (18, ''EXDEV''), (19, ''ENODEV''),
     (20, ''ENOTDIR''), (21, ''EISDIR''), (22, ''EINVAL''), (23, ''ENFILE''), (24, ''EMFILE''),
     (25, ''ENOTTY''), (26, ''ETXTBSY''), (27, ''EFBIG''), (28, ''ENOSPC''), (29, ''ESPIPE''),
     (30, ''EROFS''), (31, ''EMLINK''), (32, ''EPIPE''), (33, ''EDOM''), (34, ''ERANGE''),
     (35, ''EDEADLK''), (36, ''ENAMETOOLONG''), (37, ''ENOLCK''), (38, ''ENOSYS''),
     (39, ''ENOTEMPTY''), (40, ''ELOOP''), (42, ''ENOMSG''), (43, ''EIDRM''), (44, ''ECHRNG''),
     (45, ''EL2NSYNC''), (46, ''EL3HLT''), (47, ''EL3RST''), (48, ''ELNRNG''), (49, ''EUNATCH''),
     (50, ''ENOCSI''), (51, ''EL2HLT''), (52, ''EBADE''), (53, ''EBADR''), (54, ''EXFULL''),
     (55, ''ENOANO''), (56, ''EBADRQC''), (57, ''EBADSLT''), (59, ''EBFONT''), (60, ''ENOSTR''),
     (61, ''ENODATA''), (62, ''ETIME''), (63, ''ENOSR''), (64, ''ENONET''), (65, ''ENOPKG''),
     (66, ''EREMOTE''), (67, ''ENOLINK''), (68, ''EADV''), (69, ''ESRMNT''), (70, ''ECOMM''),
     (71, ''EPROTO''), (72, ''EMULTIHOP''), (73, ''EDOTDOT''), (74, ''EBADMSG''),
     (75, ''EOVERFLOW''), (76, ''ENOTUNIQ''), (77, ''EBADFD''), (78, ''EREMCHG''),
     (79, ''ELIBACC''), (80, ''ELIBBAD''), (81, ''ELIBSCN''), (82, ''ELIBMAX''),
     (83, ''ELIBEXEC''), (84, ''EILSEQ''), (85, ''ERESTART''), (86, ''ESTRPIPE''),
     (87, ''EUSERS''), (88, ''ENOTSOCK''), (89, ''EDESTADDRREQ''), (90, ''EMSGSIZE''),
     (91, ''EPROTOTYPE''), (92, ''ENOPROTOOPT''), (93, ''EPROTONOSUPPORT''),
     (94, ''ESOCKTNOSUPPORT''), (95, ''EOPNOTSUPP''), (96, ''EPFNOSUPPORT''),
     (97, ''EAFNOSUPPORT''), (98, ''EADDRINUSE''), (99, ''EADDRNOTAVAIL''), (100, ''ENETDOWN''),
     (101, ''ENETUNREACH''), (102, ''ENETRESET''), (103, ''ECONNABORTED''),
     (104, ''ECONNRESET''), (105, ''ENOBUFS''), (106, ''EISCONN''), (107, ''ENOTCONN''),
     (108, ''ESHUTDOWN''), (109, ''ETOOMANYREFS''), (110, ''ETIMEDOUT''),
     (111, ''ECONNREFUSED''), (112, ''EHOSTDOWN''), (113, ''EHOSTUNREACH''), (114, ''EALREADY''),
     (115, ''EINPROGRESS''), (116, ''ESTALE''), (117, ''EUCLEAN''), (118, ''ENOTNAM''),
     (119, ''ENAVAIL''), (120, ''EISNAM''), (121, ''EREMOTEIO''), (122, ''EDQUOT''),
     (123, ''ENOMEDIUM''), (124, ''EMEDIUMTYPE''), (125, ''ECANCELED''), (126, ''ENOKEY''),
     (127, ''EKEYEXPIRED''), (128, ''EKEYREVOKED''), (129, ''EKEYREJECTED''),
     (130, ''EOWNERDEAD''), (131, ''ENOTRECOVERABLE''), (132, ''ERFKILL''), (133, ''EHWPOISON''),
     (255, ''Default'')]"

abbreviation EUNDEF :: sys_err_no where "EUNDEF \<equiv> SysErrNo 0"
abbreviation EPERM :: sys_err_no where "EPERM \<equiv> SysErrNo 1"
abbreviation ENOENT :: sys_err_no where "ENOENT \<equiv> SysErrNo 2"
abbreviation ESRCH :: sys_err_no where "ESRCH \<equiv> SysErrNo 3"
abbreviation EINTR :: sys_err_no where "EINTR \<equiv> SysErrNo 4"
abbreviation EIO :: sys_err_no where "EIO \<equiv> SysErrNo 5"
abbreviation ENXIO :: sys_err_no where "ENXIO \<equiv> SysErrNo 6"
abbreviation E2BIG :: sys_err_no where "E2BIG \<equiv> SysErrNo 7"
abbreviation ENOEXEC :: sys_err_no where "ENOEXEC \<equiv> SysErrNo 8"
abbreviation EBADF :: sys_err_no where "EBADF \<equiv> SysErrNo 9"
abbreviation ECHILD :: sys_err_no where "ECHILD \<equiv> SysErrNo 10"
abbreviation EAGAIN :: sys_err_no where "EAGAIN \<equiv> SysErrNo 11"
abbreviation ENOMEM :: sys_err_no where "ENOMEM \<equiv> SysErrNo 12"
abbreviation EACCES :: sys_err_no where "EACCES \<equiv> SysErrNo 13"
abbreviation EFAULT :: sys_err_no where "EFAULT \<equiv> SysErrNo 14"
abbreviation ENOTBLK :: sys_err_no where "ENOTBLK \<equiv> SysErrNo 15"
abbreviation EBUSY :: sys_err_no where "EBUSY \<equiv> SysErrNo 16"
abbreviation EEXIST :: sys_err_no where "EEXIST \<equiv> SysErrNo 17"
abbreviation EXDEV :: sys_err_no where "EXDEV \<equiv> SysErrNo 18"
abbreviation ENODEV :: sys_err_no where "ENODEV \<equiv> SysErrNo 19"
abbreviation ENOTDIR :: sys_err_no where "ENOTDIR \<equiv> SysErrNo 20"
abbreviation EISDIR :: sys_err_no where "EISDIR \<equiv> SysErrNo 21"
abbreviation EINVAL :: sys_err_no where "EINVAL \<equiv> SysErrNo 22"
abbreviation ENFILE :: sys_err_no where "ENFILE \<equiv> SysErrNo 23"
abbreviation EMFILE :: sys_err_no where "EMFILE \<equiv> SysErrNo 24"
abbreviation ENOTTY :: sys_err_no where "ENOTTY \<equiv> SysErrNo 25"
abbreviation ETXTBSY :: sys_err_no where "ETXTBSY \<equiv> SysErrNo 26"
abbreviation EFBIG :: sys_err_no where "EFBIG \<equiv> SysErrNo 27"
abbreviation ENOSPC :: sys_err_no where "ENOSPC \<equiv> SysErrNo 28"
abbreviation ESPIPE :: sys_err_no where "ESPIPE \<equiv> SysErrNo 29"
abbreviation EROFS :: sys_err_no where "EROFS \<equiv> SysErrNo 30"
abbreviation EMLINK :: sys_err_no where "EMLINK \<equiv> SysErrNo 31"
abbreviation EPIPE :: sys_err_no where "EPIPE \<equiv> SysErrNo 32"
abbreviation EDOM :: sys_err_no where "EDOM \<equiv> SysErrNo 33"
abbreviation ERANGE :: sys_err_no where "ERANGE \<equiv> SysErrNo 34"
abbreviation EDEADLK :: sys_err_no where "EDEADLK \<equiv> SysErrNo 35"
abbreviation ENAMETOOLONG :: sys_err_no where "ENAMETOOLONG \<equiv> SysErrNo 36"
abbreviation ENOLCK :: sys_err_no where "ENOLCK \<equiv> SysErrNo 37"
abbreviation ENOSYS :: sys_err_no where "ENOSYS \<equiv> SysErrNo 38"
abbreviation ENOTEMPTY :: sys_err_no where "ENOTEMPTY \<equiv> SysErrNo 39"
abbreviation ELOOP :: sys_err_no where "ELOOP \<equiv> SysErrNo 40"
abbreviation ENOMSG :: sys_err_no where "ENOMSG \<equiv> SysErrNo 42"
abbreviation EIDRM :: sys_err_no where "EIDRM \<equiv> SysErrNo 43"
abbreviation ECHRNG :: sys_err_no where "ECHRNG \<equiv> SysErrNo 44"
abbreviation EL2NSYNC :: sys_err_no where "EL2NSYNC \<equiv> SysErrNo 45"
abbreviation EL3HLT :: sys_err_no where "EL3HLT \<equiv> SysErrNo 46"
abbreviation EL3RST :: sys_err_no where "EL3RST \<equiv> SysErrNo 47"
abbreviation ELNRNG :: sys_err_no where "ELNRNG \<equiv> SysErrNo 48"
abbreviation EUNATCH :: sys_err_no where "EUNATCH \<equiv> SysErrNo 49"
abbreviation ENOCSI :: sys_err_no where "ENOCSI \<equiv> SysErrNo 50"
abbreviation EL2HLT :: sys_err_no where "EL2HLT \<equiv> SysErrNo 51"
abbreviation EBADE :: sys_err_no where "EBADE \<equiv> SysErrNo 52"
abbreviation EBADR :: sys_err_no where "EBADR \<equiv> SysErrNo 53"
abbreviation EXFULL :: sys_err_no where "EXFULL \<equiv> SysErrNo 54"
abbreviation ENOANO :: sys_err_no where "ENOANO \<equiv> SysErrNo 55"
abbreviation EBADRQC :: sys_err_no where "EBADRQC \<equiv> SysErrNo 56"
abbreviation EBADSLT :: sys_err_no where "EBADSLT \<equiv> SysErrNo 57"
abbreviation EBFONT :: sys_err_no where "EBFONT \<equiv> SysErrNo 59"
abbreviation ENOSTR :: sys_err_no where "ENOSTR \<equiv> SysErrNo 60"
abbreviation ENODATA :: sys_err_no where "ENODATA \<equiv> SysErrNo 61"
abbreviation ETIME :: sys_err_no where "ETIME \<equiv> SysErrNo 62"
abbreviation ENOSR :: sys_err_no where "ENOSR \<equiv> SysErrNo 63"
abbreviation ENONET :: sys_err_no where "ENONET \<equiv> SysErrNo 64"
abbreviation ENOPKG :: sys_err_no where "ENOPKG \<equiv> SysErrNo 65"
abbreviation EREMOTE :: sys_err_no where "EREMOTE \<equiv> SysErrNo 66"
abbreviation ENOLINK :: sys_err_no where "ENOLINK \<equiv> SysErrNo 67"
abbreviation EADV :: sys_err_no where "EADV \<equiv> SysErrNo 68"
abbreviation ESRMNT :: sys_err_no where "ESRMNT \<equiv> SysErrNo 69"
abbreviation ECOMM :: sys_err_no where "ECOMM \<equiv> SysErrNo 70"
abbreviation EPROTO :: sys_err_no where "EPROTO \<equiv> SysErrNo 71"
abbreviation EMULTIHOP :: sys_err_no where "EMULTIHOP \<equiv> SysErrNo 72"
abbreviation EDOTDOT :: sys_err_no where "EDOTDOT \<equiv> SysErrNo 73"
abbreviation EBADMSG :: sys_err_no where "EBADMSG \<equiv> SysErrNo 74"
abbreviation EOVERFLOW :: sys_err_no where "EOVERFLOW \<equiv> SysErrNo 75"
abbreviation ENOTUNIQ :: sys_err_no where "ENOTUNIQ \<equiv> SysErrNo 76"
abbreviation EBADFD :: sys_err_no where "EBADFD \<equiv> SysErrNo 77"
abbreviation EREMCHG :: sys_err_no where "EREMCHG \<equiv> SysErrNo 78"
abbreviation ELIBACC :: sys_err_no where "ELIBACC \<equiv> SysErrNo 79"
abbreviation ELIBBAD :: sys_err_no where "ELIBBAD \<equiv> SysErrNo 80"
abbreviation ELIBSCN :: sys_err_no where "ELIBSCN \<equiv> SysErrNo 81"
abbreviation ELIBMAX :: sys_err_no where "ELIBMAX \<equiv> SysErrNo 82"
abbreviation ELIBEXEC :: sys_err_no where "ELIBEXEC \<equiv> SysErrNo 83"
abbreviation EILSEQ :: sys_err_no where "EILSEQ \<equiv> SysErrNo 84"
abbreviation ERESTART :: sys_err_no where "ERESTART \<equiv> SysErrNo 85"
abbreviation ESTRPIPE :: sys_err_no where "ESTRPIPE \<equiv> SysErrNo 86"
abbreviation EUSERS :: sys_err_no where "EUSERS \<equiv> SysErrNo 87"
abbreviation ENOTSOCK :: sys_err_no where "ENOTSOCK \<equiv> SysErrNo 88"
abbreviation EDESTADDRREQ :: sys_err_no where "EDESTADDRREQ \<equiv> SysErrNo 89"
abbreviation EMSGSIZE :: sys_err_no where "EMSGSIZE \<equiv> SysErrNo 90"
abbreviation EPROTOTYPE :: sys_err_no where "EPROTOTYPE \<equiv> SysErrNo 91"
abbreviation ENOPROTOOPT :: sys_err_no where "ENOPROTOOPT \<equiv> SysErrNo 92"
abbreviation EPROTONOSUPPORT :: sys_err_no where "EPROTONOSUPPORT \<equiv> SysErrNo 93"
abbreviation ESOCKTNOSUPPORT :: sys_err_no where "ESOCKTNOSUPPORT \<equiv> SysErrNo 94"
abbreviation EOPNOTSUPP :: sys_err_no where "EOPNOTSUPP \<equiv> SysErrNo 95"
abbreviation EPFNOSUPPORT :: sys_err_no where "EPFNOSUPPORT \<equiv> SysErrNo 96"
abbreviation EAFNOSUPPORT :: sys_err_no where "EAFNOSUPPORT \<equiv> SysErrNo 97"
abbreviation EADDRINUSE :: sys_err_no where "EADDRINUSE \<equiv> SysErrNo 98"
abbreviation EADDRNOTAVAIL :: sys_err_no where "EADDRNOTAVAIL \<equiv> SysErrNo 99"
abbreviation ENETDOWN :: sys_err_no where "ENETDOWN \<equiv> SysErrNo 100"
abbreviation ENETUNREACH :: sys_err_no where "ENETUNREACH \<equiv> SysErrNo 101"
abbreviation ENETRESET :: sys_err_no where "ENETRESET \<equiv> SysErrNo 102"
abbreviation ECONNABORTED :: sys_err_no where "ECONNABORTED \<equiv> SysErrNo 103"
abbreviation ECONNRESET :: sys_err_no where "ECONNRESET \<equiv> SysErrNo 104"
abbreviation ENOBUFS :: sys_err_no where "ENOBUFS \<equiv> SysErrNo 105"
abbreviation EISCONN :: sys_err_no where "EISCONN \<equiv> SysErrNo 106"
abbreviation ENOTCONN :: sys_err_no where "ENOTCONN \<equiv> SysErrNo 107"
abbreviation ESHUTDOWN :: sys_err_no where "ESHUTDOWN \<equiv> SysErrNo 108"
abbreviation ETOOMANYREFS :: sys_err_no where "ETOOMANYREFS \<equiv> SysErrNo 109"
abbreviation ETIMEDOUT :: sys_err_no where "ETIMEDOUT \<equiv> SysErrNo 110"
abbreviation ECONNREFUSED :: sys_err_no where "ECONNREFUSED \<equiv> SysErrNo 111"
abbreviation EHOSTDOWN :: sys_err_no where "EHOSTDOWN \<equiv> SysErrNo 112"
abbreviation EHOSTUNREACH :: sys_err_no where "EHOSTUNREACH \<equiv> SysErrNo 113"
abbreviation EALREADY :: sys_err_no where "EALREADY \<equiv> SysErrNo 114"
abbreviation EINPROGRESS :: sys_err_no where "EINPROGRESS \<equiv> SysErrNo 115"
abbreviation ESTALE :: sys_err_no where "ESTALE \<equiv> SysErrNo 116"
abbreviation EUCLEAN :: sys_err_no where "EUCLEAN \<equiv> SysErrNo 117"
abbreviation ENOTNAM :: sys_err_no where "ENOTNAM \<equiv> SysErrNo 118"
abbreviation ENAVAIL :: sys_err_no where "ENAVAIL \<equiv> SysErrNo 119"
abbreviation EISNAM :: sys_err_no where "EISNAM \<equiv> SysErrNo 120"
abbreviation EREMOTEIO :: sys_err_no where "EREMOTEIO \<equiv> SysErrNo 121"
abbreviation EDQUOT :: sys_err_no where "EDQUOT \<equiv> SysErrNo 122"
abbreviation ENOMEDIUM :: sys_err_no where "ENOMEDIUM \<equiv> SysErrNo 123"
abbreviation EMEDIUMTYPE :: sys_err_no where "EMEDIUMTYPE \<equiv> SysErrNo 124"
abbreviation ECANCELED :: sys_err_no where "ECANCELED \<equiv> SysErrNo 125"
abbreviation ENOKEY :: sys_err_no where "ENOKEY \<equiv> SysErrNo 126"
abbreviation EKEYEXPIRED :: sys_err_no where "EKEYEXPIRED \<equiv> SysErrNo 127"
abbreviation EKEYREVOKED :: sys_err_no where "EKEYREVOKED \<equiv> SysErrNo 128"
abbreviation EKEYREJECTED :: sys_err_no where "EKEYREJECTED \<equiv> SysErrNo 129"
abbreviation EOWNERDEAD :: sys_err_no where "EOWNERDEAD \<equiv> SysErrNo 130"
abbreviation ENOTRECOVERABLE :: sys_err_no where "ENOTRECOVERABLE \<equiv> SysErrNo 131"
abbreviation ERFKILL :: sys_err_no where "ERFKILL \<equiv> SysErrNo 132"
abbreviation EHWPOISON :: sys_err_no where "EHWPOISON \<equiv> SysErrNo 133"

definition from_primitive :: "int \<Rightarrow> sys_err_no" where
  "from_primitive n =
     (if 0 \<le> n \<and> nat n \<in> set (map fst sys_err_table) then SysErrNo (nat n) else SysErrNo 255)"

definition err_str_table :: "(nat \<times> string) list" where
  "err_str_table = [
     (0, ''Undefined''), (1, ''Operation not permitted''), (2, ''No such file or directory''),
     (3, ''No such process''), (4, ''Interrupted system call''), (5, ''I/O error''),
     (6, ''No such device or address''), (7, ''Argument list too long''),
     (8, ''Exec format error''), (9, ''Bad file number''), (10, ''No child processes''),
     (11, ''Try again''), (12, ''Out of memory''), (13, ''Permission denied''),
     (14, ''Bad address''), (15, ''Block device required''), (16, ''Device or resource busy''),
     (17, ''File exists''), (18, ''Cross-device link''), (19, ''No such device''),
     (20, ''Not a directory''), (21, ''Is a directory''), (22, ''Invalid argument''),
     (23, ''File table overflow''), (24, ''Too many open files''), (25, ''Not a typewriter''),
     (26, ''Text file busy''), (27, ''File too large''), (28, ''No space left on device''),
     (29, ''Illegal seek''), (30, ''Read-only file system''), (31, ''Too many links''),
     (32, ''Broken pipe''), (33, ''Math argument out of domain of func''),
     (34, ''Math result not representable''), (35, ''Resource deadlock would occur''),
     (36, ''File name too long''), (37, ''Norecord locks available''),
     (38, ''Function not implemented''), (39, ''Directory not empty''),
     (40, ''Toomany symbolic links encountereds''), (42, ''No message of desired type''),
     (43, ''Identifier removed''), (44, ''Channel number out of range''),
     (45, ''Level 2 not synchronized''), (46, ''Level 3 halted''), (47, ''Level 3 reset''),
     (48, ''Link number out of range''), (49, ''Protocol driver not attached''),
     (50, ''No CSI structure available''), (51, ''Level 2 halted''), (52, ''Invalid exchange''),
     (53, ''Invalid request descriptor''), (54, ''Exchange full''), (55, ''No anode''),
     (56, ''Invalid request code''), (57, ''Invalid slot''), (59, ''Bad font file format''),
     (60, ''Device not a stream''), (61, ''No data available''), (62, ''Timer expired''),
     (63, ''Out of streams resources''), (64, ''Machine is not on the network''),
     (65, ''Package not installed''), (66, ''Object is remote''),
     (67, ''Link has been severed''), (68, ''Advertise error''), (69, ''Srmount error''),
     (70, ''Communication error on send''), (71, ''Protocol error''),
     (72, ''Multihop attempted''), (73, ''RFS specific error''), (74, ''Not a data message''),
     (75, ''Value too large for defined data type''), (76, ''Name not unique on network''),
     (77, ''File descriptor in bad state''), (78, ''Remote address changed''),
     (79, ''Can not access a needed shared library''),
     (80, ''Accessing a corrupted shared library''), (81, ''.lib section in a.out corrupted''),
     (82, ''Attempting to link in too many shared libraries''),
     (83, ''Cannot exec a shared library directly''), (84, ''Illegal byte sequence''),
     (85, ''Interrupted system call should be restarted''), (86, ''Streams pipe error''),
     (87, ''Too many users''), (88, ''Socket operation on non-socket''),
     (89, ''Destination address required''), (90, ''Message too long''),
     (91, ''Protocol wrong type for socket''), (92, ''Protocol not available''),
     (93, ''Protocol not supported''), (94, ''Socket type not supported''),
     (95, ''Operation not supported on transport endpoint''),
     (96, ''Protocol family not supported''), (97, ''Address family not supported by protocol''),
     (98, ''Address already in use''), (99, ''Cannot assign requested address''),
     (100, ''Network is down''), (101, ''Network is unreachable''),
     (102, ''Network dropped connection because of reset''),
     (103, ''Software caused connection abort''), (104, ''Connection reset by peer''),
     (105, ''No buffer space available''), (106, ''Transport endpoint is already connected''),
     (107, ''Transport endpoint is not connected''),
     (108, ''Cannot send after transport endpoint shutdown''),
     (109, ''Too many references: cannot splice''), (110, ''Connection timed out''),
     (111, ''Connection refused''), (112, ''Host is down''), (113, ''No route to host''),
     (114, ''Operation already in progress''), (115, ''Operation now in progress''),
     (116, ''Stale file handle''), (117, ''Structure needs cleaning''),
     (118, ''Not a XENIX named type file''), (119, ''No XENIX semaphores available''),
     (120, ''Is a named type file''), (121, ''Remote I/O error''), (122, ''Quota exceeded''),
     (123, ''No medium found''), (124, ''Wrong medium type''), (125, ''Operation Canceled''),
     (126, ''Required key not available''), (127, ''Key has expired''),
     (128, ''Key has been revoked''), (129, ''Key was rejected by service''),
     (130, ''Owner died (for robust mutexes)''), (131, ''State not recoverable''),
     (132, ''Operation not possible due to RF-kill''), (133, ''Memory page has hardware error'')]"

definition err_str :: "sys_err_no \<Rightarrow> string option" where
  "err_str e = map_of err_str_table (errno e)"

text \<open>The result of a system call, \<open>SyscallRet\<close>.\<close>

type_synonym syscall_ret = "sys_err_no + nat"

lemma from_primitive_declared:
  "n \<in> set (map fst sys_err_table) \<Longrightarrow> from_primitive (int n) = SysErrNo n"
  by (simp add: from_primitive_def)

lemma err_str_codes: "map fst err_str_table @ [255] = map fst sys_err_table"
  by (simp add: err_str_table_def sys_err_table_def)

lemma err_str_declared:
  "(\<exists>m. err_str (SysErrNo n) = Some m) \<longleftrightarrow> n \<in> set (map fst sys_err_table) - {255}"
proof -
  have "255 \<notin> set (map fst err_str_table)"
    by (simp add: err_str_table_def)
  then have "set (map fst err_str_table) = set (map fst sys_err_table) - {255}"
    by (simp add: err_str_codes [symmetric] insert_Diff_if)
  then show ?thesis
    by (metis err_str_def errno.simps image_set map_of_eq_None_iff not_Some_eq)
qed

end
