(* ===== verification/Page_Table.thy ===== *)
theory Page_Table
  imports Phys_Mem Pte Errno
begin

text \<open>
  The three-level page table (\<open>PageTable\<close> in \<open>os/src/mm/page_table.rs\<close>).  A table is a page
  of physical memory; a reference \<open>&mut PageTableEntry\<close> is the pair of the table's page number and the
  index of the entry.  The TLB is not modelled: \<open>flush_tlb\<close> has no counterpart.

  \<open>pt_leaf\<close> is the abstraction: the entry that the walk of a page number ends at, 0 when there is none.
  Under \<open>pt_wf\<close> (the tables of the walk form a tree of distinct frames owned by the kernel) \<open>map\<close>
  and \<open>unmap\<close> update that function at one page number and change no page outside the tables.
\<close>

datatype paging_error = NoMemory | NotAligned | NotMapped | AlreadyMapped | MappedToHugePage

datatype translate_error = TranslationFailed virt_addr | DataCrossesPageBoundary
  | UnexpectedEofOrFault | InternalBufferOverflow | LengthOverflow | PermissionDenied virt_addr
  | PartialCopy

record page_table =
  root_ppn :: ppn
  pt_frames :: "ppn list"

type_synonym pte_ref = "ppn \<times> nat"

definition read_pte :: "kmem \<Rightarrow> pte_ref \<Rightarrow> pte" where
  "read_pte k a = mem k (fst a) (snd a)"

definition write_pte :: "kmem \<Rightarrow> pte_ref \<Rightarrow> pte \<Rightarrow> kmem" where
  "write_pte k a e = k\<lparr> mem := (mem k)(fst a := (mem k (fst a))(snd a := e)) \<rparr>"

subsection \<open>Construction and walks\<close>

definition pt_alloc_frame :: "kmem \<Rightarrow> page_table \<Rightarrow> (ppn \<times> kmem \<times> page_table) option" where
  "pt_alloc_frame k pt = do {
     (frame, k) \<leftarrow> frame_alloc k;
     p \<leftarrow> frame;
     Some (p, k, pt\<lparr> pt_frames := pt_frames pt @ [p] \<rparr>) }"

definition pt_new :: "kmem \<Rightarrow> (page_table \<times> kmem) option" where
  "pt_new k = do {
     (frame, k) \<leftarrow> frame_alloc k;
     p \<leftarrow> frame;
     Some (\<lparr> root_ppn = p, pt_frames = [p] \<rparr>, k) }"

definition pt_new_from_kernel :: "kmem \<Rightarrow> ppn \<Rightarrow> (page_table \<times> kmem) option" where
  "pt_new_from_kernel k global_root_ppn = do {
     (frame, k) \<leftarrow> frame_alloc k;
     p \<leftarrow> frame;
     (let level_1_index = indexes KERNEL_PGNUM_OFFSET ! 0 in do {
       dst \<leftarrow> get_bytes_array p;
       src \<leftarrow> get_bytes_array global_root_ppn;
       Some (\<lparr> root_ppn = p, pt_frames = [p] \<rparr>,
             k\<lparr> mem := (mem k)(dst := (\<lambda>i. if level_1_index \<le> i \<and> i < 512 then mem k src i
                                            else mem k dst i)) \<rparr>) }) }"

definition pt_from_token :: "usize \<Rightarrow> page_table" where
  "pt_from_token pgn = \<lparr> root_ppn = unat (pgn AND (push_bit 36 1 - 1)), pt_frames = [] \<rparr>"

definition pt_token :: "page_table \<Rightarrow> usize" where
  "pt_token pt = of_nat (root_ppn pt)"

definition get_pte_list :: "phys_addr \<Rightarrow> ppn option" where
  "get_pte_list paddr = do { ka \<leftarrow> kernel_of_phys paddr; Some (ppn_of_kernel ka) }"

text \<open>One level of \<open>find_pte_create\<close>: the entry is filled with a new table when it is not valid.\<close>

definition pt_descend_create ::
    "kmem \<Rightarrow> page_table \<Rightarrow> ppn \<Rightarrow> nat \<Rightarrow> (ppn \<times> kmem \<times> page_table) option" where
  "pt_descend_create k pt p i = do {
     (k, pt) \<leftarrow> (if \<not> pte_is_valid (read_pte k (p, i)) then do {
         (q, k, pt) \<leftarrow> pt_alloc_frame k pt;
         e \<leftarrow> pte_new_table (pa_of_ppn q);
         Some (write_pte k (p, i) e, pt) }
       else Some (k, pt));
     q \<leftarrow> get_pte_list (pte_address (read_pte k (p, i)));
     Some (q, k, pt) }"

definition find_pte_create ::
    "kmem \<Rightarrow> page_table \<Rightarrow> vpn \<Rightarrow> (pte_ref \<times> kmem \<times> page_table) option" where
  "find_pte_create k pt v = do {
     p \<leftarrow> get_pte_list (pa_of_ppn (root_ppn pt));
     (p, k, pt) \<leftarrow> (if PAGE_LEVEL = 4 then pt_descend_create k pt p (pn_index v 3) else Some (p, k, pt));
     (p, k, pt) \<leftarrow> pt_descend_create k pt p (pn_index v 2);
     (p, k, pt) \<leftarrow> pt_descend_create k pt p (pn_index v 1);
     Some ((p, pn_index v 0), k, pt) }"

text \<open>One level of \<open>find_pte\<close>; \<open>Some None\<close> is the early return.\<close>

definition pt_descend :: "kmem \<Rightarrow> ppn \<Rightarrow> nat \<Rightarrow> ppn option option" where
  "pt_descend k p i =
     (if \<not> pte_is_valid (read_pte k (p, i)) then Some None
      else map_option Some (get_pte_list (pte_address (read_pte k (p, i)))))"

definition find_pte :: "kmem \<Rightarrow> page_table \<Rightarrow> vpn \<Rightarrow> pte_ref option option" where
  "find_pte k pt v = do {
     p \<leftarrow> get_pte_list (pa_of_ppn (root_ppn pt));
     r \<leftarrow> (if PAGE_LEVEL = 4 then pt_descend k p (pn_index v 3) else Some (Some p));
     (case r of None \<Rightarrow> Some None | Some p \<Rightarrow> do {
       r \<leftarrow> pt_descend k p (pn_index v 2);
       (case r of None \<Rightarrow> Some None | Some p \<Rightarrow> do {
         r \<leftarrow> pt_descend k p (pn_index v 1);
         (case r of None \<Rightarrow> Some None | Some p \<Rightarrow> Some (Some (p, pn_index v 0))) }) }) }"

subsection \<open>Mapping\<close>

definition pt_map :: "kmem \<Rightarrow> page_table \<Rightarrow> vpn \<Rightarrow> ppn \<Rightarrow> pte_flags \<Rightarrow> (kmem \<times> page_table) option" where
  "pt_map k pt v p flags = do {
     (a, k, pt) \<leftarrow> find_pte_create k pt v;
     ensure (\<not> pte_is_valid (read_pte k a));
     e \<leftarrow> pte_new p flags;
     Some (write_pte k a e, pt) }"

definition pt_unmap :: "kmem \<Rightarrow> page_table \<Rightarrow> vpn \<Rightarrow> kmem option" where
  "pt_unmap k pt v = do {
     r \<leftarrow> find_pte k pt v;
     a \<leftarrow> r;
     ensure (pte_is_valid (read_pte k a));
     Some (write_pte k a pte_empty) }"

definition pt_update ::
    "kmem \<Rightarrow> page_table \<Rightarrow> virt_addr \<Rightarrow> phys_addr option \<Rightarrow> map_permission option
      \<Rightarrow> ((paging_error + nat) \<times> kmem) option" where
  "pt_update k pt va paddr flags = do {
     r \<leftarrow> find_pte k pt (va_floor va);
     (case r of
        None \<Rightarrow> Some (Err NotMapped, k)
      | Some a \<Rightarrow>
          let k = (case paddr of None \<Rightarrow> k | Some pa \<Rightarrow> write_pte k a (pte_set_ppn (read_pte k a) pa));
              k = (case flags of None \<Rightarrow> k
                   | Some f \<Rightarrow> write_pte k a (pte_set_flags (read_pte k a) (pte_flags_of_perm f)))
          in Some (Ok 0x1000, k)) }"

partial_function (option) pt_update_region_loop ::
    "kmem \<Rightarrow> page_table \<Rightarrow> virt_addr \<Rightarrow> virt_addr \<Rightarrow> map_permission
      \<Rightarrow> ((paging_error + unit) \<times> kmem) option" where
  "pt_update_region_loop k pt va e flags =
     (if va < e then do {
        (r, k) \<leftarrow> pt_update k pt va None (Some flags);
        (case r of Inl err \<Rightarrow> Some (Err err, k)
         | Inr page_size \<Rightarrow> pt_update_region_loop k pt (va + of_nat page_size) e flags) }
      else Some (Ok (), k))"

definition pt_update_region ::
    "kmem \<Rightarrow> page_table \<Rightarrow> virt_addr \<Rightarrow> usize \<Rightarrow> map_permission
      \<Rightarrow> ((paging_error + unit) \<times> kmem) option" where
  "pt_update_region k pt va len flags = pt_update_region_loop k pt va (va + len) flags"

subsection \<open>Translation\<close>

definition pt_translate :: "kmem \<Rightarrow> page_table \<Rightarrow> vpn \<Rightarrow> pte option option" where
  "pt_translate k pt v =
     (if v \<ge> KERNEL_PGNUM_OFFSET then Some (Some (phys_of_kernel (va_of_vpn v)))
      else map_option (map_option (read_pte k)) (find_pte k pt v))"

definition pt_translate_va :: "kmem \<Rightarrow> page_table \<Rightarrow> virt_addr \<Rightarrow> phys_addr option option" where
  "pt_translate_va k pt va =
     (if va \<ge> of_nat KERNEL_DIRECT_OFFSET then Some (Some (phys_of_kernel va))
      else do {
        r \<leftarrow> find_pte k pt (va_floor va);
        (case r of None \<Rightarrow> Some None
         | Some a \<Rightarrow> do {
             p \<leftarrow> pte_ppn (read_pte k a);
             Some (Some (pa_of_ppn p + of_nat (va_page_offset va))) }) })"

definition pt_translate_va_with_perm ::
    "kmem \<Rightarrow> page_table \<Rightarrow> virt_addr \<Rightarrow> bool \<Rightarrow> (translate_error + phys_addr) option" where
  "pt_translate_va_with_perm k pt va require_writable = do {
     r \<leftarrow> find_pte k pt (va_floor va);
     (case r of
        Some a \<Rightarrow> do {
          w \<leftarrow> (if require_writable then pte_writable (read_pte k a) else Some True);
          (if require_writable \<and> \<not> w then Some (Err (PermissionDenied va))
           else do {
             p \<leftarrow> pte_ppn (read_pte k a);
             Some (Ok (pa_of_ppn p + of_nat (va_page_offset va))) }) }
      | None \<Rightarrow> Some (Err (PermissionDenied va))) }"

subsection \<open>Trees of tables\<close>

text \<open>
  The shape of the tables as a function: \<open>S p i\<close> is the table that entry \<open>i\<close> of table \<open>p\<close> points to.
  \<open>tree_wf\<close> says that the first two levels below \<open>root\<close> are a tree of distinct tables in \<open>T\<close>.
\<close>

definition tree_wf :: "(ppn \<Rightarrow> nat \<Rightarrow> ppn option) \<Rightarrow> ppn \<Rightarrow> ppn set \<Rightarrow> bool" where
  "tree_wf S root T \<longleftrightarrow> root \<in> T
     \<and> (\<forall>i p. S root i = Some p \<longrightarrow> p \<in> T \<and> p \<noteq> root)
     \<and> (\<forall>i j p. S root i = Some p \<and> S root j = Some p \<longrightarrow> i = j)
     \<and> (\<forall>i j p q. S root i = Some p \<and> S p j = Some q \<longrightarrow>
          q \<in> T \<and> q \<noteq> root \<and> (\<forall>i'. S root i' \<noteq> Some q))
     \<and> (\<forall>i j i' j' p p' q. S root i = Some p \<and> S p j = Some q \<and> S root i' = Some p'
          \<and> S p' j' = Some q \<longrightarrow> i = i' \<and> j = j')"

definition tree_link ::
    "(ppn \<Rightarrow> nat \<Rightarrow> ppn option) \<Rightarrow> ppn \<Rightarrow> nat \<Rightarrow> ppn \<Rightarrow> ppn \<Rightarrow> nat \<Rightarrow> ppn option" where
  "tree_link S p i q = (\<lambda>x y. if x = p \<and> y = i then Some q else if x = q then None else S x y)"

lemma tree_wfD:
  assumes "tree_wf S root T"
  shows "root \<in> T" "S root i = Some p \<Longrightarrow> p \<in> T \<and> p \<noteq> root"
    "S root i = Some p \<Longrightarrow> S root j = Some p \<Longrightarrow> i = j"
    "S root i = Some p \<Longrightarrow> S p j = Some q \<Longrightarrow> q \<in> T \<and> q \<noteq> root \<and> S root i' \<noteq> Some q"
    "S root i = Some p \<Longrightarrow> S p j = Some q \<Longrightarrow> S root i' = Some p' \<Longrightarrow> S p' j' = Some q
      \<Longrightarrow> i = i' \<and> j = j'"
  using assms unfolding tree_wf_def by blast+

lemma tree_wf_cong:
  assumes "tree_wf S root T" "T \<subseteq> T'" "S' root = S root"
    "\<And>i p. S root i = Some p \<Longrightarrow> S' p = S p"
  shows "tree_wf S' root T'"
proof -
  note d = tree_wfD [OF assms(1)]
  show ?thesis
    unfolding tree_wf_def assms(3)
  proof (intro conjI allI impI)
    show "root \<in> T'" using d(1) assms(2) by blast
  next
    fix i p assume "S root i = Some p"
    then show "p \<in> T'" "p \<noteq> root" using d(2) assms(2) by blast+
  next
    fix i j p assume "S root i = Some p \<and> S root j = Some p"
    then show "i = j" using d(3) by blast
  next
    fix i j p q assume "S root i = Some p \<and> S' p j = Some q"
    then have "S root i = Some p" "S p j = Some q" using assms(4) [of i p] by auto
    from d(4) [OF this] show "q \<in> T'" "q \<noteq> root" "S root i' \<noteq> Some q" for i'
      using assms(2) by blast+
  next
    fix i j i' j' p p' q
    assume "S root i = Some p \<and> S' p j = Some q \<and> S root i' = Some p' \<and> S' p' j' = Some q"
    then have "S root i = Some p" "S p j = Some q" "S root i' = Some p'" "S p' j' = Some q"
      using assms(4) [of i p] assms(4) [of i' p'] by auto
    from d(5) [OF this] show "i = i'" "j = j'" by auto
  qed
qed

lemma tree_link_root:
  assumes "tree_wf S root T" "q \<notin> T" "S root i = None"
  shows "tree_wf (tree_link S root i q) root (insert q T)"
proof -
  note d = tree_wfD [OF assms(1)]
  let ?S = "tree_link S root i q"
  have qr: "q \<noteq> root" using d(1) assms(2) by blast
  have r: "?S root x = (if x = i then Some q else S root x)" for x
    using qr by (simp add: tree_link_def)
  have o: "?S p x = (if p = q then None else S p x)" if "p \<noteq> root" for p x
    using that by (simp add: tree_link_def)
  have nq: "S root x \<noteq> Some q" for x using d(2) assms(2) by blast
  have rD: "x = i \<and> p = q \<or> x \<noteq> i \<and> S root x = Some p" if "?S root x = Some p" for x p
    using that by (cases "x = i") (auto simp: r)
  have pD: "S root x = Some p \<and> S p y = Some t" if "?S root x = Some p" "?S p y = Some t" for x p y t
  proof -
    have "p \<noteq> root" using rD [OF that(1)] qr d(2) [of x p] by auto
    then have "p \<noteq> q" "S p y = Some t" using that(2) by (auto simp: o split: if_splits)
    then show ?thesis using rD [OF that(1)] by auto
  qed
  show ?thesis
    unfolding tree_wf_def
  proof (intro conjI allI impI)
    show "root \<in> insert q T" using d(1) by simp
  next
    fix x p assume "?S root x = Some p"
    then show "p \<in> insert q T" "p \<noteq> root" using rD [of x p] d(2) [of x p] qr by auto
  next
    fix x y p assume "?S root x = Some p \<and> ?S root y = Some p"
    then show "x = y" using rD d(3) nq by blast
  next
    fix x j p t assume "?S root x = Some p \<and> ?S p j = Some t"
    then have "S root x = Some p" "S p j = Some t" using pD by blast+
    note t = d(4) [OF this]
    then have "t \<noteq> q" using assms(2) by auto
    then show "t \<in> insert q T" "t \<noteq> root" "?S root i' \<noteq> Some t" for i'
      using t rD [of i' t] by auto
  next
    fix x j x' j' p p' t
    assume "?S root x = Some p \<and> ?S p j = Some t \<and> ?S root x' = Some p' \<and> ?S p' j' = Some t"
    then have "S root x = Some p" "S p j = Some t" "S root x' = Some p'" "S p' j' = Some t"
      using pD by blast+
    then show "x = x'" "j = j'" using d(5) by blast+
  qed
qed

lemma tree_link_mid:
  assumes "tree_wf S root T" "q \<notin> T" "S root i = Some p" "S p j = None"
  shows "tree_wf (tree_link S p j q) root (insert q T)"
proof -
  note d = tree_wfD [OF assms(1)]
  let ?S = "tree_link S p j q"
  have pr: "p \<noteq> root" "p \<in> T" using d(2) assms(3) by auto
  have qr: "q \<noteq> root" "q \<noteq> p" using d(1) pr assms(2) by auto
  have r: "?S root = S root"
    using qr pr by (auto simp: tree_link_def)
  have m: "?S x y = (if x = p \<and> y = j then Some q else S x y)" if "S root z = Some x" for x y z
    using that d(2) assms(2) by (auto simp: tree_link_def)
  have mD: "x = p \<and> y = j \<and> u = q \<or> S x y = Some u"
    if "S root z = Some x" "?S x y = Some u" for x y z u
    using m [OF that(1), of y] that(2) by (cases "x = p \<and> y = j") auto
  have nq: "S root x \<noteq> Some q" for x using d(2) assms(2) by blast
  have nq2: "S x y \<noteq> Some q" if "S root z = Some x" for x y z
    using that d(4) assms(2) by blast
  show ?thesis
    unfolding tree_wf_def r
  proof (intro conjI allI impI)
    show "root \<in> insert q T" using d(1) by simp
  next
    fix x t assume "S root x = Some t"
    then show "t \<in> insert q T" "t \<noteq> root" using d(2) by auto
  next
    fix x y t assume "S root x = Some t \<and> S root y = Some t"
    then show "x = y" using d(3) by blast
  next
    fix x y t u assume a: "S root x = Some t \<and> ?S t y = Some u"
    then consider "u = q" | "S t y = Some u" using mD by blast
    then show "u \<in> insert q T" "u \<noteq> root" "S root i' \<noteq> Some u" for i'
      using a d(4) [of x t y u] qr nq by (cases; blast)+
  next
    fix x y x' y' t t' u
    assume a: "S root x = Some t \<and> ?S t y = Some u \<and> S root x' = Some t' \<and> ?S t' y' = Some u"
    have "x = x' \<and> y = y'"
    proof (cases "u = q")
      case True
      then have "t = p" "y = j" "t' = p" "y' = j"
        using a mD nq2 by blast+
      then show ?thesis using a d(3) by auto
    next
      case False
      then have "S t y = Some u" "S t' y' = Some u"
        using a mD by blast+
      then show ?thesis using a d(5) by blast
    qed
    then show "x = x'" "y = y'" by auto
  qed
qed

subsection \<open>Walks over memory\<close>

definition sub_table :: "kmem \<Rightarrow> ppn \<Rightarrow> nat \<Rightarrow> ppn option" where
  "sub_table k p i = (if mem k p i = 0 then None else Some (pa_floor (pte_address (mem k p i))))"

definition pt_walk :: "kmem \<Rightarrow> ppn \<Rightarrow> vpn \<Rightarrow> pte_ref option" where
  "pt_walk k root v = do {
     p1 \<leftarrow> sub_table k root (pn_index v 2);
     p0 \<leftarrow> sub_table k p1 (pn_index v 1);
     Some (p0, pn_index v 0) }"

definition pt_leaf :: "kmem \<Rightarrow> ppn \<Rightarrow> vpn \<Rightarrow> pte" where
  "pt_leaf k root v = (case pt_walk k root v of None \<Rightarrow> 0 | Some a \<Rightarrow> read_pte k a)"

definition pt_wf :: "kmem \<Rightarrow> page_table \<Rightarrow> ppn set \<Rightarrow> bool" where
  "pt_wf k pt T \<longleftrightarrow> kmem_inv k \<and> T \<subseteq> fa_used (allocator k) \<and> set (pt_frames pt) \<subseteq> T
     \<and> tree_wf (sub_table k) (root_ppn pt) T"

lemma pt_wfD:
  assumes "pt_wf k pt T"
  shows "kmem_inv k" "T \<subseteq> fa_used (allocator k)" "set (pt_frames pt) \<subseteq> T"
    "tree_wf (sub_table k) (root_ppn pt) T"
  using assms by (auto simp: pt_wf_def)

lemma pt_wf_range:
  assumes "pt_wf k pt T" "p \<in> T"
  shows "0 < p" "p < 2 ^ 36"
proof -
  have "T \<subseteq> fa_frames (allocator k)"
    using pt_wfD(2) [OF assms(1)] fa_used_frames by blast
  then have "p \<in> {0<..<2 ^ 36}"
    using assms(2) pt_wfD(1) [OF assms(1)] unfolding kmem_inv_def by blast
  then show "0 < p" "p < 2 ^ 36" by simp_all
qed

lemma get_pte_list_eq:
  assumes "pa_floor pa \<noteq> 0"
  shows "get_pte_list pa = Some (pa_floor pa)"
proof -
  have "pa \<noteq> 0" using assms by (auto simp: pa_floor_def)
  then show ?thesis
    by (simp add: get_pte_list_def kernel_of_phys_def ppn_of_kernel_def phys_of_kernel_def)
qed

lemma get_pte_list_ppn:
  assumes "0 < p" "p < 2 ^ 36"
  shows "get_pte_list (pa_of_ppn p) = Some p"
proof -
  have "pa_floor (pa_of_ppn p) = p" using assms by (intro pa_of_ppn_facts) simp
  then show ?thesis using get_pte_list_eq [of "pa_of_ppn p"] assms by simp
qed

lemma pte_address_of_ppn:
  assumes "q < 2 ^ 36"
  shows "pte_address (pa_of_ppn q) = pa_of_ppn q"
proof (rule bit_word_eqI)
  fix n assume "n < LENGTH(64)"
  have m: "(0xfffffffff000 :: usize) = push_bit 12 (mask 36)"
    by (simp add: mask_eq_exp_minus_1)
  have "take_bit 36 q = q" using assms by (simp add: take_bit_nat_eq_self)
  then have "bit q j \<Longrightarrow> j < 36" for j by (metis bit_take_bit_iff)
  then show "bit (pte_address (pa_of_ppn q)) n = bit (pa_of_ppn q) n"
    unfolding pte_address_def m pa_of_ppn_def PAGE_SIZE_BITS_def bit_and_iff bit_push_bit_iff
      bit_mask_iff bit_of_nat_iff
    by auto
qed

lemma pa_of_ppn_aligned: "pa_of_ppn q mod of_nat PAGE_SIZE = 0"
proof -
  have "take_bit 12 (pa_of_ppn q) = 0"
    by (simp add: pa_of_ppn_def PAGE_SIZE_BITS_def take_bit_push_bit)
  then show ?thesis by (simp add: PAGE_SIZE_def take_bit_eq_mod)
qed

lemma pt_descend_eq:
  assumes "sub_table k p i \<noteq> Some 0"
  shows "pt_descend k p i = Some (sub_table k p i)"
  using assms get_pte_list_eq [of "pte_address (mem k p i)"]
  by (auto simp: pt_descend_def sub_table_def pte_is_valid_def read_pte_def)

lemma find_pte_walk:
  assumes "pt_wf k pt T"
  shows "find_pte k pt v = Some (pt_walk k (root_ppn pt) v)"
proof -
  note t = tree_wfD [OF pt_wfD(4) [OF assms]] and rg = pt_wf_range [OF assms]
  have r: "get_pte_list (pa_of_ppn (root_ppn pt)) = Some (root_ppn pt)"
    using get_pte_list_ppn rg t(1) by blast
  have d1: "pt_descend k (root_ppn pt) i = Some (sub_table k (root_ppn pt) i)" for i
    using t(2) rg(1) by (intro pt_descend_eq) force
  have d2: "pt_descend k p j = Some (sub_table k p j)" if "sub_table k (root_ppn pt) i = Some p" for i p j
    using t(4) [OF that, of j 0] rg(1) [of 0] by (intro pt_descend_eq) auto
  show ?thesis
    by (auto simp: find_pte_def r PAGE_LEVEL_def d1 d2 pt_walk_def split: option.splits)
qed

lemma pt_descend_create_old:
  assumes "sub_table k p i = Some q" "q \<noteq> 0"
  shows "pt_descend_create k pt p i = Some (q, k, pt)"
  using assms get_pte_list_eq [of "pte_address (mem k p i)"]
  by (auto simp: pt_descend_create_def sub_table_def pte_is_valid_def read_pte_def split: if_splits)

lemma pt_descend_create_new:
  assumes inv: "kmem_inv k" and none: "sub_table k p i = None" and p: "p \<in> fa_used (allocator k)"
    and avail: "fa_used (allocator k) \<noteq> fa_frames (allocator k)"
  obtains q k' where "pt_descend_create k pt p i = Some (q, k', pt\<lparr> pt_frames := pt_frames pt @ [q] \<rparr>)"
    "q \<in> fa_frames (allocator k)" "q \<notin> fa_used (allocator k)" "kmem_inv k'"
    "fa_used (allocator k') = insert q (fa_used (allocator k))"
    "fa_frames (allocator k') = fa_frames (allocator k)"
    "mem k' = (mem k)(q := (\<lambda>_. 0), p := (mem k p)(i := pa_of_ppn q))"
    "sub_table k' = tree_link (sub_table k) p i q" "arcs k' = (arcs k)(q := 1)" "frame_vec k' = frame_vec k"
proof -
  obtain q k1 where q: "frame_alloc k = Some (Some q, k1)" "q \<in> fa_frames (allocator k)"
      "q \<notin> fa_used (allocator k)" "fa_used (allocator k1) = insert q (fa_used (allocator k))"
      "fa_frames (allocator k1) = fa_frames (allocator k)" "kmem_inv k1"
      "mem k1 = (mem k)(q := (\<lambda>_. 0))" "arcs k1 = (arcs k)(q := 1)" "frame_vec k1 = frame_vec k"
    using frame_alloc_ok [OF inv] avail by metis
  have rg: "0 < q" "q < 2 ^ 36" using q(2) inv by (auto simp: kmem_inv_def)
  have pq: "p \<noteq> q" using p q(3) by blast
  have fl: "pa_floor (pa_of_ppn q) = q" using rg by (intro pa_of_ppn_facts) simp
  then have nz: "pa_of_ppn q \<noteq> 0" using rg by (auto simp: pa_floor_def)
  have z: "mem k p i = 0" using none by (simp add: sub_table_def split: if_splits)
  define k' where "k' = write_pte k1 (p, i) (pa_of_ppn q)"
  have mem': "mem k' = (mem k)(q := (\<lambda>_. 0), p := (mem k p)(i := pa_of_ppn q))"
    using pq by (simp add: k'_def write_pte_def q(7))
  have "pt_descend_create k pt p i = Some (q, k', pt\<lparr> pt_frames := pt_frames pt @ [q] \<rparr>)"
    using rg nz get_pte_list_ppn [OF rg] pte_address_of_ppn [OF rg(2)]
    by (simp add: pt_descend_create_def pt_alloc_frame_def pte_is_valid_def read_pte_def z q(1)
        pte_new_table_def pa_of_ppn_aligned k'_def [symmetric] mem')
  moreover have "sub_table k' = tree_link (sub_table k) p i q"
    using pq nz fl pte_address_of_ppn [OF rg(2)]
    by (intro ext) (auto simp: sub_table_def tree_link_def mem')
  moreover have "kmem_inv k'" using q(6) by (simp add: k'_def write_pte_def)
  ultimately show thesis
    using that q mem' by (simp add: k'_def write_pte_def)
qed

subsection \<open>Creating the tables of a walk\<close>

text \<open>Linking a fresh, zeroed table leaves every leaf as it was.\<close>

lemma pt_leaf_link_root:
  assumes wf: "tree_wf (sub_table k) root T" and q: "q \<notin> T" and none: "sub_table k root i = None"
    and S: "sub_table k' = tree_link (sub_table k) root i q"
    and M: "mem k' = (mem k)(q := (\<lambda>_. 0), root := (mem k root)(i := e))"
  shows "pt_leaf k' root w = pt_leaf k root w"
proof -
  note d = tree_wfD [OF wf]
  have rq: "root \<noteq> q" using d(1) q by blast
  show ?thesis
  proof (cases "pn_index w 2 = i")
    case True
    then show ?thesis
      using none rq by (simp add: pt_leaf_def pt_walk_def S tree_link_def)
  next
    case False
    show ?thesis
    proof (cases "sub_table k root (pn_index w 2)")
      case None
      then show ?thesis using False rq by (simp add: pt_leaf_def pt_walk_def S tree_link_def)
    next
      case (Some p)
      then have p: "p \<noteq> root" "p \<noteq> q" using d(2) q by blast+
      show ?thesis
      proof (cases "sub_table k p (pn_index w 1)")
        case None
        then show ?thesis using Some False rq p by (simp add: pt_leaf_def pt_walk_def S tree_link_def)
      next
        case (Some t)
        then have "t \<noteq> root" "t \<noteq> q"
          using d(4) [OF \<open>sub_table k root (pn_index w 2) = Some p\<close>] q by blast+
        then show ?thesis
          using Some \<open>sub_table k root (pn_index w 2) = Some p\<close> False rq p
          by (simp add: pt_leaf_def pt_walk_def S tree_link_def read_pte_def M)
      qed
    qed
  qed
qed

lemma pt_leaf_link_mid:
  assumes wf: "tree_wf (sub_table k) root T" and q: "q \<notin> T" and p: "sub_table k root i = Some p"
    and none: "sub_table k p j = None"
    and S: "sub_table k' = tree_link (sub_table k) p j q"
    and M: "mem k' = (mem k)(q := (\<lambda>_. 0), p := (mem k p)(j := e))"
  shows "pt_leaf k' root w = pt_leaf k root w"
proof -
  note d = tree_wfD [OF wf]
  have r: "root \<noteq> q" "p \<noteq> root" "p \<noteq> q" using d(1) d(2) [OF p] q by blast+
  show ?thesis
  proof (cases "sub_table k root (pn_index w 2)")
    case None
    then show ?thesis using r by (simp add: pt_leaf_def pt_walk_def S tree_link_def)
  next
    case (Some x)
    then have x: "x \<noteq> root" "x \<noteq> q" using d(2) q by blast+
    show ?thesis
    proof (cases "x = p \<and> pn_index w 1 = j")
      case True
      then show ?thesis
        using Some none r
        by (simp add: pt_leaf_def pt_walk_def S tree_link_def read_pte_def M)
    next
      case False
      show ?thesis
      proof (cases "sub_table k x (pn_index w 1)")
        case None
        then show ?thesis using Some False r x by (auto simp: pt_leaf_def pt_walk_def S tree_link_def)
      next
        case (Some t)
        then have "t \<noteq> p" "t \<noteq> q"
          using d(4) [OF \<open>sub_table k root (pn_index w 2) = Some x\<close> Some] p q by blast+
        then show ?thesis
          using Some \<open>sub_table k root (pn_index w 2) = Some x\<close> False r x
          by (auto simp: pt_leaf_def pt_walk_def S tree_link_def read_pte_def M)
      qed
    qed
  qed
qed

text \<open>What one level of \<open>find_pte_create\<close> keeps: the tables grow, and nothing else changes.\<close>

definition pt_grows :: "kmem \<Rightarrow> page_table \<Rightarrow> ppn set \<Rightarrow> kmem \<Rightarrow> page_table \<Rightarrow> ppn set \<Rightarrow> nat \<Rightarrow> bool" where
  "pt_grows k pt T k' pt' T' n \<longleftrightarrow>
     pt_wf k' pt' T' \<and> T \<subseteq> T' \<and> T' - T \<subseteq> fa_frames (allocator k) - fa_used (allocator k)
     \<and> fa_used (allocator k') = fa_used (allocator k) \<union> (T' - T)
     \<and> fa_frames (allocator k') = fa_frames (allocator k) \<and> card (T' - T) \<le> n
     \<and> root_ppn pt' = root_ppn pt \<and> (\<forall>p. p \<notin> T' \<longrightarrow> mem k' p = mem k p)
     \<and> (\<forall>w. pt_leaf k' (root_ppn pt) w = pt_leaf k (root_ppn pt) w)
     \<and> (\<forall>p. p \<notin> T' - T \<longrightarrow> arcs k' p = arcs k p) \<and> frame_vec k' = frame_vec k"

lemma pt_grows_refl: "pt_wf k pt T \<Longrightarrow> pt_grows k pt T k pt T 0"
  by (simp add: pt_grows_def)

lemma pt_grows_trans:
  assumes "pt_grows k pt T k1 pt1 T1 m" "pt_grows k1 pt1 T1 k2 pt2 T2 n"
  shows "pt_grows k pt T k2 pt2 T2 (m + n)"
proof -
  have eq: "T2 - T = (T2 - T1) \<union> (T1 - T)"
    using assms by (auto simp: pt_grows_def)
  have "card (T2 - T) \<le> m + n"
    using card_Un_le [of "T2 - T1" "T1 - T"] assms by (simp add: eq pt_grows_def)
  moreover have "T2 - T1 \<subseteq> fa_frames (allocator k) - fa_used (allocator k)"
    using assms by (auto simp: pt_grows_def)
  ultimately show ?thesis
    using assms by (auto simp: pt_grows_def)
qed

lemma pt_descend_create_grows:
  assumes wf: "pt_wf k pt T" and lvl: "p = root_ppn pt \<or> (\<exists>j. sub_table k (root_ppn pt) j = Some p)"
    and avail: "fa_used (allocator k) \<noteq> fa_frames (allocator k)"
  obtains q k' pt' T' where "pt_descend_create k pt p i = Some (q, k', pt')"
    "pt_grows k pt T k' pt' T' 1" "sub_table k' p i = Some q"
    "p \<noteq> root_ppn pt \<Longrightarrow> sub_table k' (root_ppn pt) = sub_table k (root_ppn pt)"
proof -
  note d = tree_wfD [OF pt_wfD(4) [OF wf]]
  have pT: "p \<in> T" using lvl d(1,2) by blast
  show thesis
  proof (cases "sub_table k p i")
    case (Some q)
    have "q \<in> T" using lvl Some d(2,4) by blast
    then have "q \<noteq> 0" using pt_wf_range(1) [OF wf] by blast
    moreover have "pt_grows k pt T k pt T 1"
      using pt_grows_refl [OF wf] by (simp add: pt_grows_def)
    ultimately show thesis
      using that pt_descend_create_old [OF Some] Some by blast
  next
    case None
    have pu: "p \<in> fa_used (allocator k)" using pT pt_wfD(2) [OF wf] by blast
    obtain q k' where q:
      "pt_descend_create k pt p i = Some (q, k', pt\<lparr> pt_frames := pt_frames pt @ [q] \<rparr>)"
      "q \<in> fa_frames (allocator k)" "q \<notin> fa_used (allocator k)" "kmem_inv k'"
      "fa_used (allocator k') = insert q (fa_used (allocator k))"
      "fa_frames (allocator k') = fa_frames (allocator k)"
      "mem k' = (mem k)(q := (\<lambda>_. 0), p := (mem k p)(i := pa_of_ppn q))"
      "sub_table k' = tree_link (sub_table k) p i q" "arcs k' = (arcs k)(q := 1)" "frame_vec k' = frame_vec k"
      using pt_descend_create_new [OF pt_wfD(1) [OF wf] None pu avail] by metis
    let ?pt = "pt\<lparr> pt_frames := pt_frames pt @ [q] \<rparr>"
    have qT: "q \<notin> T" using q(3) pt_wfD(2) [OF wf] by blast
    have "tree_wf (sub_table k') (root_ppn pt) (insert q T)"
      unfolding q(8) using lvl tree_link_root [OF pt_wfD(4) [OF wf] qT] tree_link_mid [OF pt_wfD(4) [OF wf] qT]
        None by blast
    then have wf': "pt_wf k' ?pt (insert q T)"
      using pt_wfD [OF wf] q by (auto simp: pt_wf_def)
    have leaf: "pt_leaf k' (root_ppn pt) w = pt_leaf k (root_ppn pt) w" for w
    proof (cases "p = root_ppn pt")
      case True
      then show ?thesis
        using pt_leaf_link_root [OF pt_wfD(4) [OF wf] qT, of i k'] None q(7,8) by blast
    next
      case False
      then obtain j where "sub_table k (root_ppn pt) j = Some p" using lvl by blast
      then show ?thesis
        using pt_leaf_link_mid [OF pt_wfD(4) [OF wf] qT _ None q(8) q(7)] by blast
    qed
    have "insert q T - T = {q}" using qT by auto
    then have "pt_grows k pt T k' ?pt (insert q T) 1"
      using wf' q leaf pT by (auto simp: pt_grows_def)
    moreover have "sub_table k' p i = Some q" by (simp add: q(8) tree_link_def)
    moreover have "sub_table k' (root_ppn pt) = sub_table k (root_ppn pt)" if "p \<noteq> root_ppn pt"
      using that d(1) qT by (auto simp: q(8) tree_link_def)
    ultimately show thesis using that q(1) by blast
  qed
qed

lemma avail_after_growth:
  assumes "pt_grows k pt T k' pt' T' n" "n < card (fa_frames (allocator k) - fa_used (allocator k))"
  shows "fa_used (allocator k') \<noteq> fa_frames (allocator k')"
proof
  assume "fa_used (allocator k') = fa_frames (allocator k')"
  then have "fa_frames (allocator k) - fa_used (allocator k) \<subseteq> T' - T"
    using assms(1) by (auto simp: pt_grows_def)
  moreover have "finite (T' - T)"
    using assms(1) finite_fa_frames [of "allocator k"] by (meson finite_Diff finite_subset pt_grows_def)
  ultimately have "card (fa_frames (allocator k) - fa_used (allocator k)) \<le> card (T' - T)"
    by (intro card_mono)
  then show False using assms by (simp add: pt_grows_def)
qed

lemma find_pte_create_grows:
  assumes wf: "pt_wf k pt T" and free: "2 \<le> card (fa_frames (allocator k) - fa_used (allocator k))"
  obtains a k' pt' T' where "find_pte_create k pt v = Some (a, k', pt')"
    "pt_grows k pt T k' pt' T' 2" "pt_walk k' (root_ppn pt) v = Some a"
proof -
  have root: "get_pte_list (pa_of_ppn (root_ppn pt)) = Some (root_ppn pt)"
    using get_pte_list_ppn pt_wf_range [OF wf] tree_wfD(1) [OF pt_wfD(4) [OF wf]] by blast
  have "fa_used (allocator k) \<noteq> fa_frames (allocator k)" using free by auto
  then obtain p1 k1 pt1 T1 where 1: "pt_descend_create k pt (root_ppn pt) (pn_index v 2) = Some (p1, k1, pt1)"
    "pt_grows k pt T k1 pt1 T1 1" "sub_table k1 (root_ppn pt) (pn_index v 2) = Some p1"
    using pt_descend_create_grows [OF wf, of "root_ppn pt"] by metis
  have wf1: "pt_wf k1 pt1 T1" and r1: "root_ppn pt1 = root_ppn pt" using 1(2) by (auto simp: pt_grows_def)
  have av: "fa_used (allocator k1) \<noteq> fa_frames (allocator k1)"
    using avail_after_growth [OF 1(2)] free by simp
  have p1: "p1 \<noteq> root_ppn pt" using tree_wfD(2) [OF pt_wfD(4) [OF wf1]] 1(3) r1 by auto
  obtain p0 k2 pt2 T2 where 2: "pt_descend_create k1 pt1 p1 (pn_index v 1) = Some (p0, k2, pt2)"
    "pt_grows k1 pt1 T1 k2 pt2 T2 1" "sub_table k2 p1 (pn_index v 1) = Some p0"
    "sub_table k2 (root_ppn pt) = sub_table k1 (root_ppn pt)"
    using pt_descend_create_grows [OF wf1 _ av, of p1 "pn_index v 1"] 1(3) r1 p1 by metis
  have "find_pte_create k pt v = Some ((p0, pn_index v 0), k2, pt2)"
    by (simp add: find_pte_create_def root PAGE_LEVEL_def 1(1) 2(1) del: One_nat_def)
  moreover have "pt_grows k pt T k2 pt2 T2 2"
    using pt_grows_trans [OF 1(2) 2(2)] by (simp add: numeral_2_eq_2)
  moreover have "pt_walk k2 (root_ppn pt) v = Some (p0, pn_index v 0)"
    by (simp add: pt_walk_def 2(3,4) 1(3) del: One_nat_def)
  ultimately show thesis using that by blast
qed

subsection \<open>Writing a leaf\<close>

lemma read_write_pte: "read_pte (write_pte k a e) b = (if a = b then e else read_pte k b)"
  by (cases a; cases b) (auto simp: read_pte_def write_pte_def)

lemma write_leaf:
  assumes wf: "pt_wf k pt T" and a: "pt_walk k (root_ppn pt) v = Some a"
  shows "pt_wf (write_pte k a e) pt T" "fst a \<in> T"
    "pt_leaf (write_pte k a e) (root_ppn pt) w =
       (if w mod 2 ^ 27 = v mod 2 ^ 27 then e else pt_leaf k (root_ppn pt) w)"
    "p \<noteq> fst a \<Longrightarrow> mem (write_pte k a e) p = mem k p"
proof -
  let ?root = "root_ppn pt" and ?k = "write_pte k a e"
  note d = tree_wfD [OF pt_wfD(4) [OF wf]]
  obtain p1 p0 where p: "sub_table k ?root (pn_index v 2) = Some p1"
    "sub_table k p1 (pn_index v 1) = Some p0" "a = (p0, pn_index v 0)"
    using a by (auto simp: pt_walk_def bind_eq_Some_conv)
  have S: "sub_table ?k x = sub_table k x" if "x \<noteq> p0" for x
    using that by (intro ext) (simp add: sub_table_def write_pte_def p(3))
  have p0: "p0 \<noteq> ?root" "p0 \<in> T" "\<And>i. sub_table k ?root i \<noteq> Some p0"
    using d(4) [OF p(1,2)] by blast+
  show "fst a \<in> T" using p0 p(3) by simp
  have Sr: "sub_table ?k ?root = sub_table k ?root" using S p0(1) by metis
  have Sm: "sub_table ?k x = sub_table k x" if "sub_table k ?root i = Some x" for i x
    using S p0(3) that by metis
  have "tree_wf (sub_table ?k) ?root T"
    using tree_wf_cong [OF pt_wfD(4) [OF wf] order_refl Sr Sm] .
  then show "pt_wf ?k pt T"
    using pt_wfD [OF wf] by (simp add: pt_wf_def write_pte_def)
  show "p \<noteq> fst a \<Longrightarrow> mem ?k p = mem k p" by (simp add: write_pte_def)
  have walk: "pt_walk ?k ?root w = pt_walk k ?root w" for w
  proof (cases "sub_table k ?root (pn_index w 2)")
    case (Some x)
    then show ?thesis using Sm [OF Some] by (simp add: pt_walk_def Sr)
  qed (simp add: pt_walk_def Sr)
  show "pt_leaf ?k ?root w = (if w mod 2 ^ 27 = v mod 2 ^ 27 then e else pt_leaf k ?root w)"
  proof (cases "w mod 2 ^ 27 = v mod 2 ^ 27")
    case True
    then have "pt_walk k ?root w = Some a"
      using a pn_index_eq_iff [of w v] by (simp add: pt_walk_def)
    then show ?thesis using True by (simp add: pt_leaf_def walk read_write_pte)
  next
    case False
    have "pt_walk k ?root w \<noteq> Some a"
    proof
      assume "pt_walk k ?root w = Some a"
      then obtain x where x: "sub_table k ?root (pn_index w 2) = Some x"
        "sub_table k x (pn_index w 1) = Some p0" "pn_index w 0 = pn_index v 0"
        by (auto simp: pt_walk_def bind_eq_Some_conv p(3))
      then show False
        using d(5) [OF x(1,2) p(1,2)] pn_index_eq_iff [of w v] False by auto
    qed
    then show ?thesis
      using False by (auto simp: pt_leaf_def walk read_write_pte split: option.splits)
  qed
qed

lemma pt_map_ok:
  assumes wf: "pt_wf k pt T" and free: "2 \<le> card (fa_frames (allocator k) - fa_used (allocator k))"
    and unmapped: "pt_leaf k (root_ppn pt) v = 0" and p: "p < 2 ^ 36"
  obtains e k' pt' T' where "pt_map k pt v p flags = Some (k', pt')" "pte_new p flags = Some e"
    "pt_wf k' pt' T'" "T \<subseteq> T'" "T' - T \<subseteq> fa_frames (allocator k) - fa_used (allocator k)"
    "fa_used (allocator k') = fa_used (allocator k) \<union> (T' - T)"
    "fa_frames (allocator k') = fa_frames (allocator k)" "card (T' - T) \<le> 2"
    "root_ppn pt' = root_ppn pt" "\<And>q. q \<notin> T' \<Longrightarrow> mem k' q = mem k q"
    "\<And>w. pt_leaf k' (root_ppn pt) w =
       (if w mod 2 ^ 27 = v mod 2 ^ 27 then e else pt_leaf k (root_ppn pt) w)"
    "\<And>q. q \<notin> T' - T \<Longrightarrow> arcs k' q = arcs k q" "frame_vec k' = frame_vec k"
proof -
  obtain a k1 pt1 T1 where c: "find_pte_create k pt v = Some (a, k1, pt1)"
    "pt_grows k pt T k1 pt1 T1 2" "pt_walk k1 (root_ppn pt) v = Some a"
    using find_pte_create_grows [OF wf free] by metis
  obtain e where e: "pte_new p flags = Some e" using pte_new_ex [OF p] by blast
  note g = c(2) [unfolded pt_grows_def]
  have wf1: "pt_wf k1 pt1 T1" and r: "root_ppn pt1 = root_ppn pt" using g by auto
  have "pt_leaf k1 (root_ppn pt) v = 0" using g unmapped by simp
  then have "read_pte k1 a = 0" by (simp add: pt_leaf_def c(3))
  then have m: "pt_map k pt v p flags = Some (write_pte k1 a e, pt1)"
    by (simp add: pt_map_def c(1) pte_is_valid_def e)
  note wl = write_leaf [OF wf1, unfolded r, OF c(3)]
  show thesis
    by (rule that [OF m e wl(1), OF _ _ _ _ _ r])
      (use g wl(2-4) in \<open>auto simp: write_pte_def\<close>)
qed

lemma pt_unmap_ok:
  assumes wf: "pt_wf k pt T" and mapped: "pt_leaf k (root_ppn pt) v \<noteq> 0"
  obtains k' where "pt_unmap k pt v = Some k'" "pt_wf k' pt T"
    "\<And>q. q \<notin> T \<Longrightarrow> mem k' q = mem k q" "allocator k' = allocator k" "arcs k' = arcs k"
    "\<And>w. pt_leaf k' (root_ppn pt) w =
       (if w mod 2 ^ 27 = v mod 2 ^ 27 then 0 else pt_leaf k (root_ppn pt) w)"
    "frame_vec k' = frame_vec k"
proof -
  obtain a where a: "pt_walk k (root_ppn pt) v = Some a" "read_pte k a \<noteq> 0"
    using mapped by (auto simp: pt_leaf_def split: option.splits)
  have m: "pt_unmap k pt v = Some (write_pte k a 0)"
    by (simp add: pt_unmap_def find_pte_walk [OF wf] a pte_is_valid_def pte_empty_def)
  note wl = write_leaf [OF wf a(1)]
  show thesis
    by (rule that [OF m wl(1)]) (use wl(2-4) in \<open>auto simp: write_pte_def\<close>)
qed

lemma pt_map_mapped:
  assumes wf: "pt_wf k pt T" and mapped: "pt_leaf k (root_ppn pt) v \<noteq> 0"
  shows "pt_map k pt v p flags = None"
proof -
  note d = tree_wfD [OF pt_wfD(4) [OF wf]] and rg = pt_wf_range(1) [OF wf]
  obtain p1 p0 where p: "sub_table k (root_ppn pt) (pn_index v 2) = Some p1"
    "sub_table k p1 (pn_index v 1) = Some p0" "read_pte k (p0, pn_index v 0) \<noteq> 0"
    using mapped by (auto simp: pt_leaf_def pt_walk_def bind_eq_Some_conv split: option.splits)
  have nz: "p1 \<noteq> 0" "p0 \<noteq> 0" "root_ppn pt \<noteq> 0"
    using d(2) [OF p(1)] d(4) [OF p(1,2)] d(1) rg by blast+
  have root: "get_pte_list (pa_of_ppn (root_ppn pt)) = Some (root_ppn pt)"
    using get_pte_list_ppn pt_wf_range [OF wf] d(1) by blast
  have "find_pte_create k pt v = Some ((p0, pn_index v 0), k, pt)"
    by (simp add: find_pte_create_def root PAGE_LEVEL_def pt_descend_create_old [OF p(1) nz(1)]
        pt_descend_create_old [OF p(2) nz(2)] del: One_nat_def)
  then show ?thesis
    using p(3) by (simp add: pt_map_def pte_is_valid_def)
qed

lemma pt_unmap_unmapped:
  assumes wf: "pt_wf k pt T" and unmapped: "pt_leaf k (root_ppn pt) v = 0"
  shows "pt_unmap k pt v = None"
  using unmapped
  by (auto simp: pt_unmap_def find_pte_walk [OF wf] pt_leaf_def pte_is_valid_def split: option.splits)

end
