(* ===== verification/Page_Table_Props.thy ===== *)
theory Page_Table_Props
  imports Page_Table
begin

text \<open>
  The contract of the page table, stated over the abstraction \<open>pt_leaf\<close>, and a booted machine on
  which the statements are exercised: one memory region of eight frames is handed to the frame allocator
  and a page table is created in it.
\<close>

definition boot_kmem :: "frame_allocator \<Rightarrow> kmem" where
  "boot_kmem fa = \<lparr> allocator = fa, mem = (\<lambda>_ _. 0), arcs = (\<lambda>_. 0), frame_vec = [] \<rparr>"

definition boot :: "phys_addr \<Rightarrow> phys_addr \<Rightarrow> (page_table \<times> kmem) option" where
  "boot s e = do {
     fa \<leftarrow> fa_add_memory_region frame_allocator_new s e;
     pt_new (boot_kmem fa) }"

definition booted :: "page_table \<times> kmem" where
  "booted = (case boot 0x1000 0x9000 of Some r \<Rightarrow> r
     | None \<Rightarrow> (\<lparr> root_ppn = 0, pt_frames = [] \<rparr>, boot_kmem frame_allocator_new))"

lemma region_new_ex:
  assumes "pa_floor s \<le> pa_floor e"
  shows "\<exists>rg. region_new s e = Some rg"
proof -
  define n where "n = pa_floor e - pa_floor s"
  have "\<exists>ws. mark_all (replicate ((n + 63) div 64) 0) [n..<(n + 63) div 64 * 64] = Some ws"
    by (rule mark_all_ex) auto
  then show ?thesis
    using assms by (auto simp: region_new_def n_def Let_def)
qed

lemma boot_kmem_inv:
  assumes "region_new s e = Some rg" "0 < pa_floor s" "pa_floor e \<le> 2 ^ 36"
  shows "kmem_inv (boot_kmem \<lparr> regions = [rg] \<rparr>)"
    "fa_used \<lparr> regions = [rg] \<rparr> = {}" "fa_frames \<lparr> regions = [rg] \<rparr> = {pa_floor s..<pa_floor e}"
  using region_new_inv [OF assms(1)] assms(2,3)
  by (auto simp: kmem_inv_def boot_kmem_def fa_inv_def fa_used_def fa_frames_def)

lemma pt_new_ok:
  assumes "kmem_inv k" "fa_used (allocator k) \<noteq> fa_frames (allocator k)"
  obtains p k' where "pt_new k = Some (\<lparr> root_ppn = p, pt_frames = [p] \<rparr>, k')"
    "pt_wf k' \<lparr> root_ppn = p, pt_frames = [p] \<rparr> {p}" "\<And>v. pt_leaf k' p v = 0"
    "fa_used (allocator k') = insert p (fa_used (allocator k))"
    "fa_frames (allocator k') = fa_frames (allocator k)"
proof -
  obtain p k' where p: "frame_alloc k = Some (Some p, k')"
      "fa_used (allocator k') = insert p (fa_used (allocator k))"
      "fa_frames (allocator k') = fa_frames (allocator k)" "kmem_inv k'"
      "mem k' = (mem k)(p := (\<lambda>_. 0))"
    using frame_alloc_ok [OF assms(1)] assms(2) by metis
  have s: "sub_table k' p i = None" for i by (simp add: sub_table_def p(5))
  have "pt_new k = Some (\<lparr> root_ppn = p, pt_frames = [p] \<rparr>, k')"
    by (simp add: pt_new_def p(1))
  moreover have "pt_wf k' \<lparr> root_ppn = p, pt_frames = [p] \<rparr> {p}"
    using p s by (simp add: pt_wf_def tree_wf_def)
  moreover have "pt_leaf k' p v = 0" for v by (simp add: pt_leaf_def pt_walk_def s)
  ultimately show thesis using that p by blast
qed

lemma booted_facts:
  shows "\<exists>T. pt_wf (snd booted) (fst booted) T"
    "pt_leaf (snd booted) (root_ppn (fst booted)) v = 0"
    "card (fa_frames (allocator (snd booted)) - fa_used (allocator (snd booted))) = 7"
    "fa_frames (allocator (snd booted)) = {1..<9}"
    "pt_wf (snd booted) (fst booted) {root_ppn (fst booted)}"
proof -
  have fl: "pa_floor 0x1000 = 1" "pa_floor 0x9000 = 9"
    by (simp_all add: pa_floor_def PAGE_SIZE_def)
  obtain rg where rg: "region_new 0x1000 0x9000 = Some rg"
    using region_new_ex [of "0x1000" "0x9000"] fl by auto
  note inv = boot_kmem_inv [OF rg]
  have fa: "fa_add_memory_region frame_allocator_new 0x1000 0x9000 = Some \<lparr> regions = [rg] \<rparr>"
    by (simp add: fa_add_memory_region_def frame_allocator_new_def rg)
  have al: "allocator (boot_kmem fa) = fa" for fa by (simp add: boot_kmem_def)
  have ne: "fa_used \<lparr> regions = [rg] \<rparr> \<noteq> fa_frames \<lparr> regions = [rg] \<rparr>"
    using inv(2,3) fl by auto
  obtain p k' where p: "pt_new (boot_kmem \<lparr> regions = [rg] \<rparr>) = Some (\<lparr> root_ppn = p, pt_frames = [p] \<rparr>, k')"
    "pt_wf k' \<lparr> root_ppn = p, pt_frames = [p] \<rparr> {p}" "\<And>v. pt_leaf k' p v = 0"
    "fa_used (allocator k') = {p}" "fa_frames (allocator k') = {1..<9}"
    using pt_new_ok [of "boot_kmem \<lparr> regions = [rg] \<rparr>"] inv fl ne by (auto simp: al)
  have b: "booted = (\<lparr> root_ppn = p, pt_frames = [p] \<rparr>, k')"
    by (simp add: booted_def boot_def fa p(1))
  have "p \<in> {1..<9}"
    using fa_used_frames [of "allocator k'"] p(4,5) by auto
  then show "card (fa_frames (allocator (snd booted)) - fa_used (allocator (snd booted))) = 7"
    by (simp add: b p(4,5))
  show "pt_wf (snd booted) (fst booted) {root_ppn (fst booted)}" using p(2) by (simp add: b)
  show "\<exists>T. pt_wf (snd booted) (fst booted) T" "pt_leaf (snd booted) (root_ppn (fst booted)) v = 0"
    using p(2,3) by (auto simp: b)
  show "fa_frames (allocator (snd booted)) = {1..<9}" using p(5) by (simp add: b)
qed

lemma booted_walk: "pt_walk (snd booted) (root_ppn (fst booted)) v = None"
proof -
  have "sub_table (snd booted) (root_ppn (fst booted)) i = None" for i
    using tree_wfD(2) [OF pt_wfD(4) [OF booted_facts(5)], of i] by (cases "sub_table (snd booted) (root_ppn (fst booted)) i") auto
  then show ?thesis by (simp add: pt_walk_def)
qed

lemma pt_map_ex:
  assumes "pt_wf k pt T" "2 \<le> card (fa_frames (allocator k) - fa_used (allocator k))"
    "pt_leaf k (root_ppn pt) v = 0" "p < 2 ^ 36"
  shows "\<exists>e k' pt' T'. pt_map k pt v p flags = Some (k', pt') \<and> pte_new p flags = Some e
    \<and> pt_wf k' pt' T' \<and> T \<subseteq> T' \<and> T' - T \<subseteq> fa_frames (allocator k) - fa_used (allocator k) \<and> card (T' - T) \<le> 2
    \<and> fa_used (allocator k') = fa_used (allocator k) \<union> (T' - T) \<and> root_ppn pt' = root_ppn pt \<and> (\<forall>q. q \<notin> T' \<longrightarrow> mem k' q = mem k q)
    \<and> (\<forall>w. pt_leaf k' (root_ppn pt) w =
         (if w mod 2 ^ 27 = v mod 2 ^ 27 then e else pt_leaf k (root_ppn pt) w))"
  by (rule pt_map_ok [OF assms, of flags]) blast

subsection \<open>Properties\<close>

text \<open>
  C1: \<open>PageTable::map\<close> of an unmapped page, with two free frames for intermediate tables and a
  page number that fits the entry, succeeds; afterwards the page (and its aliases modulo the 27 bits
  that the three levels read) has exactly the new entry, every other page keeps its entry, and the tables
  are still a tree of distinct owned frames.  The new tables are at most two frames that were free before the
  call, the only ones it takes from the allocator; no page of memory but them and the old tables is written.
\<close>

theorem page_table_map:
  assumes "pt_wf k pt T" "2 \<le> card (fa_frames (allocator k) - fa_used (allocator k))"
    "pt_leaf k (root_ppn pt) v = 0" "p < 2 ^ 36"
  shows "\<exists>e k' pt' T'. pt_map k pt v p flags = Some (k', pt') \<and> pte_new p flags = Some e
    \<and> pt_wf k' pt' T' \<and> T \<subseteq> T' \<and> T' - T \<subseteq> fa_frames (allocator k) - fa_used (allocator k) \<and> card (T' - T) \<le> 2
    \<and> fa_used (allocator k') = fa_used (allocator k) \<union> (T' - T) \<and> root_ppn pt' = root_ppn pt \<and> (\<forall>q. q \<notin> T' \<longrightarrow> mem k' q = mem k q)
    \<and> (\<forall>w. pt_leaf k' (root_ppn pt) w =
         (if w mod 2 ^ 27 = v mod 2 ^ 27 then e else pt_leaf k (root_ppn pt) w))"
  using assms by (rule pt_map_ex)

theorem page_table_map_witness:
  "\<exists>e k' pt' T'. pt_map (snd booted) (fst booted) 5 3 PTE_V = Some (k', pt') \<and> pte_new 3 PTE_V = Some e
    \<and> pt_wf k' pt' T' \<and> T' - fa_used (allocator (snd booted)) \<subseteq> {1..<9} \<and> pt_leaf k' (root_ppn (fst booted)) 5 = e
    \<and> pt_leaf k' (root_ppn (fst booted)) 6 = 0"
proof -
  obtain T where wf: "pt_wf (snd booted) (fst booted) T" using booted_facts(1) by blast
  have "T \<subseteq> fa_used (allocator (snd booted))" by (rule pt_wfD(2) [OF wf])
  then have *: "T' - T \<subseteq> fa_frames (allocator (snd booted)) - fa_used (allocator (snd booted))
      \<Longrightarrow> T' - fa_used (allocator (snd booted)) \<subseteq> {1..<9}" for T'
    using booted_facts(4) by blast
  from page_table_map [OF wf _ booted_facts(2), of 3 5 PTE_V]
  obtain e k' pt' T' where "pt_map (snd booted) (fst booted) 5 3 PTE_V = Some (k', pt')" "pte_new 3 PTE_V = Some e" "pt_wf k' pt' T'"
    "T' - T \<subseteq> fa_frames (allocator (snd booted)) - fa_used (allocator (snd booted))"
    "pt_leaf k' (root_ppn (fst booted)) 5 = e" "pt_leaf k' (root_ppn (fst booted)) 6 = 0"
    by (auto simp: booted_facts(2,3))
  then show ?thesis using * by blast
qed

text \<open>
  C2: \<open>PageTable::unmap\<close> of a mapped page clears its entry and nothing else: every other page
  keeps its entry, the allocator and the reference counts are untouched, and no page of memory
  outside the tables is written.
\<close>

theorem page_table_unmap:
  assumes "pt_wf k pt T" "pt_leaf k (root_ppn pt) v \<noteq> 0"
  shows "\<exists>k'. pt_unmap k pt v = Some k' \<and> pt_wf k' pt T \<and> allocator k' = allocator k \<and> arcs k' = arcs k
    \<and> (\<forall>q. q \<notin> T \<longrightarrow> mem k' q = mem k q)
    \<and> (\<forall>w. pt_leaf k' (root_ppn pt) w =
         (if w mod 2 ^ 27 = v mod 2 ^ 27 then 0 else pt_leaf k (root_ppn pt) w))"
  using pt_unmap_ok [OF assms] by metis

lemma booted_mapped:
  "\<exists>k' pt' T'. pt_map (snd booted) (fst booted) 5 3 PTE_V = Some (k', pt') \<and> pt_wf k' pt' T'
     \<and> pt_leaf k' (root_ppn pt') 5 \<noteq> 0"
proof -
  obtain T where wf: "pt_wf (snd booted) (fst booted) T" using booted_facts(1) by blast
  have f: "2 \<le> card (fa_frames (allocator (snd booted)) - fa_used (allocator (snd booted)))"
    by (simp add: booted_facts(3))
  have p3: "(3 :: nat) < 2 ^ 36" by simp
  from pt_map_ex [OF wf f booted_facts(2) p3, of 5 PTE_V]
  obtain e k' pt' T' where m: "pt_map (snd booted) (fst booted) 5 3 PTE_V = Some (k', pt')"
    "pte_new 3 PTE_V = Some e" "pt_wf k' pt' T'" "root_ppn pt' = root_ppn (fst booted)"
    "pt_leaf k' (root_ppn (fst booted)) 5 = e"
    by auto
  have "bit e 0" using pte_new_bit(2) [OF m(2), of 0] by (simp add: PTE_const_bits)
  then have "e \<noteq> 0" by auto
  then show ?thesis using m by auto
qed

theorem page_table_unmap_witness:
  "\<exists>k pt k'. pt_map (snd booted) (fst booted) 5 3 PTE_V = Some (k, pt) \<and> pt_unmap k pt 5 = Some k'
     \<and> pt_leaf k' (root_ppn pt) 5 = 0"
proof -
  obtain k pt T where "pt_map (snd booted) (fst booted) 5 3 PTE_V = Some (k, pt)" "pt_wf k pt T"
    "pt_leaf k (root_ppn pt) 5 \<noteq> 0"
    using booted_mapped by blast
  with page_table_unmap [of k pt T 5] show ?thesis by auto
qed

text \<open>
  The two guards of the page table.  Mapping a page that has an entry and unmapping a page that
  has none both panic, whatever the allocator holds.
\<close>

lemma page_table_guards:
  assumes "pt_wf k pt T"
  shows "if pt_leaf k (root_ppn pt) v = 0 then pt_unmap k pt v = None
    else pt_map k pt v p flags = None"
  using pt_map_mapped [OF assms] pt_unmap_unmapped [OF assms] by simp

lemma page_table_guards_witness: "pt_unmap (snd booted) (fst booted) 5 = None"
proof -
  obtain T where "pt_wf (snd booted) (fst booted) T" using booted_facts(1) by blast
  from page_table_guards [OF this, of 5] show ?thesis by (simp add: booted_facts(2))
qed

lemma pt_translate_va_walk:
  assumes "pt_wf k pt T" "v < 2 ^ 27" "off < 4096" "pt_leaf k (root_ppn pt) v = e" "e \<noteq> 0"
    "pte_ppn e = Some p"
  shows "pt_translate_va k pt (va_of_vpn v + of_nat off) = Some (Some (pa_of_ppn p + of_nat off))"
proof -
  have v52: "v < 2 ^ 52" using assms(2) by simp
  note fo = va_floor_of_vpn_offset [OF v52 assms(3)]
  have "unat (va_of_vpn v + of_nat off) = v * 4096 + off"
    using va_split [of "va_of_vpn v + of_nat off"] fo by simp
  also have "\<dots> < 2 ^ 40" using assms(2,3) by simp
  finally have "\<not> va_of_vpn v + of_nat off \<ge> of_nat KERNEL_DIRECT_OFFSET"
    by (simp add: word_le_nat_alt KERNEL_DIRECT_OFFSET_def)
  moreover obtain a where "pt_walk k (root_ppn pt) v = Some a" "read_pte k a = e"
    using assms(4,5) by (auto simp: pt_leaf_def split: option.splits)
  ultimately show ?thesis
    by (simp add: pt_translate_va_def find_pte_walk [OF assms(1)] fo assms(6))
qed

text \<open>
  C3: translation after mapping.  Once \<open>map\<close> has mapped a user page below \<open>2 ^ 27\<close> to a
  frame, \<open>translate_va\<close> of every address in the page is the address at the same offset in the frame.
\<close>

theorem page_table_translate:
  assumes "pt_wf k pt T" "2 \<le> card (fa_frames (allocator k) - fa_used (allocator k))"
    "pt_leaf k (root_ppn pt) v = 0" "p < 2 ^ 36" "0 < p" "pte_flags_ok flags" "v < 2 ^ 27" "off < 4096"
  shows "\<exists>k' pt'. pt_map k pt v p flags = Some (k', pt') \<and>
    pt_translate_va k' pt' (va_of_vpn v + of_nat off) = Some (Some (pa_of_ppn p + of_nat off))"
proof -
  obtain e k' pt' T' where m: "pt_map k pt v p flags = Some (k', pt')" "pte_new p flags = Some e"
    "pt_wf k' pt' T'" "root_ppn pt' = root_ppn pt" "pt_leaf k' (root_ppn pt) v = e"
    using pt_map_ok [OF assms(1-4)] by metis
  have p: "pte_ppn e = Some p"
    using la64.codec [OF assms(4,6)] m(2) by auto
  have "e \<noteq> 0"
  proof
    assume "e = 0"
    then show False using p assms(5) by (simp add: pte_ppn_def usize_get_bits_def PAGE_SIZE_BITS_def PALEN_def)
  qed
  then show ?thesis
    using m pt_translate_va_walk [OF m(3) assms(7,8) _ _ p] by auto
qed

theorem page_table_translate_witness:
  "\<exists>k' pt'. pt_map (snd booted) (fst booted) 5 3 PTE_V = Some (k', pt') \<and>
    pt_translate_va k' pt' (va_of_vpn 5 + of_nat 7) = Some (Some (pa_of_ppn 3 + of_nat 7))"
proof -
  obtain T where "pt_wf (snd booted) (fst booted) T" using booted_facts(1) by blast
  from page_table_translate [OF this _ booted_facts(2), of 3 PTE_V 5 7]
  show ?thesis by (auto simp: booted_facts(3) pte_flags_ok_bits PTE_const_bits)
qed

end
