(* ===== verification/Frame_Props.thy ===== *)
theory Frame_Props
  imports Phys_Mem Pte
begin

text \<open>
  The properties of the frame allocator and of page-table entries, each with a concrete instance:
  a region of eight frames, and an entry of a writable user page.
\<close>

definition region8 :: frame_region_map where
  "region8 = \<lparr> bits = [0xFFFFFFFFFFFFFF00], start_ppn = 1, end_ppn = 9 \<rparr>"

definition fa8 :: frame_allocator where
  "fa8 = \<lparr> regions = [region8] \<rparr>"

lemma region8_inv: "region_inv region8"
  unfolding region_inv_def region8_def by code_simp

lemma region8_used: "region_used region8 = {}"
proof -
  have "\<forall>p\<in>{1..<9}. \<not> abit [0xFFFFFFFFFFFFFF00] (p - 1)" by code_simp
  then show ?thesis by (auto simp: region_used_def region_frames_def region8_def)
qed

lemma fa8_inv: "fa_inv fa8" "fa_used fa8 = {}" "fa_frames fa8 = {1..<9}"
  by (simp_all add: fa_inv_def fa_used_def fa_frames_def fa8_def region8_inv region8_used)
    (simp add: region_frames_def region8_def)

subsection \<open>Frames\<close>

text \<open>
  C16: no frame is handed out twice.  From an allocator with no frame in use, along every sequence of
  \<open>alloc\<close> and of \<open>dealloc\<close> of frames that were handed out, nothing panics, the live frames are
  pairwise distinct, and they are exactly the frames whose bits are set.
\<close>

theorem frames_unique:
  assumes "fa_inv fa" "fa_used fa = {}" "pool_polite fa_alloc fa_dealloc ops (fa, [])"
  shows "\<exists>fa' live. pool_run fa_alloc fa_dealloc ops (fa, []) = Some (fa', live)
    \<and> distinct live \<and> set live = fa_used fa'"
  using frames.run_polite [OF assms(3,1)] frames.run_live [OF _ assms(1)] assms(2) by fastforce

theorem frames_unique_witness:
  "\<exists>fa' live. pool_run fa_alloc fa_dealloc [PAlloc, PAlloc, PDealloc 1, PAlloc] (fa8, []) = Some (fa', live)
    \<and> distinct live \<and> set live = fa_used fa'"
proof (rule frames_unique [OF fa8_inv(1,2)])
  show "pool_polite fa_alloc fa_dealloc [PAlloc, PAlloc, PDealloc 1, PAlloc] (fa8, [])"
    by code_simp
qed

text \<open>
  The first-fit search for a contiguous run is exact.  \<open>alloc_contiguous\<close> on a region returns
  \<open>count\<close> consecutive frames that were free and marks exactly them; when it returns \<open>None\<close> the region
  has no run of \<open>count\<close> free frames.
\<close>

lemma alloc_contiguous_exact:
  assumes "region_inv rg"
  shows "case region_alloc_contiguous rg count of
      Some (ps, rg') \<Rightarrow> region_inv rg' \<and> (\<exists>f. ps = [f..<f + count])
        \<and> set ps \<subseteq> region_frames rg - region_used rg \<and> region_used rg' = set ps \<union> region_used rg
    | None \<Rightarrow> (\<forall>f. \<not> {f..<f + count} \<subseteq> region_frames rg - region_used rg)"
  using region_contiguous_Some [OF assms] region_contiguous_None [OF assms]
  by (simp split: option.split)

lemma alloc_contiguous_exact_witness:
  "case region_alloc_contiguous region8 3 of
      Some (ps, rg') \<Rightarrow> region_inv rg' \<and> (\<exists>f. ps = [f..<f + 3])
        \<and> set ps \<subseteq> region_frames region8 - region_used region8
        \<and> region_used rg' = set ps \<union> region_used region8
    | None \<Rightarrow> (\<forall>f. \<not> {f..<f + 3} \<subseteq> region_frames region8 - region_used region8)"
  by (rule alloc_contiguous_exact [OF region8_inv])

text \<open>
  the allocator finds the lowest free frame of the first region that has one, and fails only when
  every frame is in use; \<open>remaining_frames\<close>, which sums the zero bits of all bitmaps, is the number of
  free frames.
\<close>

lemma frame_allocator_complete:
  assumes "fa_inv fa"
  shows "fa_remaining_frames fa = card (fa_frames fa - fa_used fa)
    \<and> (case fa_alloc fa of
         None \<Rightarrow> fa_used fa = fa_frames fa
       | Some (p, fa') \<Rightarrow> p \<in> fa_frames fa - fa_used fa \<and> fa_used fa' = insert p (fa_used fa)
           \<and> fa_remaining_frames fa' + 1 = fa_remaining_frames fa)"
proof (cases "fa_alloc fa")
  case None
  then show ?thesis using remaining_frames_card [OF assms] fa_alloc_None [OF assms] by simp
next
  case (Some a)
  then obtain p fa' where a: "fa_alloc fa = Some (p, fa')" by (cases a) auto
  note u = frames.alloc_used [OF assms a] frames.alloc_fresh [OF assms a]
    frames.alloc_invar [OF assms a] fa_alloc_frames [OF assms a]
  have "fa_frames fa - fa_used fa = insert p (fa_frames fa - insert p (fa_used fa))"
    using u by auto
  then have "card (fa_frames fa - fa_used fa) = card (fa_frames fa - insert p (fa_used fa)) + 1"
    using finite_fa_frames [of fa] by (metis Diff_iff add.commute card_insert_disjoint finite_Diff insertI1 plus_1_eq_Suc)
  then show ?thesis
    using a u remaining_frames_card [OF assms] remaining_frames_card [OF u(3)] by simp
qed

lemma frame_allocator_complete_witness:
  "fa_remaining_frames fa8 = card (fa_frames fa8 - fa_used fa8) \<and> fa_remaining_frames fa8 = 8"
  using frame_allocator_complete [OF fa8_inv(1)] by (simp add: fa8_inv)

text \<open>
  C17: \<open>frame_alloc\<close> never panics; it returns a managed frame that was not in use, whose 4096 bytes
  are zero, with one reference, and it writes no other page; it fails only when all frames are in use.
\<close>

theorem frame_alloc_zeroed:
  assumes "kmem_inv k"
  shows "case frame_alloc k of
      None \<Rightarrow> False
    | Some (None, k') \<Rightarrow> k' = k \<and> fa_used (allocator k) = fa_frames (allocator k)
    | Some (Some p, k') \<Rightarrow> kmem_inv k' \<and> arcs k p = 0 \<and> arcs k' p = 1
        \<and> p \<in> fa_frames (allocator k) \<and> (\<forall>off. read_byte k' p off = 0)
        \<and> (\<forall>q. q \<noteq> p \<longrightarrow> mem k' q = mem k q \<and> arcs k' q = arcs k q)"
proof (rule frame_alloc_ok [OF assms])
  fix p k'
  assume a: "frame_alloc k = Some (Some p, k')" "p \<in> fa_frames (allocator k)"
    "p \<notin> fa_used (allocator k)" "kmem_inv k'" "mem k' = (mem k)(p := (\<lambda>_. 0))"
    "arcs k' = (arcs k)(p := 1)"
  moreover have "arcs k p = 0" using a(3) assms by (auto simp: kmem_inv_def)
  ultimately show ?thesis by (simp add: read_byte_def cell_byte_def)
qed simp

definition kmem8 :: kmem where
  "kmem8 = \<lparr> allocator = fa8, mem = (\<lambda>_ _. 7), arcs = (\<lambda>_. 0), frame_vec = [] \<rparr>"

lemma kmem8_inv: "kmem_inv kmem8"
  by (auto simp: kmem_inv_def kmem8_def fa8_inv)

theorem frame_alloc_zeroed_witness:
  "case frame_alloc kmem8 of
      None \<Rightarrow> False
    | Some (None, k') \<Rightarrow> k' = kmem8 \<and> fa_used (allocator kmem8) = fa_frames (allocator kmem8)
    | Some (Some p, k') \<Rightarrow> kmem_inv k' \<and> arcs kmem8 p = 0 \<and> arcs k' p = 1
        \<and> p \<in> fa_frames (allocator kmem8) \<and> (\<forall>off. read_byte k' p off = 0)
        \<and> (\<forall>q. q \<noteq> p \<longrightarrow> mem k' q = mem kmem8 q \<and> arcs k' q = arcs kmem8 q)"
  by (rule frame_alloc_zeroed [OF kmem8_inv])

subsection \<open>Entries\<close>

text \<open>
  An entry built by \<open>PageTableEntry::new\<close> from a 36-bit page number and declared flags other than
  \<open>NX\<close> reads back as the same page number and the same flags.
\<close>

lemma pte_round_trip:
  assumes "p < 2 ^ 36" "pte_flags_ok f"
  shows "\<exists>e. pte_new p f = Some e \<and> pte_ppn e = Some p \<and> pte_flags_of e = Some f"
  using la64.codec [OF assms] .

lemma pte_round_trip_witness:
  "\<exists>e. pte_new 0x80123 (pte_flags_of_perm (MP_W OR MP_U)) = Some e \<and> pte_ppn e = Some 0x80123
    \<and> pte_flags_of e = Some (pte_flags_of_perm (MP_W OR MP_U))"
proof (rule pte_round_trip)
  show "pte_flags_ok (pte_flags_of_perm (MP_W OR MP_U))" by code_simp
qed simp

text \<open>
  \<open>set_cow\<close> withdraws write access: the entry is marked copy-on-write, is not writable, keeps its
  frame, and \<open>un_cow\<close> then restores exactly the write permission the entry had before.
\<close>

lemma set_cow_un_cow:
  assumes "pte_flags_of e = Some f" "\<not> bit f 48"
  shows "\<exists>e1 e2. pte_set_cow e = Some e1 \<and> pte_is_cow e1 = Some True \<and> pte_writable e1 = Some False
    \<and> pte_ppn e1 = pte_ppn e \<and> pte_un_cow e1 = Some e2 \<and> pte_ppn e2 = pte_ppn e
    \<and> pte_writable e2 = pte_writable e"
proof -
  obtain e1 f1 where 1: "pte_set_cow e = Some e1" "pte_ppn e1 = pte_ppn e" "pte_flags_of e1 = Some f1"
    "\<And>n. bit f1 n \<longleftrightarrow> n = 49 \<or> (n = 48 \<and> bit f 8) \<or> (bit f n \<and> n \<noteq> 8)"
    using pte_set_cow_flags [OF assms(1)] by blast
  obtain e2 f2 where 2: "pte_un_cow e1 = Some e2" "pte_ppn e2 = pte_ppn e1" "pte_flags_of e2 = Some f2"
    "\<And>n. bit f2 n \<longleftrightarrow> bit f1 n \<or> (n = 8 \<and> bit f1 48)"
    using pte_un_cow_flags [OF 1(3)] by blast
  have "pte_is_cow e1 = Some True" "pte_writable e1 = Some False"
    using pte_is_cow_bit [OF 1(3)] pte_writable_bit [OF 1(3)] 1(4) by auto
  moreover have "pte_writable e2 = pte_writable e"
    using pte_writable_bit [OF 2(3)] pte_writable_bit [OF assms(1)] 2(4) [of 8] 1(4) [of 8] 1(4) [of 48] assms(2)
    by simp
  ultimately show ?thesis using 1 2 by simp
qed

lemma set_cow_un_cow_witness:
  "\<exists>e1 e2. pte_set_cow 0x80123181 = Some e1 \<and> pte_is_cow e1 = Some True \<and> pte_writable e1 = Some False
    \<and> pte_ppn e1 = pte_ppn 0x80123181 \<and> pte_un_cow e1 = Some e2 \<and> pte_ppn e2 = pte_ppn 0x80123181
    \<and> pte_writable e2 = pte_writable 0x80123181"
proof (rule set_cow_un_cow)
  show "pte_flags_of 0x80123181 = Some 0x181" by code_simp
  show "\<not> bit (0x181 :: usize) 48" by code_simp
qed

text \<open>
  On loongarch64 the copy-on-write mark cannot be removed: \<open>set_flags\<close> keeps bits 48 and 49 of the
  old entry, so an entry that \<open>is_cow\<close> still is after \<open>un_cow\<close>.
\<close>

lemma un_cow_keeps_mark:
  assumes "pte_is_cow e = Some True"
  shows "\<exists>e'. pte_un_cow e = Some e' \<and> pte_is_cow e' = Some True"
proof -
  obtain f where f: "pte_flags_of e = Some f" "bit f 49"
    using assms by (auto simp: pte_is_cow_def bind_eq_Some_conv fl_contains_const)
  obtain e' f' where "pte_un_cow e = Some e'" "pte_flags_of e' = Some f'"
    "\<And>n. bit f' n \<longleftrightarrow> bit f n \<or> (n = 8 \<and> bit f 48)"
    using pte_un_cow_flags [OF f(1)] by blast
  then show ?thesis using pte_is_cow_bit f(2) by simp
qed

lemma un_cow_keeps_mark_witness:
  "\<exists>e'. pte_un_cow 0x3000080123081 = Some e' \<and> pte_is_cow e' = Some True"
  by (rule un_cow_keeps_mark) code_simp

end
