(* ===== verification/Id_Alloc.thy ===== *)
theory Id_Alloc
  imports Resource_Pool
begin

text \<open>
  The pid allocator (\<open>os/src/task/id.rs\<close>): a counter and a stack of recycled numbers.  The
  global \<open>PID_ALLOCATOR\<close> starts at 1, so pid 0 is never handed out.  \<open>pid_alloc\<close> and the
  \<open>Drop\<close> of \<open>PidHandle\<close> are the allocator's two operations on the global instance.  The counter is a \<open>usize\<close> in the source and
  a natural number here: it would wrap only after \<open>2 ^ 64\<close> pids were in use at once.
\<close>

record recycle_allocator =
  current :: nat
  recycled :: "nat list"

definition recycle_new :: recycle_allocator where
  "recycle_new = \<lparr> current = 0, recycled = [] \<rparr>"

text \<open>The \<open>Vec\<close> is kept with its last element, the top of the stack, at the end.\<close>

definition recycle_alloc :: "recycle_allocator \<Rightarrow> nat \<times> recycle_allocator" where
  "recycle_alloc a =
     (if recycled a \<noteq> [] then (last (recycled a), a\<lparr> recycled := butlast (recycled a) \<rparr>)
      else let a' = a\<lparr> current := current a + 1 \<rparr> in (current a' - 1, a'))"

definition recycle_dealloc :: "recycle_allocator \<Rightarrow> nat \<Rightarrow> recycle_allocator option" where
  "recycle_dealloc a i = do {
     ensure (i < current a);
     ensure (\<not> list_ex (\<lambda>j. j = i) (recycled a));
     Some (a\<lparr> recycled := recycled a @ [i] \<rparr>) }"

definition PID_ALLOCATOR :: recycle_allocator where
  "PID_ALLOCATOR = \<lparr> current = 1, recycled = [] \<rparr>"

definition pid_alloc :: "recycle_allocator \<Rightarrow> (nat \<times> recycle_allocator) option" where
  "pid_alloc a = Some (recycle_alloc a)"

definition pid_drop :: "recycle_allocator \<Rightarrow> nat \<Rightarrow> recycle_allocator option" where
  "pid_drop a pid = recycle_dealloc a pid"

subsection \<open>Invariant and contract\<close>

text \<open>
  A number is in use when the counter has passed it and it is not on the recycle stack.  In the
  global pid allocator the number 0 is in use from the start, without ever being handed out.
\<close>

definition recycle_inv :: "recycle_allocator \<Rightarrow> bool" where
  "recycle_inv a \<longleftrightarrow> distinct (recycled a) \<and> set (recycled a) \<subseteq> {..<current a}"

definition recycle_used :: "recycle_allocator \<Rightarrow> nat set" where
  "recycle_used a = {..<current a} - set (recycled a)"

lemma last_butlast_distinct:
  assumes "distinct xs" "xs \<noteq> []"
  shows "set (butlast xs) = set xs - {last xs}"
  using assms by (cases xs rule: rev_cases) auto

lemma recycle_inv_PID: "recycle_inv PID_ALLOCATOR" "recycle_used PID_ALLOCATOR = {0}"
  by (auto simp: recycle_inv_def recycle_used_def PID_ALLOCATOR_def)

lemma recycle_alloc_cases:
  assumes "recycle_inv a" "recycle_alloc a = (i, a')"
  shows "i \<notin> recycle_used a" "recycle_used a' = insert i (recycle_used a)"
    "recycle_inv a'"
proof -
  have inv: "distinct (recycled a)" "set (recycled a) \<subseteq> {..<current a}"
    using assms(1) by (auto simp: recycle_inv_def)
  have "i \<notin> recycle_used a \<and> recycle_used a' = insert i (recycle_used a)
    \<and> recycle_inv a'"
  proof (cases "recycled a = []")
    case True
    then show ?thesis
      using assms(2) inv by (auto simp: recycle_alloc_def recycle_used_def recycle_inv_def Let_def)
  next
    case False
    then have i: "i = last (recycled a)" and a': "a' = a\<lparr> recycled := butlast (recycled a) \<rparr>"
      using assms(2) by (auto simp: recycle_alloc_def)
    have "i \<in> set (recycled a)" using False i by simp
    then show ?thesis
      using inv last_butlast_distinct [OF inv(1) False] i
      by (auto simp: a' recycle_used_def recycle_inv_def distinct_butlast)
  qed
  then show "i \<notin> recycle_used a" "recycle_used a' = insert i (recycle_used a)"
    "recycle_inv a'" by auto
qed

lemma pid_drop_Some:
  "pid_drop a i = Some a' \<longleftrightarrow>
     i < current a \<and> i \<notin> set (recycled a) \<and> a' = a\<lparr> recycled := recycled a @ [i] \<rparr>"
  by (auto simp: pid_drop_def recycle_dealloc_def list_ex_iff)

interpretation pids: resource_pool recycle_inv recycle_used pid_alloc pid_drop
proof unfold_locales
  fix s i s'
  assume inv: "recycle_inv s"
  { assume "pid_alloc s = Some (i, s')"
    then have "recycle_alloc s = (i, s')" by (simp add: pid_alloc_def)
    note recycle_alloc_cases [OF inv this]
  } note al = this
  show "i \<notin> recycle_used s" if "pid_alloc s = Some (i, s')" using al(1) that .
  show "recycle_used s' = insert i (recycle_used s)" if "pid_alloc s = Some (i, s')"
    using al(2) that .
  show "recycle_inv s'" if "pid_alloc s = Some (i, s')" using al(3) that .
  show "pid_drop s i \<noteq> None \<longleftrightarrow> i \<in> recycle_used s"
    using inv pid_drop_Some [of s i]
    by (auto simp: pid_drop_Some recycle_used_def recycle_inv_def)
  show "recycle_used s' = recycle_used s - {i}" if "pid_drop s i = Some s'"
    using that by (auto simp: pid_drop_Some recycle_used_def split: if_splits)
  show "recycle_inv s'" if "pid_drop s i = Some s'"
    using that inv
    by (auto simp: pid_drop_Some recycle_inv_def split: if_splits)
qed

end
