(* ===== verification/Clock.thy ===== *)
theory Clock
  imports Config Prelude
begin

text \<open>
  Time values and clocks (\<open>os/src/timer.rs\<close>): the derived order of \<open>TimeVal\<close>, its arithmetic, the
  conversions from the tick counter, and the CPU-time record of a process.  The tick counter is an
  argument of every function that reads it.
\<close>

datatype time_val = TimeVal (tv_sec: usize) (tv_usec: usize)

text \<open>\<open>derive(PartialOrd, Ord)\<close>: the lexicographic order of the fields.\<close>

instantiation time_val :: linorder
begin

definition less_eq_time_val :: "time_val \<Rightarrow> time_val \<Rightarrow> bool" where
  "less_eq_time_val a b \<longleftrightarrow> tv_sec a < tv_sec b \<or> (tv_sec a = tv_sec b \<and> tv_usec a \<le> tv_usec b)"

definition less_time_val :: "time_val \<Rightarrow> time_val \<Rightarrow> bool" where
  "less_time_val a b \<longleftrightarrow> tv_sec a < tv_sec b \<or> (tv_sec a = tv_sec b \<and> tv_usec a < tv_usec b)"

instance
  by standard (auto simp: less_eq_time_val_def less_time_val_def time_val.expand)

end

datatype user_time_spec = UserTimeSpec (ts_sec: usize) (ts_nsec: usize)

instantiation user_time_spec :: linorder
begin

definition less_eq_user_time_spec :: "user_time_spec \<Rightarrow> user_time_spec \<Rightarrow> bool" where
  "less_eq_user_time_spec a b \<longleftrightarrow> ts_sec a < ts_sec b \<or> (ts_sec a = ts_sec b \<and> ts_nsec a \<le> ts_nsec b)"

definition less_user_time_spec :: "user_time_spec \<Rightarrow> user_time_spec \<Rightarrow> bool" where
  "less_user_time_spec a b \<longleftrightarrow> ts_sec a < ts_sec b \<or> (ts_sec a = ts_sec b \<and> ts_nsec a < ts_nsec b)"

instance
  by standard (auto simp: less_eq_user_time_spec_def less_user_time_spec_def user_time_spec.expand)

end

definition MSEC_PER_SEC :: usize where "MSEC_PER_SEC = 1000"
definition MICRO_PER_SEC :: usize where "MICRO_PER_SEC = 1000000"
definition NANO_PER_SEC :: usize where "NANO_PER_SEC = 1000000000"
definition TICKS_PER_SEC :: usize where "TICKS_PER_SEC = 100"
definition NSEC_PER_USEC :: u64 where "NSEC_PER_USEC = 1000"

abbreviation clock_freq :: usize where "clock_freq \<equiv> word_of_nat CLOCK_FREQ"

subsection \<open>The clocks\<close>

definition get_time :: "usize \<Rightarrow> usize" where
  "get_time ticks = ticks div clock_freq"

definition get_time_ms_riscv :: "usize \<Rightarrow> usize" where
  "get_time_ms_riscv ticks = ticks * MSEC_PER_SEC div clock_freq"

definition get_time_ms :: "usize \<Rightarrow> usize" where
  "get_time_ms ticks = (let counter = get_time ticks in counter * MSEC_PER_SEC div clock_freq)"

definition get_time_us :: "usize \<Rightarrow> usize" where
  "get_time_us ticks = (let counter = get_time ticks in counter * MICRO_PER_SEC div clock_freq)"

definition get_time_ns :: "usize \<Rightarrow> usize" where
  "get_time_ns ticks0 = (
     let ticks = (ucast ticks0 :: 128 word);
         nanos = ticks * ucast NANO_PER_SEC div ucast clock_freq
     in ucast nanos)"

definition current_time :: "usize \<Rightarrow> time_val" where
  "current_time ticks = (
     let time_ns = get_time_ns ticks
     in TimeVal (time_ns div NANO_PER_SEC) (time_ns mod NANO_PER_SEC div 1000))"

definition get_usertime :: "usize \<Rightarrow> user_time_spec" where
  "get_usertime ticks =
     UserTimeSpec (ticks div clock_freq) (ticks mod clock_freq * NANO_PER_SEC div clock_freq)"

definition next_trigger :: "usize \<Rightarrow> usize" where
  "next_trigger ticks = ticks + clock_freq div TICKS_PER_SEC"

subsection \<open>Arithmetic\<close>

definition tv_normalize :: "usize \<Rightarrow> usize \<Rightarrow> time_val" where
  "tv_normalize sec usec =
     (if usec \<ge> 1000000 then TimeVal (sec + usec div 1000000) (usec mod 1000000) else TimeVal sec usec)"

definition add_milliseconds :: "time_val \<Rightarrow> usize \<Rightarrow> time_val" where
  "add_milliseconds a ms = (
     let sec = tv_sec a + ms div MSEC_PER_SEC;
         usec = tv_usec a + ms mod MSEC_PER_SEC * 1000
     in tv_normalize sec usec)"

definition add_timespec :: "time_val \<Rightarrow> user_time_spec \<Rightarrow> time_val" where
  "add_timespec a ts = (
     let sec = tv_sec a + ts_sec ts;
         usec = tv_usec a + ts_nsec ts div 1000
     in tv_normalize sec usec)"

definition tv_from_ns :: "u64 \<Rightarrow> time_val" where
  "tv_from_ns time = TimeVal (time div NANO_PER_SEC) (time mod NANO_PER_SEC div 1000)"

definition tv_to_ns :: "time_val \<Rightarrow> u64" where
  "tv_to_ns tv = tv_sec tv * NANO_PER_SEC + tv_usec tv * NSEC_PER_USEC"

definition tv_add :: "time_val \<Rightarrow> time_val \<Rightarrow> time_val" where
  "tv_add a b = (
     let sec = tv_sec a + tv_sec b;
         usec = tv_usec a + tv_usec b
     in tv_normalize sec usec)"

definition saturating_sub :: "usize \<Rightarrow> usize \<Rightarrow> usize" where
  "saturating_sub a b = (if b \<le> a then a - b else 0)"

definition tv_sub :: "time_val \<Rightarrow> time_val \<Rightarrow> time_val" where
  "tv_sub a b =
     (if tv_sec a > tv_sec b \<or> (tv_sec a = tv_sec b \<and> tv_usec a \<ge> tv_usec b) then
        (let sec = tv_sec a - tv_sec b
         in if tv_usec a \<ge> tv_usec b then TimeVal sec (tv_usec a - tv_usec b)
            else TimeVal (saturating_sub sec 1) (tv_usec a + 1000000 - tv_usec b))
      else TimeVal 0 0)"

definition ts_as_nanos :: "user_time_spec \<Rightarrow> usize" where
  "ts_as_nanos ts = ts_sec ts * NANO_PER_SEC + ts_nsec ts"

definition usertime2_timeval :: "user_time_spec \<Rightarrow> time_val" where
  "usertime2_timeval ts = TimeVal (ts_sec ts) (ts_nsec ts div 1000)"

text \<open>The nanosecond difference is computed as \<open>isize\<close>.\<close>

definition ts_sub :: "user_time_spec \<Rightarrow> user_time_spec \<Rightarrow> user_time_spec" where
  "ts_sub a b =
     (if b \<le> a then
        (let sec = ts_sec a - ts_sec b;
             nsec = ts_nsec a - ts_nsec b
         in if nsec <s 0 then UserTimeSpec (sec - 1) (nsec + NANO_PER_SEC)
            else UserTimeSpec sec nsec)
      else UserTimeSpec 0 0)"

definition ts_add :: "user_time_spec \<Rightarrow> user_time_spec \<Rightarrow> user_time_spec" where
  "ts_add a b = (
     let sec = ts_sec a + ts_sec b;
         nsec = ts_nsec a + ts_nsec b
     in if nsec \<ge> NANO_PER_SEC then UserTimeSpec (sec + nsec div NANO_PER_SEC) (nsec mod NANO_PER_SEC)
        else UserTimeSpec sec nsec)"

subsection \<open>CPU times of a process\<close>

record time_data =
  utime :: usize
  stime :: usize
  cutime :: usize
  cstime :: usize
  lasttime :: usize

record tms =
  tms_utime :: usize
  tms_stime :: usize
  tms_cutime :: usize
  tms_cstime :: usize

definition tms_new :: "time_data \<Rightarrow> tms" where
  "tms_new d = \<lparr> tms_utime = utime d, tms_stime = stime d, tms_cutime = cutime d, tms_cstime = cstime d \<rparr>"

definition time_data_new :: "usize \<Rightarrow> time_data" where
  "time_data_new ticks = \<lparr> utime = 0, stime = 0, cutime = 0, cstime = 0, lasttime = get_time_ms ticks \<rparr>"

definition update_utime :: "usize \<Rightarrow> time_data \<Rightarrow> time_data" where
  "update_utime ticks d = (
     let now = get_time_ms ticks; duration = now - lasttime d
     in d\<lparr> utime := utime d + duration, lasttime := now \<rparr>)"

definition update_stime :: "usize \<Rightarrow> time_data \<Rightarrow> time_data" where
  "update_stime ticks d = (
     let now = get_time_ms ticks; duration = now - lasttime d
     in d\<lparr> stime := stime d + duration, lasttime := now \<rparr>)"

definition clear_time_data :: "usize \<Rightarrow> time_data \<Rightarrow> time_data" where
  "clear_time_data ticks d = \<lparr> utime = 0, stime = 0, cutime = 0, cstime = 0, lasttime = get_time_ms ticks \<rparr>"

subsection \<open>Time values as microseconds\<close>

definition tv_us :: "time_val \<Rightarrow> nat" where
  "tv_us a = unat (tv_sec a) * 1000000 + unat (tv_usec a)"

definition tv_norm :: "time_val \<Rightarrow> bool" where
  "tv_norm a \<longleftrightarrow> tv_usec a < 1000000"

lemma tv_norm_unat: "tv_norm a \<longleftrightarrow> unat (tv_usec a) < 1000000"
  by (simp add: tv_norm_def word_less_nat_alt)

lemma tv_le_us:
  assumes "tv_norm a" "tv_norm b"
  shows "a \<le> b \<longleftrightarrow> tv_us a \<le> tv_us b"
  using assms
  by (auto simp: less_eq_time_val_def tv_us_def tv_norm_unat word_less_nat_alt word_le_nat_alt word_unat_eq_iff)

lemma tv_normalize_us:
  assumes "unat sec + unat usec div 1000000 < 2 ^ 64"
  shows "tv_norm (tv_normalize sec usec)" "tv_us (tv_normalize sec usec) = unat sec * 1000000 + unat usec"
proof -
  have u: "unat (usec div 1000000) = unat usec div 1000000" "unat (usec mod 1000000) = unat usec mod 1000000"
    by (simp_all add: unat_div unat_mod)
  then have s: "unat (sec + usec div 1000000) = unat sec + unat usec div 1000000"
    using assms by (simp add: unat_add_lem [THEN iffD1])
  show "tv_norm (tv_normalize sec usec)"
    using u by (auto simp: tv_norm_unat tv_normalize_def word_le_nat_alt)
  show "tv_us (tv_normalize sec usec) = unat sec * 1000000 + unat usec"
    using u s div_mult_mod_eq [of "unat usec" 1000000]
    by (simp add: tv_us_def tv_normalize_def add_mult_distrib)
qed

lemma unat_add_small:
  "unat a + unat b < 2 ^ 64 \<Longrightarrow> unat ((a :: usize) + b) = unat a + unat b"
  using unat_add_lem [of a b] by simp

lemma tv_add_us:
  assumes "tv_norm a" "tv_norm b" "unat (tv_sec a) + unat (tv_sec b) + 1 < 2 ^ 64"
  shows "tv_norm (tv_add a b)" "tv_us (tv_add a b) = tv_us a + tv_us b"
proof -
  have us: "unat (tv_usec a + tv_usec b) = unat (tv_usec a) + unat (tv_usec b)"
    and ss: "unat (tv_sec a + tv_sec b) = unat (tv_sec a) + unat (tv_sec b)"
    using assms by (simp_all add: unat_add_small tv_norm_unat)
  have "unat (tv_sec a + tv_sec b) + unat (tv_usec a + tv_usec b) div 1000000 < 2 ^ 64"
    using assms by (simp add: us ss tv_norm_unat)
  from tv_normalize_us [OF this] show "tv_norm (tv_add a b)" "tv_us (tv_add a b) = tv_us a + tv_us b"
    by (simp_all add: tv_add_def us ss tv_us_def add_mult_distrib)
qed

lemma tv_sub_us:
  assumes "tv_norm a" "tv_norm b"
  shows "tv_norm (tv_sub a b)" "tv_us (tv_sub a b) = tv_us a - tv_us b"
proof -
  note n = assms [unfolded tv_norm_unat]
  consider (ge) "tv_sec b \<le> tv_sec a" "tv_usec b \<le> tv_usec a"
    | (borrow) "tv_sec b < tv_sec a" "tv_usec a < tv_usec b"
    | (less) "tv_sec a < tv_sec b \<or> tv_sec a = tv_sec b \<and> tv_usec a < tv_usec b"
    by fastforce
  then have "tv_norm (tv_sub a b) \<and> tv_us (tv_sub a b) = tv_us a - tv_us b"
  proof cases
    case ge
    then have "tv_sub a b = TimeVal (tv_sec a - tv_sec b) (tv_usec a - tv_usec b)"
      by (auto simp: tv_sub_def)
    then show ?thesis using n ge
      by (auto simp: tv_us_def tv_norm_unat unat_sub word_le_nat_alt diff_mult_distrib)
  next
    case borrow
    have d: "unat (tv_sec a - tv_sec b) = unat (tv_sec a) - unat (tv_sec b)"
      using borrow by (simp add: unat_sub)
    have one: "1 \<le> tv_sec a - tv_sec b" using borrow d by (simp add: word_le_nat_alt word_less_nat_alt)
    have sec: "unat (saturating_sub (tv_sec a - tv_sec b) 1) = unat (tv_sec a) - unat (tv_sec b) - 1"
      using one d by (simp add: saturating_sub_def unat_sub)
    have s: "unat (tv_usec a + 1000000) = unat (tv_usec a) + 1000000"
      using n by (simp add: unat_add_small)
    then have u: "unat (tv_usec a + 1000000 - tv_usec b) = unat (tv_usec a) + 1000000 - unat (tv_usec b)"
      using n by (simp add: unat_sub word_le_nat_alt)
    have "tv_sub a b = TimeVal (saturating_sub (tv_sec a - tv_sec b) 1) (tv_usec a + 1000000 - tv_usec b)"
      using borrow by (simp add: tv_sub_def Let_def)
    moreover have "unat (tv_sec b) < unat (tv_sec a)" "unat (tv_usec a) < unat (tv_usec b)"
      using borrow by (simp_all add: word_less_nat_alt)
    ultimately show ?thesis using n sec u
      by (auto simp: tv_us_def tv_norm_unat diff_mult_distrib)
  next
    case less
    then have "tv_sub a b = TimeVal 0 0" by (auto simp: tv_sub_def)
    then show ?thesis using n less
      by (auto simp: tv_us_def tv_norm_unat word_less_nat_alt)
  qed
  then show "tv_norm (tv_sub a b)" "tv_us (tv_sub a b) = tv_us a - tv_us b" by auto
qed

lemma get_time_ns_exact:
  assumes "unat ticks * 80 < 2 ^ 64"
  shows "unat (get_time_ns ticks) = unat ticks * 80"
proof -
  let ?t = "ucast ticks :: 128 word"
  have t: "unat ?t = unat ticks" 
  proof -
    have "unat ticks < 2 ^ 64" using unsigned_less [of ticks] by simp
    then have "unat ticks < 2 ^ 128" by simp
    then show ?thesis by (simp add: unsigned_ucast_eq take_bit_nat_eq_self)
  qed
  have m: "unat (?t * 1000000000) = unat ticks * 1000000000"
  proof -
    have "unat ?t * unat (1000000000 :: 128 word) < 2 ^ LENGTH(128)" using assms t by simp
    then show ?thesis using t unat_mult_lem [of ?t 1000000000] by simp
  qed
  have "unat (?t * 1000000000 div 12500000) = unat ticks * 1000000000 div 12500000"
    using m by (simp add: unat_div)
  also have "\<dots> = unat ticks * 80" by simp
  finally have q: "unat (?t * 1000000000 div 12500000) = unat ticks * 80" .
  have "get_time_ns ticks = ucast (?t * 1000000000 div 12500000)"
    by (simp add: get_time_ns_def NANO_PER_SEC_def CLOCK_FREQ_def)
  then have "unat (get_time_ns ticks) = unat (?t * 1000000000 div 12500000) mod 2 ^ 64"
    by (simp add: unsigned_ucast_eq take_bit_eq_mod)
  then show ?thesis using q assms by simp
qed

lemma split_us: "(n :: nat) div 1000000000 * 1000000 + n mod 1000000000 div 1000 = n div 1000"
proof -
  have e: "(1000000000 :: nat) = 1000 * 1000000" by simp
  have "n mod 1000000000 div 1000 = n div 1000 mod 1000000"
    unfolding e mod_mult2_eq by (subst div_mult_self4) simp_all
  moreover have "n div 1000000000 = n div 1000 div 1000000"
    unfolding e by (rule div_mult2_eq)
  ultimately show ?thesis by (simp only: div_mult_mod_eq)
qed

lemma current_time_us:
  assumes "unat ticks * 80 < 2 ^ 64"
  shows "tv_norm (current_time ticks)" "tv_us (current_time ticks) = unat ticks * 80 div 1000"
proof -
  let ?ns = "unat ticks * 80"
  note ns = get_time_ns_exact [OF assms]
  have s: "unat (get_time_ns ticks div NANO_PER_SEC) = ?ns div 1000000000"
    and u: "unat (get_time_ns ticks mod NANO_PER_SEC div 1000) = ?ns mod 1000000000 div 1000"
    using ns by (simp_all add: NANO_PER_SEC_def unat_div unat_mod)
  show "tv_norm (current_time ticks)"
    by (simp add: current_time_def tv_norm_unat u Let_def less_mult_imp_div_less)
  show "tv_us (current_time ticks) = ?ns div 1000"
    unfolding current_time_def tv_us_def Let_def time_val.sel u s by (rule split_us)
qed

lemma get_time_ms_zero:
  assumes "unat ticks < 12500000 * 12500"
  shows "get_time_ms ticks = 0"
proof -
  have c: "unat (get_time ticks) = unat ticks div 12500000"
    by (simp add: get_time_def CLOCK_FREQ_def unat_div)
  have "unat (get_time ticks * MSEC_PER_SEC) = unat ticks div 12500000 * 1000"
  proof -
    have "unat (get_time ticks) * unat MSEC_PER_SEC < 2 ^ LENGTH(64)" using c assms by (simp add: MSEC_PER_SEC_def)
    then show ?thesis using c unat_mult_lem [of "get_time ticks" MSEC_PER_SEC] by (simp add: MSEC_PER_SEC_def)
  qed
  then have "unat (get_time_ms ticks) = unat ticks div 12500000 * 1000 div 12500000"
    by (simp add: get_time_ms_def CLOCK_FREQ_def unat_div Let_def)
  also have "\<dots> = 0"
  proof -
    have "unat ticks div 12500000 < 12500" using assms by (simp add: less_mult_imp_div_less)
    then have "unat ticks div 12500000 * 1000 < 12500000" by linarith
    then show ?thesis by (rule div_less)
  qed
  finally show ?thesis by (simp add: unat_eq_zero)
qed

text \<open>
  C33: \<open>TimeVal\<close> arithmetic is exact.  On normalised values the derived order is the order of the
  microseconds they stand for, \<open>add\<close> adds and \<open>sub\<close> subtracts microseconds (giving 0 below 0), and both
  results are normalised.
\<close>

theorem time_val_exact:
  assumes "tv_norm a" "tv_norm b" "unat (tv_sec a) + unat (tv_sec b) + 1 < 2 ^ 64"
  shows "(a \<le> b \<longleftrightarrow> tv_us a \<le> tv_us b) \<and> tv_us (tv_add a b) = tv_us a + tv_us b
    \<and> tv_us (tv_sub a b) = tv_us a - tv_us b \<and> tv_norm (tv_add a b) \<and> tv_norm (tv_sub a b)"
  by (intro conjI tv_le_us tv_add_us tv_sub_us assms)

theorem time_val_exact_witness:
  "tv_us (tv_add (TimeVal 5 700000) (TimeVal 3 900000)) = 9600000
    \<and> tv_us (tv_sub (TimeVal 5 700000) (TimeVal 3 900000)) = 1800000"
proof -
  have "tv_norm (TimeVal 5 700000)" "tv_norm (TimeVal 3 900000)" by (simp_all add: tv_norm_def)
  from time_val_exact [OF this] show ?thesis by (simp add: tv_us_def)
qed

text \<open>
  \<open>current_time\<close> is the tick counter in microseconds (80 ns per tick) as long as the nanoseconds fit
  64 bits, but the millisecond clock divides by the clock frequency twice: it stays 0 for the first
  12500 seconds, and the CPU times charged with it stay as they were.
\<close>

lemma clocks:
  assumes "unat ticks < 12500000 * 12500"
  shows "tv_us (current_time ticks) = unat ticks * 80 div 1000 \<and> get_time_ms ticks = 0
    \<and> update_utime ticks (time_data_new 0) = time_data_new 0
    \<and> update_stime ticks (time_data_new 0) = time_data_new 0"
proof -
  have "unat ticks * 80 < 2 ^ 64" using assms by simp
  from current_time_us(2) [OF this] show ?thesis
    using get_time_ms_zero [OF assms] get_time_ms_zero [of 0]
    by (simp add: update_utime_def update_stime_def time_data_new_def)
qed

lemma clocks_witness:
  "tv_us (current_time 125000000) = 10000000 \<and> get_time_ms 125000000 = 0"
proof -
  have "unat (125000000 :: usize) = 125000000" by simp
  then show ?thesis using clocks [of 125000000] by (simp only:) simp
qed

end
