(* ===== verification/Btree.thy ===== *)
theory Btree
  imports Prelude
begin

text \<open>
  The standard library's \<open>BTreeMap\<close>, as far as the kernel uses it: a list of key-value pairs in
  strictly increasing key order.  The locale states the contract its clients (the ready queue, the real
  timers, the area tree) rely on and proves what follows for a client that pops entries in order.
\<close>

type_synonym ('k, 'v) btree = "('k \<times> 'v) list"

definition bt_inv :: "('k :: linorder, 'v) btree \<Rightarrow> bool" where
  "bt_inv m \<longleftrightarrow> sorted_wrt (<) (map fst m)"

definition bt_get :: "('k :: linorder, 'v) btree \<Rightarrow> 'k \<Rightarrow> 'v option" where
  "bt_get m k = map_of m k"

fun bt_insert :: "'k :: linorder \<Rightarrow> 'v \<Rightarrow> ('k, 'v) btree \<Rightarrow> ('k, 'v) btree" where
  "bt_insert k v [] = [(k, v)]"
| "bt_insert k v ((a, b) # m) =
     (if k < a then (k, v) # (a, b) # m
      else if k = a then (k, v) # m
      else (a, b) # bt_insert k v m)"

fun bt_remove :: "'k :: linorder \<Rightarrow> ('k, 'v) btree \<Rightarrow> ('k, 'v) btree" where
  "bt_remove k [] = []"
| "bt_remove k ((a, b) # m) = (if k = a then m else (a, b) # bt_remove k m)"

fun bt_pop_first :: "('k :: linorder, 'v) btree \<Rightarrow> (('k \<times> 'v) \<times> ('k, 'v) btree) option" where
  "bt_pop_first [] = None"
| "bt_pop_first (e # m) = Some (e, m)"

definition bt_first :: "('k :: linorder, 'v) btree \<Rightarrow> ('k \<times> 'v) option" where
  "bt_first m = (case m of [] \<Rightarrow> None | e # _ \<Rightarrow> Some e)"

definition bt_retain :: "('k \<Rightarrow> 'v \<Rightarrow> bool) \<Rightarrow> ('k :: linorder, 'v) btree \<Rightarrow> ('k, 'v) btree" where
  "bt_retain P m = filter (\<lambda>(k, v). P k v) m"

text \<open>The range views \<open>range(k..)\<close>, \<open>range(..k)\<close> and \<open>range(..=k)\<close>.\<close>

definition bt_from :: "'k :: linorder \<Rightarrow> ('k, 'v) btree \<Rightarrow> ('k, 'v) btree" where
  "bt_from k m = dropWhile (\<lambda>(a, _). a < k) m"

definition bt_below :: "'k :: linorder \<Rightarrow> ('k, 'v) btree \<Rightarrow> ('k, 'v) btree" where
  "bt_below k m = takeWhile (\<lambda>(a, _). a < k) m"

definition bt_upto :: "'k :: linorder \<Rightarrow> ('k, 'v) btree \<Rightarrow> ('k, 'v) btree" where
  "bt_upto k m = takeWhile (\<lambda>(a, _). a \<le> k) m"

definition bt_last :: "('k :: linorder, 'v) btree \<Rightarrow> ('k \<times> 'v) option" where
  "bt_last m = (if m = [] then None else Some (last m))"

subsection \<open>The contract\<close>

locale ordered_map =
  fixes invar :: "'m \<Rightarrow> bool"
    and get :: "'m \<Rightarrow> 'k :: linorder \<Rightarrow> 'v option"
    and ins :: "'k \<Rightarrow> 'v \<Rightarrow> 'm \<Rightarrow> 'm"
    and rem :: "'k \<Rightarrow> 'm \<Rightarrow> 'm"
    and pop :: "'m \<Rightarrow> (('k \<times> 'v) \<times> 'm) option"
  assumes get_ins: "invar m \<Longrightarrow> get (ins k v m) = (get m)(k \<mapsto> v)"
    and get_rem: "invar m \<Longrightarrow> get (rem k m) = (get m)(k := None)"
    and invar_ins: "invar m \<Longrightarrow> invar (ins k v m)"
    and invar_rem: "invar m \<Longrightarrow> invar (rem k m)"
    and pop_None: "invar m \<Longrightarrow> pop m = None \<longleftrightarrow> get m = Map.empty"
    and pop_get: "invar m \<Longrightarrow> pop m = Some ((k, v), m') \<Longrightarrow> get m k = Some v"
    and pop_min: "invar m \<Longrightarrow> pop m = Some ((k, v), m') \<Longrightarrow> get m j = Some w \<Longrightarrow> k \<le> j"
    and pop_rest: "invar m \<Longrightarrow> pop m = Some ((k, v), m') \<Longrightarrow> get m' = (get m)(k := None)"
    and pop_invar: "invar m \<Longrightarrow> pop m = Some ((k, v), m') \<Longrightarrow> invar m'"
begin

lemma pop_increasing:
  assumes "invar m" "pop m = Some ((k, v), m')" "pop m' = Some ((j, w), m'')"
  shows "k < j"
proof -
  have "get m' j = Some w" using pop_get [OF pop_invar] assms by blast
  then have "j \<noteq> k" "get m j = Some w" using pop_rest [OF assms(1,2)] by (auto split: if_splits)
  then show ?thesis using pop_min [OF assms(1,2)] by (simp add: order.not_eq_order_implies_strict)
qed

lemma pop_after_ins:
  assumes "invar m" "pop m = Some ((k, v), m')" "k < j"
  obtains m'' where "pop (ins j w m) = Some ((k, v), m'')"
proof -
  have nn: "pop (ins j w m) \<noteq> None"
    using pop_None [OF invar_ins [OF assms(1)]] get_ins [OF assms(1)] by auto
  then obtain a b m'' where p: "pop (ins j w m) = Some ((a, b), m'')" by auto
  note inv = invar_ins [OF assms(1), of j w]
  have "get (ins j w m) k = Some v" using get_ins [OF assms(1)] pop_get [OF assms(1,2)] assms(3) by auto
  then have "a \<le> k" using pop_min [OF inv p] by blast
  then have "get m a = Some b" using pop_get [OF inv p] get_ins [OF assms(1)] assms(3) by (auto split: if_splits)
  then have "k \<le> a" using pop_min [OF assms(1,2)] by blast
  then have "a = k" using \<open>a \<le> k\<close> by simp
  then have "b = v" using \<open>get m a = Some b\<close> pop_get [OF assms(1,2)] by simp
  then show thesis using that p \<open>a = k\<close> by blast
qed

lemma pop_single: "invar m \<Longrightarrow> get m = Map.empty \<Longrightarrow> \<exists>m'. pop (ins k v m) = Some ((k, v), m') \<and> get m' = Map.empty"
proof -
  assume a: "invar m" "get m = Map.empty"
  note inv = invar_ins [OF a(1), of k v]
  obtain j w m' where p: "pop (ins k v m) = Some ((j, w), m')"
    using pop_None [OF inv] get_ins [OF a(1)] by fastforce
  then have "get (ins k v m) j = Some w" using pop_get [OF inv] by blast
  then have "j = k" "w = v" using get_ins [OF a(1)] a(2) by (auto split: if_splits)
  then show ?thesis using p pop_rest [OF inv p] get_ins [OF a(1)] a(2) by auto
qed

end

subsection \<open>The sorted list provides it\<close>

lemma bt_inv_Nil [simp]: "bt_inv []"
  by (simp add: bt_inv_def)

lemma bt_inv_Cons [simp]: "bt_inv ((a, b) # m) \<longleftrightarrow> (\<forall>k\<in>fst ` set m. a < k) \<and> bt_inv m"
  by (auto simp: bt_inv_def)

lemma bt_inv_append:
  "bt_inv (xs @ ys) \<longleftrightarrow> bt_inv xs \<and> bt_inv ys \<and> (\<forall>x\<in>set xs. \<forall>y\<in>set ys. fst x < fst y)"
  by (auto simp: bt_inv_def sorted_wrt_append)

lemma bt_insert_keys: "fst ` set (bt_insert k v m) = insert k (fst ` set m)"
  by (induction k v m rule: bt_insert.induct) auto

lemma bt_remove_keys: "fst ` set (bt_remove k m) \<subseteq> fst ` set m"
  by (induction k m rule: bt_remove.induct) auto

lemma bt_inv_insert: "bt_inv m \<Longrightarrow> bt_inv (bt_insert k v m)"
proof (induction k v m rule: bt_insert.induct)
  case (2 k v a b m)
  then show ?case by (auto simp: bt_insert_keys)
qed auto

lemma bt_inv_remove: "bt_inv m \<Longrightarrow> bt_inv (bt_remove k m)"
  by (induction k m rule: bt_remove.induct) (use bt_remove_keys in \<open>fastforce+\<close>)

lemma bt_get_insert: "bt_inv m \<Longrightarrow> bt_get (bt_insert k v m) = (bt_get m)(k \<mapsto> v)"
  unfolding bt_get_def by (induction k v m rule: bt_insert.induct) auto

lemma bt_get_absent: "k \<notin> fst ` set m \<Longrightarrow> bt_get m k = None"
  by (simp add: bt_get_def map_of_eq_None_iff)

lemma bt_get_remove: "bt_inv m \<Longrightarrow> bt_get (bt_remove k m) = (bt_get m)(k := None)"
proof (induction k m rule: bt_remove.induct)
  case (2 k a b m)
  then show ?case
    using bt_get_absent [of k m] by (auto simp: bt_get_def fun_eq_iff)
qed (auto simp: bt_get_def)

lemma bt_inv_distinct: "bt_inv m \<Longrightarrow> distinct (map fst m)"
  by (simp add: bt_inv_def strict_sorted_iff)

lemma bt_get_Some: "bt_inv m \<Longrightarrow> bt_get m k = Some v \<longleftrightarrow> (k, v) \<in> set m"
  by (simp add: bt_get_def bt_inv_distinct map_of_eq_Some_iff)

interpretation bt: ordered_map bt_inv bt_get bt_insert bt_remove bt_pop_first
proof unfold_locales
  fix m m' :: "('k :: linorder, 'v) btree" and k j v w
  assume inv: "bt_inv m"
  show "bt_get (bt_insert k v m) = (bt_get m)(k \<mapsto> v)" using bt_get_insert inv .
  show "bt_get (bt_remove k m) = (bt_get m)(k := None)" using bt_get_remove inv .
  show "bt_inv (bt_insert k v m)" using bt_inv_insert inv .
  show "bt_inv (bt_remove k m)" using bt_inv_remove inv .
  show "bt_pop_first m = None \<longleftrightarrow> bt_get m = Map.empty"
    by (cases m) (auto simp: bt_get_def fun_eq_iff)
  { assume "bt_pop_first m = Some ((k, v), m')"
    then have "m = (k, v) # m'" by (cases m) auto
  } note m = this
  show "bt_get m k = Some v" if "bt_pop_first m = Some ((k, v), m')"
    using m [OF that] by (simp add: bt_get_def)
  show "k \<le> j" if "bt_pop_first m = Some ((k, v), m')" "bt_get m j = Some w"
  proof -
    have "(j, w) \<in> set m" using that(2) by (simp add: bt_get_def map_of_SomeD)
    then show ?thesis using m [OF that(1)] inv by force
  qed
  show "bt_get m' = (bt_get m)(k := None)" if "bt_pop_first m = Some ((k, v), m')"
    using m [OF that] inv bt_get_absent [of k m'] by (auto simp: bt_get_def fun_eq_iff)
  show "bt_inv m'" if "bt_pop_first m = Some ((k, v), m')"
    using m [OF that] inv by simp
qed

lemma bt_first_pop: "bt_first m = map_option fst (bt_pop_first m)"
  by (cases m) (auto simp: bt_first_def)

lemma bt_inv_retain: "bt_inv m \<Longrightarrow> bt_inv (bt_retain P m)"
  unfolding bt_retain_def by (induction m) auto

lemma bt_set_from: "bt_inv m \<Longrightarrow> set (bt_from k m) = {e \<in> set m. k \<le> fst e}"
proof (induction m)
  case (Cons e m)
  then show ?case by (cases e) (auto simp: bt_from_def not_less; force)
qed (simp add: bt_from_def)

lemma bt_set_below: "bt_inv m \<Longrightarrow> set (bt_below k m) = {e \<in> set m. fst e < k}"
proof (induction m)
  case (Cons e m)
  then show ?case by (cases e) (auto simp: bt_below_def; force)
qed (simp add: bt_below_def)

lemma bt_set_upto: "bt_inv m \<Longrightarrow> set (bt_upto k m) = {e \<in> set m. fst e \<le> k}"
proof (induction m)
  case (Cons e m)
  then show ?case by (cases e) (auto simp: bt_upto_def; force)
qed (simp add: bt_upto_def)

lemma bt_inv_from: "bt_inv m \<Longrightarrow> bt_inv (bt_from k m)"
  unfolding bt_from_def by (induction m) auto

lemma bt_inv_takeWhile: "bt_inv m \<Longrightarrow> bt_inv (takeWhile P m)"
proof (induction m)
  case (Cons e m)
  then show ?case using set_takeWhileD by (cases e) fastforce
qed simp

lemma bt_last_max:
  assumes "bt_inv m" "bt_last m = Some (k, v)"
  shows "(k, v) \<in> set m" "\<forall>e\<in>set m. fst e \<le> k"
proof -
  have m: "m = butlast m @ [(k, v)]"
    using assms(2) by (auto simp: bt_last_def split: if_splits) (metis append_butlast_last_id)
  show "(k, v) \<in> set m" by (subst m) simp
  have "bt_inv (butlast m @ [(k, v)])" using assms(1) m by simp
  then have "\<forall>e\<in>set (butlast m). fst e < k" by (simp add: bt_inv_append)
  then show "\<forall>e\<in>set m. fst e \<le> k" by (subst m) auto
qed

lemma bt_last_None: "bt_last m = None \<longleftrightarrow> m = []"
  by (simp add: bt_last_def)

end
