(* ===== verification/Scheduler.thy ===== *)
theory Scheduler
  imports Btree "HOL-Library.Product_Lexorder" "HOL-Library.Signed_Division"
begin

text \<open>
  The completely fair scheduler (\<open>os/src/task/schedule.rs\<close>).  A task is shared between the ready queue
  and its other owners, so the model keeps a store of tasks and the queue holds their numbers.  The
  queue is a \<open>BTreeMap\<close> keyed by virtual runtime and a scheduling id that each insertion draws from
  \<open>id_pool\<close>.  The virtual runtimes count ticks and \<open>id_pool\<close> counts insertions; both are \<open>isize\<close> in the source and
  unbounded integers here, so what is shown holds as long as neither count reaches \<open>2 ^ 63\<close>.
\<close>

record cfs_task =
  init_vruntime :: int
  delta :: int
  nice :: int
  cfs_id :: int

record sched =
  ready_queue :: "(int \<times> int, nat) btree"
  min_vruntime :: "int option"
  id_pool :: int
  tasks :: "nat \<Rightarrow> cfs_task"

definition NICE2WEIGHT_POS :: "int list" where
  "NICE2WEIGHT_POS = [1024, 820, 655, 526, 423, 335, 272, 215, 172, 137, 110, 87, 70, 56, 45, 36, 29,
     23, 18, 15]"

definition NICE2WEIGHT_NEG :: "int list" where
  "NICE2WEIGHT_NEG = [1024, 1277, 1586, 1991, 2501, 3121, 3906, 4904, 6100, 7620, 9548, 11916, 14949,
     18705, 23254, 29154, 36291, 46273, 56483, 71755, 88761]"

subsection \<open>Tasks\<close>

definition cfs_task_new :: cfs_task where
  "cfs_task_new = \<lparr> init_vruntime = 0, delta = 0, nice = 0, cfs_id = 0 \<rparr>"

text \<open>Indexing past the end of a table panics.\<close>

definition get_weight :: "cfs_task \<Rightarrow> int option" where
  "get_weight t =
     (if nice t \<ge> 0 then do { ensure (nat (nice t) < length NICE2WEIGHT_POS); Some (NICE2WEIGHT_POS ! nat (nice t)) }
      else do { ensure (nat (- nice t) < length NICE2WEIGHT_NEG); Some (NICE2WEIGHT_NEG ! nat (- nice t)) })"

definition get_vruntime :: "cfs_task \<Rightarrow> int option" where
  "get_vruntime t =
     (if nice t = 0 then Some (init_vruntime t + delta t)
      else do {
        w \<leftarrow> get_weight t;
        Some (init_vruntime t + (delta t * 1024) sdiv w) })"

definition set_vruntime :: "cfs_task \<Rightarrow> int \<Rightarrow> cfs_task" where
  "set_vruntime t v = t\<lparr> init_vruntime := v \<rparr>"

definition task_set_priority :: "cfs_task \<Rightarrow> int \<Rightarrow> cfs_task option" where
  "task_set_priority t n = do {
     current_init_vruntime \<leftarrow> get_vruntime t;
     Some (t\<lparr> init_vruntime := current_init_vruntime, delta := 0, nice := n \<rparr>) }"

definition task_set_id :: "cfs_task \<Rightarrow> int \<Rightarrow> cfs_task" where
  "task_set_id t i = t\<lparr> cfs_id := i \<rparr>"

definition cfs_tick :: "cfs_task \<Rightarrow> cfs_task" where
  "cfs_tick t = t\<lparr> delta := delta t + 1 \<rparr>"

subsection \<open>The scheduler\<close>

definition sched_new :: "(nat \<Rightarrow> cfs_task) \<Rightarrow> sched" where
  "sched_new ts = \<lparr> ready_queue = [], min_vruntime = None, id_pool = 0, tasks = ts \<rparr>"

definition queue_min :: "(int \<times> int, nat) btree \<Rightarrow> int option" where
  "queue_min q = map_option (\<lambda>((v, _), _). v) (bt_first q)"

definition add_task :: "sched \<Rightarrow> nat \<Rightarrow> sched" where
  "add_task s t = (
     let mv = (case min_vruntime s of None \<Rightarrow> Some 0 | Some v \<Rightarrow> Some v);
         vruntime = (case mv of Some v \<Rightarrow> v | None \<Rightarrow> 0);
         taskid = id_pool s;
         ts = (tasks s)(t := task_set_id (set_vruntime (tasks s t) vruntime) taskid);
         q = bt_insert (vruntime, taskid) t (ready_queue s)
     in \<lparr> ready_queue = q, min_vruntime = queue_min q, id_pool = id_pool s + 1, tasks = ts \<rparr>)"

definition remove_task :: "sched \<Rightarrow> nat \<Rightarrow> (nat option \<times> sched) option" where
  "remove_task s t = do {
     v \<leftarrow> get_vruntime (tasks s t);
     (case bt_get (ready_queue s) (v, cfs_id (tasks s t)) of
        Some tmp \<Rightarrow>
          let q = bt_remove (v, cfs_id (tasks s t)) (ready_queue s)
          in Some (Some tmp, s\<lparr> ready_queue := q, min_vruntime := queue_min q \<rparr>)
      | None \<Rightarrow> Some (None, s)) }"

definition pick_next_task :: "sched \<Rightarrow> nat option \<times> sched" where
  "pick_next_task s =
     (case bt_pop_first (ready_queue s) of
        Some ((_, t), q) \<Rightarrow> (Some t, s\<lparr> ready_queue := q \<rparr>)
      | None \<Rightarrow> (None, s))"

definition put_prev_task :: "sched \<Rightarrow> nat \<Rightarrow> sched option" where
  "put_prev_task s prev = (
     let taskid = id_pool s;
         ts = (tasks s)(prev := task_set_id (tasks s prev) taskid)
     in do {
       v \<leftarrow> get_vruntime (ts prev);
       Some (s\<lparr> ready_queue := bt_insert (v, taskid) prev (ready_queue s), id_pool := id_pool s + 1,
               tasks := ts \<rparr>) })"

definition task_tick :: "sched \<Rightarrow> nat \<Rightarrow> (bool \<times> sched) option" where
  "task_tick s cur = (
     let s' = s\<lparr> tasks := (tasks s)(cur := cfs_tick (tasks s cur)) \<rparr>
     in case min_vruntime s' of
          None \<Rightarrow> Some (True, s')
        | Some m \<Rightarrow> do {
            v \<leftarrow> get_vruntime (tasks s' cur);
            Some (v > m, s') })"

definition set_priority :: "sched \<Rightarrow> nat \<Rightarrow> int \<Rightarrow> (bool \<times> sched) option" where
  "set_priority s t prio =
     (if - 20 \<le> prio \<and> prio \<le> 19 then do {
        t' \<leftarrow> task_set_priority (tasks s t) prio;
        Some (True, s\<lparr> tasks := (tasks s)(t := t') \<rparr>) }
      else Some (False, s))"

subsection \<open>Facts on tasks\<close>

text \<open>A task's nice value stays in the range of the tables, so its weight is defined and positive.\<close>

definition nice_ok :: "cfs_task \<Rightarrow> bool" where
  "nice_ok t \<longleftrightarrow> - 20 \<le> nice t \<and> nice t \<le> 19"

lemma weights_positive: "\<forall>w\<in>set NICE2WEIGHT_POS \<union> set NICE2WEIGHT_NEG. 0 < w"
  by (simp add: NICE2WEIGHT_POS_def NICE2WEIGHT_NEG_def)

lemma get_weight_ok:
  assumes "nice_ok t"
  obtains w where "get_weight t = Some w" "0 < w"
proof (cases "nice t \<ge> 0")
  case True
  then have l: "nat (nice t) < length NICE2WEIGHT_POS"
    using assms by (auto simp: nice_ok_def NICE2WEIGHT_POS_def)
  then have "NICE2WEIGHT_POS ! nat (nice t) \<in> set NICE2WEIGHT_POS" by (rule nth_mem)
  then have "0 < NICE2WEIGHT_POS ! nat (nice t)" using weights_positive by blast
  then show thesis using that [of "NICE2WEIGHT_POS ! nat (nice t)"] True l by (simp add: get_weight_def)
next
  case False
  then have l: "nat (- nice t) < length NICE2WEIGHT_NEG"
    using assms by (auto simp: nice_ok_def NICE2WEIGHT_NEG_def)
  then have "NICE2WEIGHT_NEG ! nat (- nice t) \<in> set NICE2WEIGHT_NEG" by (rule nth_mem)
  then have "0 < NICE2WEIGHT_NEG ! nat (- nice t)" using weights_positive by blast
  then show thesis using that [of "NICE2WEIGHT_NEG ! nat (- nice t)"] False l by (simp add: get_weight_def)
qed

lemma get_vruntime_ok: "nice_ok t \<Longrightarrow> \<exists>v. get_vruntime t = Some v"
  by (elim get_weight_ok) (simp add: get_vruntime_def)

lemma get_vruntime_zero_delta:
  assumes "nice_ok t" "delta t = 0"
  shows "get_vruntime t = Some (init_vruntime t)"
  using assms by (elim get_weight_ok) (simp add: get_vruntime_def)

text \<open>Changing the priority keeps the virtual runtime, as the comment in the source says.\<close>

lemma task_set_priority_vruntime:
  assumes "nice_ok t" "- 20 \<le> n" "n \<le> 19"
  obtains t' where "task_set_priority t n = Some t'" "get_vruntime t' = get_vruntime t" "nice_ok t'"
    "cfs_id t' = cfs_id t"
proof -
  obtain v where v: "get_vruntime t = Some v" using get_vruntime_ok [OF assms(1)] by blast
  let ?t = "t\<lparr> init_vruntime := v, delta := 0, nice := n \<rparr>"
  have ok: "nice_ok ?t" using assms by (simp add: nice_ok_def)
  show thesis
    using that [of ?t] v ok get_vruntime_zero_delta [OF ok] by (simp add: task_set_priority_def)
qed

subsection \<open>The invariant of the queue\<close>

text \<open>
  The queue is ordered, its scheduling ids were drawn from the pool, and no two entries share an id:
  a new key is never present, so an insertion never replaces a queued task.
\<close>

definition sched_inv :: "sched \<Rightarrow> bool" where
  "sched_inv s \<longleftrightarrow> bt_inv (ready_queue s) \<and> (\<forall>((v, i), t)\<in>set (ready_queue s). i < id_pool s)
     \<and> (\<forall>t. nice_ok (tasks s t))"

abbreviation queued :: "sched \<Rightarrow> nat list" where
  "queued s \<equiv> map snd (ready_queue s)"

lemma bt_insert_fresh:
  assumes "k \<notin> fst ` set m"
  shows "set (bt_insert k v m) = insert (k, v) (set m)" "length (bt_insert k v m) = Suc (length m)"
  using assms by (induction k v m rule: bt_insert.induct) auto

lemma fresh_key:
  assumes "sched_inv s"
  shows "(v, id_pool s) \<notin> fst ` set (ready_queue s)"
  using assms by (force simp: sched_inv_def)

lemma bt_insert_queued:
  assumes "k \<notin> fst ` set m"
  shows "set (map snd (bt_insert k v m)) = insert v (set (map snd m))"
    "distinct (map snd (bt_insert k v m)) \<longleftrightarrow> distinct (map snd m) \<and> v \<notin> set (map snd m)"
  using assms by (induction k v m rule: bt_insert.induct) auto

lemma add_task_queue:
  "ready_queue (add_task s t) =
     bt_insert (case min_vruntime s of None \<Rightarrow> 0 | Some v \<Rightarrow> v, id_pool s) t (ready_queue s)"
  by (auto simp: add_task_def Let_def split: option.splits)

lemma add_task_inv:
  assumes "sched_inv s"
  shows "sched_inv (add_task s t)" "set (queued (add_task s t)) = insert t (set (queued s))"
    "distinct (queued (add_task s t)) \<longleftrightarrow> distinct (queued s) \<and> t \<notin> set (queued s)"
proof -
  let ?k = "(case min_vruntime s of None \<Rightarrow> 0 | Some v \<Rightarrow> v, id_pool s)"
  have f: "?k \<notin> fst ` set (ready_queue s)" using fresh_key [OF assms] .
  show "set (queued (add_task s t)) = insert t (set (queued s))"
    "distinct (queued (add_task s t)) \<longleftrightarrow> distinct (queued s) \<and> t \<notin> set (queued s)"
    using bt_insert_queued [OF f] by (simp_all add: add_task_queue)
  have "\<forall>((v, i), u)\<in>set (ready_queue (add_task s t)). i < id_pool s + 1"
    using assms bt_insert_fresh(1) [OF f, of t] by (force simp: add_task_queue sched_inv_def)
  moreover have "nice_ok (tasks (add_task s t) u)" for u
    using assms by (auto simp: add_task_def Let_def sched_inv_def nice_ok_def task_set_id_def set_vruntime_def)
  moreover have "bt_inv (ready_queue (add_task s t))"
    using assms by (simp add: add_task_queue sched_inv_def bt_inv_insert)
  moreover have "id_pool (add_task s t) = id_pool s + 1" by (simp add: add_task_def Let_def)
  ultimately show "sched_inv (add_task s t)" by (simp add: sched_inv_def)
qed

lemma put_prev_task_inv:
  assumes "sched_inv s"
  obtains s' where "put_prev_task s t = Some s'" "sched_inv s'" "set (queued s') = insert t (set (queued s))"
    "distinct (queued s') \<longleftrightarrow> distinct (queued s) \<and> t \<notin> set (queued s)" "min_vruntime s' = min_vruntime s"
proof -
  let ?ts = "(tasks s)(t := task_set_id (tasks s t) (id_pool s))"
  have ok: "\<forall>u. nice_ok (?ts u)"
    using assms by (auto simp: sched_inv_def nice_ok_def task_set_id_def)
  then obtain v where v: "get_vruntime (?ts t) = Some v" using get_vruntime_ok by blast
  have f: "(v, id_pool s) \<notin> fst ` set (ready_queue s)" using fresh_key [OF assms] .
  let ?s = "s\<lparr> ready_queue := bt_insert (v, id_pool s) t (ready_queue s), id_pool := id_pool s + 1, tasks := ?ts \<rparr>"
  have "sched_inv ?s"
    using assms ok bt_insert_fresh(1) [OF f, of t] by (force simp: sched_inv_def bt_inv_insert)
  moreover have "put_prev_task s t = Some ?s"
    using v by (simp add: put_prev_task_def Let_def)
  ultimately show thesis using that bt_insert_queued [OF f] by simp
qed

lemma pick_next_task_cases:
  assumes "sched_inv s"
  obtains "pick_next_task s = (None, s)" "ready_queue s = []"
  | v i t q where "pick_next_task s = (Some t, s\<lparr> ready_queue := q \<rparr>)" "ready_queue s = ((v, i), t) # q"
      "sched_inv (s\<lparr> ready_queue := q \<rparr>)" "\<forall>e\<in>set q. (v, i) < fst e"
proof (cases "ready_queue s")
  case Nil
  then show thesis using that(1) by (simp add: pick_next_task_def)
next
  case (Cons e q)
  then obtain v i t where "ready_queue s = ((v, i), t) # q" by (metis prod.exhaust)
  then show thesis using that(2) [of t q v i] assms by (auto simp: pick_next_task_def sched_inv_def)
qed

lemma remove_task_after_add:
  fixes t :: nat
  assumes "sched_inv s"
  defines "w \<equiv> tasks (add_task s t) t"
  shows "\<exists>r s'. remove_task (add_task s t) t = Some (r, s') \<and> (r = Some t \<longleftrightarrow> get_vruntime w = Some (init_vruntime w))"
proof -
  let ?v0 = "case min_vruntime s of None \<Rightarrow> 0 | Some v \<Rightarrow> v"
  have w: "init_vruntime w = ?v0" "cfs_id w = id_pool s"
    by (auto simp: w_def add_task_def Let_def task_set_id_def set_vruntime_def split: option.splits)
  have f: "(x, id_pool s) \<notin> fst ` set (ready_queue s)" for x using fresh_key [OF assms(1)] .
  note inv = add_task_inv(1) [OF assms(1), of t]
  have "nice_ok w" using inv by (simp add: sched_inv_def w_def)
  then obtain v where v: "get_vruntime w = Some v" using get_vruntime_ok by blast
  have q: "ready_queue (add_task s t) = bt_insert (?v0, id_pool s) t (ready_queue s)"
    by (rule add_task_queue)
  have "bt_inv (ready_queue s)" using assms(1) by (simp add: sched_inv_def)
  then have g: "bt_get (ready_queue (add_task s t)) (v, id_pool s) = (if v = ?v0 then Some t else None)"
    using bt_get_absent [OF f] by (auto simp: q bt_get_insert)
  show ?thesis
    using v w g by (cases "v = ?v0") (simp_all add: remove_task_def w_def [symmetric] Let_def)
qed

subsection \<open>Properties\<close>

text \<open>
  \<open>pick_next_task\<close> returns the queued task with the least virtual runtime (the oldest
  scheduling id among equals), removes exactly that entry, keeps the invariant, and returns \<open>None\<close> only
  when nothing is queued.
\<close>

lemma pick_next_task_min:
  assumes "sched_inv s"
  shows "case pick_next_task s of
      (None, s') \<Rightarrow> s' = s \<and> queued s = []
    | (Some t, s') \<Rightarrow> sched_inv s' \<and> queued s = t # queued s'
        \<and> (\<exists>v i. bt_get (ready_queue s) (v, i) = Some t
             \<and> (\<forall>w j u. bt_get (ready_queue s) (w, j) = Some u \<longrightarrow> v < w \<or> (v = w \<and> i \<le> j)))"
  using assms
proof (rule pick_next_task_cases)
  assume "pick_next_task s = (None, s)" "ready_queue s = []"
  then show ?thesis by simp
next
  fix v i t q
  assume p: "pick_next_task s = (Some t, s\<lparr> ready_queue := q \<rparr>)" "ready_queue s = ((v, i), t) # q"
    "sched_inv (s\<lparr> ready_queue := q \<rparr>)" "\<forall>e\<in>set q. (v, i) < fst e"
  have inv: "bt_inv (ready_queue s)" using assms by (simp add: sched_inv_def)
  have pop: "bt_pop_first (ready_queue s) = Some (((v, i), t), q)" by (simp add: p(2))
  have least: "v < w \<or> (v = w \<and> i \<le> j)" if "bt_get (ready_queue s) (w, j) = Some u" for w j u
    using bt.pop_min [OF inv pop that] by (auto simp: less_eq_prod_def)
  have "\<exists>v i. bt_get (ready_queue s) (v, i) = Some t
      \<and> (\<forall>w j u. bt_get (ready_queue s) (w, j) = Some u \<longrightarrow> v < w \<or> (v = w \<and> i \<le> j))"
    using bt.pop_get [OF inv pop] least by blast
  then show ?thesis
    using p(2,3) by (simp add: p(1))
qed

definition sched2 :: sched where
  "sched2 = add_task (add_task (sched_new (\<lambda>_. cfs_task_new)) 7) 8"

lemma sched_new_inv: "sched_inv (sched_new (\<lambda>_. cfs_task_new))"
  by (simp add: sched_inv_def sched_new_def nice_ok_def cfs_task_new_def)

lemma pick_next_task_min_witness:
  "sched_inv sched2 \<and> fst (pick_next_task sched2) = Some 7 \<and> queued (snd (pick_next_task sched2)) = [8]"
proof -
  have inv: "sched_inv sched2"
    unfolding sched2_def by (intro add_task_inv(1) sched_new_inv)
  have q: "queued sched2 = [7, 8]" by code_simp
  show ?thesis
    using pick_next_task_min [OF inv] inv q by (auto split: prod.splits option.splits)
qed

text \<open>
  Insertion never loses a task.  \<open>add_task\<close> and \<open>put_prev_task\<close> draw a fresh scheduling id, so the
  new key is not in the queue, no queued task is replaced, and the queue afterwards holds exactly the
  tasks it held and the new one; neither panics.
\<close>

lemma enqueue_keeps_tasks:
  assumes "sched_inv s"
  shows "sched_inv (add_task s t) \<and> set (queued (add_task s t)) = insert t (set (queued s))
    \<and> length (queued (add_task s t)) = length (queued s) + 1
    \<and> (\<exists>s'. put_prev_task s t = Some s' \<and> sched_inv s' \<and> set (queued s') = insert t (set (queued s))
         \<and> length (queued s') = length (queued s) + 1)"
proof -
  have "length (queued (add_task s t)) = length (queued s) + 1"
    using bt_insert_fresh(2) [OF fresh_key [OF assms]] by (simp add: add_task_queue)
  moreover obtain s' where s': "put_prev_task s t = Some s'" "sched_inv s'"
    "set (queued s') = insert t (set (queued s))"
    using put_prev_task_inv [OF assms] by metis
  moreover have "length (queued s') = length (queued s) + 1"
    using s'(1) bt_insert_fresh(2) [OF fresh_key [OF assms]]
    by (auto simp: put_prev_task_def Let_def bind_eq_Some_conv)
  ultimately show ?thesis using add_task_inv [OF assms, of t] by simp
qed

lemma enqueue_keeps_tasks_witness:
  "sched_inv (add_task sched2 9) \<and> set (queued (add_task sched2 9)) = insert 9 (set (queued sched2))
    \<and> length (queued (add_task sched2 9)) = length (queued sched2) + 1
    \<and> (\<exists>s'. put_prev_task sched2 9 = Some s' \<and> sched_inv s' \<and> set (queued s') = insert 9 (set (queued sched2))
         \<and> length (queued s') = length (queued sched2) + 1)"
proof (rule enqueue_keeps_tasks)
  show "sched_inv sched2"
    unfolding sched2_def by (intro add_task_inv(1) sched_new_inv)
qed

text \<open>
  \<open>remove_task\<close> finds a task that was just queued by \<open>add_task\<close> exactly when the task's virtual runtime
  is its initial one.  \<open>add_task\<close> keys the entry by \<open>min_vruntime\<close> but does not reset \<open>delta\<close>, and
  \<open>remove_task\<close> looks the task up by its current virtual runtime: a task that has accumulated runtime
  before it is woken is not found.
\<close>

lemma remove_task_finds:
  assumes "sched_inv s"
  shows "\<exists>r s'. remove_task (add_task s t) t = Some (r, s')
    \<and> (r = Some t \<longleftrightarrow> get_vruntime (tasks (add_task s t) t) = Some (init_vruntime (tasks (add_task s t) t)))"
  using remove_task_after_add [OF assms] .

lemma remove_task_finds_witness:
  "\<exists>r s'. remove_task (add_task (sched_new (\<lambda>_. cfs_tick cfs_task_new)) 7) 7 = Some (r, s') \<and> r \<noteq> Some 7"
proof -
  have "sched_inv (sched_new (\<lambda>_. cfs_tick cfs_task_new))"
    by (simp add: sched_inv_def sched_new_def nice_ok_def cfs_task_new_def cfs_tick_def)
  from remove_task_finds [OF this, of 7] show ?thesis
    by (auto simp: add_task_def sched_new_def cfs_task_new_def cfs_tick_def get_vruntime_def
        task_set_id_def set_vruntime_def Let_def)
qed

text \<open>
  A change of priority to a nice value in \<open>-20..=19\<close> succeeds and leaves the task's virtual runtime
  as it was; any other value is refused and changes nothing.
\<close>

lemma set_priority_keeps_vruntime:
  assumes "sched_inv s"
  shows "\<exists>b s'. set_priority s t prio = Some (b, s') \<and> sched_inv s' \<and> (b \<longleftrightarrow> - 20 \<le> prio \<and> prio \<le> 19)
    \<and> get_vruntime (tasks s' t) = get_vruntime (tasks s t) \<and> ready_queue s' = ready_queue s
    \<and> (\<not> b \<longrightarrow> s' = s)"
proof (cases "- 20 \<le> prio \<and> prio \<le> 19")
  case False
  then show ?thesis using assms by (auto simp: set_priority_def)
next
  case True
  have "nice_ok (tasks s t)" using assms by (simp add: sched_inv_def)
  then obtain t' where t': "task_set_priority (tasks s t) prio = Some t'"
    "get_vruntime t' = get_vruntime (tasks s t)" "nice_ok t'"
    using task_set_priority_vruntime [of "tasks s t" prio] True by metis
  then show ?thesis
    using True assms by (auto simp: set_priority_def sched_inv_def)
qed

lemma task_tick_inv:
  assumes "sched_inv s" "task_tick s t = Some (b, s')"
  shows "sched_inv s'" "ready_queue s' = ready_queue s" "min_vruntime s' = min_vruntime s"
  using assms by (auto simp: task_tick_def Let_def sched_inv_def nice_ok_def cfs_tick_def bind_eq_Some_conv split: option.splits)

lemma set_priority_keeps_vruntime_witness:
  "\<exists>b s'. set_priority sched2 7 5 = Some (b, s') \<and> sched_inv s' \<and> (b \<longleftrightarrow> - 20 \<le> (5 :: int) \<and> (5 :: int) \<le> 19)
    \<and> get_vruntime (tasks s' 7) = get_vruntime (tasks sched2 7) \<and> ready_queue s' = ready_queue sched2
    \<and> (\<not> b \<longrightarrow> s' = sched2)"
proof (rule set_priority_keeps_vruntime)
  show "sched_inv sched2"
    unfolding sched2_def by (intro add_task_inv(1) sched_new_inv)
qed

end
