(* ===== verification/Executor.thy ===== *)
theory Executor
  imports Scheduler
begin

text \<open>
  The task executor: the task status (\<open>os/src/task/flags.rs\<close>), the wakers (\<open>os/src/task/waker.rs\<close>), the
  current task (\<open>os/src/task/current.rs\<close>), the handling of a polled future (\<open>run_task2\<close> in
  \<open>os/src/task/processor.rs\<close>) and the loop around it (\<open>trampoline\<close> in \<open>os/src/trap/mod.rs\<close>), on one hart.

  What a task's future does while it is polled is open: the step relation lets it change its own
  status as the blocking futures do, mark itself \<open>Zombie\<close> as \<open>exit_current\<close> does, change its priority, wake any task, create
  tasks, queue a task it created or give it up, and timer interrupts come in between, in any order.  A task is \<open>Runnable\<close> from its creation, which \<open>add_task\<close>
  follows later or, on an error exit of \<open>clone\<close>, never; so the states of the relation carry the set of the
  tasks that are created and not queued yet.  The invariant says that the ready queue holds exactly the other
  \<open>Runnable\<close> tasks, each once, and that only the current task is on the processor.
\<close>

datatype task_status = Running | Runnable | Blocking | Waked | Blocked | Zombie

record exec =
  sch :: sched
  status :: "nat \<Rightarrow> task_status option"
  cur_task :: "nat option"
  wait_wakers :: "nat \<Rightarrow> nat list"
  init_task :: nat
  powered_off :: bool

definition set_state :: "exec \<Rightarrow> nat \<Rightarrow> task_status \<Rightarrow> exec" where
  "set_state e t st = e\<lparr> status := (status e)(t \<mapsto> st) \<rparr>"

text \<open>A waker holds a raw task pointer; waking a task that no longer exists has no defined result.\<close>

definition wakeup_task :: "exec \<Rightarrow> nat \<Rightarrow> exec option" where
  "wakeup_task e t =
     (case status e t of
        None \<Rightarrow> None
      | Some Running \<Rightarrow> Some e
      | Some Blocking \<Rightarrow> Some (set_state e t Waked)
      | Some Runnable \<Rightarrow> Some e
      | Some Blocked \<Rightarrow> let e' = set_state e t Runnable in Some (e'\<lparr> sch := add_task (sch e') t \<rparr>)
      | Some Waked \<Rightarrow> None
      | Some Zombie \<Rightarrow> None)"

fun wake_list :: "exec \<Rightarrow> nat list \<Rightarrow> exec option" where
  "wake_list e [] = Some e"
| "wake_list e (t # ts) = do { e' \<leftarrow> wakeup_task e t; wake_list e' ts }"

definition wake_all_waiters :: "exec \<Rightarrow> nat \<Rightarrow> exec option" where
  "wake_all_waiters e t = (
     let ws = wait_wakers e t
     in wake_list (e\<lparr> wait_wakers := (wait_wakers e)(t := []) \<rparr>) ws)"

definition init_current :: "exec \<Rightarrow> nat \<Rightarrow> exec" where
  "init_current e t = (set_state e t Running)\<lparr> cur_task := Some t \<rparr>"

definition clean_current :: "exec \<Rightarrow> exec option" where
  "clean_current e = do { _ \<leftarrow> cur_task e; Some (e\<lparr> cur_task := None \<rparr>) }"

definition clean_current_without_drop :: "exec \<Rightarrow> exec" where
  "clean_current_without_drop e = e\<lparr> cur_task := None \<rparr>"

text \<open>The two results of polling the current task's future.\<close>

definition run_task2_ready :: "exec \<Rightarrow> exec option" where
  "run_task2_ready e = do {
     t \<leftarrow> cur_task e;
     e \<leftarrow> wake_all_waiters (set_state e t Zombie) t;
     (if t = init_task e then Some (e\<lparr> powered_off := True \<rparr>) else clean_current e) }"

definition run_task2_pending :: "exec \<Rightarrow> bool \<Rightarrow> exec option" where
  "run_task2_pending e trap_done = do {
     t \<leftarrow> cur_task e;
     st \<leftarrow> status e t;
     (case st of
        Running \<Rightarrow>
          (if trap_done then Some e
           else do {
             let e' = set_state e t Runnable;
             s \<leftarrow> put_prev_task (sch e') t;
             clean_current (e'\<lparr> sch := s \<rparr>) })
      | Runnable \<Rightarrow> None
      | Blocking \<Rightarrow> Some (clean_current_without_drop (set_state e t Blocked))
      | Waked \<Rightarrow> Some (set_state e t Running)
      | Blocked \<Rightarrow> None
      | Zombie \<Rightarrow> None) }"

text \<open>The choice of the task to run; nothing changes when the queue is empty.\<close>

definition executor_pick :: "exec \<Rightarrow> exec" where
  "executor_pick e =
     (case cur_task e of
        Some _ \<Rightarrow> e
      | None \<Rightarrow> (case pick_next_task (sch e) of
          (Some t, s) \<Rightarrow> init_current (e\<lparr> sch := s \<rparr>) t
        | (None, s) \<Rightarrow> e\<lparr> sch := s \<rparr>))"

text \<open>
  The creation of a task control block makes the task \<open>Runnable\<close> with no waiters; \<open>add_task\<close> queues it.  A
  block that no call queues is dropped when nothing refers to it any more, or stays.
\<close>

definition create_task :: "exec \<Rightarrow> nat \<Rightarrow> exec" where
  "create_task e t = (set_state e t Runnable)\<lparr> wait_wakers := (wait_wakers e)(t := []) \<rparr>"

definition queue_task :: "exec \<Rightarrow> nat \<Rightarrow> exec" where
  "queue_task e t = e\<lparr> sch := add_task (sch e) t \<rparr>"

definition drop_task :: "exec \<Rightarrow> nat \<Rightarrow> exec" where
  "drop_task e t = e\<lparr> status := (status e)(t := None) \<rparr>"

definition spawn_task :: "exec \<Rightarrow> nat \<Rightarrow> exec" where
  "spawn_task e t = queue_task (create_task e t) t"

text \<open>The states of the relation pair the executor with the tasks that are created and not queued.\<close>

inductive exec_step :: "nat set \<times> exec \<Rightarrow> nat set \<times> exec \<Rightarrow> bool" where
  create: "status e t = None \<Longrightarrow> exec_step (M, e) (insert t M, create_task e t)"
| enqueue: "t \<in> M \<Longrightarrow> exec_step (M, e) (M - {t}, queue_task e t)"
| discard: "t \<in> M \<Longrightarrow> exec_step (M, e) (M - {t}, drop_task e t)"
| pick: "exec_step (M, e) (M, executor_pick e)"
| block: "cur_task e = Some t \<Longrightarrow> exec_step (M, e) (M, set_state e t Blocking)"
| exit_mark: "cur_task e = Some t \<Longrightarrow> exec_step (M, e) (M, set_state e t Zombie)"
| wake: "wakeup_task e t = Some e' \<Longrightarrow> exec_step (M, e) (M, e')"
| pending: "run_task2_pending e d = Some e' \<Longrightarrow> exec_step (M, e) (M, e')"
| ready: "run_task2_ready e = Some e' \<Longrightarrow> exec_step (M, e) (M, e')"
| tick: "cur_task e = Some t \<Longrightarrow> task_tick (sch e) t = Some (b, s) \<Longrightarrow> exec_step (M, e) (M, e\<lparr> sch := s \<rparr>)"
| priority: "cur_task e = Some t \<Longrightarrow> set_priority (sch e) t prio = Some (b, s) \<Longrightarrow> exec_step (M, e) (M, e\<lparr> sch := s \<rparr>)"

inductive_cases exec_stepE: "exec_step (M, e) (M', e')"

definition exec_start :: "nat \<Rightarrow> exec" where
  "exec_start t0 = spawn_task
     \<lparr> sch = sched_new (\<lambda>_. cfs_task_new), status = Map.empty, cur_task = None,
       wait_wakers = (\<lambda>_. []), init_task = t0, powered_off = False \<rparr> t0"

subsection \<open>The invariant\<close>

definition on_cpu :: "task_status set" where
  "on_cpu = {Running, Blocking, Waked}"

definition exec_inv :: "nat set \<Rightarrow> exec \<Rightarrow> bool" where
  "exec_inv M e \<longleftrightarrow> sched_inv (sch e) \<and> distinct (queued (sch e))
     \<and> (\<forall>t. t \<in> set (queued (sch e)) \<longleftrightarrow> status e t = Some Runnable \<and> t \<notin> M)
     \<and> (\<forall>t\<in>M. status e t = Some Runnable)
     \<and> (\<forall>t st. status e t = Some st \<and> st \<in> on_cpu \<longrightarrow> cur_task e = Some t)
     \<and> (\<forall>t. cur_task e = Some t \<longrightarrow> (\<exists>st. status e t = Some st \<and> st \<in> insert Zombie on_cpu))"

lemma exec_invD:
  assumes "exec_inv M e"
  shows "sched_inv (sch e)" "distinct (queued (sch e))"
    "t \<in> set (queued (sch e)) \<longleftrightarrow> status e t = Some Runnable \<and> t \<notin> M"
    "status e t = Some st \<Longrightarrow> st \<in> on_cpu \<Longrightarrow> cur_task e = Some t"
    "cur_task e = Some t \<Longrightarrow> \<exists>st. status e t = Some st \<and> st \<in> insert Zombie on_cpu"
    "\<forall>t\<in>M. status e t = Some Runnable"
  using assms unfolding exec_inv_def by blast+

lemma on_cpu_simps [simp]:
  "Running \<in> on_cpu" "Blocking \<in> on_cpu" "Waked \<in> on_cpu" "Runnable \<notin> on_cpu" "Blocked \<notin> on_cpu" "Zombie \<notin> on_cpu"
  by (simp_all add: on_cpu_def)

lemma set_state_sel [simp]:
  "sch (set_state e t st) = sch e" "status (set_state e t st) = (status e)(t \<mapsto> st)"
  "cur_task (set_state e t st) = cur_task e" "wait_wakers (set_state e t st) = wait_wakers e"
  "init_task (set_state e t st) = init_task e"
  by (simp_all add: set_state_def)

text \<open>The current task may take any status but the two that belong to tasks off the processor.\<close>

lemma set_state_current_inv:
  assumes inv: "exec_inv M e" and c: "cur_task e = Some t" and st: "st \<in> insert Zombie on_cpu"
  shows "exec_inv M (set_state e t st)"
proof -
  obtain st0 where st0: "status e t = Some st0" "st0 \<in> insert Zombie on_cpu"
    using exec_invD(5) [OF inv c] by blast
  have nr: "st \<noteq> Runnable" "st0 \<noteq> Runnable" "t \<notin> M" using st st0 exec_invD(6) [OF inv] by (auto simp: on_cpu_def)
  show ?thesis
    unfolding exec_inv_def set_state_sel
    using exec_invD(1,2) [OF inv] exec_invD(3) [OF inv] exec_invD(4) [OF inv] exec_invD(6) [OF inv] c st nr st0 by auto
qed

text \<open>A task off the processor and off the queue is put into the queue.\<close>

lemma enqueue_inv:
  assumes inv: "exec_inv M e" and st: "status e t \<noteq> Some Runnable" and c: "cur_task e \<noteq> Some t"
  shows "exec_inv M ((set_state e t Runnable)\<lparr> sch := add_task (sch e) t \<rparr>)"
proof -
  have nq: "t \<notin> set (queued (sch e))" using exec_invD(3) [OF inv] st by blast
  note a = add_task_inv [OF exec_invD(1) [OF inv], of t]
  show ?thesis
    unfolding exec_inv_def
    using a nq exec_invD(2) [OF inv] exec_invD(3) [OF inv] exec_invD(4) [OF inv] exec_invD(5) [OF inv] exec_invD(6) [OF inv] c st
    by auto
qed

lemma wakeup_task_inv:
  assumes inv: "exec_inv M e" and w: "wakeup_task e t = Some e'"
  shows "exec_inv M e'" "cur_task e' = cur_task e" "init_task e' = init_task e"
proof -
  obtain st where st: "status e t = Some st"
    using w by (auto simp: wakeup_task_def split: option.splits)
  have "exec_inv M e' \<and> cur_task e' = cur_task e \<and> init_task e' = init_task e"
  proof (cases st)
    case Blocking
    then have "cur_task e = Some t" using exec_invD(4) [OF inv st] by simp
    then show ?thesis
      using w st Blocking set_state_current_inv [OF inv] by (auto simp: wakeup_task_def)
  next
    case Blocked
    then have "cur_task e \<noteq> Some t" using exec_invD(5) [OF inv, of t] st by auto
    then show ?thesis
      using w st Blocked enqueue_inv [OF inv, of t] by (auto simp: wakeup_task_def Let_def)
  qed (use w st inv in \<open>auto simp: wakeup_task_def\<close>)
  then show "exec_inv M e'" "cur_task e' = cur_task e" "init_task e' = init_task e" by auto
qed

lemma exec_inv_frame [simp]:
  "exec_inv M (e\<lparr> wait_wakers := w \<rparr>) = exec_inv M e" "exec_inv M (e\<lparr> powered_off := b \<rparr>) = exec_inv M e"
  by (simp_all add: exec_inv_def)

text \<open>Waking panics only on a task that is \<open>Waked\<close>, \<open>Zombie\<close> or gone; a list of distinct other tasks can be woken.\<close>

definition wakeable :: "exec \<Rightarrow> nat \<Rightarrow> bool" where
  "wakeable e t \<longleftrightarrow> (case status e t of None \<Rightarrow> False | Some st \<Rightarrow> st \<noteq> Waked \<and> st \<noteq> Zombie)"

lemma wakeup_task_wakeable:
  assumes "wakeable e t"
  obtains e' where "wakeup_task e t = Some e'" "\<And>u. u \<noteq> t \<Longrightarrow> status e' u = status e u"
proof (cases "status e t")
  case None
  then show thesis using assms by (simp add: wakeable_def)
next
  case (Some st)
  then show thesis using assms that by (cases st) (auto simp: wakeable_def wakeup_task_def Let_def)
qed

lemma wake_list_total:
  "distinct ts \<Longrightarrow> (\<forall>t\<in>set ts. wakeable e t) \<Longrightarrow> \<exists>e'. wake_list e ts = Some e'"
proof (induction ts arbitrary: e)
  case (Cons t ts)
  obtain e1 where e1: "wakeup_task e t = Some e1" "\<And>u. u \<noteq> t \<Longrightarrow> status e1 u = status e u"
    using wakeup_task_wakeable Cons.prems by (metis list.set_intros(1))
  have "\<forall>u\<in>set ts. wakeable e1 u"
  proof
    fix u assume "u \<in> set ts"
    then have "u \<noteq> t" "wakeable e u" using Cons.prems by auto
    then show "wakeable e1 u" using e1(2) [of u] by (simp add: wakeable_def)
  qed
  then show ?case using Cons.IH [of e1] Cons.prems e1(1) by simp
qed simp

lemma wake_list_inv:
  assumes "exec_inv M e" "wake_list e ts = Some e'"
  shows "exec_inv M e' \<and> cur_task e' = cur_task e \<and> init_task e' = init_task e"
  using assms
proof (induction ts arbitrary: e)
  case (Cons t ts)
  then obtain e1 where e1: "wakeup_task e t = Some e1" "wake_list e1 ts = Some e'"
    by (auto simp: bind_eq_Some_conv)
  show ?case
    using Cons.IH [OF _ e1(2)] wakeup_task_inv [OF Cons.prems(1) e1(1)] by simp
qed simp

lemma wakeup_task_status:
  assumes "wakeup_task e t = Some e'" "status e u = Some Zombie"
  shows "status e' u = Some Zombie"
  using assms by (auto simp: wakeup_task_def Let_def split: option.splits task_status.splits)

lemma wake_list_status:
  assumes "wake_list e ts = Some e'" "status e u = Some Zombie"
  shows "status e' u = Some Zombie"
  using assms
proof (induction ts arbitrary: e)
  case (Cons t ts)
  then obtain e1 where e1: "wakeup_task e t = Some e1" "wake_list e1 ts = Some e'"
    by (auto simp: bind_eq_Some_conv)
  then show ?case using Cons.IH wakeup_task_status Cons.prems(2) by blast
qed simp

lemma clean_current_inv:
  assumes "exec_inv M e" "cur_task e = Some t" "status e t = Some st" "st \<notin> on_cpu"
  shows "exec_inv M (e\<lparr> cur_task := None \<rparr>)"
proof -
  have "st' \<notin> on_cpu" if "status e u = Some st'" for u st'
    using exec_invD(4) [OF assms(1) that] that assms(2-4) by auto
  then show ?thesis
    using exec_invD(1-3) [OF assms(1)] exec_invD(6) [OF assms(1)] unfolding exec_inv_def by auto
qed

lemma ready_inv:
  assumes inv: "exec_inv M e" and r: "run_task2_ready e = Some e'"
  shows "exec_inv M e'"
proof -
  obtain t e1 where t: "cur_task e = Some t" "wake_all_waiters (set_state e t Zombie) t = Some e1"
    "e' = (if t = init_task e1 then e1\<lparr> powered_off := True \<rparr> else e1\<lparr> cur_task := None \<rparr>)
      \<and> cur_task e1 \<noteq> None \<or> t = init_task e1 \<and> e' = e1\<lparr> powered_off := True \<rparr>"
    using r by (auto simp: run_task2_ready_def clean_current_def bind_eq_Some_conv split: if_splits)
  have z: "exec_inv M (set_state e t Zombie)" using set_state_current_inv [OF inv t(1)] by simp
  let ?e0 = "(set_state e t Zombie)\<lparr> wait_wakers := (wait_wakers e)(t := []) \<rparr>"
  have wl: "wake_list ?e0 (wait_wakers e t) = Some e1"
    using t(2) by (simp add: wake_all_waiters_def Let_def)
  have i1: "exec_inv M e1" "cur_task e1 = Some t" "status e1 t = Some Zombie"
    using wake_list_inv [OF _ wl] wake_list_status [OF wl, of t] z t(1) by auto
  show ?thesis
    using t(3) i1 clean_current_inv [OF i1] by (auto split: if_splits)
qed

lemma pending_inv:
  assumes inv: "exec_inv M e" and r: "run_task2_pending e d = Some e'"
  shows "exec_inv M e'"
proof -
  obtain t st where t: "cur_task e = Some t" "status e t = Some st"
    using r by (auto simp: run_task2_pending_def bind_eq_Some_conv)
  show ?thesis
  proof (cases st)
    case Running
    show ?thesis
    proof (cases d)
      case True
      then show ?thesis using r t Running inv by (simp add: run_task2_pending_def)
    next
      case False
      have nq: "t \<notin> set (queued (sch e))" using exec_invD(3) [OF inv, of t] t Running by simp
      obtain s where s: "put_prev_task (sch e) t = Some s" "sched_inv s"
        "set (queued s) = insert t (set (queued (sch e)))"
        "distinct (queued s) \<longleftrightarrow> distinct (queued (sch e)) \<and> t \<notin> set (queued (sch e))"
        using put_prev_task_inv [OF exec_invD(1) [OF inv]] by metis
      have e': "e' = (set_state e t Runnable)\<lparr> sch := s, cur_task := None \<rparr>"
        using r t Running False s(1) by (simp add: run_task2_pending_def clean_current_def Let_def)
      have "st' \<notin> on_cpu" if "status e u = Some st'" "u \<noteq> t" for u st'
        using exec_invD(4) [OF inv that(1)] that t(1) by auto
      then show ?thesis
        unfolding exec_inv_def e' using s nq exec_invD(2) [OF inv] exec_invD(3) [OF inv] exec_invD(6) [OF inv] t Running by auto
    qed
  next
    case Blocking
    have e': "e' = (set_state e t Blocked)\<lparr> cur_task := None \<rparr>"
      using r t Blocking by (simp add: run_task2_pending_def clean_current_without_drop_def)
    have "st' \<notin> on_cpu" if "status e u = Some st'" "u \<noteq> t" for u st'
      using exec_invD(4) [OF inv that(1)] that t(1) by auto
    then show ?thesis
      unfolding exec_inv_def e' using exec_invD(1,2) [OF inv] exec_invD(3) [OF inv] exec_invD(6) [OF inv] t Blocking by auto
  next
    case Waked
    then show ?thesis
      using r t set_state_current_inv [OF inv t(1), of Running] by (simp add: run_task2_pending_def)
  qed (use r t in \<open>auto simp: run_task2_pending_def\<close>)
qed

lemma executor_pick_inv:
  assumes inv: "exec_inv M e"
  shows "exec_inv M (executor_pick e)"
proof (cases "cur_task e")
  case None
  show ?thesis
    using exec_invD(1) [OF inv]
  proof (rule pick_next_task_cases)
    assume "pick_next_task (sch e) = (None, sch e)"
    then show ?thesis using inv None by (simp add: executor_pick_def)
  next
    fix v i t q
    assume p: "pick_next_task (sch e) = (Some t, (sch e)\<lparr> ready_queue := q \<rparr>)"
      "ready_queue (sch e) = ((v, i), t) # q" "sched_inv ((sch e)\<lparr> ready_queue := q \<rparr>)"
    have d: "t \<notin> snd ` set q" "distinct (map snd q)" using exec_invD(2) [OF inv] p(2) by auto
    have q: "u \<in> snd ` set q \<longleftrightarrow> status e u = Some Runnable \<and> u \<notin> M \<and> u \<noteq> t" for u
      using exec_invD(3) [OF inv, of u] p(2) d by auto
    have "t \<notin> M" using exec_invD(3) [OF inv, of t] p(2) by simp
    moreover have "st' \<notin> on_cpu" if "status e u = Some st'" for u st'
      using exec_invD(4) [OF inv that] None by auto
    ultimately show ?thesis
      using p None d q exec_invD(6) [OF inv] by (auto simp: executor_pick_def init_current_def exec_inv_def)
  qed
qed (use inv in \<open>simp add: executor_pick_def\<close>)

lemma create_task_inv:
  assumes inv: "exec_inv M e" and n: "status e t = None"
  shows "exec_inv (insert t M) (create_task e t)"
  unfolding exec_inv_def create_task_def
  using exec_invD(1,2) [OF inv] exec_invD(3) [OF inv] exec_invD(4) [OF inv] exec_invD(5) [OF inv] exec_invD(6) [OF inv] n
  by (auto split: if_splits)

lemma made_not_current:
  assumes inv: "exec_inv M e" and m: "t \<in> M"
  shows "cur_task e \<noteq> Some t"
  using exec_invD(5) [OF inv, of t] exec_invD(6) [OF inv] m by (auto simp: on_cpu_def)

lemma queue_task_inv:
  assumes inv: "exec_inv M e" and m: "t \<in> M"
  shows "exec_inv (M - {t}) (queue_task e t)"
proof -
  have nq: "t \<notin> set (queued (sch e))" using exec_invD(3) [OF inv] m by blast
  note a = add_task_inv [OF exec_invD(1) [OF inv], of t]
  show ?thesis
    unfolding exec_inv_def queue_task_def
    using a nq exec_invD(2) [OF inv] exec_invD(3) [OF inv] exec_invD(4) [OF inv] exec_invD(5) [OF inv] exec_invD(6) [OF inv] m
    by auto
qed

lemma drop_task_inv:
  assumes inv: "exec_inv M e" and m: "t \<in> M"
  shows "exec_inv (M - {t}) (drop_task e t)"
  unfolding exec_inv_def drop_task_def
  using exec_invD(1,2) [OF inv] exec_invD(3) [OF inv] exec_invD(4) [OF inv] exec_invD(5) [OF inv] exec_invD(6) [OF inv]
    made_not_current [OF inv m] m
  by auto

lemma exec_inv_sch:
  assumes "exec_inv M e" "sched_inv s" "ready_queue s = ready_queue (sch e)"
  shows "exec_inv M (e\<lparr> sch := s \<rparr>)"
  using assms by (simp add: exec_inv_def)

lemma exec_step_inv: "exec_step x x' \<Longrightarrow> exec_inv (fst x) (snd x) \<Longrightarrow> exec_inv (fst x') (snd x')"
proof (induction rule: exec_step.induct)
  case (create e t M)
  then show ?case using create_task_inv [of M e t] by simp
next
  case (enqueue t M e)
  then show ?case using queue_task_inv [of M e t] by simp
next
  case (discard t M e)
  then show ?case using drop_task_inv [of M e t] by simp
next
  case (block e t M)
  then show ?case using set_state_current_inv [of M e t Blocking] by simp
next
  case (exit_mark e t M)
  then show ?case using set_state_current_inv [of M e t Zombie] by simp
next
  case (tick e t b s M)
  then have "sched_inv (sch e)" using exec_invD(1) [of M e] by simp
  then show ?case using tick task_tick_inv [of "sch e" t b s] exec_inv_sch [of M e s] by simp
next
  case (priority e t prio b s M)
  then have "sched_inv (sch e)" using exec_invD(1) [of M e] by simp
  then have "sched_inv s" "ready_queue s = ready_queue (sch e)"
    using set_priority_keeps_vruntime [of "sch e" t prio] priority(2) by auto
  then show ?case using priority exec_inv_sch [of M e s] by simp
qed (auto intro: executor_pick_inv wakeup_task_inv(1) pending_inv ready_inv)

lemma exec_steps_inv: "exec_step\<^sup>*\<^sup>* (M, e) (M', e') \<Longrightarrow> exec_inv M e \<Longrightarrow> exec_inv M' e'"
proof -
  have "exec_inv (fst x') (snd x')" if "exec_step\<^sup>*\<^sup>* x x'" "exec_inv (fst x) (snd x)" for x x'
    using that by (induction rule: rtranclp_induct) (auto intro: exec_step_inv)
  from this [of "(M, e)" "(M', e')"] show "exec_step\<^sup>*\<^sup>* (M, e) (M', e') \<Longrightarrow> exec_inv M e \<Longrightarrow> exec_inv M' e'" by simp
qed

lemma exec_start_inv: "exec_inv {} (exec_start t0)"
proof -
  let ?e = "\<lparr> sch = sched_new (\<lambda>_. cfs_task_new), status = Map.empty, cur_task = None,
       wait_wakers = (\<lambda>_. []), init_task = t0, powered_off = False \<rparr> :: exec"
  have "exec_inv {} ?e" by (simp add: exec_inv_def sched_new_inv) (simp add: sched_new_def)
  then have "exec_inv {t0} (create_task ?e t0)" using create_task_inv [of "{}" ?e t0] by simp
  from queue_task_inv [OF this, of t0] show ?thesis by (simp add: exec_start_def spawn_task_def)
qed

subsection \<open>Properties\<close>

definition exec_blocked :: exec where
  "exec_blocked =
     (case run_task2_pending (set_state (executor_pick (exec_start 2)) 2 Blocking) False of
        Some e \<Rightarrow> e | None \<Rightarrow> exec_start 2)"

lemma exec_picked: "cur_task (executor_pick (exec_start 2)) = Some 2"
  by code_simp

lemma exec_blocked_pending:
  "run_task2_pending (set_state (executor_pick (exec_start 2)) 2 Blocking) False = Some exec_blocked"
proof -
  have "run_task2_pending (set_state (executor_pick (exec_start 2)) 2 Blocking) False \<noteq> None"
    by (simp add: run_task2_pending_def exec_picked)
  then show ?thesis by (auto simp: exec_blocked_def)
qed

lemma exec_blocking_reachable: "exec_step\<^sup>*\<^sup>* ({}, exec_start 2) ({}, set_state (executor_pick (exec_start 2)) 2 Blocking)"
proof -
  have "exec_step ({}, exec_start 2) ({}, executor_pick (exec_start 2))" by (rule exec_step.pick)
  moreover have "exec_step ({}, executor_pick (exec_start 2)) ({}, set_state (executor_pick (exec_start 2)) 2 Blocking)"
    by (rule exec_step.block [OF exec_picked])
  ultimately show ?thesis by (meson converse_rtranclp_into_rtranclp r_into_rtranclp)
qed

lemma exec_blocked_reachable: "exec_step\<^sup>*\<^sup>* ({}, exec_start 2) ({}, exec_blocked)"
  using exec_blocking_reachable exec_step.pending [OF exec_blocked_pending] by (rule rtranclp.rtrancl_into_rtrancl)

text \<open>Task 2 is blocked, and task 7 is created and not queued.\<close>

lemma exec_created_reachable: "exec_step\<^sup>*\<^sup>* ({}, exec_start 2) ({7}, create_task exec_blocked 7)"
proof -
  have "status exec_blocked 7 = None" by code_simp
  from exec_step.create [OF this, of "{}"] exec_blocked_reachable
  show ?thesis by (auto intro: rtranclp.rtrancl_into_rtrancl)
qed

text \<open>
  C9: in every state the executor can reach, whatever the tasks do, the ready queue holds exactly the \<open>Runnable\<close>
  tasks but those that are created and not passed to \<open>add_task\<close> (yet, or, after an error exit of \<open>clone\<close>, at all), which are
  \<open>Runnable\<close> too.  It holds each of them once, and the only task that can be \<open>Running\<close>, \<open>Blocking\<close> or
  \<open>Waked\<close> is the current one.  So no wake-up sequence queues a task twice or runs it while it is queued.
\<close>

theorem ready_queue_exact:
  assumes "exec_step\<^sup>*\<^sup>* ({}, exec_start t0) (made, e)"
  shows "distinct (queued (sch e)) \<and> set (queued (sch e)) = {t. status e t = Some Runnable} - made
    \<and> made \<subseteq> {t. status e t = Some Runnable}
    \<and> {t. \<exists>st\<in>on_cpu. status e t = Some st} \<subseteq> set_option (cur_task e)"
  using exec_invD [OF exec_steps_inv [OF assms exec_start_inv]] by auto

theorem ready_queue_exact_witness:
  "let e = create_task exec_blocked 7
   in distinct (queued (sch e)) \<and> set (queued (sch e)) = {t. status e t = Some Runnable} - {7}
    \<and> {7} \<subseteq> {t. status e t = Some Runnable} \<and> {t. \<exists>st\<in>on_cpu. status e t = Some st} \<subseteq> set_option (cur_task e)"
  unfolding Let_def by (rule ready_queue_exact [OF exec_created_reachable])

text \<open>
  When the current task's future returns \<open>Pending\<close>, \<open>run_task2\<close> panics exactly when the task has marked
  itself \<open>Zombie\<close>; the other two panics of its \<open>match\<close> are unreachable.  Otherwise the task ends up queued,
  blocked, or current and running.
\<close>

lemma pending_panics_iff_zombie:
  assumes "exec_step\<^sup>*\<^sup>* ({}, exec_start t0) (made, e)" "cur_task e = Some t"
  shows "(run_task2_pending e d = None \<longleftrightarrow> status e t = Some Zombie)
    \<and> (case run_task2_pending e d of None \<Rightarrow> True
       | Some e' \<Rightarrow> (t \<in> set (queued (sch e')) \<and> cur_task e' = None)
           \<or> (status e' t = Some Blocked \<and> cur_task e' = None)
           \<or> (status e' t = Some Running \<and> cur_task e' = Some t))"
proof -
  note inv = exec_steps_inv [OF assms(1) exec_start_inv]
  obtain st where st: "status e t = Some st" "st \<in> insert Zombie on_cpu"
    using exec_invD(5) [OF inv assms(2)] by blast
  obtain s where s: "put_prev_task (sch e) t = Some s" "set (queued s) = insert t (set (queued (sch e)))"
    using put_prev_task_inv [OF exec_invD(1) [OF inv]] by metis
  show ?thesis
    using st s assms(2)
    by (cases st) (auto simp: run_task2_pending_def clean_current_def clean_current_without_drop_def)
qed

lemma pending_panics_iff_zombie_witness:
  "run_task2_pending (set_state (executor_pick (exec_start 2)) 2 Blocking) False \<noteq> None"
  using pending_panics_iff_zombie [OF exec_blocking_reachable, of 2 False] exec_picked by simp

text \<open>
  A wake-up is not lost and not duplicated.  In a reachable state, waking a \<open>Blocked\<close> task makes it
  \<open>Runnable\<close> and queues it once, and a second wake-up changes nothing; waking a task that is about to block
  makes its \<open>Pending\<close> result keep the processor.
\<close>

lemma wakeup_effect:
  assumes "exec_step\<^sup>*\<^sup>* ({}, exec_start t0) (made, e)"
  shows "(status e t = Some Blocked \<longrightarrow>
      (\<exists>e'. wakeup_task e t = Some e' \<and> t \<in> set (queued (sch e')) \<and> t \<notin> set (queued (sch e))
         \<and> distinct (queued (sch e')) \<and> wakeup_task e' t = Some e'))
    \<and> (status e t = Some Blocking \<longrightarrow>
      (\<exists>e'. wakeup_task e t = Some e' \<and>
         (\<exists>e''. run_task2_pending e' d = Some e'' \<and> cur_task e'' = Some t \<and> status e'' t = Some Running)))"
proof -
  note inv = exec_steps_inv [OF assms(1) exec_start_inv]
  have 1: "\<exists>e'. wakeup_task e t = Some e' \<and> t \<in> set (queued (sch e')) \<and> t \<notin> set (queued (sch e))
      \<and> distinct (queued (sch e')) \<and> wakeup_task e' t = Some e'" if b: "status e t = Some Blocked"
  proof -
    let ?e = "(set_state e t Runnable)\<lparr> sch := add_task (sch e) t \<rparr>"
    have w: "wakeup_task e t = Some ?e" by (simp add: wakeup_task_def b Let_def)
    have nq: "t \<notin> set (queued (sch e))" using exec_invD(3) [OF inv, of t] b by simp
    have "distinct (queued (sch ?e))" using exec_invD(2) [OF wakeup_task_inv(1) [OF inv w]] by simp
    then show ?thesis
      using w nq add_task_inv(2) [OF exec_invD(1) [OF inv], of t]
      by (intro exI [of _ ?e]) (auto simp: wakeup_task_def)
  qed
  have 2: "\<exists>e'. wakeup_task e t = Some e' \<and>
      (\<exists>e''. run_task2_pending e' d = Some e'' \<and> cur_task e'' = Some t \<and> status e'' t = Some Running)"
    if b: "status e t = Some Blocking"
    using exec_invD(4) [OF inv b] b by (simp add: wakeup_task_def run_task2_pending_def)
  show ?thesis using 1 2 by blast
qed

lemma wakeup_effect_witness:
  "\<exists>e'. wakeup_task exec_blocked 2 = Some e' \<and> 2 \<in> set (queued (sch e')) \<and> wakeup_task e' 2 = Some e'"
proof -
  have eq: "exec_blocked = (set_state (set_state (executor_pick (exec_start 2)) 2 Blocking) 2 Blocked)\<lparr> cur_task := None \<rparr>"
    using exec_blocked_pending
    by (auto simp: run_task2_pending_def exec_picked clean_current_without_drop_def)
  have "status exec_blocked 2 = Some Blocked" by (subst eq) simp
  then show ?thesis using wakeup_effect [OF exec_blocked_reachable, of 2] by blast
qed

text \<open>
  The executor can reach a panic in the waker: a task that has set itself to \<open>Blocking\<close> and is woken
  twice before its future returns is \<open>Waked\<close> at the second wake-up, which panics, although the comment at the
  \<open>Running\<close> case expects several wakers of one task.
\<close>

lemma double_wakeup_panics:
  "\<exists>e e'. exec_step\<^sup>*\<^sup>* ({}, exec_start 2) ({}, e) \<and> wakeup_task e 2 = Some e' \<and> exec_step\<^sup>*\<^sup>* ({}, exec_start 2) ({}, e')
     \<and> wakeup_task e' 2 = None"
proof -
  let ?e = "set_state (executor_pick (exec_start 2)) 2 Blocking"
  have w: "wakeup_task ?e 2 = Some (set_state ?e 2 Waked)" by (simp add: wakeup_task_def)
  have "exec_step\<^sup>*\<^sup>* ({}, exec_start 2) ({}, set_state ?e 2 Waked)"
    using exec_blocking_reachable exec_step.wake [OF w] by (rule rtranclp.rtrancl_into_rtrancl)
  moreover have "wakeup_task (set_state ?e 2 Waked) 2 = None" by (simp add: wakeup_task_def)
  ultimately show ?thesis using w exec_blocking_reachable by blast
qed

subsection \<open>Starvation\<close>

text \<open>
  One turn of two tasks that wait for each other: the current task \<open>t\<close> wakes \<open>u\<close> and blocks, and the executor picks the next task;
  and \<open>n\<close> such turns, with the roles exchanged each time.
\<close>

definition hand_over :: "exec \<Rightarrow> nat \<Rightarrow> nat \<Rightarrow> exec option" where
  "hand_over e t u = do {
     e \<leftarrow> wakeup_task e u;
     e \<leftarrow> run_task2_pending (set_state e t Blocking) False;
     Some (executor_pick e) }"

fun hand_overs :: "nat \<Rightarrow> exec \<Rightarrow> nat \<Rightarrow> nat \<Rightarrow> exec option" where
  "hand_overs 0 e t u = Some e"
| "hand_overs (Suc n) e t u = do { e \<leftarrow> hand_over e t u; hand_overs n e u t }"

text \<open>The state in which \<open>t\<close> runs, \<open>u\<close> is blocked, and every queued task has a virtual run time above \<open>min_vruntime\<close>.\<close>

definition overtaking :: "exec \<Rightarrow> nat \<Rightarrow> nat \<Rightarrow> int \<Rightarrow> bool" where
  "overtaking e t u m \<longleftrightarrow> cur_task e = Some t \<and> status e t = Some Running \<and> status e u = Some Blocked
     \<and> min_vruntime (sch e) = Some m \<and> (\<forall>((v, i), x)\<in>set (ready_queue (sch e)). m < v)"

lemma bt_insert_least: "\<forall>(k', v')\<in>set q. k < k' \<Longrightarrow> bt_insert k v q = (k, v) # q"
  by (cases q) auto

lemma hand_over_overtakes:
  assumes "overtaking e t u m"
  obtains e' where "hand_over e t u = Some e'" "overtaking e' u t m" "ready_queue (sch e') = ready_queue (sch e)"
    "exec_step\<^sup>*\<^sup>* (M, e) (M, e')"
proof -
  note o = assms [unfolded overtaking_def]
  have ne: "t \<noteq> u" using o by auto
  let ?s = "add_task (sch e) u"
  let ?e1 = "(set_state e u Runnable)\<lparr> sch := ?s \<rparr>"
  have w: "wakeup_task e u = Some ?e1" using o by (simp add: wakeup_task_def Let_def)
  let ?e2 = "(set_state (set_state ?e1 t Blocking) t Blocked)\<lparr> cur_task := None \<rparr>"
  have p: "run_task2_pending (set_state ?e1 t Blocking) False = Some ?e2"
    using o by (simp add: run_task2_pending_def clean_current_without_drop_def)
  have least: "\<forall>(k', v')\<in>set (ready_queue (sch e)). (m, id_pool (sch e)) < k'" using o by (auto simp: less_prod_def)
  have q: "ready_queue ?s = ((m, id_pool (sch e)), u) # ready_queue (sch e)"
    using bt_insert_least [OF least, of u] o by (simp add: add_task_queue)
  have m: "min_vruntime ?s = Some m"
    using q by (simp add: add_task_def Let_def queue_min_def bt_first_def)
  let ?e3 = "init_current (?e2\<lparr> sch := ?s\<lparr> ready_queue := ready_queue (sch e) \<rparr> \<rparr>) u"
  have x: "executor_pick ?e2 = ?e3" by (simp add: executor_pick_def pick_next_task_def q)
  have h: "hand_over e t u = Some ?e3" by (simp add: hand_over_def w p x)
  have st: "exec_step (M, e) (M, ?e1)" "exec_step (M, ?e1) (M, set_state ?e1 t Blocking)"
    "exec_step (M, set_state ?e1 t Blocking) (M, ?e2)" "exec_step (M, ?e2) (M, executor_pick ?e2)"
    using exec_step.wake [OF w] exec_step.block [of ?e1 t] exec_step.pending [OF p] exec_step.pick o by simp_all
  then have "exec_step\<^sup>*\<^sup>* (M, e) (M, ?e3)"
    unfolding x [symmetric] by (meson converse_rtranclp_into_rtranclp rtranclp.rtrancl_refl)
  moreover have "overtaking ?e3 u t m" using o ne m by (simp add: overtaking_def init_current_def)
  moreover have "ready_queue (sch ?e3) = ready_queue (sch e)" by (simp add: init_current_def)
  ultimately show thesis using that h by blast
qed


text \<open>Tasks 2, 3 and 4; task 2 uses up one tick and is preempted, task 3 blocks, and task 4 runs.\<close>

definition exec_three :: exec where
  "exec_three = spawn_task (spawn_task (executor_pick (exec_start 2)) 3) 4"

definition exec_ticked :: exec where
  "exec_ticked = (case task_tick (sch exec_three) 2 of None \<Rightarrow> exec_three | Some (_, s) \<Rightarrow> exec_three\<lparr> sch := s \<rparr>)"

definition exec_preempted :: exec where
  "exec_preempted = (case run_task2_pending exec_ticked False of None \<Rightarrow> exec_three | Some e \<Rightarrow> executor_pick e)"

definition exec_contended :: exec where
  "exec_contended = (case run_task2_pending (set_state exec_preempted 3 Blocking) False of None \<Rightarrow> exec_three | Some e \<Rightarrow> executor_pick e)"

lemma exec_contended_reachable: "exec_step\<^sup>*\<^sup>* ({}, exec_start 2) ({}, exec_contended)"
proof -
  have spawn: "exec_step\<^sup>*\<^sup>* ({}, e) ({}, spawn_task e t)" if "status e t = None" for e t
  proof -
    have "exec_step ({}, e) ({t}, create_task e t)" using exec_step.create [OF that, of "{}"] by simp
    moreover have "exec_step ({t}, create_task e t) ({}, queue_task (create_task e t) t)"
      using exec_step.enqueue [of t "{t}" "create_task e t"] by simp
    ultimately show ?thesis unfolding spawn_task_def by (meson converse_rtranclp_into_rtranclp r_into_rtranclp)
  qed
  have "status (executor_pick (exec_start 2)) 3 = None" "status (spawn_task (executor_pick (exec_start 2)) 3) 4 = None" by code_simp+
  then have 1: "exec_step\<^sup>*\<^sup>* ({}, executor_pick (exec_start 2)) ({}, exec_three)"
    unfolding exec_three_def using spawn by (meson rtranclp_trans)
  have c: "cur_task exec_three = Some 2" "cur_task exec_preempted = Some 3" by code_simp+
  have "task_tick (sch exec_three) 2 \<noteq> None" by code_simp
  then obtain b s where t: "task_tick (sch exec_three) 2 = Some (b, s)" by auto
  then have "exec_ticked = exec_three\<lparr> sch := s \<rparr>" by (simp add: exec_ticked_def)
  with exec_step.tick [OF c(1) t] have 2: "exec_step ({}, exec_three) ({}, exec_ticked)" by simp
  have turn: "exec_step\<^sup>*\<^sup>* ({}, e) ({}, case run_task2_pending e False of None \<Rightarrow> d | Some e \<Rightarrow> executor_pick e)"
    if nn: "run_task2_pending e False \<noteq> None" for e d
  proof -
    obtain e' where e': "run_task2_pending e False = Some e'" using nn by blast
    from exec_step.pending [OF e', of "{}"] exec_step.pick [of "{}" e'] show ?thesis
      unfolding e' option.case by (meson converse_rtranclp_into_rtranclp r_into_rtranclp)
  qed
  have n: "run_task2_pending exec_ticked False \<noteq> None" "run_task2_pending (set_state exec_preempted 3 Blocking) False \<noteq> None"
    by code_simp+
  have "exec_step\<^sup>*\<^sup>* ({}, exec_ticked) ({}, exec_preempted)" unfolding exec_preempted_def by (rule turn [OF n(1)])
  moreover have "exec_step ({}, exec_preempted) ({}, set_state exec_preempted 3 Blocking)" by (rule exec_step.block [OF c(2)])
  moreover have "exec_step\<^sup>*\<^sup>* ({}, set_state exec_preempted 3 Blocking) ({}, exec_contended)"
    unfolding exec_contended_def by (rule turn [OF n(2)])
  moreover have "exec_step ({}, exec_start 2) ({}, executor_pick (exec_start 2))" by (rule exec_step.pick)
  ultimately show ?thesis using 1 2 by (meson rtranclp_trans r_into_rtranclp)
qed


end
