(* ===== verification/Waiter_Registry.thy ===== *)
theory Waiter_Registry
  imports Prelude "HOL-Library.Multiset"
begin

text \<open>
  The contract between a waiting future and the list it registers with.  The kernel has three such
  lists: \<open>GeneralWaitTaskList\<close>, \<open>FutexWaitQueue\<close> and \<open>SleeperList\<close>.  A node is a shared pointer
  (\<open>Arc\<close>); \<open>ident\<close> is its address, the only thing the lists compare when they remove one.  A future adds
  a node with a new address and removes it when it completes or is dropped, so that the list always holds
  exactly the nodes of the futures that still wait.
\<close>

subsection \<open>Removal of a shared pointer from a linked list\<close>

text \<open>The loop with \<open>Arc::ptr_eq\<close>, then \<open>split_off\<close>, \<open>pop_front\<close> and \<open>append\<close>.\<close>

fun arc_index :: "('n \<Rightarrow> nat) \<Rightarrow> nat \<Rightarrow> nat \<Rightarrow> 'n list \<Rightarrow> nat option" where
  "arc_index ident a i [] = None"
| "arc_index ident a i (n # ns) = (if ident n = a then Some i else arc_index ident a (i + 1) ns)"

definition arc_remove :: "('n \<Rightarrow> nat) \<Rightarrow> 'n \<Rightarrow> 'n list \<Rightarrow> 'n option \<times> 'n list" where
  "arc_remove ident n ns =
     (case arc_index ident (ident n) 0 ns of
        Some i \<Rightarrow> (let tail = drop i ns
          in case tail of [] \<Rightarrow> (None, take i ns) | m # tail' \<Rightarrow> (Some m, take i ns @ tail'))
      | None \<Rightarrow> (None, ns))"

lemma arc_index_None: "arc_index ident a i ns = None \<longleftrightarrow> a \<notin> ident ` set ns"
  by (induction ns arbitrary: i) auto

lemma arc_index_Some:
  "arc_index ident a i ns = Some j \<Longrightarrow>
     \<exists>pre m post. ns = pre @ m # post \<and> ident m = a \<and> j = i + length pre \<and> a \<notin> ident ` set pre"
proof (induction ns arbitrary: i)
  case (Cons n ns)
  show ?case
  proof (cases "ident n = a")
    case True
    then show ?thesis using Cons.prems by (intro exI [of _ "[]"]) auto
  next
    case False
    then obtain pre m post where "ns = pre @ m # post" "ident m = a" "j = i + 1 + length pre"
      "a \<notin> ident ` set pre" using Cons by fastforce
    then show ?thesis using False by (intro exI [of _ "n # pre"]) auto
  qed
qed simp

lemma arc_remove_absent: "ident n \<notin> ident ` set ns \<Longrightarrow> arc_remove ident n ns = (None, ns)"
  using arc_index_None [of ident "ident n" 0 ns] by (simp add: arc_remove_def)

lemma arc_remove_split:
  assumes "ident m = ident n" "ident n \<notin> ident ` set pre"
  shows "arc_remove ident n (pre @ m # post) = (Some m, pre @ post)"
proof -
  obtain j where j: "arc_index ident (ident n) 0 (pre @ m # post) = Some j"
    using arc_index_None [of ident "ident n" 0 "pre @ m # post"] assms
    by (cases "arc_index ident (ident n) 0 (pre @ m # post)") auto
  from arc_index_Some [OF this] obtain pre' m' post' where
    s: "pre @ m # post = pre' @ m' # post'" "ident m' = ident n" "j = length pre'"
    "ident n \<notin> ident ` set pre'" by auto
  have nth1: "(pre @ m # post) ! length pre = m" by simp
  have nth2: "(pre @ m # post) ! length pre' = m'" unfolding s(1) by simp
  have "\<not> length pre' < length pre"
  proof
    assume l: "length pre' < length pre"
    then have "m' = pre ! length pre'" using nth2 by (simp add: nth_append)
    then have "m' \<in> set pre" using l by simp
    then show False using assms(2) s(2) by (metis imageI)
  qed
  moreover have "\<not> length pre < length pre'"
  proof
    assume l: "length pre < length pre'"
    then have "m = pre' ! length pre" using nth1 unfolding s(1) by (simp add: nth_append)
    then have "m \<in> set pre'" using l by simp
    then show False using assms(1) s(4) by (metis imageI)
  qed
  ultimately have "length pre' = length pre" by simp
  then have e: "pre' = pre" "m' = m" "post' = post" using s(1) by (simp_all add: append_eq_append_conv)
  have "arc_index ident (ident n) 0 (pre @ m # post) = Some (length pre)" using j s(3) e by simp
  then show ?thesis by (simp add: arc_remove_def)
qed

lemma filter_fresh: "a \<notin> f ` set ns \<Longrightarrow> filter (\<lambda>m. f m \<noteq> a) ns = ns"
  by (induction ns) auto

lemma arc_remove_filter:
  assumes "distinct (map ident ns)"
  shows "snd (arc_remove ident n ns) = filter (\<lambda>m. ident m \<noteq> ident n) ns"
proof (cases "ident n \<in> ident ` set ns")
  case False
  moreover have "filter (\<lambda>m. ident m \<noteq> ident n) ns = ns"
    using False by (rule filter_fresh)
  ultimately show ?thesis by (simp add: arc_remove_absent)
next
  case True
  then obtain m where m: "m \<in> set ns" "ident m = ident n" by force
  then obtain pre post where s: "ns = pre @ m # post" by (meson split_list)
  have f: "ident n \<notin> ident ` set pre" "ident n \<notin> ident ` set post" using assms m s by auto
  have "filter (\<lambda>m. ident m \<noteq> ident n) pre = pre" "filter (\<lambda>m. ident m \<noteq> ident n) post = post"
    using f by (simp_all add: filter_fresh)
  then show ?thesis using arc_remove_split [of ident m n pre post] m f s by simp
qed

subsection \<open>The contract\<close>

datatype 'n reg_op = Register 'n | Deregister 'n

fun reg_run :: "('n \<Rightarrow> 'q \<Rightarrow> 'q) \<Rightarrow> ('n \<Rightarrow> 'q \<Rightarrow> 'q) \<Rightarrow> 'n reg_op list \<Rightarrow> 'q \<Rightarrow> 'q" where
  "reg_run ins rem [] q = q"
| "reg_run ins rem (Register n # ops) q = reg_run ins rem ops (ins n q)"
| "reg_run ins rem (Deregister n # ops) q = reg_run ins rem ops (rem n q)"

text \<open>The futures that wait after a sequence of registrations, oldest first.\<close>

fun reg_live :: "('n \<Rightarrow> nat) \<Rightarrow> 'n reg_op list \<Rightarrow> 'n list \<Rightarrow> 'n list" where
  "reg_live ident [] ns = ns"
| "reg_live ident (Register n # ops) ns = reg_live ident ops (ns @ [n])"
| "reg_live ident (Deregister n # ops) ns = reg_live ident ops (filter (\<lambda>m. ident m \<noteq> ident n) ns)"

fun reg_fresh :: "('n \<Rightarrow> nat) \<Rightarrow> 'n reg_op list \<Rightarrow> nat set \<Rightarrow> bool" where
  "reg_fresh ident [] used = True"
| "reg_fresh ident (Register n # ops) used = (ident n \<notin> used \<and> reg_fresh ident ops (insert (ident n) used))"
| "reg_fresh ident (Deregister n # ops) used = reg_fresh ident ops used"

locale waiter_registry =
  fixes ins :: "'n \<Rightarrow> 'q \<Rightarrow> 'q"
    and rem :: "'n \<Rightarrow> 'q \<Rightarrow> 'q"
    and nodes :: "'q \<Rightarrow> 'n list"
    and ident :: "'n \<Rightarrow> nat"
  assumes nodes_ins: "mset (nodes (ins n q)) = add_mset n (mset (nodes q))"
    and nodes_rem: "distinct (map ident (nodes q)) \<Longrightarrow> nodes (rem n q) = filter (\<lambda>m. ident m \<noteq> ident n) (nodes q)"
begin

lemma set_ins: "set (nodes (ins n q)) = insert n (set (nodes q))"
  using nodes_ins [of n q] by (metis set_mset_add_mset_insert set_mset_mset)

lemma distinct_ins:
  assumes "distinct (map ident (nodes q))" "ident n \<notin> ident ` set (nodes q)"
  shows "distinct (map ident (nodes (ins n q)))"
proof -
  have "mset (map ident (nodes (ins n q))) = mset (ident n # map ident (nodes q))"
    using nodes_ins by simp
  then have "distinct (map ident (nodes (ins n q))) \<longleftrightarrow> distinct (ident n # map ident (nodes q))"
    by (rule mset_eq_imp_distinct_iff)
  then show ?thesis using assms by simp
qed

lemma distinct_rem:
  "distinct (map ident (nodes q)) \<Longrightarrow> distinct (map ident (nodes (rem n q)))"
  by (simp add: nodes_rem distinct_map_filter)

lemma rem_ins_nodes:
  assumes "distinct (map ident (nodes q))" "ident n \<notin> ident ` set (nodes q)"
  shows "mset (nodes (rem n (ins n q))) = mset (nodes q)"
proof -
  have "filter (\<lambda>m. ident m \<noteq> ident n) (nodes q) = nodes q" using assms(2) by (rule filter_fresh)
  then have "filter_mset (\<lambda>m. ident m \<noteq> ident n) (mset (nodes q)) = mset (nodes q)"
    by (metis mset_filter)
  then show ?thesis using nodes_rem [OF distinct_ins [OF assms]] by (simp add: nodes_ins)
qed

lemma run_live:
  assumes "reg_fresh ident ops used" "ident ` set (nodes q) \<subseteq> used" "distinct (map ident (nodes q))"
    "mset (nodes q) = mset ns"
  shows "mset (nodes (reg_run ins rem ops q)) = mset (reg_live ident ops ns)
    \<and> distinct (map ident (nodes (reg_run ins rem ops q)))"
  using assms
proof (induction ops arbitrary: q ns used)
  case (Cons p ops)
  show ?case
  proof (cases p)
    case (Register n)
    then have fr: "ident n \<notin> ident ` set (nodes q)" "reg_fresh ident ops (insert (ident n) used)"
      using Cons.prems by auto
    have "ident ` set (nodes (ins n q)) \<subseteq> insert (ident n) used" using Cons.prems set_ins by auto
    moreover have "mset (nodes (ins n q)) = mset (ns @ [n])" using Cons.prems nodes_ins by simp
    ultimately show ?thesis
      using Cons.IH [OF fr(2), of "ins n q" "ns @ [n]"] distinct_ins [of q n] Cons.prems fr Register by simp
  next
    case (Deregister n)
    have s: "nodes (rem n q) = filter (\<lambda>m. ident m \<noteq> ident n) (nodes q)"
      using nodes_rem Cons.prems by blast
    then have "ident ` set (nodes (rem n q)) \<subseteq> used" using Cons.prems by auto
    moreover have "mset (nodes (rem n q)) = mset (filter (\<lambda>m. ident m \<noteq> ident n) ns)"
      using s Cons.prems by simp
    ultimately show ?thesis
      using Cons.IH [of used "rem n q" "filter (\<lambda>m. ident m \<noteq> ident n) ns"] distinct_rem [of q n] Cons.prems Deregister
      by simp
  qed
qed simp

end

text \<open>A list that keeps the order of registration, so that the longest waiter is woken first.\<close>

locale fifo_registry = waiter_registry +
  assumes nodes_ins_last: "nodes (ins n q) = nodes q @ [n]"
begin

lemma rem_ins_exact:
  assumes "distinct (map ident (nodes q))" "ident n \<notin> ident ` set (nodes q)"
  shows "nodes (rem n (ins n q)) = nodes q"
proof -
  have "filter (\<lambda>m. ident m \<noteq> ident n) (nodes q) = nodes q" using assms(2) by (rule filter_fresh)
  then show ?thesis
    using nodes_rem [OF distinct_ins [OF assms]] nodes_ins_last by simp
qed

lemma run_fifo:
  assumes "reg_fresh ident ops used" "ident ` set (nodes q) \<subseteq> used" "distinct (map ident (nodes q))"
  shows "nodes (reg_run ins rem ops q) = reg_live ident ops (nodes q)"
  using assms
proof (induction ops arbitrary: q used)
  case (Cons p ops)
  show ?case
  proof (cases p)
    case (Register n)
    then have fr: "ident n \<notin> ident ` set (nodes q)" "reg_fresh ident ops (insert (ident n) used)"
      using Cons.prems by auto
    have "ident ` set (nodes (ins n q)) \<subseteq> insert (ident n) used" using Cons.prems set_ins by auto
    then show ?thesis
      using Cons.IH [OF fr(2), of "ins n q"] distinct_ins [of q n] Cons.prems fr Register nodes_ins_last [of n q]
      by simp
  next
    case (Deregister n)
    have s: "nodes (rem n q) = filter (\<lambda>m. ident m \<noteq> ident n) (nodes q)"
      using nodes_rem Cons.prems by blast
    then have "ident ` set (nodes (rem n q)) \<subseteq> used" using Cons.prems by auto
    moreover have "reg_fresh ident ops used" using Cons.prems Deregister by simp
    ultimately have "nodes (reg_run ins rem ops (rem n q)) = reg_live ident ops (nodes (rem n q))"
      using Cons.IH distinct_rem [OF Cons.prems(3)] by blast
    then show ?thesis by (simp add: Deregister s)
  qed
qed simp

end

end
