(* ===== verification/Sleep_List.thy ===== *)
theory Sleep_List
  imports Clock Executor Waiter_Registry
begin

text \<open>
  Timed sleeping (\<open>os/src/task/sleeplist.rs\<close>): the list of sleepers ordered by deadline, the future that
  registers with it and the function that wakes the expired sleepers.  The record \<open>kwait\<close> is the part of
  the kernel the blocking futures share: the executor, the global list of sleepers, and the address the
  next \<open>Arc::new\<close> returns.
\<close>

datatype ordering = Less | Equal | Greater

record sleep_node =
  sn_arc :: nat
  sn_deadline :: "time_val option"
  sn_task :: nat

record kwait =
  ex :: exec
  sleepers :: "sleep_node list"
  next_arc :: nat

datatype 'a poll = Ready 'a | Pending

definition cmp :: "'a :: linorder \<Rightarrow> 'a \<Rightarrow> ordering" where
  "cmp a b = (if a < b then Less else if a = b then Equal else Greater)"

definition sleep_cmp :: "sleep_node \<Rightarrow> sleep_node \<Rightarrow> ordering" where
  "sleep_cmp a b =
     (case (sn_deadline a, sn_deadline b) of
        (Some d1, Some d2) \<Rightarrow> (case cmp d1 d2 of Equal \<Rightarrow> cmp (sn_task a) (sn_task b) | c \<Rightarrow> c)
      | (Some _, None) \<Rightarrow> Less
      | (None, Some _) \<Rightarrow> Greater
      | (None, None) \<Rightarrow> cmp (sn_task a) (sn_task b))"

text \<open>The cursor moves past every node that is not greater than the new one.\<close>

fun add_sleeper :: "sleep_node \<Rightarrow> sleep_node list \<Rightarrow> sleep_node list" where
  "add_sleeper n [] = [n]"
| "add_sleeper n (c # cs) = (if sleep_cmp c n = Greater then n # c # cs else c # add_sleeper n cs)"

fun pop_expired :: "time_val \<Rightarrow> sleep_node list \<Rightarrow> sleep_node list \<times> sleep_node list" where
  "pop_expired now [] = ([], [])"
| "pop_expired now (n # ns) =
     (case sn_deadline n of
        Some d \<Rightarrow> (if d \<le> now then (let (ex, rest) = pop_expired now ns in (n # ex, rest)) else ([], n # ns))
      | None \<Rightarrow> ([], n # ns))"

definition remove_sleeper :: "sleep_node \<Rightarrow> sleep_node list \<Rightarrow> sleep_node option \<times> sleep_node list" where
  "remove_sleeper n ns = arc_remove sn_arc n ns"

record sleep_future =
  sf_deadline :: "time_val option"
  sf_task :: nat
  sf_node :: "sleep_node option"

definition sleep_until :: "nat \<Rightarrow> time_val option \<Rightarrow> sleep_future" where
  "sleep_until cur dl = \<lparr> sf_deadline = dl, sf_task = cur, sf_node = None \<rparr>"

definition sleep_deregister :: "sleep_future \<Rightarrow> kwait \<Rightarrow> sleep_future \<times> kwait" where
  "sleep_deregister f k =
     (case sf_node f of
        Some n \<Rightarrow> (f\<lparr> sf_node := None \<rparr>, k\<lparr> sleepers := snd (remove_sleeper n (sleepers k)) \<rparr>)
      | None \<Rightarrow> (f, k))"

definition sleep_poll :: "time_val \<Rightarrow> sleep_future \<Rightarrow> kwait \<Rightarrow> unit poll \<times> sleep_future \<times> kwait" where
  "sleep_poll now f k =
     (if (case sf_deadline f of Some d \<Rightarrow> now \<ge> d | None \<Rightarrow> False) then (Ready (), sleep_deregister f k)
      else if sf_node f \<noteq> None then (Ready (), sleep_deregister f k)
      else (case status (ex k) (sf_task f) of
          None \<Rightarrow> (Ready (), f, k)
        | Some _ \<Rightarrow>
            (let e = set_state (ex k) (sf_task f) Blocking;
                 n = \<lparr> sn_arc = next_arc k, sn_deadline = sf_deadline f, sn_task = sf_task f \<rparr>;
                 e' = (case status e (sf_task f) of
                     Some Running \<Rightarrow> set_state e (sf_task f) Blocking
                   | Some Runnable \<Rightarrow> set_state e (sf_task f) Blocking
                   | Some Blocking \<Rightarrow> set_state e (sf_task f) Blocking
                   | _ \<Rightarrow> e)
             in (Pending, f\<lparr> sf_node := Some n \<rparr>,
                 k\<lparr> ex := e', next_arc := next_arc k + 1, sleepers := add_sleeper n (sleepers k) \<rparr>))))"

definition sleep_drop :: "sleep_future \<Rightarrow> kwait \<Rightarrow> kwait" where
  "sleep_drop f k =
     (case sf_node f of
        Some n \<Rightarrow> k\<lparr> sleepers := snd (remove_sleeper n (sleepers k)) \<rparr>
      | None \<Rightarrow> k)"

definition process_sleepers :: "time_val \<Rightarrow> kwait \<Rightarrow> kwait option" where
  "process_sleepers now k = do {
     let (expired, rest) = pop_expired now (sleepers k);
     e \<leftarrow> wake_list (ex k) (map sn_task expired);
     Some (k\<lparr> ex := e, sleepers := rest \<rparr>) }"

subsection \<open>The order of the list\<close>

definition sleep_le :: "sleep_node \<Rightarrow> sleep_node \<Rightarrow> bool" where
  "sleep_le a b \<longleftrightarrow> sleep_cmp a b \<noteq> Greater"

definition sleep_sorted :: "sleep_node list \<Rightarrow> bool" where
  "sleep_sorted ns \<longleftrightarrow> sorted_wrt sleep_le ns"

definition expired :: "time_val \<Rightarrow> sleep_node \<Rightarrow> bool" where
  "expired now n \<longleftrightarrow> (case sn_deadline n of Some d \<Rightarrow> d \<le> now | None \<Rightarrow> False)"

lemma sleep_le_alt:
  "sleep_le a b \<longleftrightarrow>
     (case (sn_deadline a, sn_deadline b) of
        (Some d1, Some d2) \<Rightarrow> d1 < d2 \<or> (d1 = d2 \<and> sn_task a \<le> sn_task b)
      | (Some _, None) \<Rightarrow> True
      | (None, Some _) \<Rightarrow> False
      | (None, None) \<Rightarrow> sn_task a \<le> sn_task b)"
  by (auto simp: sleep_le_def sleep_cmp_def cmp_def split: option.splits)

lemma sleep_le_trans: "sleep_le a b \<Longrightarrow> sleep_le b c \<Longrightarrow> sleep_le a c"
  by (auto simp: sleep_le_alt split: option.splits)

lemma sleep_le_total: "\<not> sleep_le a b \<Longrightarrow> sleep_le b a"
  by (auto simp: sleep_le_alt split: option.splits)

lemma sleep_le_expired: "sleep_le a b \<Longrightarrow> expired now b \<Longrightarrow> expired now a"
  by (auto simp: sleep_le_alt expired_def split: option.splits)

lemma set_add_sleeper [simp]: "set (add_sleeper n ns) = insert n (set ns)"
  by (induction ns) auto

lemma add_sleeper_sorted: "sleep_sorted ns \<Longrightarrow> sleep_sorted (add_sleeper n ns)"
proof (induction ns)
  case (Cons c cs)
  show ?case
  proof (cases "sleep_cmp c n = Greater")
    case True
    then have nc: "sleep_le n c" using sleep_le_total [of c n] by (simp add: sleep_le_def)
    then have "sleep_le n m" if "m \<in> set cs" for m
      using sleep_le_trans [OF nc] that Cons.prems by (simp add: sleep_sorted_def)
    then show ?thesis using True nc Cons.prems by (simp add: sleep_sorted_def)
  next
    case False
    then have "sleep_le c n" by (simp add: sleep_le_def)
    then show ?thesis using Cons False by (simp add: sleep_sorted_def)
  qed
qed (simp add: sleep_sorted_def)

lemma mset_add_sleeper: "mset (add_sleeper n ns) = add_mset n (mset ns)"
  by (induction ns) auto

interpretation sleepl: waiter_registry add_sleeper "\<lambda>n ns. snd (remove_sleeper n ns)" "\<lambda>ns. ns" sn_arc
  by unfold_locales (simp_all add: mset_add_sleeper remove_sleeper_def arc_remove_filter)

lemma remove_sleeper_sorted:
  "sleep_sorted ns \<Longrightarrow> distinct (map sn_arc ns) \<Longrightarrow> sleep_sorted (snd (remove_sleeper n ns))"
  using sorted_wrt_filter [of sleep_le ns "\<lambda>m. sn_arc m \<noteq> sn_arc n"]
  by (simp add: remove_sleeper_def arc_remove_filter sleep_sorted_def)

lemma pop_expired_filter:
  "sleep_sorted ns \<Longrightarrow> pop_expired now ns = (filter (expired now) ns, filter (\<lambda>n. \<not> expired now n) ns)"
proof (induction ns)
  case (Cons n ns)
  have ih: "pop_expired now ns = (filter (expired now) ns, filter (\<lambda>n. \<not> expired now n) ns)"
    using Cons by (simp add: sleep_sorted_def)
  show ?case
  proof (cases "expired now n")
    case True
    then obtain d where "sn_deadline n = Some d" "d \<le> now" by (auto simp: expired_def split: option.splits)
    then show ?thesis using True ih by simp
  next
    case False
    then have "\<not> expired now m" if "m \<in> set ns" for m
      using sleep_le_expired that Cons.prems by (force simp: sleep_sorted_def)
    then have f: "filter (expired now) ns = []" "filter (\<lambda>n. \<not> expired now n) ns = ns"
      by (simp_all add: filter_empty_conv)
    have "pop_expired now (n # ns) = ([], n # ns)"
      using False by (auto simp: expired_def split: option.splits)
    then show ?thesis using False f by simp
  qed
qed simp

subsection \<open>The shared state of the blocking futures\<close>

definition kwait_inv :: "kwait \<Rightarrow> bool" where
  "kwait_inv k \<longleftrightarrow> sleep_sorted (sleepers k) \<and> distinct (map sn_arc (sleepers k))
     \<and> (\<forall>n\<in>set (sleepers k). sn_arc n < next_arc k)"

lemma kwait_inv_fresh: "kwait_inv k \<Longrightarrow> next_arc k \<notin> sn_arc ` set (sleepers k)"
  by (auto simp: kwait_inv_def)

lemma kwait_inv_remove:
  "kwait_inv k \<Longrightarrow> kwait_inv (k\<lparr> sleepers := snd (remove_sleeper n (sleepers k)) \<rparr>)"
  using sleepl.distinct_rem [of "sleepers k" n] remove_sleeper_sorted [of "sleepers k" n]
  by (auto simp: kwait_inv_def remove_sleeper_def arc_remove_filter)

lemma kwait_inv_add:
  assumes "kwait_inv k"
  shows "kwait_inv (k\<lparr> ex := e, next_arc := next_arc k + 1,
    sleepers := add_sleeper \<lparr> sn_arc = next_arc k, sn_deadline = d, sn_task = t \<rparr> (sleepers k) \<rparr>)"
  using assms kwait_inv_fresh [OF assms]
    sleepl.distinct_ins [of "sleepers k" "\<lparr> sn_arc = next_arc k, sn_deadline = d, sn_task = t \<rparr>"]
  by (auto simp: kwait_inv_def add_sleeper_sorted less_Suc_eq)

lemma filter_add_sleeper:
  "sn_arc n \<notin> sn_arc ` set ns \<Longrightarrow> filter (\<lambda>m. sn_arc m \<noteq> sn_arc n) (add_sleeper n ns) = ns"
  by (induction ns) (auto simp: filter_fresh)

lemma sleep_drop_inv: "kwait_inv k \<Longrightarrow> kwait_inv (sleep_drop f k)"
  by (simp add: sleep_drop_def kwait_inv_remove split: option.split)

lemma sleep_deregister_drop:
  "sleep_deregister f k = (f\<lparr> sf_node := None \<rparr>, sleep_drop f k)"
  by (cases f) (simp add: sleep_deregister_def sleep_drop_def split: option.split)

text \<open>The result of a poll, by cases.\<close>

lemma sleep_poll_cases:
  fixes now f k
  defines "due \<equiv> \<exists>d. sf_deadline f = Some d \<and> d \<le> now"
  shows "due \<or> sf_node f \<noteq> None \<Longrightarrow> sleep_poll now f k = (Ready (), f\<lparr> sf_node := None \<rparr>, sleep_drop f k)"
    and "\<not> due \<Longrightarrow> sf_node f = None \<Longrightarrow> status (ex k) (sf_task f) = None \<Longrightarrow> sleep_poll now f k = (Ready (), f, k)"
    and "\<not> due \<Longrightarrow> sf_node f = None \<Longrightarrow> status (ex k) (sf_task f) = Some st \<Longrightarrow>
      sleep_poll now f k =
        (let n = \<lparr> sn_arc = next_arc k, sn_deadline = sf_deadline f, sn_task = sf_task f \<rparr>
         in (Pending, f\<lparr> sf_node := Some n \<rparr>,
             k\<lparr> ex := set_state (ex k) (sf_task f) Blocking, next_arc := next_arc k + 1,
                sleepers := add_sleeper n (sleepers k) \<rparr>))"
proof -
  have d: "(case sf_deadline f of Some d \<Rightarrow> now \<ge> d | None \<Rightarrow> False) \<longleftrightarrow> due"
    by (auto simp: due_def split: option.split)
  show "due \<or> sf_node f \<noteq> None \<Longrightarrow> sleep_poll now f k = (Ready (), f\<lparr> sf_node := None \<rparr>, sleep_drop f k)"
    unfolding sleep_poll_def d by (auto simp: sleep_deregister_drop)
  show "\<not> due \<Longrightarrow> sf_node f = None \<Longrightarrow> status (ex k) (sf_task f) = None \<Longrightarrow> sleep_poll now f k = (Ready (), f, k)"
    unfolding sleep_poll_def d by simp
  have ss: "set_state (set_state e t Blocking) t Blocking = set_state e t Blocking" for e t
    by (simp add: set_state_def)
  show "\<not> due \<Longrightarrow> sf_node f = None \<Longrightarrow> status (ex k) (sf_task f) = Some st \<Longrightarrow>
      sleep_poll now f k =
        (let n = \<lparr> sn_arc = next_arc k, sn_deadline = sf_deadline f, sn_task = sf_task f \<rparr>
         in (Pending, f\<lparr> sf_node := Some n \<rparr>,
             k\<lparr> ex := set_state (ex k) (sf_task f) Blocking, next_arc := next_arc k + 1,
                sleepers := add_sleeper n (sleepers k) \<rparr>))"
    unfolding sleep_poll_def d by (simp add: ss Let_def)
qed

lemma sleep_poll_inv:
  assumes "kwait_inv k" "sleep_poll now f k = (r, f', k')"
  shows "kwait_inv k'"
proof -
  consider "(\<exists>d. sf_deadline f = Some d \<and> d \<le> now) \<or> sf_node f \<noteq> None"
    | "\<not> (\<exists>d. sf_deadline f = Some d \<and> d \<le> now)" "sf_node f = None" "status (ex k) (sf_task f) = None"
    | st where "\<not> (\<exists>d. sf_deadline f = Some d \<and> d \<le> now)" "sf_node f = None" "status (ex k) (sf_task f) = Some st"
    by (cases "status (ex k) (sf_task f)") auto
  then show ?thesis
  proof cases
    case 1
    then show ?thesis using assms sleep_poll_cases(1) [OF 1, of k] sleep_drop_inv [of k f] by auto
  next
    case 2
    then show ?thesis using assms sleep_poll_cases(2) [OF 2] by simp
  next
    case (3 st)
    then show ?thesis using assms sleep_poll_cases(3) [OF 3] kwait_inv_add [OF assms(1)] by (auto simp: Let_def)
  qed
qed

text \<open>
  C32: the tick wakes exactly the sleepers whose deadline has passed, in order of deadline, and leaves the
  others in the list; the list stays ordered.
\<close>

theorem process_sleepers_exact:
  assumes "kwait_inv k"
  shows "process_sleepers now k =
      map_option (\<lambda>e. k\<lparr> ex := e, sleepers := filter (\<lambda>n. \<not> expired now n) (sleepers k) \<rparr>)
        (wake_list (ex k) (map sn_task (filter (expired now) (sleepers k))))
    \<and> sorted_wrt sleep_le (filter (expired now) (sleepers k))
    \<and> (case process_sleepers now k of Some k' \<Rightarrow> kwait_inv k' | None \<Rightarrow> True)"
proof -
  have p: "process_sleepers now k =
      map_option (\<lambda>e. k\<lparr> ex := e, sleepers := filter (\<lambda>n. \<not> expired now n) (sleepers k) \<rparr>)
        (wake_list (ex k) (map sn_task (filter (expired now) (sleepers k))))"
    using pop_expired_filter [of "sleepers k" now] assms
    by (cases "wake_list (ex k) (map sn_task (filter (expired now) (sleepers k)))")
      (simp_all add: process_sleepers_def kwait_inv_def)
  have i: "kwait_inv (k\<lparr> ex := e, sleepers := filter (\<lambda>n. \<not> expired now n) (sleepers k) \<rparr>)" for e
    using assms by (auto simp: kwait_inv_def sleep_sorted_def sorted_wrt_filter distinct_map_filter)
  have s: "sorted_wrt sleep_le (filter (expired now) (sleepers k))"
    using assms by (simp add: kwait_inv_def sleep_sorted_def sorted_wrt_filter)
  show ?thesis using i s by (simp add: p split: option.split)
qed

definition kwait2 :: kwait where
  "kwait2 = \<lparr> ex = set_state (set_state (exec_start 2) 7 Blocked) 8 Blocked,
     sleepers = [\<lparr> sn_arc = 5, sn_deadline = Some (TimeVal 3 0), sn_task = 7 \<rparr>,
                 \<lparr> sn_arc = 4, sn_deadline = Some (TimeVal 9 0), sn_task = 8 \<rparr>], next_arc = 6 \<rparr>"

lemma kwait2_inv: "kwait_inv kwait2"
  by (simp add: kwait_inv_def kwait2_def sleep_sorted_def sleep_le_alt less_time_val_def)

theorem process_sleepers_exact_witness:
  "map_option (\<lambda>k. map sn_task (sleepers k)) (process_sleepers (TimeVal 4 0) kwait2) = Some [8]"
proof -
  have "expired (TimeVal 4 0) = (\<lambda>n. case sn_deadline n of Some d \<Rightarrow> d \<le> TimeVal 4 0 | None \<Rightarrow> False)"
    by (auto simp: expired_def)
  then show ?thesis
    using process_sleepers_exact [OF kwait2_inv, of "TimeVal 4 0"]
    by (simp add: kwait2_def less_eq_time_val_def wakeup_task_def Let_def)
qed

text \<open>
  Polling a sleep future.  It registers one node with its deadline and marks the task \<open>Blocking\<close> when
  the deadline has not passed, the future is not registered and the task exists; otherwise it is
  ready.  Dropping the future afterwards leaves exactly the other sleepers, in the same order.
\<close>

lemma sleep_poll_exact:
  assumes "kwait_inv k"
  shows "case sleep_poll now f k of (r, f', k') \<Rightarrow>
      kwait_inv k'
    \<and> (r = Pending \<longleftrightarrow> sf_node f = None \<and> status (ex k) (sf_task f) \<noteq> None
         \<and> (\<forall>d. sf_deadline f = Some d \<longrightarrow> now < d))
    \<and> (r = Pending \<longrightarrow> status (ex k') (sf_task f) = Some Blocking
         \<and> (\<exists>n\<in>set (sleepers k'). sf_node f' = Some n \<and> sn_deadline n = sf_deadline f \<and> sn_task n = sf_task f))
    \<and> sleepers (sleep_drop f' k') = filter (\<lambda>n. sf_node f \<noteq> None \<longrightarrow> sn_arc n \<noteq> sn_arc (the (sf_node f))) (sleepers k)"
proof -
  have d: "distinct (map sn_arc (sleepers k))" using assms by (simp add: kwait_inv_def)
  obtain r f' k' where p: "sleep_poll now f k = (r, f', k')" by (metis prod_cases3)
  note inv = sleep_poll_inv [OF assms p]
  have ro: "remove_sleeper m ns = arc_remove sn_arc m ns" for m ns by (simp add: remove_sleeper_def)
  consider "(\<exists>d. sf_deadline f = Some d \<and> d \<le> now) \<or> sf_node f \<noteq> None"
    | "\<not> (\<exists>d. sf_deadline f = Some d \<and> d \<le> now)" "sf_node f = None" "status (ex k) (sf_task f) = None"
    | st where "\<not> (\<exists>d. sf_deadline f = Some d \<and> d \<le> now)" "sf_node f = None" "status (ex k) (sf_task f) = Some st"
    by (cases "status (ex k) (sf_task f)") auto
  then show ?thesis
  proof cases
    case 1
    have "sleepers (sleep_drop f k) = filter (\<lambda>n. sf_node f \<noteq> None \<longrightarrow> sn_arc n \<noteq> sn_arc (the (sf_node f))) (sleepers k)"
      using d by (cases "sf_node f") (simp_all add: sleep_drop_def ro arc_remove_filter)
    moreover have "sleep_drop (f\<lparr> sf_node := None \<rparr>) k2 = k2" for k2 by (simp add: sleep_drop_def)
    ultimately show ?thesis using 1 inv sleep_poll_cases(1) [OF 1, of k] p by auto
  next
    case 2
    then show ?thesis using inv sleep_poll_cases(2) [OF 2] p by (auto simp: sleep_drop_def)
  next
    case (3 st)
    let ?n = "\<lparr> sn_arc = next_arc k, sn_deadline = sf_deadline f, sn_task = sf_task f \<rparr>"
    have fr: "sn_arc ?n \<notin> sn_arc ` set (sleepers k)" using kwait_inv_fresh [OF assms] by simp
    have "snd (remove_sleeper ?n (add_sleeper ?n (sleepers k))) = sleepers k"
      using filter_add_sleeper [OF fr] sleepl.nodes_rem [OF sleepl.distinct_ins [OF d fr], of ?n] by simp
    then show ?thesis using 3 inv sleep_poll_cases(3) [OF 3] p by (auto simp: sleep_drop_def Let_def not_le)
  qed
qed

lemma sleep_poll_exact_witness:
  "fst (sleep_poll (TimeVal 4 0) (sleep_until 2 (Some (TimeVal 5 0))) kwait2) = Pending"
  using sleep_poll_exact [OF kwait2_inv, where now = "TimeVal 4 0" and f = "sleep_until 2 (Some (TimeVal 5 0))"]
  by (auto simp: sleep_until_def kwait2_def less_time_val_def exec_start_def spawn_task_def create_task_def queue_task_def split: prod.splits)

end
