(* ===== verification/Wait_Queue.thy ===== *)
theory Wait_Queue
  imports Sleep_List
begin

text \<open>
  The wait queue (\<open>os/src/sync/waitqueue.rs\<close>): a list of wakers in order of arrival, and the future that
  waits for a condition.  The condition is evaluated by the caller; its value at the poll is an argument.
\<close>

record wait_node =
  wn_arc :: nat
  wn_task :: nat

definition add_waiter :: "wait_node \<Rightarrow> wait_node list \<Rightarrow> wait_node list" where
  "add_waiter n ns = ns @ [n]"

definition remove_waiter :: "wait_node \<Rightarrow> wait_node list \<Rightarrow> wait_node option \<times> wait_node list" where
  "remove_waiter n ns = arc_remove wn_arc n ns"

definition notify_one :: "exec \<Rightarrow> wait_node list \<Rightarrow> (bool \<times> exec \<times> wait_node list) option" where
  "notify_one e ns =
     (case ns of
        n # ns' \<Rightarrow> do { e' \<leftarrow> wakeup_task e (wn_task n); Some (True, e', ns') }
      | [] \<Rightarrow> Some (False, e, []))"

fun notify_n :: "exec \<Rightarrow> nat \<Rightarrow> wait_node list \<Rightarrow> (nat \<times> exec \<times> wait_node list) option" where
  "notify_n e 0 ns = Some (0, e, ns)"
| "notify_n e (Suc i) [] = Some (0, e, [])"
| "notify_n e (Suc i) (n # ns) = do {
     e' \<leftarrow> wakeup_task e (wn_task n);
     (woken, e'', ns') \<leftarrow> notify_n e' i ns;
     Some (woken + 1, e'', ns') }"

text \<open>The future holds the node it registered, if any.\<close>

definition wait_until_poll ::
  "bool \<Rightarrow> nat \<Rightarrow> wait_node option \<Rightarrow> kwait \<Rightarrow> wait_node list \<Rightarrow> unit poll \<times> wait_node option \<times> kwait \<times> wait_node list" where
  "wait_until_poll cond t reg k ns =
     (if cond then
        (case reg of
           Some n \<Rightarrow> (Ready (), None, k, snd (remove_waiter n ns))
         | None \<Rightarrow> (Ready (), None, k, ns))
      else
        (case reg of
           None \<Rightarrow>
             (let n = \<lparr> wn_arc = next_arc k, wn_task = t \<rparr>
              in (Pending, Some n, k\<lparr> ex := set_state (ex k) t Blocking, next_arc := next_arc k + 1 \<rparr>, add_waiter n ns))
         | Some n \<Rightarrow> (Pending, Some n, k, ns)))"

definition wait_until_drop :: "wait_node option \<Rightarrow> wait_node list \<Rightarrow> wait_node list" where
  "wait_until_drop reg ns = (case reg of Some n \<Rightarrow> snd (remove_waiter n ns) | None \<Rightarrow> ns)"

interpretation waitq: fifo_registry add_waiter "\<lambda>n ns. snd (remove_waiter n ns)" "\<lambda>ns. ns" wn_arc
  by unfold_locales (simp_all add: add_waiter_def remove_waiter_def arc_remove_filter)

text \<open>The waiters registered with a queue have addresses that were handed out.\<close>

definition waitq_inv :: "nat \<Rightarrow> wait_node list \<Rightarrow> bool" where
  "waitq_inv next ns \<longleftrightarrow> distinct (map wn_arc ns) \<and> (\<forall>n\<in>set ns. wn_arc n < next)"

lemma waitq_fresh: "waitq_inv (next_arc k) ns \<Longrightarrow> next_arc k \<notin> wn_arc ` set ns"
  by (auto simp: waitq_inv_def)

lemma waitq_remove_add:
  assumes "waitq_inv next ns"
  shows "snd (remove_waiter \<lparr> wn_arc = next, wn_task = t \<rparr> (add_waiter \<lparr> wn_arc = next, wn_task = t \<rparr> ns)) = ns"
  using waitq.rem_ins_exact [of ns "\<lparr> wn_arc = next, wn_task = t \<rparr>"] assms
  by (auto simp: waitq_inv_def)

lemma notify_one_prefix: "notify_one e ns = Some (b, e', ns') \<Longrightarrow> b = (ns \<noteq> []) \<and> ns' = tl ns"
  by (auto simp: notify_one_def bind_eq_Some_conv split: list.splits)

lemma notify_n_prefix:
  "notify_n e i ns = Some (w, e', ns') \<Longrightarrow>
     w = min i (length ns) \<and> ns' = drop i ns \<and> wake_list e (map wn_task (take i ns)) = Some e'"
proof (induction e i ns arbitrary: w rule: notify_n.induct)
  case (3 e i n ns)
  then obtain e1 w1 where "wakeup_task e (wn_task n) = Some e1" "notify_n e1 i ns = Some (w1, e', ns')" "w = w1 + 1"
    by (auto simp: bind_eq_Some_conv)
  then show ?case using 3(1) by simp
qed auto

end
