(* ===== verification/Kmutex.thy ===== *)
theory Kmutex
  imports Wait_Queue
begin

text \<open>
  The sleeping mutex (\<open>os/src/sync/mutex.rs\<close>).  \<open>owner_task_id\<close> is 0 when the mutex is free.  A
  \<open>MutexGuard\<close> is both the guard and the future that acquires it; it holds the lock exactly when its data
  pointer is set, which is what its \<open>bool\<close> says here.  \<open>compare_exchange_weak\<close> may fail spuriously: the
  number of spurious failures before the exchange is decided is an argument of the poll.
\<close>

record kmutex =
  owner_task_id :: nat
  mwq :: "wait_node list"

definition mutex_new :: kmutex where
  "mutex_new = \<lparr> owner_task_id = 0, mwq = [] \<rparr>"

definition is_locked :: "kmutex \<Rightarrow> bool" where
  "is_locked m \<longleftrightarrow> owner_task_id m \<noteq> 0"

text \<open>\<open>current_task_id\<close> panics without a current task; the variant for early boot answers 1.\<close>

definition current_task_id :: "exec \<Rightarrow> nat option" where
  "current_task_id e = cur_task e"

definition current_task_id_may_uninit :: "exec \<Rightarrow> nat" where
  "current_task_id_may_uninit e = (case cur_task e of Some t \<Rightarrow> t | None \<Rightarrow> 1)"

definition try_lock :: "exec \<Rightarrow> kmutex \<Rightarrow> (bool \<times> kmutex) option" where
  "try_lock e m = do {
     current_id \<leftarrow> current_task_id e;
     ensure (current_id \<noteq> 0);
     (if owner_task_id m = 0 then Some (True, m\<lparr> owner_task_id := current_id \<rparr>) else Some (False, m)) }"

definition force_unlock :: "kwait \<Rightarrow> kmutex \<Rightarrow> (kwait \<times> kmutex) option" where
  "force_unlock k m = do {
     let releaser_id = current_task_id_may_uninit (ex k);
     let previous_owner_id = owner_task_id m;
     let m = m\<lparr> owner_task_id := 0 \<rparr>;
     ensure (\<not> (previous_owner_id \<noteq> 0 \<and> previous_owner_id \<noteq> releaser_id));
     ensure (\<not> (releaser_id = 0 \<and> previous_owner_id \<noteq> 0));
     (if previous_owner_id \<noteq> 0 then do {
        (_, e, q) \<leftarrow> notify_one (ex k) (mwq m);
        Some (k\<lparr> ex := e \<rparr>, m\<lparr> mwq := q \<rparr>) }
      else Some (k, m)) }"

definition guard_drop :: "bool \<Rightarrow> kwait \<Rightarrow> kmutex \<Rightarrow> (kwait \<times> kmutex) option" where
  "guard_drop held k m = (if held then force_unlock k m else Some (k, m))"

text \<open>
  The acquisition loop.  A spurious failure leaves the owner 0, so the wait condition holds at once and the
  loop goes round; a real failure polls a local \<open>WaitUntilFuture\<close>, which registers the task, and returns
  \<open>Pending\<close>, which drops that future.
\<close>

fun mutex_acquire :: "nat \<Rightarrow> nat \<Rightarrow> kwait \<Rightarrow> kmutex \<Rightarrow> (unit poll \<times> kwait \<times> kmutex) option" where
  "mutex_acquire spurious current_id k m =
     (if owner_task_id m = 0 then
        (case spurious of
           0 \<Rightarrow> Some (Ready (), k, m\<lparr> owner_task_id := current_id \<rparr>)
         | Suc s \<Rightarrow> do {
             ensure (0 \<noteq> current_id);
             let (r, reg, k', q) = wait_until_poll True current_id None k (mwq m);
             mutex_acquire s current_id k' (m\<lparr> mwq := wait_until_drop reg q \<rparr>) })
      else do {
        ensure (owner_task_id m \<noteq> current_id);
        let (r, reg, k', q) = wait_until_poll False current_id None k (mwq m);
        Some (Pending, k', m\<lparr> mwq := wait_until_drop reg q \<rparr>) })"

declare mutex_acquire.simps [simp del]

definition mutex_poll :: "nat \<Rightarrow> bool \<Rightarrow> kwait \<Rightarrow> kmutex \<Rightarrow> (bool poll \<times> bool \<times> kwait \<times> kmutex) option" where
  "mutex_poll spurious held k m =
     (if held then Some (Ready True, False, k, m)
      else do {
        let current_id = current_task_id_may_uninit (ex k);
        ensure (current_id \<noteq> 0);
        (r, k, m) \<leftarrow> mutex_acquire spurious current_id k m;
        (case r of
           Ready _ \<Rightarrow> Some (Ready True, False, k, m)
         | Pending \<Rightarrow> Some (Pending, False, k, m)) })"

subsection \<open>Runs\<close>

text \<open>
  A state is the kernel, the mutex and the tasks that hold guards.  Between the operations on the mutex
  the rest of the kernel may do anything.
\<close>

inductive mutex_step :: "kwait \<times> kmutex \<times> nat list \<Rightarrow> kwait \<times> kmutex \<times> nat list \<Rightarrow> bool" where
  try_ok: "try_lock (ex k) m = Some (True, m') \<Longrightarrow> cur_task (ex k) = Some t \<Longrightarrow>
    mutex_step (k, m, hs) (k, m', t # hs)"
| try_busy: "try_lock (ex k) m = Some (False, m') \<Longrightarrow> mutex_step (k, m, hs) (k, m', hs)"
| poll_ready: "mutex_poll s False k m = Some (Ready True, False, k', m') \<Longrightarrow>
    mutex_step (k, m, hs) (k', m', current_task_id_may_uninit (ex k) # hs)"
| poll_pending: "mutex_poll s False k m = Some (Pending, False, k', m') \<Longrightarrow> mutex_step (k, m, hs) (k', m', hs)"
| release: "h \<in> set hs \<Longrightarrow> guard_drop True k m = Some (k', m') \<Longrightarrow> mutex_step (k, m, hs) (k', m', remove1 h hs)"
| elsewhere: "mutex_step (k, m, hs) (k', m, hs)"

definition mutex_inv :: "kmutex \<Rightarrow> nat list \<Rightarrow> bool" where
  "mutex_inv m hs \<longleftrightarrow> hs = (if owner_task_id m = 0 then [] else [owner_task_id m]) \<and> mwq m = []"

lemma mutex_acquire_free:
  assumes "owner_task_id m = 0" "current_id \<noteq> 0"
  shows "mutex_acquire s current_id k m = Some (Ready (), k, m\<lparr> owner_task_id := current_id \<rparr>)"
  using assms
proof (induction s arbitrary: m)
  case 0
  then show ?case by (simp add: mutex_acquire.simps)
next
  case (Suc s)
  have "m\<lparr> mwq := wait_until_drop None (mwq m) \<rparr> = m" by (simp add: wait_until_drop_def)
  then show ?case using Suc by (subst mutex_acquire.simps) (simp add: wait_until_poll_def)
qed

lemma mutex_acquire_busy:
  assumes "owner_task_id m \<noteq> 0" "owner_task_id m \<noteq> current_id" "waitq_inv (next_arc k) (mwq m)"
  shows "mutex_acquire s current_id k m =
    Some (Pending, k\<lparr> ex := set_state (ex k) current_id Blocking, next_arc := next_arc k + 1 \<rparr>, m)"
  using assms waitq_remove_add [OF assms(3)]
  by (subst mutex_acquire.simps) (simp add: wait_until_poll_def wait_until_drop_def Let_def)

lemma mutex_poll_cases:
  assumes p: "mutex_poll s False k m = Some (r, held, k', m')" and q: "mwq m = []"
  defines "c \<equiv> current_task_id_may_uninit (ex k)"
  shows "(owner_task_id m = 0 \<and> r = Ready True \<and> c \<noteq> 0 \<and> k' = k \<and> m' = m\<lparr> owner_task_id := c \<rparr>)
    \<or> (owner_task_id m \<noteq> 0 \<and> r = Pending \<and> m' = m)"
proof -
  have c: "c \<noteq> 0" using p by (auto simp: mutex_poll_def c_def ensure_def Let_def split: if_splits)
  show ?thesis
  proof (cases "owner_task_id m = 0")
    case True
    then show ?thesis
      using p c mutex_acquire_free [OF True c, of s k] by (simp add: mutex_poll_def c_def [symmetric])
  next
    case False
    then have "owner_task_id m \<noteq> c"
      using p c by (auto simp: mutex_poll_def c_def [symmetric] mutex_acquire.simps ensure_def)
    then show ?thesis
      using p c False q mutex_acquire_busy [OF False, of c k s]
      by (simp add: mutex_poll_def c_def [symmetric] waitq_inv_def)
  qed
qed

lemma force_unlock_empty:
  assumes "mwq m = []"
  shows "force_unlock k m =
    (if owner_task_id m = 0 \<or> owner_task_id m = current_task_id_may_uninit (ex k)
     then Some (k, m\<lparr> owner_task_id := 0 \<rparr>) else None)"
proof -
  have "m\<lparr> owner_task_id := 0, mwq := [] \<rparr> = m\<lparr> owner_task_id := 0 \<rparr>" using assms by simp
  then show ?thesis using assms by (auto simp: force_unlock_def notify_one_def Let_def ensure_def)
qed

lemma mutex_step_inv:
  assumes "mutex_step (k, m, hs) (k', m', hs')" "mutex_inv m hs"
  shows "mutex_inv m' hs'"
  using assms(1)
proof cases
  case (try_ok t)
  then show ?thesis using assms(2)
    by (auto simp: try_lock_def current_task_id_def mutex_inv_def ensure_def split: if_splits)
next
  case try_busy
  then show ?thesis using assms(2)
    by (auto simp: try_lock_def current_task_id_def mutex_inv_def ensure_def bind_eq_Some_conv split: if_splits)
next
  case (poll_ready s)
  then show ?thesis using assms(2) mutex_poll_cases [OF poll_ready(2)] by (auto simp: mutex_inv_def)
next
  case (poll_pending s)
  then show ?thesis using assms(2) mutex_poll_cases [OF poll_pending(2)] by (auto simp: mutex_inv_def)
next
  case (release h)
  then show ?thesis using assms(2)
    by (auto simp: guard_drop_def force_unlock_empty mutex_inv_def split: if_splits)
next
  case elsewhere
  then show ?thesis using assms(2) by simp
qed

lemma mutex_steps_inv:
  "mutex_step\<^sup>*\<^sup>* s s' \<Longrightarrow> mutex_inv (fst (snd s)) (snd (snd s)) \<Longrightarrow> mutex_inv (fst (snd s')) (snd (snd s'))"
proof (induction rule: rtranclp_induct)
  case (step y z)
  then show ?case by (cases y; cases z) (auto intro: mutex_step_inv)
qed

lemma mutex_new_inv: "mutex_inv mutex_new []"
  by (simp add: mutex_inv_def mutex_new_def)

lemmas mutex_reachable_inv = mutex_steps_inv [where s = "(k0, mutex_new, [])" for k0, simplified, OF _ mutex_new_inv]

text \<open>
  C22: mutual exclusion.  Along every run of lock attempts, polls and guard drops by any tasks, at most one
  guard holds the mutex; the recorded owner is the task that acquired it; a lock attempt succeeds exactly
  when no guard holds it; and dropping the guard panics exactly when another task drops it.
\<close>

theorem mutex_exclusive:
  assumes "mutex_step\<^sup>*\<^sup>* (k0, mutex_new, []) (k, m, hs)" "cur_task (ex k) = Some t" "t \<noteq> 0"
  shows "length hs \<le> 1 \<and> (\<forall>h\<in>set hs. owner_task_id m = h)
    \<and> (\<exists>m'. try_lock (ex k) m = Some (hs = [], m'))
    \<and> (hs \<noteq> [] \<longrightarrow> (guard_drop True k m = None \<longleftrightarrow> hs \<noteq> [t]))"
proof -
  have inv: "mutex_inv m hs" using mutex_reachable_inv [OF assms(1)] by simp
  then show ?thesis using assms(2,3)
    by (auto simp: mutex_inv_def try_lock_def current_task_id_def guard_drop_def force_unlock_empty
        current_task_id_may_uninit_def split: if_splits)
qed

definition kwait3 :: kwait where
  "kwait3 = kwait2\<lparr> ex := (ex kwait2)\<lparr> cur_task := Some 3 \<rparr> \<rparr>"

lemma mutex_held3:
  "mutex_step\<^sup>*\<^sup>* (kwait3, mutex_new, []) (kwait3\<lparr> ex := (ex kwait3)\<lparr> cur_task := Some 4 \<rparr> \<rparr>,
    mutex_new\<lparr> owner_task_id := 3 \<rparr>, [3])"
proof -
  have "mutex_step (kwait3, mutex_new, []) (kwait3, mutex_new\<lparr> owner_task_id := 3 \<rparr>, [3])"
    by (rule mutex_step.try_ok) (simp_all add: try_lock_def current_task_id_def kwait3_def mutex_new_def)
  then show ?thesis using mutex_step.elsewhere by (meson converse_rtranclp_into_rtranclp r_into_rtranclp)
qed

theorem mutex_exclusive_witness:
  "guard_drop True (kwait3\<lparr> ex := (ex kwait3)\<lparr> cur_task := Some 4 \<rparr> \<rparr>) (mutex_new\<lparr> owner_task_id := 3 \<rparr>) = None"
  using mutex_exclusive [OF mutex_held3, of 4] by simp

text \<open>
  C23: a task that waits for the mutex is never woken by it.  The future that registers the task is local
  to the poll and dropped when the poll returns \<open>Pending\<close>: the task is marked \<open>Blocking\<close>, the wait queue is
  left empty, and the owner's unlock wakes nobody.
\<close>

theorem mutex_waiter_lost:
  assumes "mutex_step\<^sup>*\<^sup>* (k0, mutex_new, []) (k, m, hs)" "cur_task (ex k) = Some t" "t \<noteq> 0"
    "owner_task_id m \<noteq> 0" "owner_task_id m \<noteq> t"
  shows "mutex_poll s False k m =
      Some (Pending, False, k\<lparr> ex := set_state (ex k) t Blocking, next_arc := next_arc k + 1 \<rparr>, m)
    \<and> mwq m = []
    \<and> (\<forall>k2. cur_task (ex k2) = Some (owner_task_id m) \<longrightarrow>
         guard_drop True k2 m = Some (k2, m\<lparr> owner_task_id := 0 \<rparr>))"
proof -
  have q: "mwq m = []" using mutex_reachable_inv [OF assms(1)] by (simp add: mutex_inv_def)
  then have "waitq_inv (next_arc k) (mwq m)" by (simp add: waitq_inv_def)
  from mutex_acquire_busy [OF assms(4,5) this, of s] show ?thesis
    using q assms(2,3)
    by (simp add: mutex_poll_def current_task_id_may_uninit_def guard_drop_def force_unlock_empty)
qed

theorem mutex_waiter_lost_witness:
  "\<exists>k'. mutex_poll 0 False (kwait3\<lparr> ex := (ex kwait3)\<lparr> cur_task := Some 4 \<rparr> \<rparr>) (mutex_new\<lparr> owner_task_id := 3 \<rparr>)
     = Some (Pending, False, k', mutex_new\<lparr> owner_task_id := 3 \<rparr>) \<and> status (ex k') 4 = Some Blocking"
  using mutex_waiter_lost [OF mutex_held3, of 4 0] by simp

end
