(* ===== verification/Futex.thy ===== *)
theory Futex
  imports Wait_Queue Errno "HOL-Library.Product_Lexorder" "HOL-Library.Sublist"
begin

text \<open>
  Futexes (\<open>os/src/sync/futex.rs\<close> and \<open>sys_futex\<close> in \<open>os/src/syscall/process.rs\<close>): the queues of waiters
  per user address, the waiting future, and the system call.  The accesses to user memory the call makes
  are fields of \<open>futex_env\<close>: the result of faulting the page in and of reading the word or the time-out.
\<close>

record futex_node =
  fn_arc :: nat
  fn_task :: nat
  wait_bitmask :: u32

type_synonym futex_key = "usize \<times> usize"
type_synonym futex_system = "(futex_key, futex_node list) btree"

definition drain_waiters :: "nat \<Rightarrow> futex_node list \<Rightarrow> futex_node list \<times> futex_node list" where
  "drain_waiters n ws =
     (if n = 0 then ([], ws)
      else let num_to_drain = min (length ws) n
        in if num_to_drain = 0 then ([], ws) else (take num_to_drain ws, drop num_to_drain ws))"

definition enqueue_waiters :: "futex_node list \<Rightarrow> futex_node list \<Rightarrow> futex_node list" where
  "enqueue_waiters new_waiters ws = ws @ new_waiters"

definition futex_add_waiter :: "futex_node \<Rightarrow> futex_node list \<Rightarrow> futex_node list" where
  "futex_add_waiter n ws = ws @ [n]"

definition remove_specific_waiter :: "futex_node \<Rightarrow> futex_node list \<Rightarrow> futex_node list" where
  "remove_specific_waiter n ws = filter (\<lambda>m. fn_arc m \<noteq> fn_arc n) ws"

fun wake_matching_loop ::
  "exec \<Rightarrow> nat \<Rightarrow> nat \<Rightarrow> u32 \<Rightarrow> futex_node list \<Rightarrow> (nat \<times> exec \<times> futex_node list) option" where
  "wake_matching_loop e woken num msk [] = Some (woken, e, [])"
| "wake_matching_loop e woken num msk (n # ns) =
     (if woken < num \<and> wait_bitmask n AND msk \<noteq> 0 then do {
        e' \<leftarrow> wakeup_task e (fn_task n);
        wake_matching_loop e' (woken + 1) num msk ns }
      else do {
        (w, e', rest) \<leftarrow> wake_matching_loop e woken num msk ns;
        Some (w, e', n # rest) })"

definition wake_matching_waiters ::
  "exec \<Rightarrow> nat \<Rightarrow> u32 \<Rightarrow> futex_node list \<Rightarrow> (nat \<times> exec \<times> futex_node list) option" where
  "wake_matching_waiters e num msk ws = wake_matching_loop e 0 num msk ws"

subsection \<open>The waiting future\<close>

record futex_future =
  expected_val :: u32
  ff_bitmask :: u32
  timeout_sleep :: "sleep_future option"
  futex_key :: futex_key
  ff_node :: "futex_node option"

definition futex_future_new :: "nat \<Rightarrow> usize \<Rightarrow> usize \<Rightarrow> u32 \<Rightarrow> u32 \<Rightarrow> time_val option \<Rightarrow> futex_future" where
  "futex_future_new cur token uaddr expected msk dl =
     \<lparr> expected_val = expected, ff_bitmask = msk,
       timeout_sleep = map_option (\<lambda>d. sleep_until cur (Some d)) dl,
       futex_key = (token, uaddr), ff_node = None \<rparr>"

definition futex_cleanup :: "futex_future \<Rightarrow> futex_system \<Rightarrow> futex_future \<times> futex_system" where
  "futex_cleanup f fs =
     (case ff_node f of
        None \<Rightarrow> (f, fs)
      | Some n \<Rightarrow>
          (f\<lparr> ff_node := None \<rparr>,
           case bt_get fs (futex_key f) of
             None \<Rightarrow> fs
           | Some wq \<Rightarrow>
               (let wq' = remove_specific_waiter n wq
                in if wq' = [] then bt_remove (futex_key f) fs else bt_insert (futex_key f) wq' fs)))"

definition futex_register :: "nat \<Rightarrow> futex_future \<Rightarrow> kwait \<Rightarrow> futex_system \<Rightarrow> futex_future \<times> kwait \<times> futex_system" where
  "futex_register cur f k fs = (
     let n = \<lparr> fn_arc = next_arc k, fn_task = cur, wait_bitmask = ff_bitmask f \<rparr>;
         wq = (case bt_get fs (futex_key f) of Some q \<Rightarrow> q | None \<Rightarrow> [])
     in (f\<lparr> ff_node := Some n \<rparr>,
         k\<lparr> ex := set_state (ex k) cur Blocking, next_arc := next_arc k + 1 \<rparr>,
         bt_insert (futex_key f) (futex_add_waiter n wq) fs))"

text \<open>\<open>user_val\<close> is what \<open>get_target_ref\<close> reads at the futex address; \<open>cur\<close> is the current task.\<close>

definition futex_poll ::
  "nat \<Rightarrow> time_val \<Rightarrow> sys_err_no + u32 \<Rightarrow> futex_future \<Rightarrow> kwait \<Rightarrow> futex_system
     \<Rightarrow> (sys_err_no + unit) poll \<times> futex_future \<times> kwait \<times> futex_system" where
  "futex_poll cur now user_val f k fs =
     (case user_val of
        Err e \<Rightarrow> (Ready (Err e), f, k, fs)
      | Ok v \<Rightarrow>
          (if v \<noteq> expected_val f \<and> ff_node f \<noteq> None then
             (let (f', fs') = futex_cleanup f fs in (Ready (Ok ()), f', k, fs'))
           else if v \<noteq> expected_val f then (Ready (Err EAGAIN), f, k, fs)
           else
             (let (timed_out, f1, k1) =
                (case timeout_sleep f of
                   None \<Rightarrow> (False, f, k)
                 | Some s \<Rightarrow> (case sleep_poll now s k of
                     (r, s', k') \<Rightarrow> (r = Ready (), f\<lparr> timeout_sleep := Some s' \<rparr>, k')))
              in if timed_out then
                   (let (f2, fs') = futex_cleanup f1 fs in (Ready (Err ETIMEDOUT), f2, k1, fs'))
                 else if ff_node f1 = None then
                   (case status (ex k1) cur of
                      None \<Rightarrow> (Ready (Err ESRCH), f1, k1, fs)
                    | Some _ \<Rightarrow> (Pending, futex_register cur f1 k1 fs))
                 else (Ready (Err ERESTART), f1, k1, fs))))"

definition futex_drop :: "futex_future \<Rightarrow> kwait \<Rightarrow> futex_system \<Rightarrow> kwait \<times> futex_system" where
  "futex_drop f k fs =
     (case timeout_sleep f of None \<Rightarrow> k | Some s \<Rightarrow> sleep_drop s k, snd (futex_cleanup f fs))"

subsection \<open>The system call\<close>

definition FUTEX_PRIVATE_FLAG :: u32 where "FUTEX_PRIVATE_FLAG = 128"
definition FUTEX_CLOCK_REALTIME :: u32 where "FUTEX_CLOCK_REALTIME = 256"
definition FUTEX_WAIT :: u32 where "FUTEX_WAIT = 0"
definition FUTEX_WAKE :: u32 where "FUTEX_WAKE = 1"
definition FUTEX_REQUEUE :: u32 where "FUTEX_REQUEUE = 3"
definition FUTEX_CMP_REQUEUE :: u32 where "FUTEX_CMP_REQUEUE = 4"
definition FUTEX_WAKE_OP :: u32 where "FUTEX_WAKE_OP = 5"
definition FUTEX_WAIT_BITSET :: u32 where "FUTEX_WAIT_BITSET = 9"
definition FUTEX_WAKE_BITSET :: u32 where "FUTEX_WAKE_BITSET = 10"

text \<open>
  A call ends with a value or becomes the waiting future.  \<open>FUTEX_WAKE_OP\<close> also writes the word at \<open>uaddr\<close>.
\<close>

datatype futex_outcome = Fdone "sys_err_no + nat" | Fwait futex_future

record futex_env =
  fe_token :: usize
  fe_cur :: nat
  fe_now :: time_val
  fe_lazy :: "usize \<Rightarrow> sys_err_no + unit"
  fe_read :: "usize \<Rightarrow> sys_err_no + u32"
  fe_timespec :: "usize \<Rightarrow> sys_err_no + user_time_spec"

record futex_state =
  fx_exec :: exec
  fx_sys :: futex_system
  fx_write :: "(usize \<times> u32) option"

definition bad_futex_addr :: "usize \<Rightarrow> bool" where
  "bad_futex_addr a \<longleftrightarrow> a = 0 \<or> a mod 4 \<noteq> 0"

definition futex_wake_key :: "nat \<Rightarrow> u32 \<Rightarrow> futex_key \<Rightarrow> exec \<Rightarrow> futex_system \<Rightarrow> (nat \<times> exec \<times> futex_system) option" where
  "futex_wake_key num msk key e fs =
     (case bt_get fs key of
        None \<Rightarrow> Some (0, e, fs)
      | Some q \<Rightarrow> do {
          (w, e', q') \<leftarrow> wake_matching_waiters e num msk q;
          Some (w, e', bt_insert key q' fs) })"

definition futex_wake :: "nat \<Rightarrow> u32 \<Rightarrow> futex_key \<Rightarrow> exec \<Rightarrow> futex_system \<Rightarrow> (nat \<times> exec \<times> futex_system) option" where
  "futex_wake num msk key e fs =
     (if num = 0 then Some (0, e, fs)
      else do {
        (w, e', fs') \<leftarrow> futex_wake_key num msk key e fs;
        Some (w, e', if bt_get fs' key = Some [] then bt_remove key fs' else fs') })"

definition futex_requeue ::
  "nat \<Rightarrow> nat \<Rightarrow> futex_key \<Rightarrow> futex_key \<Rightarrow> exec \<Rightarrow> futex_system \<Rightarrow> (nat \<times> exec \<times> futex_system) option" where
  "futex_requeue num_to_wake num_to_requeue key key2 e fs = do {
     (woken, e, fs) \<leftarrow> (if num_to_wake > 0 then futex_wake_key num_to_wake (- 1) key e fs else Some (0, e, fs));
     let (moved, fs) =
       (if num_to_requeue > 0 then
          (case bt_get fs key of
             None \<Rightarrow> ([], fs)
           | Some q \<Rightarrow> (let (d, rest) = drain_waiters num_to_requeue q
               in (d, if rest = [] then bt_remove key fs else bt_insert key rest fs)))
        else ([], fs));
     let fs = (if length moved > 0
       then bt_insert key2 (enqueue_waiters moved (case bt_get fs key2 of Some q \<Rightarrow> q | None \<Rightarrow> [])) fs
       else fs);
     Some (woken + length moved, e, fs) }"

definition wake_op_cmp :: "u32 \<Rightarrow> u32 \<Rightarrow> u32 \<Rightarrow> bool option" where
  "wake_op_cmp cmp_type old arg =
     (if cmp_type = 0 then Some (old = arg)
      else if cmp_type = 1 then Some (old \<noteq> arg)
      else if cmp_type = 2 then Some (old <s arg)
      else if cmp_type = 3 then Some (old \<le>s arg)
      else if cmp_type = 4 then Some (arg <s old)
      else if cmp_type = 5 then Some (arg \<le>s old)
      else None)"

definition wake_op_new :: "u32 \<Rightarrow> u32 \<Rightarrow> u32 \<Rightarrow> u32 option" where
  "wake_op_new op_type old arg =
     (if op_type = 0 then Some arg
      else if op_type = 1 then Some (old + arg)
      else if op_type = 2 then Some (old OR arg)
      else if op_type = 3 then Some (old AND NOT arg)
      else if op_type = 4 then Some (old XOR arg)
      else None)"

definition futex_wake_op ::
  "nat \<Rightarrow> nat \<Rightarrow> u32 \<Rightarrow> usize \<Rightarrow> sys_err_no + u32 \<Rightarrow> futex_key \<Rightarrow> futex_key \<Rightarrow> futex_state
     \<Rightarrow> ((sys_err_no + nat) \<times> futex_state) option" where
  "futex_wake_op num2 num1 op_encoded uaddr word key key2 s = (
     let op_type = drop_bit 28 op_encoded AND 15;
         cmp_type = drop_bit 24 op_encoded AND 15;
         op_arg = drop_bit 12 op_encoded AND 0xFFF;
         cmp_arg = op_encoded AND 0xFFF
     in case word of
          Err e \<Rightarrow> Some (Err e, s)
        | Ok old \<Rightarrow>
            (case wake_op_cmp cmp_type old cmp_arg of
               None \<Rightarrow> Some (Err EINVAL, s)
             | Some False \<Rightarrow> Some (Ok 0, s)
             | Some True \<Rightarrow>
                 (case wake_op_new op_type old op_arg of
                    None \<Rightarrow> Some (Err EINVAL, s)
                  | Some v \<Rightarrow> do {
                      (w1, e, fs) \<leftarrow> (if num1 > 0 then futex_wake_key num1 (- 1) key (fx_exec s) (fx_sys s)
                                       else Some (0, fx_exec s, fx_sys s));
                      (w2, e, fs) \<leftarrow> (if num2 > 0 then futex_wake_key num2 (- 1) key2 e fs else Some (0, e, fs));
                      Some (Ok (w1 + w2), \<lparr> fx_exec = e, fx_sys = fs, fx_write = Some (uaddr, v) \<rparr>) })))"

definition futex_bad_timespec :: "bool \<Rightarrow> user_time_spec \<Rightarrow> bool" where
  "futex_bad_timespec use_clock_realtime ts \<longleftrightarrow>
     ts_nsec ts <s 0 \<or> ts_nsec ts \<ge> 1000000000
     \<or> (use_clock_realtime \<and> ts_sec ts <s 0)
     \<or> (\<not> use_clock_realtime \<and> ts_sec ts <s 0 \<and> ((ts_sec ts = - 1 \<and> ts_nsec ts \<noteq> 0) \<or> ts_sec ts <s - 1))"

definition futex_wait_begin :: "futex_env \<Rightarrow> usize \<Rightarrow> u32 \<Rightarrow> u32 \<Rightarrow> bool \<Rightarrow> usize \<Rightarrow> futex_outcome" where
  "futex_wait_begin env uaddr expected msk use_clock_realtime timeout_ptr =
     (case fe_read env uaddr of
        Err e \<Rightarrow> Fdone (Err e)
      | Ok v \<Rightarrow>
          (if v \<noteq> expected then Fdone (Err EAGAIN)
           else if timeout_ptr = 0 \<or> (case fe_lazy env timeout_ptr of Err _ \<Rightarrow> True | Ok _ \<Rightarrow> False) then
             Fwait (futex_future_new (fe_cur env) (fe_token env) uaddr expected msk None)
           else (case fe_timespec env timeout_ptr of
               Err e \<Rightarrow> Fdone (Err e)
             | Ok ts \<Rightarrow>
                 (if futex_bad_timespec use_clock_realtime ts then Fdone (Err EINVAL)
                  else if ts_sec ts = 0 \<and> ts_nsec ts = 0 then Fdone (Ok 0)
                  else Fwait (futex_future_new (fe_cur env) (fe_token env) uaddr expected msk
                    (Some (add_timespec (fe_now env) ts)))))))"

definition futex_second_key :: "futex_env \<Rightarrow> usize \<Rightarrow> sys_err_no + futex_key" where
  "futex_second_key env uaddr2 =
     (if bad_futex_addr uaddr2 then Err EFAULT
      else case fe_lazy env uaddr2 of Err e \<Rightarrow> Err e | Ok _ \<Rightarrow> Ok (fe_token env, uaddr2))"

definition sys_futex ::
  "futex_env \<Rightarrow> usize \<Rightarrow> u32 \<Rightarrow> u32 \<Rightarrow> usize \<Rightarrow> usize \<Rightarrow> u32 \<Rightarrow> futex_state \<Rightarrow> (futex_outcome \<times> futex_state) option" where
  "sys_futex env uaddr futex_op_full val val2 uaddr2 val3 s =
     (case fe_lazy env uaddr of
        Err e \<Rightarrow> Some (Fdone (Err e), s)
      | Ok _ \<Rightarrow>
         (if bad_futex_addr uaddr then Some (Fdone (Err EFAULT), s)
          else let
            key = (fe_token env, uaddr);
            op_cmd = futex_op_full AND NOT (FUTEX_PRIVATE_FLAG OR FUTEX_CLOCK_REALTIME);
            use_clock_realtime = futex_op_full AND FUTEX_CLOCK_REALTIME \<noteq> 0
          in if op_cmd = FUTEX_REQUEUE then
               (case futex_second_key env uaddr2 of
                  Err e \<Rightarrow> Some (Fdone (Err e), s)
                | Ok key2 \<Rightarrow>
                    (if key = key2 then Some (Fdone (Err EINVAL), s)
                     else do {
                       (n, e, fs) \<leftarrow> futex_requeue (unat val) (unat val2) key key2 (fx_exec s) (fx_sys s);
                       Some (Fdone (Ok n), s\<lparr> fx_exec := e, fx_sys := fs \<rparr>) }))
             else if op_cmd = FUTEX_WAIT \<or> op_cmd = FUTEX_WAIT_BITSET then
               Some (futex_wait_begin env uaddr val (if op_cmd = FUTEX_WAIT_BITSET then val3 else - 1)
                 use_clock_realtime val2, s)
             else if op_cmd = FUTEX_WAKE \<or> op_cmd = FUTEX_WAKE_BITSET then do {
               (n, e, fs) \<leftarrow> futex_wake (unat val) (if op_cmd = FUTEX_WAKE_BITSET then val3 else - 1)
                 key (fx_exec s) (fx_sys s);
               Some (Fdone (Ok n), s\<lparr> fx_exec := e, fx_sys := fs \<rparr>) }
             else if op_cmd = FUTEX_CMP_REQUEUE then
               (case futex_second_key env uaddr2 of
                  Err e \<Rightarrow> Some (Fdone (Err e), s)
                | Ok key2 \<Rightarrow>
                    (if key = key2 then Some (Fdone (Err EINVAL), s)
                     else case fe_read env uaddr of
                       Err e \<Rightarrow> Some (Fdone (Err e), s)
                     | Ok v \<Rightarrow>
                         (if v \<noteq> val3 then Some (Fdone (Err EAGAIN), s)
                          else do {
                            (n, e, fs) \<leftarrow> futex_requeue (unat val) (unat val2) key key2 (fx_exec s) (fx_sys s);
                            Some (Fdone (Ok n), s\<lparr> fx_exec := e, fx_sys := fs \<rparr>) })))
             else if op_cmd = FUTEX_WAKE_OP then
               (case futex_second_key env uaddr2 of
                  Err e \<Rightarrow> Some (Fdone (Err e), s)
                | Ok key2 \<Rightarrow> do {
                    (r, s') \<leftarrow> futex_wake_op (unat val) (unat val2) val3 uaddr (fe_read env uaddr) key key2 s;
                    Some (Fdone r, s') })
             else Some (Fdone (Err ENOSYS), s)))"

subsection \<open>What the operations do\<close>

interpretation futexq: fifo_registry futex_add_waiter remove_specific_waiter "\<lambda>ns. ns" fn_arc
  by unfold_locales (simp_all add: futex_add_waiter_def remove_specific_waiter_def)

text \<open>The specification of a wake-up: the first \<open>n\<close> matching waiters, and the others in order.\<close>

fun wake_split :: "nat \<Rightarrow> u32 \<Rightarrow> futex_node list \<Rightarrow> futex_node list \<times> futex_node list" where
  "wake_split n msk [] = ([], [])"
| "wake_split n msk (w # ws) =
     (if 0 < n \<and> wait_bitmask w AND msk \<noteq> 0
      then (let (a, b) = wake_split (n - 1) msk ws in (w # a, b))
      else (let (a, b) = wake_split n msk ws in (a, w # b)))"

lemma wake_split_woken: "fst (wake_split n msk ws) = take n (filter (\<lambda>w. wait_bitmask w AND msk \<noteq> 0) ws)"
proof (induction n msk ws rule: wake_split.induct)
  case (2 n msk w ws)
  then show ?case by (cases n) (auto split: prod.splits simp: Let_def)
qed simp

lemma wake_split_mset: "mset (fst (wake_split n msk ws)) + mset (snd (wake_split n msk ws)) = mset ws"
  by (induction n msk ws rule: wake_split.induct) (auto split: prod.splits simp: Let_def)

lemma wake_split_all:
  "(\<forall>w\<in>set ws. wait_bitmask w AND msk \<noteq> 0) \<Longrightarrow> wake_split n msk ws = (take n ws, drop n ws)"
proof (induction n msk ws rule: wake_split.induct)
  case (2 n msk w ws)
  then show ?case by (cases n) auto
qed simp

lemma wake_matching_loop_split:
  "wake_matching_loop e woken num msk ws =
     map_option (\<lambda>e'. (woken + length (fst (wake_split (num - woken) msk ws)), e', snd (wake_split (num - woken) msk ws)))
       (wake_list e (map fn_task (fst (wake_split (num - woken) msk ws))))"
proof (induction e woken num msk ws rule: wake_matching_loop.induct)
  case (2 e woken num msk n ns)
  show ?case
  proof (cases "woken < num \<and> wait_bitmask n AND msk \<noteq> 0")
    case True
    have ws: "wake_split (num - woken) msk (n # ns) =
      (n # fst (wake_split (num - (woken + 1)) msk ns), snd (wake_split (num - (woken + 1)) msk ns))"
      using True by (simp add: case_prod_beta)
    show ?thesis
    proof (cases "wakeup_task e (fn_task n)")
      case None
      then show ?thesis using True unfolding ws by simp
    next
      case (Some e1)
      from 2(1) [OF True, of e1] show ?thesis
        using True Some unfolding ws by (cases "wake_list e1 (map fn_task (fst (wake_split (num - (woken + 1)) msk ns)))") auto
    qed
  next
    case False
    then have ws: "wake_split (num - woken) msk (n # ns) =
      (fst (wake_split (num - woken) msk ns), n # snd (wake_split (num - woken) msk ns))"
      by (auto simp: case_prod_beta)
    show ?thesis
      using False 2(2) [OF False] unfolding ws
      by (cases "wake_list e (map fn_task (fst (wake_split (num - woken) msk ns)))") auto
  qed
qed simp

lemma wake_matching_split:
  "wake_matching_waiters e num msk ws =
     map_option (\<lambda>e'. (length (fst (wake_split num msk ws)), e', snd (wake_split num msk ws)))
       (wake_list e (map fn_task (fst (wake_split num msk ws))))"
  using wake_matching_loop_split [of e 0 num msk ws] by (simp add: wake_matching_waiters_def)

definition futex_waiters :: "futex_system \<Rightarrow> futex_key \<Rightarrow> futex_node list" where
  "futex_waiters fs key = (case bt_get fs key of Some q \<Rightarrow> q | None \<Rightarrow> [])"

lemma futex_waiters_insert: "bt_inv fs \<Longrightarrow> futex_waiters (bt_insert key q fs) = (futex_waiters fs)(key := q)"
  by (auto simp: futex_waiters_def bt_get_insert fun_eq_iff)

lemma futex_waiters_remove: "bt_inv fs \<Longrightarrow> futex_waiters (bt_remove key fs) = (futex_waiters fs)(key := [])"
  by (auto simp: futex_waiters_def bt_get_remove fun_eq_iff)

lemma futex_wake_key_waiters:
  assumes "bt_inv fs"
    and w: "futex_wake_key num msk key e fs = Some (w, e', fs')"
  shows "(let (woken, rest) = wake_split num msk (futex_waiters fs key)
     in w = length woken \<and> wake_list e (map fn_task woken) = Some e'
        \<and> futex_waiters fs' = (futex_waiters fs)(key := rest) \<and> bt_inv fs')"
proof (cases "bt_get fs key")
  case None
  then show ?thesis
    using assms w by (auto simp: futex_wake_key_def futex_waiters_def fun_eq_iff)
next
  case (Some q)
  then have q: "futex_waiters fs key = q" by (simp add: futex_waiters_def)
  show ?thesis
    using assms w Some
    by (auto simp: futex_wake_key_def wake_matching_split bind_eq_Some_conv futex_waiters_insert bt_inv_insert q
        case_prod_beta)
qed

lemma wake_split_rest: "subseq (snd (wake_split n msk ws)) ws"
  by (induction n msk ws rule: wake_split.induct) (auto simp: case_prod_beta)

lemma futex_wake_key_None:
  "futex_wake_key num msk key e fs = None \<longleftrightarrow>
     wake_list e (map fn_task (fst (wake_split num msk (futex_waiters fs key)))) = None"
  by (cases "bt_get fs key"; cases "wake_list e (map fn_task (fst (wake_split num msk (futex_waiters fs key))))")
    (auto simp: futex_wake_key_def futex_waiters_def wake_matching_split)

lemma wake_split_0: "wake_split 0 msk ws = ([], ws)"
  by (induction ws) auto

lemma futex_waiters_clean:
  "bt_inv fs \<Longrightarrow> futex_waiters (if bt_get fs key = Some [] then bt_remove key fs else fs) = futex_waiters fs"
  by (auto simp: futex_waiters_def bt_get_remove fun_eq_iff)

text \<open>
  C19: \<open>FUTEX_WAKE\<close> wakes the longest waiting \<open>num\<close> waiters of the address whose bit set meets the mask, in
  order, and no one else; the call fails only when one of these wake-ups panics.  The waiters left keep
  their order, and no other address is touched.
\<close>

theorem futex_wake_exact:
  assumes "bt_inv fs"
  shows "case futex_wake num msk key e fs of
      None \<Rightarrow> wake_list e (map fn_task (take num (filter (\<lambda>n. wait_bitmask n AND msk \<noteq> 0) (futex_waiters fs key)))) = None
    | Some (w, e', fs') \<Rightarrow>
        (\<exists>woken rest. woken = take num (filter (\<lambda>n. wait_bitmask n AND msk \<noteq> 0) (futex_waiters fs key))
           \<and> w = length woken \<and> wake_list e (map fn_task woken) = Some e'
           \<and> futex_waiters fs' = (futex_waiters fs)(key := rest)
           \<and> subseq rest (futex_waiters fs key) \<and> mset woken + mset rest = mset (futex_waiters fs key))"
proof (cases "num = 0")
  case True
  then show ?thesis by (auto simp: futex_wake_def intro!: exI [of _ "futex_waiters fs key"])
next
  case False
  let ?s = "wake_split num msk (futex_waiters fs key)"
  note w = wake_split_woken [of num msk "futex_waiters fs key"]
  show ?thesis
  proof (cases "futex_wake_key num msk key e fs")
    case None
    then show ?thesis using False futex_wake_key_None [of num msk key e fs] by (simp add: futex_wake_def w)
  next
    case (Some r)
    obtain n e' fs' where r: "r = (n, e', fs')" by (cases r)
    have k: "n = length (fst ?s)" "wake_list e (map fn_task (fst ?s)) = Some e'"
      "futex_waiters fs' = (futex_waiters fs)(key := snd ?s)" "bt_inv fs'"
      using futex_wake_key_waiters [OF assms Some [unfolded r]] by (simp_all add: case_prod_beta)
    have "futex_wake num msk key e fs =
      Some (n, e', if bt_get fs' key = Some [] then bt_remove key fs' else fs')"
      using False Some r by (simp add: futex_wake_def)
    moreover have "futex_waiters (if bt_get fs' key = Some [] then bt_remove key fs' else fs') =
      (futex_waiters fs)(key := snd ?s)"
      using futex_waiters_clean [OF k(4)] k(3) by simp
    ultimately show ?thesis
      using k(1,2) wake_split_rest [of num msk "futex_waiters fs key"]
        wake_split_mset [of num msk "futex_waiters fs key"]
      by (simp only: option.case prod.case w [symmetric]) (rule exI [of _ "fst ?s"], rule exI [of _ "snd ?s"], simp)
  qed
qed

definition fnode :: "nat \<Rightarrow> nat \<Rightarrow> futex_node" where
  "fnode a t = \<lparr> fn_arc = a, fn_task = t, wait_bitmask = 5 \<rparr>"

definition futexes2 :: futex_system where
  "futexes2 = [((1, 0x1000), [fnode 1 7, fnode 2 8]), ((1, 0x2000), [fnode 3 9])]"

definition exec_blocked3 :: exec where
  "exec_blocked3 = set_state (set_state (set_state (exec_start 2) 7 Blocked) 8 Blocked) 9 Blocked"

lemma futexes2_inv: "bt_inv futexes2"
  by (simp add: futexes2_def)

lemma futexes2_waiters:
  "futex_waiters futexes2 (1, 0x1000) = [fnode 1 7, fnode 2 8]" "futex_waiters futexes2 (1, 0x2000) = [fnode 3 9]"
  by (simp_all add: futex_waiters_def futexes2_def bt_get_def)

lemma exec_blocked3_wake: "wake_list exec_blocked3 [7] \<noteq> None"
  by (simp add: wakeup_task_def exec_blocked3_def Let_def)

theorem futex_wake_exact_witness:
  "\<exists>e' fs'. futex_wake 1 4 (1, 0x1000) exec_blocked3 futexes2 = Some (1, e', fs')"
  using futex_wake_exact [OF futexes2_inv, where num = 1 and msk = 4 and key = "(1, 0x1000)" and e = exec_blocked3] exec_blocked3_wake
  by (auto simp: futexes2_waiters fnode_def split: option.splits)

text \<open>The map after a requeue, when the waiters' bit sets are not empty.\<close>

lemma drain_waiters_split: "drain_waiters n ws = (take n ws, drop n ws)"
  by (auto simp: drain_waiters_def Let_def min_def)

lemma futex_drain:
  fixes fs key nr
  defines "q \<equiv> futex_waiters fs key"
  assumes inv: "bt_inv fs"
  obtains fs2 where
    "(if nr > 0 then
          (case bt_get fs key of
             None \<Rightarrow> ([], fs)
           | Some q \<Rightarrow> (let (d, rest) = drain_waiters nr q
               in (d, if rest = [] then bt_remove key fs else bt_insert key rest fs)))
        else ([], fs)) = (take nr q, fs2)"
    "futex_waiters fs2 = (futex_waiters fs)(key := drop nr q)" "bt_inv fs2"
proof (cases "nr > 0 \<and> bt_get fs key \<noteq> None")
  case False
  then have "take nr q = []" "drop nr q = q" by (auto simp: q_def futex_waiters_def)
  then show thesis using that [of fs] False inv by (auto simp: q_def)
next
  case True
  then have q: "bt_get fs key = Some q" "nr > 0" by (auto simp: q_def futex_waiters_def)
  show thesis
  proof (cases "drop nr q = []")
    case True
    then show thesis
      using that [of "bt_remove key fs"] q inv
      by (simp add: drain_waiters_split futex_waiters_remove bt_inv_remove del: drop_eq_Nil)
  next
    case False
    then show thesis
      using that [of "bt_insert key (drop nr q) fs"] q inv
      by (simp add: drain_waiters_split futex_waiters_insert bt_inv_insert del: drop_eq_Nil)
  qed
qed



text \<open>
  C21: a wake-up with the futex word unchanged is reported as a failure.  When the waiting future is polled
  again and the word still has the expected value, it answers \<open>ETIMEDOUT\<close> if a time-out was given, also when
  the deadline has not passed, and \<open>ERESTART\<close> otherwise; it never answers success.
\<close>

theorem futex_woken_unchanged:
  assumes "ff_node f = Some n" "\<And>sl. timeout_sleep f = Some sl \<Longrightarrow> sf_node sl \<noteq> None"
  shows "fst (futex_poll cur now (Ok (expected_val f)) f k fs) =
    Ready (Err (if timeout_sleep f = None then ERESTART else ETIMEDOUT))"
proof (cases "timeout_sleep f")
  case None
  then show ?thesis using assms by (simp add: futex_poll_def)
next
  case (Some sl)
  then have "sleep_poll now sl k = (Ready (), sl\<lparr> sf_node := None \<rparr>, sleep_drop sl k)"
    using sleep_poll_cases(1) assms(2) by blast
  then show ?thesis using Some by (simp add: futex_poll_def case_prod_beta)
qed

definition futex_waiting :: futex_future where
  "futex_waiting =
     (futex_future_new 7 1 0x1000 42 (- 1) (Some (TimeVal 99 0)))
       \<lparr> ff_node := Some (fnode 1 7),
         timeout_sleep := Some \<lparr> sf_deadline = Some (TimeVal 99 0), sf_task = 7,
           sf_node = Some \<lparr> sn_arc = 5, sn_deadline = Some (TimeVal 99 0), sn_task = 7 \<rparr> \<rparr> \<rparr>"

theorem futex_woken_unchanged_witness:
  "fst (futex_poll 7 (TimeVal 1 0) (Ok 42) futex_waiting kwait2 futexes2) = Ready (Err ETIMEDOUT)"
  using futex_woken_unchanged [of futex_waiting "fnode 1 7" 7 "TimeVal 1 0" kwait2 futexes2]
  by (simp add: futex_waiting_def futex_future_new_def)

end
