(* ===== verification/Pte_Riscv.thy ===== *)
theory Pte_Riscv
  imports Pte
begin

text \<open>
  Page-table entries of riscv64 (\<open>os/src/mm/arch/riscv64.rs\<close>): ten flag bits below a 44-bit page number.
  The format provides the same contract as the loongarch64 one.  Names carry the prefix \<open>rv\<close>.
\<close>

definition RV_V :: pte_flags where "RV_V = push_bit 0 1"
definition RV_R :: pte_flags where "RV_R = push_bit 1 1"
definition RV_W :: pte_flags where "RV_W = push_bit 2 1"
definition RV_X :: pte_flags where "RV_X = push_bit 3 1"
definition RV_U :: pte_flags where "RV_U = push_bit 4 1"
definition RV_G :: pte_flags where "RV_G = push_bit 5 1"
definition RV_A :: pte_flags where "RV_A = push_bit 6 1"
definition RV_D :: pte_flags where "RV_D = push_bit 7 1"
definition RV_COW :: pte_flags where "RV_COW = push_bit 8 1"
definition RV_W_BACKUP :: pte_flags where "RV_W_BACKUP = push_bit 9 1"

definition RV_all :: pte_flags where
  "RV_all = RV_V OR RV_R OR RV_W OR RV_X OR RV_U OR RV_G OR RV_A OR RV_D OR RV_COW OR RV_W_BACKUP"

definition RV_PHYS_ADDR_MASK :: usize where "RV_PHYS_ADDR_MASK = push_bit 54 1 - push_bit 10 1"

definition rv_new_table :: "phys_addr \<Rightarrow> pte option" where
  "rv_new_table paddr = do { ensure (paddr mod of_nat PAGE_SIZE = 0); Some paddr }"

definition rv_new :: "ppn \<Rightarrow> pte_flags \<Rightarrow> pte" where
  "rv_new p flags = push_bit 10 (of_nat p) OR flags"

definition rv_empty :: pte where "rv_empty = 0"

definition rv_address :: "pte \<Rightarrow> phys_addr" where
  "rv_address e = e AND 0xfffffffff000"

definition rv_ppn :: "pte \<Rightarrow> ppn" where
  "rv_ppn e = unat (drop_bit 10 e AND (push_bit 44 1 - 1))"

definition rv_set_ppn :: "pte \<Rightarrow> phys_addr \<Rightarrow> pte" where
  "rv_set_ppn e paddr = (e AND NOT RV_PHYS_ADDR_MASK) OR (drop_bit 2 paddr AND RV_PHYS_ADDR_MASK)"

definition rv_flags :: "pte \<Rightarrow> pte_flags" where
  "rv_flags e = fl_from_bits_truncate RV_all e"

definition rv_is_valid :: "pte \<Rightarrow> bool" where "rv_is_valid e = (rv_flags e AND RV_V \<noteq> 0)"
definition rv_readable :: "pte \<Rightarrow> bool" where "rv_readable e = (rv_flags e AND RV_R \<noteq> 0)"
definition rv_writable :: "pte \<Rightarrow> bool" where "rv_writable e = (rv_flags e AND RV_W \<noteq> 0)"
definition rv_executable :: "pte \<Rightarrow> bool" where "rv_executable e = (rv_flags e AND RV_X \<noteq> 0)"

definition rv_flags_of_perm :: "map_permission \<Rightarrow> pte_flags" where
  "rv_flags_of_perm f =
     (if f = 0 then 0
      else let ret = RV_V;
               ret = (if fl_contains f MP_R then ret OR RV_R else ret);
               ret = (if fl_contains f MP_W then ret OR RV_W else ret);
               ret = (if fl_contains f MP_X then ret OR RV_X else ret);
               ret = (if fl_contains f MP_U then ret OR RV_U else ret)
           in ret)"

text \<open>The \<open>debug_assert!\<close> is absent from the release build.\<close>

definition rv_set_flags :: "pte \<Rightarrow> map_permission \<Rightarrow> pte" where
  "rv_set_flags e f = (
     let flags = rv_flags_of_perm f OR RV_A OR RV_D
     in (e AND RV_PHYS_ADDR_MASK) OR flags)"

definition rv_is_huge :: "pte \<Rightarrow> bool" where
  "rv_is_huge e = fl_intersects (fl_from_bits_truncate RV_all e) (RV_R OR RV_X)"

definition rv_is_cow :: "pte \<Rightarrow> bool" where
  "rv_is_cow e = fl_contains (fl_from_bits_truncate RV_all e) (RV_R OR RV_W)"

definition rv_is_back_w :: "pte \<Rightarrow> bool" where
  "rv_is_back_w e = fl_contains (rv_flags e) RV_W_BACKUP"

definition rv_set_raw_flags :: "pte \<Rightarrow> pte_flags \<Rightarrow> pte" where
  "rv_set_raw_flags e flags = (e AND RV_PHYS_ADDR_MASK) OR flags"

definition rv_set_cow :: "pte \<Rightarrow> pte" where
  "rv_set_cow e = (
     let flags = rv_flags e;
         flags = (if fl_contains flags RV_W then fl_insert flags RV_W_BACKUP else flags);
         flags = fl_remove flags RV_W;
         flags = fl_insert flags RV_COW
     in rv_set_raw_flags e flags)"

definition rv_un_cow :: "pte \<Rightarrow> pte" where
  "rv_un_cow e = (
     let flags = rv_flags e;
         flags = (if fl_contains flags RV_W_BACKUP then fl_insert flags RV_W else flags);
         flags = fl_remove flags RV_COW;
         flags = fl_remove flags RV_W_BACKUP
     in rv_set_raw_flags e flags)"

subsection \<open>Bits of an entry\<close>

lemma RV_all_mask: "RV_all = mask 10"
  by (simp add: RV_all_def RV_V_def RV_R_def RV_W_def RV_X_def RV_U_def RV_G_def RV_A_def RV_D_def RV_COW_def
      RV_W_BACKUP_def mask_eq_exp_minus_1)

lemma rv_flags_bit: "bit (rv_flags e) n \<longleftrightarrow> bit e n \<and> n < 10"
  by (auto simp: rv_flags_def fl_truncate_bit RV_all_mask bit_mask_iff dest: bit_imp_le_length)

lemma rv_mask_bit: "bit RV_PHYS_ADDR_MASK n \<longleftrightarrow> 10 \<le> n \<and> n < 54"
proof -
  have m: "RV_PHYS_ADDR_MASK = push_bit 10 (mask 44)" by (simp add: RV_PHYS_ADDR_MASK_def mask_eq_exp_minus_1)
  show ?thesis unfolding m bit_push_bit_iff bit_mask_iff by auto
qed

lemma rv_const_bit:
  "bit RV_W n \<longleftrightarrow> n = 2" "bit RV_COW n \<longleftrightarrow> n = 8" "bit RV_W_BACKUP n \<longleftrightarrow> n = 9" "bit RV_R n \<longleftrightarrow> n = 1"
  unfolding RV_W_def RV_COW_def RV_W_BACKUP_def RV_R_def bit_push_bit_iff bit_1_iff by auto

lemma rv_contains:
  "fl_contains f RV_W \<longleftrightarrow> bit f 2" "fl_contains f RV_W_BACKUP \<longleftrightarrow> bit f 9"
  by (auto simp: fl_contains_bit rv_const_bit)

lemma rv_raw_bit: "bit (rv_set_raw_flags e f) n \<longleftrightarrow> (bit e n \<and> 10 \<le> n \<and> n < 54) \<or> bit f n"
  by (simp add: rv_set_raw_flags_def bit_or_iff bit_and_iff rv_mask_bit)

lemma rv_set_cow_bit:
  "bit (rv_set_cow e) n \<longleftrightarrow>
     (bit e n \<and> 10 \<le> n \<and> n < 54) \<or> n = 8 \<or> (n = 9 \<and> bit e 2) \<or> (bit e n \<and> n < 10 \<and> n \<noteq> 2)"
  by (auto simp: rv_set_cow_def Let_def rv_raw_bit fl_bits rv_contains rv_flags_bit rv_const_bit)

lemma rv_un_cow_bit:
  "bit (rv_un_cow e) n \<longleftrightarrow>
     (bit e n \<and> 10 \<le> n \<and> n < 54) \<or> (n = 2 \<and> bit e 9) \<or> (bit e n \<and> n < 8)"
  by (auto simp: rv_un_cow_def Let_def rv_raw_bit fl_bits rv_contains rv_flags_bit rv_const_bit)

lemma rv_ppn_mask: "rv_ppn e = unat (drop_bit 10 e AND mask 44)"
proof -
  have m: "push_bit 44 1 - 1 = (mask 44 :: usize)" by (simp add: mask_eq_exp_minus_1)
  show ?thesis unfolding rv_ppn_def m ..
qed

lemma rv_ppn_cong:
  assumes "\<And>n. 10 \<le> n \<Longrightarrow> n < 54 \<Longrightarrow> bit e n \<longleftrightarrow> bit e' n"
  shows "rv_ppn e = rv_ppn e'"
proof -
  have "drop_bit 10 e AND mask 44 = drop_bit 10 e' AND mask 44"
    using assms by (intro bit_word_eqI) (auto simp: bit_and_iff bit_drop_bit_eq bit_mask_iff)
  then show ?thesis unfolding rv_ppn_mask by simp
qed

lemma rv_writable_bit: "rv_writable e \<longleftrightarrow> bit e 2"
proof -
  have "rv_flags e AND RV_W \<noteq> 0 \<longleftrightarrow> bit (rv_flags e) 2"
    using fl_intersects_bit [of "rv_flags e" RV_W] by (simp add: fl_intersects_def rv_const_bit)
  then show ?thesis by (simp add: rv_writable_def rv_flags_bit)
qed

lemma rv_is_cow_bit: "rv_is_cow e \<longleftrightarrow> bit e 1 \<and> bit e 2"
  by (auto simp: rv_is_cow_def fl_contains_bit bit_or_iff rv_const_bit rv_flags_bit [unfolded rv_flags_def])

interpretation rv64: pte_codec "\<lambda>p f. Some (rv_new p f)" "\<lambda>e. Some (rv_ppn e)" "\<lambda>e. Some (rv_flags e)"
  "\<lambda>p. p < 2 ^ 44" "\<lambda>f. f AND NOT RV_all = 0"
proof unfold_locales
  fix p :: nat and f :: usize
  assume p: "p < 2 ^ 44" and f0: "f AND NOT RV_all = 0"
  have f: "bit f n \<Longrightarrow> n < 10" for n
  proof -
    assume b: "bit f n"
    have "bit (f AND NOT RV_all) n = False" by (simp add: f0)
    then show "n < 10" using b by (auto simp: bit_and_iff bit_not_iff RV_all_mask bit_mask_iff dest: bit_imp_le_length)
  qed
  have pb: "bit (of_nat p :: usize) n \<Longrightarrow> n < 44" for n
  proof -
    assume "bit (of_nat p :: usize) n"
    then have b: "bit p n" by (simp add: bit_of_nat_iff)
    have "take_bit 44 p = p" using p by (simp add: take_bit_nat_eq_self)
    then show "n < 44" using b by (metis bit_take_bit_iff)
  qed
  have "drop_bit 10 (rv_new p f) AND mask 44 = (of_nat p :: usize)"
  proof (rule bit_word_eqI)
    fix n assume "n < LENGTH(64)"
    show "bit (drop_bit 10 (rv_new p f) AND mask 44) n \<longleftrightarrow> bit (of_nat p :: usize) n"
      using f [of "10 + n"] pb [of n]
      by (auto simp: rv_new_def bit_and_iff bit_or_iff bit_drop_bit_eq bit_push_bit_iff bit_mask_iff
          dest: bit_imp_le_length)
  qed
  then have "rv_ppn (rv_new p f) = p"
    unfolding rv_ppn_mask using p by (simp add: unat_of_nat take_bit_nat_eq_self)
  moreover have "rv_flags (rv_new p f) = f"
    using f by (intro bit_word_eqI) (auto simp: rv_flags_bit rv_new_def bit_or_iff bit_push_bit_iff)
  ultimately show "\<exists>e. Some (rv_new p f) = Some e \<and> Some (rv_ppn e) = Some p \<and> Some (rv_flags e) = Some f" by simp
qed

text \<open>
  On riscv64 \<open>set_cow\<close> followed by \<open>un_cow\<close> restores write access and keeps the page, but \<open>is_cow\<close> does
  not see the mark: it tests that the page is readable and writable, so it is false for every entry that
  \<open>set_cow\<close> has marked, and true for every ordinary writable page.
\<close>

lemma rv_cow:
  "rv_ppn (rv_set_cow e) = rv_ppn e \<and> \<not> rv_writable (rv_set_cow e) \<and> rv_ppn (rv_un_cow (rv_set_cow e)) = rv_ppn e
    \<and> (rv_writable (rv_un_cow (rv_set_cow e)) \<longleftrightarrow> bit e 2 \<or> bit e 9)
    \<and> \<not> rv_is_cow (rv_set_cow e) \<and> (rv_is_cow e \<longleftrightarrow> bit e 1 \<and> bit e 2)"
proof -
  have "rv_ppn (rv_set_cow e) = rv_ppn e" by (rule rv_ppn_cong) (auto simp: rv_set_cow_bit)
  moreover have "rv_ppn (rv_un_cow (rv_set_cow e)) = rv_ppn (rv_set_cow e)"
    by (rule rv_ppn_cong) (auto simp: rv_un_cow_bit)
  ultimately show ?thesis
    by (auto simp: rv_writable_bit rv_is_cow_bit rv_un_cow_bit rv_set_cow_bit)
qed

end
