(* ===== verification/User_Buffer.thy ===== *)
theory User_Buffer
  imports Errno
begin

text \<open>
  The scattered user buffer (\<open>UserBuffer\<close> in \<open>os/src/mm/page_table.rs\<close>): a list of byte segments, one per
  page.  The methods are compared with their meaning on the concatenation of the segments.
\<close>

type_synonym user_buffer = "u8 list list"

definition ub_len :: "user_buffer \<Rightarrow> nat" where
  "ub_len ub = sum_list (map length ub)"

definition ub_is_empty :: "user_buffer \<Rightarrow> bool" where
  "ub_is_empty ub \<longleftrightarrow> ub_len ub = 0"

fun ub_write_all_loop :: "u8 list \<Rightarrow> nat \<Rightarrow> user_buffer \<Rightarrow> user_buffer" where
  "ub_write_all_loop buff bytes_written [] = []"
| "ub_write_all_loop buff bytes_written (sub # ub) = (
     let copy_len = min (length sub) (length buff - bytes_written)
     in if copy_len = 0 then sub # ub_write_all_loop buff bytes_written ub
        else (take copy_len (drop bytes_written buff) @ drop copy_len sub)
          # ub_write_all_loop buff (bytes_written + copy_len) ub)"

definition ub_write_all :: "user_buffer \<Rightarrow> u8 list \<Rightarrow> (sys_err_no + unit) \<times> user_buffer" where
  "ub_write_all ub buff =
     (if length buff > ub_len ub then (Err EINVAL, ub) else (Ok (), ub_write_all_loop buff 0 ub))"

fun ub_read_loop :: "nat \<Rightarrow> nat \<Rightarrow> user_buffer \<Rightarrow> u8 list" where
  "ub_read_loop skip bytes_to_read [] = []"
| "ub_read_loop skip bytes_to_read (sub # ub) =
     (if bytes_to_read = 0 then []
      else if skip \<ge> length sub then ub_read_loop (skip - length sub) bytes_to_read ub
      else let can_read = min (length sub - skip) bytes_to_read
        in take can_read (drop skip sub) @ ub_read_loop 0 (bytes_to_read - can_read) ub)"

definition ub_read_from :: "user_buffer \<Rightarrow> nat \<Rightarrow> nat \<Rightarrow> u8 list" where
  "ub_read_from ub offset len = (
     let total_len = ub_len ub
     in if offset \<ge> total_len then []
        else ub_read_loop offset (min len (total_len - offset)) ub)"

definition ub_read :: "user_buffer \<Rightarrow> nat \<Rightarrow> u8 list" where
  "ub_read ub len = ub_read_from ub 0 len"

definition ub_fill0 :: "user_buffer \<Rightarrow> nat \<times> user_buffer" where
  "ub_fill0 ub = (let ub' = map (map (\<lambda>_. 0)) ub in (ub_len ub', ub'))"

definition ub_clear :: "user_buffer \<Rightarrow> nat \<times> user_buffer" where
  "ub_clear ub = (ub_len [], [])"

text \<open>
  \<open>write\<close>: slices are copied whole when the source is longer than ten bytes, byte by byte otherwise.  The
  second component of the byte loop is the source position, the third whether the method returned.
\<close>

fun ub_put_bytes :: "u8 list \<Rightarrow> nat \<Rightarrow> nat \<Rightarrow> u8 list \<Rightarrow> (u8 list \<times> nat \<times> bool) option" where
  "ub_put_bytes buff len cur [] = Some ([], cur, False)"
| "ub_put_bytes buff len cur (x # xs) = do {
     ensure (cur < length buff);
     (if cur + 1 = len then Some (buff ! cur # xs, cur + 1, True)
      else do {
        (ys, c, d) \<leftarrow> ub_put_bytes buff len (cur + 1) xs;
        Some (buff ! cur # ys, c, d) }) }"

fun ub_write_loop :: "u8 list \<Rightarrow> nat \<Rightarrow> nat \<Rightarrow> user_buffer \<Rightarrow> user_buffer option" where
  "ub_write_loop buff len cur [] = Some []"
| "ub_write_loop buff len cur (sub # ub) =
     (if length buff > 10 then do {
        let sblen = (if cur + length sub > len then len - cur else length sub);
        ensure (cur + sblen \<le> length buff);
        let sub' = take sblen (drop cur buff) @ drop sblen sub;
        (if cur + sblen = len then Some (sub' # ub)
         else do { ub' \<leftarrow> ub_write_loop buff len (cur + sblen) ub; Some (sub' # ub') }) }
      else do {
        (sub', c, returned) \<leftarrow> ub_put_bytes buff len cur sub;
        (if returned then Some (sub' # ub)
         else do { ub' \<leftarrow> ub_write_loop buff len c ub; Some (sub' # ub') }) })"

definition ub_write :: "user_buffer \<Rightarrow> u8 list \<Rightarrow> (nat \<times> user_buffer) option" where
  "ub_write ub buff = (
     let len = min (ub_len ub) (length buff)
     in if len = 0 then Some (len, ub)
        else do { ub' \<leftarrow> ub_write_loop buff len 0 ub; Some (len, ub') })"

text \<open>\<open>write_at\<close>: the branch that skips a segment leaves \<open>head\<close> where it is.\<close>

fun ub_write_at_loop :: "u8 list \<Rightarrow> nat \<Rightarrow> nat \<Rightarrow> nat \<Rightarrow> user_buffer \<Rightarrow> (int \<times> user_buffer) option" where
  "ub_write_at_loop buff offset head cur [] = Some (0, [])"
| "ub_write_at_loop buff offset head cur (sub # ub) =
     (if head + length sub < offset then do {
        (r, ub') \<leftarrow> ub_write_at_loop buff offset head cur ub; Some (r, sub # ub') }
      else do {
        let from = (if head < offset then offset - head else 0);
        (tl', c, returned) \<leftarrow> ub_put_bytes buff (length buff) cur (drop from sub);
        let sub' = take from sub @ tl';
        (if returned then Some (int (length buff), sub' # ub)
         else do {
           (r, ub') \<leftarrow> ub_write_at_loop buff offset (head + length sub) c ub;
           Some (r, sub' # ub') }) })"

definition ub_write_at :: "user_buffer \<Rightarrow> nat \<Rightarrow> u8 list \<Rightarrow> (int \<times> user_buffer) option" where
  "ub_write_at ub offset buff =
     (if offset + length buff > ub_len ub then Some (- 1, ub)
      else ub_write_at_loop buff offset 0 0 ub)"

text \<open>The iterator over the bytes; a state is the current segment and the index in it.\<close>

definition ub_iter_next :: "user_buffer \<Rightarrow> nat \<times> nat \<Rightarrow> ((nat \<times> nat) option \<times> nat \<times> nat) option" where
  "ub_iter_next ub s = (case s of (b, i) \<Rightarrow>
     (if b \<ge> length ub then Some (None, b, i)
      else do {
        ensure (i < length (ub ! b));
        (if i + 1 = length (ub ! b) then Some (Some (b, i), b + 1, 0)
         else Some (Some (b, i), b, i + 1)) }))"

subsection \<open>Meaning on the concatenation\<close>

lemma ub_len_concat: "ub_len ub = length (concat ub)"
  by (simp add: ub_len_def length_concat)

definition overlay :: "u8 list \<Rightarrow> u8 list \<Rightarrow> u8 list" where
  "overlay new old = take (length old) new @ drop (length new) old"

lemma length_overlay [simp]: "length (overlay new old) = length old"
  by (simp add: overlay_def)

lemma overlay_append:
  "overlay new (a @ b) = overlay new a @ overlay (drop (length a) new) b"
  by (cases "length new \<le> length a") (auto simp: overlay_def take_add)

lemma ub_write_all_overlay:
  "concat (ub_write_all_loop buff n ub) = overlay (drop n buff) (concat ub)
   \<and> map length (ub_write_all_loop buff n ub) = map length ub"
proof (induction buff n ub rule: ub_write_all_loop.induct)
  case (2 buff n sub ub)
  let ?c = "min (length sub) (length buff - n)"
  show ?case
  proof (cases "?c = 0")
    case True
    then have e: "overlay (drop n buff) sub = sub" "drop (length sub) (drop n buff) = drop n buff"
      using True by (auto simp: overlay_def min_def split: if_splits)
    then show ?thesis using 2(1) [OF refl True] True by (simp add: overlay_append)
  next
    case False
    have "take ?c (drop n buff) @ drop ?c sub = overlay (drop n buff) sub"
      by (auto simp: overlay_def min_def)
    then have u: "ub_write_all_loop buff n (sub # ub) = overlay (drop n buff) sub # ub_write_all_loop buff (n + ?c) ub"
      using False by (simp only: ub_write_all_loop.simps Let_def if_False)
    have "overlay (drop (n + ?c) buff) xs = overlay (drop (length sub) (drop n buff)) xs" for xs
      by (cases "length sub \<le> length buff - n") (auto simp: min_def overlay_def add.commute)
    then show ?thesis using 2(2) [OF refl False] unfolding u by (simp add: overlay_append)
  qed
qed (simp add: overlay_def)

lemma ub_read_loop_take: "ub_read_loop skip n ub = take n (drop skip (concat ub))"
  by (induction skip n ub rule: ub_read_loop.induct) (auto simp: min_def Let_def)

lemma ub_put_bytes_overlay:
  assumes "cur < len" "len \<le> length buff"
  shows "ub_put_bytes buff len cur sub =
    Some (overlay (take (len - cur) (drop cur buff)) sub, min len (cur + length sub), len \<le> cur + length sub)"
  using assms
proof (induction sub arbitrary: cur)
  case (Cons x xs)
  have d: "drop cur buff = buff ! cur # drop (Suc cur) buff" using Cons.prems by (simp add: Cons_nth_drop_Suc)
  show ?case
  proof (cases "cur + 1 = len")
    case True
    then show ?thesis using Cons.prems by (auto simp: overlay_def d)
  next
    case False
    then have l: "len - cur = Suc (len - Suc cur)" "Suc cur < len" "cur < length buff" using Cons.prems by simp_all
    have t: "take (len - cur) (drop cur buff) = buff ! cur # take (len - Suc cur) (drop (Suc cur) buff)"
      unfolding l(1) d by simp
    have o: "overlay (b # bs) (x # xs) = b # overlay bs xs" for b bs by (simp add: overlay_def)
    from Cons.IH [OF l(2) Cons.prems(2)] show ?thesis
      unfolding t o using False l(3) by simp
  qed
qed (simp add: overlay_def)

lemma ub_write_loop_overlay:
  assumes "cur < len" "len \<le> length buff" "len \<le> cur + length (concat ub)"
  shows "\<exists>ub'. ub_write_loop buff len cur ub = Some ub' \<and> map length ub' = map length ub
    \<and> concat ub' = overlay (take (len - cur) (drop cur buff)) (concat ub)"
  using assms
proof (induction ub arbitrary: cur)
  case (Cons sub ub)
  let ?new = "take (len - cur) (drop cur buff)"
  have ln: "length ?new = len - cur" using Cons.prems by simp
  show ?case
  proof (cases "len \<le> cur + length sub")
    case True
    have o: "overlay ?new (sub @ concat ub) = overlay ?new sub @ concat ub"
      using True ln by (simp add: overlay_append overlay_def)
    have s: "take (len - cur) (drop cur buff) @ drop (len - cur) sub = overlay ?new sub"
      using True ln by (simp add: overlay_def)
    have sb: "(if cur + length sub > len then len - cur else length sub) = len - cur" using True by auto
    have "ub_write_loop buff len cur (sub # ub) = Some (overlay ?new sub # ub)"
    proof (cases "length buff > 10")
      case long: True
      then show ?thesis using Cons.prems(1,2) by (simp only: ub_write_loop.simps sb Let_def s) (simp add: s)
    next
      case False
      then show ?thesis using ub_put_bytes_overlay [OF Cons.prems(1,2), of sub] True by simp
    qed
    then show ?thesis using o by simp
  next
    case False
    have c: "cur + length sub < len" "len \<le> (cur + length sub) + length (concat ub)" using False Cons.prems by auto
    from Cons.IH [OF c(1) Cons.prems(2) c(2)] obtain ub' where
      u: "ub_write_loop buff len (cur + length sub) ub = Some ub'" "map length ub' = map length ub"
      "concat ub' = overlay (take (len - (cur + length sub)) (drop (cur + length sub) buff)) (concat ub)"
      by blast
    have dn: "drop (length sub) ?new = take (len - (cur + length sub)) (drop (cur + length sub) buff)"
      by (simp add: drop_take add.commute)
    have s: "overlay ?new sub = take (length sub) (drop cur buff)"
      using False ln by (simp add: overlay_def)
    have sb: "(if cur + length sub > len then len - cur else length sub) = length sub" using False by auto
    have "ub_write_loop buff len cur (sub # ub) = Some (overlay ?new sub # ub')"
    proof (cases "length buff > 10")
      case long: True
      then show ?thesis
        using c(1) Cons.prems(2) u(1) by (simp only: ub_write_loop.simps sb Let_def s) simp
    next
      case short: False
      then show ?thesis using ub_put_bytes_overlay [OF Cons.prems(1,2), of sub] c(1) u(1) by simp
    qed
    then show ?thesis using u(2,3) by (simp add: overlay_append dn)
  qed
qed simp

text \<open>
  C36: the methods of the scattered buffer do on the segments what they say on one contiguous buffer.
  \<open>write\<close> (both of its copying loops) and \<open>write_all\<close> overlay the bytes from the start and keep the shape
  of the segments; \<open>write\<close> returns the number of bytes that fit, \<open>write_all\<close> refuses bytes that do not fit;
  \<open>read_from\<close> returns the bytes from the offset and \<open>read\<close> those from the start; \<open>fill0\<close> sets all bytes to zero, keeps the shape and
  returns their number; \<open>clear\<close> leaves no segment; none of them panics.  \<open>write_at\<close> is the exception: with three
  segments of one byte it writes nothing at offset 2, because skipping a segment does not advance its position.
\<close>

theorem user_buffer_contiguous:
  "(\<exists>ub'. ub_write ub buff = Some (min (length (concat ub)) (length buff), ub')
      \<and> map length ub' = map length ub \<and> concat ub' = overlay buff (concat ub))
   \<and> (case ub_write_all ub buff of
        (Ok _, ub') \<Rightarrow> length buff \<le> length (concat ub) \<and> map length ub' = map length ub
          \<and> concat ub' = overlay buff (concat ub)
      | (Err e, ub') \<Rightarrow> length (concat ub) < length buff \<and> e = EINVAL \<and> ub' = ub)
   \<and> ub_read_from ub offset n = take n (drop offset (concat ub))
   \<and> ub_read ub n = take n (concat ub)
   \<and> (case ub_fill0 ub of (l, ub') \<Rightarrow> l = length (concat ub) \<and> map length ub' = map length ub \<and> concat ub' = replicate l 0)
   \<and> ub_clear ub = (0, [])
   \<and> ub_write_at [[x], [y], [z]] 2 [w] = Some (0, [[x], [y], [z]])"
proof -
  let ?len = "min (length (concat ub)) (length buff)"
  have "\<exists>ub'. ub_write ub buff = Some (?len, ub') \<and> map length ub' = map length ub
    \<and> concat ub' = overlay buff (concat ub)"
  proof (cases "?len = 0")
    case True
    then consider "concat ub = []" | "buff = []" by (auto simp: min_def simp del: concat_eq_Nil_conv split: if_splits)
    then show ?thesis
      by cases (auto simp: ub_write_def ub_len_concat overlay_def simp del: concat_eq_Nil_conv)
  next
    case False
    obtain ub' where u: "ub_write_loop buff ?len 0 ub = Some ub'" "map length ub' = map length ub"
      "concat ub' = overlay (take ?len buff) (concat ub)"
      using ub_write_loop_overlay [of 0 ?len buff ub] False by auto
    have "overlay (take ?len buff) (concat ub) = overlay buff (concat ub)"
      by (auto simp: overlay_def min_def)
    moreover have "ub_write ub buff = Some (?len, ub')"
      unfolding ub_write_def ub_len_concat Let_def using u(1) by (simp only: False if_False) simp
    ultimately show ?thesis using u(2,3) by auto
  qed
  moreover have read: "ub_read_from ub offset n = take n (drop offset (concat ub))" for offset
    by (auto simp: ub_read_from_def ub_len_concat ub_read_loop_take Let_def min_def)
  moreover have "ub_read ub n = take n (concat ub)" by (simp add: ub_read_def read)
  moreover have "case ub_fill0 ub of (l, ub') \<Rightarrow> l = length (concat ub) \<and> map length ub' = map length ub \<and> concat ub' = replicate l 0"
  proof -
    have "concat (map (map (\<lambda>_. 0)) ub) = replicate (length (concat ub)) (0 :: u8)"
      by (simp only: map_concat [symmetric] map_replicate_const)
    moreover have "length (concat (map (map (\<lambda>_. 0 :: u8)) ub)) = length (concat ub)" by (simp only: map_concat [symmetric] length_map)
    ultimately show ?thesis by (simp add: ub_fill0_def ub_len_concat Let_def comp_def)
  qed
  moreover have "ub_clear ub = (0, [])" by (simp add: ub_clear_def ub_len_def)
  moreover have "ub_write_at [[x], [y], [z]] 2 [w] = Some (0, [[x], [y], [z]])" by (simp add: ub_write_at_def ub_len_def)
  ultimately show ?thesis
    using ub_write_all_overlay [of buff 0 ub] by (auto simp: ub_write_all_def ub_len_concat)
qed

text \<open>
  The iterator panics on an empty segment, and \<open>write_at\<close> misses its place: with one-byte segments an
  offset of two or more is never reached, because skipping a segment does not advance the position.
\<close>

lemma ub_write_at_misplaced:
  "\<forall>sub\<in>set ub. length sub = 1 \<Longrightarrow> 2 \<le> offset \<Longrightarrow> offset + length buff \<le> length ub \<Longrightarrow>
     ub_write_at ub offset buff = Some (0, ub)"
proof -
  assume a: "\<forall>sub\<in>set ub. length sub = 1" "2 \<le> offset" "offset + length buff \<le> length ub"
  have "ub_write_at_loop buff offset 0 0 ub = Some (0, ub)"
    using a(1,2) by (induction ub) auto
  moreover have "ub_len ub = length ub" using a(1) by (induction ub) (auto simp: ub_len_def)
  ultimately show ?thesis using a(3) by (simp add: ub_write_at_def)
qed

end
