(* ===== verification/User_Copy.thy ===== *)
theory User_Copy
  imports Page_Table_Props User_Buffer
begin

text \<open>
  Access to the memory of a user address space from the kernel (the free functions at the end of
  \<open>os/src/mm/page_table.rs\<close>).  Every function walks the page table that the token names and then uses
  the direct mapping of the physical address.

  A value of a generic type \<open>T\<close> is the list of its bytes, so \<open>size_of::<T>()\<close> is the length of a list
  or an argument.  A reference that the source returns is the physical address it points to; a slice is the
  physical address of its first byte and its length.  Writing a value of several bytes at a physical address
  writes consecutive physical addresses, as the machine does, also past the end of a frame.
\<close>

subsection \<open>Physical addresses\<close>

definition pm_byte :: "kmem \<Rightarrow> phys_addr \<Rightarrow> u8" where
  "pm_byte k pa = read_byte k (pa_floor pa) (pa_page_offset pa)"

definition pm_put :: "kmem \<Rightarrow> phys_addr \<Rightarrow> u8 \<Rightarrow> kmem" where
  "pm_put k pa b = write_byte k (pa_floor pa) (pa_page_offset pa) b"

fun pm_write :: "kmem \<Rightarrow> phys_addr \<Rightarrow> u8 list \<Rightarrow> kmem" where
  "pm_write k pa [] = k"
| "pm_write k pa (b # bs) = pm_write (pm_put k pa b) (pa + 1) bs"

definition pm_read :: "kmem \<Rightarrow> phys_addr \<Rightarrow> nat \<Rightarrow> u8 list" where
  "pm_read k pa n = map (\<lambda>i. pm_byte k (pa + of_nat i)) [0..<n]"

text \<open>\<open>get_ref\<close>, \<open>get_mut\<close> and \<open>get_ptr\<close> of a physical address go through \<open>KernelAddr::from\<close>.\<close>

definition pa_get_mut :: "phys_addr \<Rightarrow> phys_addr option" where
  "pa_get_mut pa = do { ka \<leftarrow> kernel_of_phys pa; Some (phys_of_kernel ka) }"

subsection \<open>Errors\<close>

datatype put_data_error = PutTranslationFailed virt_addr | UnalignedAccess | NonContiguousPhysicalMemory
  | PutPermissionDenied | Other string

fun errno_of_put_data_error :: "put_data_error \<Rightarrow> sys_err_no" where
  "errno_of_put_data_error (PutTranslationFailed _) = EFAULT"
| "errno_of_put_data_error UnalignedAccess = EFAULT"
| "errno_of_put_data_error NonContiguousPhysicalMemory = EFAULT"
| "errno_of_put_data_error PutPermissionDenied = EACCES"
| "errno_of_put_data_error (Other _) = EADV"

fun errno_of_translate_error :: "translate_error \<Rightarrow> sys_err_no" where
  "errno_of_translate_error (TranslationFailed _) = ENOMEM"
| "errno_of_translate_error DataCrossesPageBoundary = EFAULT"
| "errno_of_translate_error UnexpectedEofOrFault = EFAULT"
| "errno_of_translate_error InternalBufferOverflow = EFAULT"
| "errno_of_translate_error LengthOverflow = EFAULT"
| "errno_of_translate_error (PermissionDenied _) = EACCES"
| "errno_of_translate_error PartialCopy = EFAULT"

subsection \<open>Values\<close>

fun put_data_bytes :: "kmem \<Rightarrow> page_table \<Rightarrow> virt_addr \<Rightarrow> u8 list \<Rightarrow> ((put_data_error + unit) \<times> kmem) option" where
  "put_data_bytes k pt va [] = Some (Ok (), k)"
| "put_data_bytes k pt va (b # bs) = do {
     r \<leftarrow> pt_translate_va k pt va;
     (case r of None \<Rightarrow> Some (Err (PutTranslationFailed va), k)
      | Some pa \<Rightarrow> do {
          a \<leftarrow> pa_get_mut pa;
          put_data_bytes (pm_put k a b) pt (va + 1) bs }) }"

definition put_data :: "kmem \<Rightarrow> usize \<Rightarrow> virt_addr \<Rightarrow> u8 list \<Rightarrow> ((put_data_error + unit) \<times> kmem) option" where
  "put_data k token ptr dat = (
     let data_size = length dat; pt = pt_from_token token
     in if data_size = 0 then Some (Ok (), k)
        else do {
          r \<leftarrow> pt_translate_va k pt ptr;
          (case r of None \<Rightarrow> Some (Err (PutTranslationFailed ptr), k)
           | Some start_pa \<Rightarrow>
               if pa_floor start_pa = pa_floor (start_pa + of_nat (data_size - 1)) then do {
                 a \<leftarrow> pa_get_mut start_pa;
                 Some (Ok (), pm_write k a dat) }
               else put_data_bytes k pt ptr dat) })"

definition translated_refmut :: "kmem \<Rightarrow> usize \<Rightarrow> virt_addr \<Rightarrow> (sys_err_no + phys_addr) option" where
  "translated_refmut k token ptr = do {
     r \<leftarrow> pt_translate_va k (pt_from_token token) ptr;
     (case r of Some pa \<Rightarrow> do { a \<leftarrow> pa_get_mut pa; Some (Ok a) } | None \<Rightarrow> Some (Err ENOMEM)) }"

definition translated_ref :: "kmem \<Rightarrow> usize \<Rightarrow> virt_addr \<Rightarrow> phys_addr option" where
  "translated_ref k token ptr = do {
     r \<leftarrow> pt_translate_va k (pt_from_token token) ptr;
     pa \<leftarrow> r;
     pa_get_mut pa }"

fun get_data_bytes :: "kmem \<Rightarrow> page_table \<Rightarrow> virt_addr \<Rightarrow> nat \<Rightarrow> u8 list option" where
  "get_data_bytes k pt va 0 = Some []"
| "get_data_bytes k pt va (Suc n) = do {
     r \<leftarrow> pt_translate_va k pt va;
     pa \<leftarrow> r;
     a \<leftarrow> pa_get_mut pa;
     bs \<leftarrow> get_data_bytes k pt (va + 1) n;
     Some (pm_byte k a # bs) }"

definition get_data :: "kmem \<Rightarrow> usize \<Rightarrow> virt_addr \<Rightarrow> nat \<Rightarrow> u8 list option" where
  "get_data k token ptr size_t = do {
     r \<leftarrow> pt_translate_va k (pt_from_token token) ptr;
     pa \<leftarrow> r;
     (if pa_floor (pa + of_nat size_t - 1) \<noteq> pa_floor pa then get_data_bytes k (pt_from_token token) ptr size_t
      else do { a \<leftarrow> translated_ref k token ptr; Some (pm_read k a size_t) }) }"

text \<open>\<open>get_target_ref\<close>: for a type of size 0 the reference is dangling (\<open>None\<close>).\<close>

definition get_target_ref :: "kmem \<Rightarrow> usize \<Rightarrow> virt_addr \<Rightarrow> nat \<Rightarrow> (translate_error + phys_addr option) option" where
  "get_target_ref k token ptr size_t = do {
     r \<leftarrow> pt_translate_va k (pt_from_token token) ptr;
     (case r of None \<Rightarrow> Some (Err (TranslationFailed ptr))
      | Some start_pa \<Rightarrow>
          if size_t = 0 then Some (Ok None)
          else do { a \<leftarrow> pa_get_mut start_pa; Some (Ok (Some a)) }) }"

subsection \<open>Strings\<close>

text \<open>\<open>string.push(ch as char)\<close>: the characters of the string are the bytes.\<close>

partial_function (option) translated_str_loop :: "kmem \<Rightarrow> page_table \<Rightarrow> virt_addr \<Rightarrow> u8 list \<Rightarrow> u8 list option" where
  "translated_str_loop k pt va s = do {
     r \<leftarrow> pt_translate_va k pt va;
     pa \<leftarrow> r;
     a \<leftarrow> pa_get_mut pa;
     let ch = pm_byte k a;
     (if ch = 0 then Some s else translated_str_loop k pt (va + 1) (s @ [ch])) }"

definition translated_str :: "kmem \<Rightarrow> usize \<Rightarrow> virt_addr \<Rightarrow> u8 list option" where
  "translated_str k token ptr = translated_str_loop k (pt_from_token token) ptr []"

fun fill_bytes :: "kmem \<Rightarrow> usize \<Rightarrow> virt_addr \<Rightarrow> u8 list \<Rightarrow> ((put_data_error + unit) \<times> kmem) option" where
  "fill_bytes k token ptr [] = Some (Ok (), k)"
| "fill_bytes k token ptr (b # bs) = do {
     (r, k) \<leftarrow> put_data k token ptr [b];
     (case r of Inl e \<Rightarrow> Some (Err e, k) | Inr _ \<Rightarrow> fill_bytes k token (ptr + 1) bs) }"

definition fill_str :: "kmem \<Rightarrow> usize \<Rightarrow> virt_addr \<Rightarrow> u8 list \<Rightarrow> usize \<Rightarrow> ((put_data_error + unit) \<times> kmem) option" where
  "fill_str k token remote_buf bytes max_len = (
     let write_len = min (length bytes) (unat (max_len - 1))
     in do {
       (r, k) \<leftarrow> fill_bytes k token remote_buf (take write_len bytes);
       (case r of Inl e \<Rightarrow> Some (Err e, k)
        | Inr _ \<Rightarrow> put_data k token (remote_buf + of_nat write_len) [0]) })"

subsection \<open>Copies\<close>

type_synonym phys_slice = "phys_addr \<times> nat"

text \<open>
  The empty slice has no address; it is \<open>(0, 0)\<close>.  The panics that \<open>copy_from_user_bytes\<close> has under \<open>debug_assertions\<close> are not part of the
  release build.
\<close>

definition get_target_continuous_bytes_in_page ::
  "kmem \<Rightarrow> usize \<Rightarrow> virt_addr \<Rightarrow> nat \<Rightarrow> (translate_error + phys_slice \<times> nat) option" where
  "get_target_continuous_bytes_in_page k token va_start max_len =
     (if max_len = 0 then Some (Ok ((0, 0), 0))
      else do {
        r \<leftarrow> pt_translate_va k (pt_from_token token) va_start;
        (case r of None \<Rightarrow> Some (Err (TranslationFailed va_start))
         | Some pa_start \<Rightarrow>
             let bytes_remaining_in_page = PAGE_SIZE - va_page_offset va_start;
                 len_to_get = min max_len bytes_remaining_in_page
             in if len_to_get = 0 then Some (Ok ((0, 0), 0))
                else do {
                  a \<leftarrow> pa_get_mut pa_start;
                  Some (Ok ((a, len_to_get), len_to_get)) }) })"

function copy_from_user_loop ::
  "kmem \<Rightarrow> usize \<Rightarrow> u8 list \<Rightarrow> virt_addr \<Rightarrow> nat \<Rightarrow> nat \<Rightarrow> nat \<Rightarrow> ((translate_error + unit) \<times> u8 list) option" where
  "copy_from_user_loop k token buf va len_to_copy bytes_copied dest_off =
     (if bytes_copied < len_to_copy then
        (case get_target_continuous_bytes_in_page k token va (len_to_copy - bytes_copied) of
           None \<Rightarrow> None
         | Some (Inl e) \<Rightarrow> Some (Err e, buf)
         | Some (Inr ((pa, _), len_in_page)) \<Rightarrow>
             if len_in_page = 0 then Some (Err UnexpectedEofOrFault, buf)
             else if min len_in_page (length buf - dest_off) = 0 \<and> len_to_copy - bytes_copied > 0
               then Some (Err InternalBufferOverflow, buf)
             else let now = min len_in_page (length buf - dest_off)
               in copy_from_user_loop k token
                    (take dest_off buf @ pm_read k pa now @ drop (dest_off + now) buf)
                    (va + of_nat now) len_to_copy (bytes_copied + now) (dest_off + now))
      else Some (Ok (), buf))"
  by pat_completeness auto
termination
  by (relation "measure (\<lambda>(_, _, _, _, len, n, _). len - n)") auto

declare copy_from_user_loop.simps [simp del]

definition copy_from_user_bytes ::
  "kmem \<Rightarrow> usize \<Rightarrow> u8 list \<Rightarrow> virt_addr \<Rightarrow> nat \<Rightarrow> ((translate_error + unit) \<times> u8 list) option" where
  "copy_from_user_bytes k token buf va len_to_copy = copy_from_user_loop k token buf va len_to_copy 0 0"

text \<open>
  \<open>copy_from_user_array\<close> returns the representations of the elements.  \<open>Vec::with_capacity\<close> panics when
  the capacity in bytes exceeds \<open>isize::MAX\<close>.  The buffer is not initialised: its contents \<open>junk\<close> are arbitrary.
\<close>

fun chunks_of :: "nat \<Rightarrow> nat \<Rightarrow> u8 list \<Rightarrow> u8 list list" where
  "chunks_of 0 n bs = []"
| "chunks_of (Suc c) n bs = take n bs # chunks_of c n (drop n bs)"

definition copy_from_user_array ::
  "kmem \<Rightarrow> usize \<Rightarrow> (nat \<Rightarrow> u8) \<Rightarrow> virt_addr \<Rightarrow> nat \<Rightarrow> nat \<Rightarrow> (translate_error + u8 list list) option" where
  "copy_from_user_array k token junk user_src_ptr n type_size =
     (if n = 0 then Some (Ok [])
      else if type_size = 0 then Some (Ok (replicate n []))
      else if n * type_size \<ge> 2 ^ 64 then Some (Err LengthOverflow)
      else do {
        ensure (n * type_size < 2 ^ 63);
        (r, buf) \<leftarrow> copy_from_user_bytes k token (map junk [0..<n * type_size]) user_src_ptr (n * type_size);
        (case r of Inl e \<Rightarrow> Some (Err e) | Inr _ \<Rightarrow> Some (Ok (chunks_of n type_size buf))) })"

definition copy_from_user_exact :: "kmem \<Rightarrow> usize \<Rightarrow> (nat \<Rightarrow> u8) \<Rightarrow> virt_addr \<Rightarrow> nat \<Rightarrow> (translate_error + u8 list) option" where
  "copy_from_user_exact k token junk user_src size_t = do {
     (r, buf) \<leftarrow> copy_from_user_bytes k token (map junk [0..<size_t]) user_src size_t;
     (case r of Inl e \<Rightarrow> Some (Err e) | Inr _ \<Rightarrow> Some (Ok buf)) }"

definition get_target_continuous_writable_bytes_in_page ::
  "kmem \<Rightarrow> usize \<Rightarrow> virt_addr \<Rightarrow> nat \<Rightarrow> (translate_error + phys_slice \<times> nat) option" where
  "get_target_continuous_writable_bytes_in_page k token va_start max_len =
     (if max_len = 0 then Some (Ok ((0, 0), 0))
      else do {
        r \<leftarrow> pt_translate_va_with_perm k (pt_from_token token) va_start True;
        (case r of Inl e \<Rightarrow> Some (Err e)
         | Inr pa_start \<Rightarrow>
             let bytes_remaining_in_page = PAGE_SIZE - va_page_offset va_start;
                 len_to_get = min max_len bytes_remaining_in_page
             in if len_to_get = 0 then Some (Ok ((0, 0), 0))
                else do {
                  a \<leftarrow> pa_get_mut pa_start;
                  Some (Ok ((a, len_to_get), len_to_get)) }) })"

function copy_to_user_loop ::
  "kmem \<Rightarrow> usize \<Rightarrow> virt_addr \<Rightarrow> u8 list \<Rightarrow> nat \<Rightarrow> nat \<Rightarrow> ((translate_error + nat) \<times> kmem) option" where
  "copy_to_user_loop k token va src bytes_copied src_off =
     (if bytes_copied < length src then
        (case get_target_continuous_writable_bytes_in_page k token va (length src - bytes_copied) of
           None \<Rightarrow> None
         | Some (Inl e) \<Rightarrow> Some (Err e, k)
         | Some (Inr ((pa, _), len_writable)) \<Rightarrow>
             if len_writable = 0 then
               (if length src - bytes_copied > 0 then Some (Err UnexpectedEofOrFault, k) else Some (Ok bytes_copied, k))
             else copy_to_user_loop (pm_write k pa (take len_writable (drop src_off src))) token
                    (va + of_nat len_writable) src (bytes_copied + len_writable) (src_off + len_writable))
      else Some (Ok bytes_copied, k))"
  by pat_completeness auto
termination
  by (relation "measure (\<lambda>(_, _, _, src, n, _). length src - n)") auto

declare copy_to_user_loop.simps [simp del]

definition copy_to_user_bytes :: "kmem \<Rightarrow> usize \<Rightarrow> virt_addr \<Rightarrow> u8 list \<Rightarrow> ((translate_error + nat) \<times> kmem) option" where
  "copy_to_user_bytes k token va src =
     (if length src = 0 then Some (Ok 0, k) else copy_to_user_loop k token va src 0 0)"

definition copy_to_user_bytes_exact :: "kmem \<Rightarrow> usize \<Rightarrow> virt_addr \<Rightarrow> u8 list \<Rightarrow> ((translate_error + unit) \<times> kmem) option" where
  "copy_to_user_bytes_exact k token va src =
     (if length src = 0 then Some (Ok (), k)
      else do {
        (r, k) \<leftarrow> copy_to_user_bytes k token va src;
        (case r of Inl e \<Rightarrow> Some (Err e, k)
         | Inr n \<Rightarrow> Some (if n = length src then Ok () else Err PartialCopy, k)) })"

text \<open>
  \<open>translated_byte_buffer\<close>: the segments as page number and byte range.  \<open>start = end_va.into()\<close> is the
  sign-extending conversion, so the loop need not end for addresses from \<open>2 ^ 38\<close> on.
\<close>

partial_function (option) translated_byte_buffer_loop ::
  "kmem \<Rightarrow> page_table \<Rightarrow> usize \<Rightarrow> usize \<Rightarrow> (ppn \<times> nat \<times> nat) list \<Rightarrow> (ppn \<times> nat \<times> nat) list option" where
  "translated_byte_buffer_loop k pt start e v =
     (if start < e then do {
        r \<leftarrow> pt_translate k pt (va_floor start);
        pte \<leftarrow> r;
        p \<leftarrow> pte_ppn pte;
        let end_va = min (va_of_vpn (va_floor start + 1)) e;
        q \<leftarrow> get_bytes_array p;
        let hi = (if va_page_offset end_va = 0 then PAGE_SIZE else va_page_offset end_va);
        ensure (va_page_offset start \<le> hi);
        translated_byte_buffer_loop k pt (usize_of_va end_va) e (v @ [(q, va_page_offset start, hi)]) }
      else Some v)"

definition translated_byte_buffer :: "kmem \<Rightarrow> usize \<Rightarrow> usize \<Rightarrow> usize \<Rightarrow> (ppn \<times> nat \<times> nat) list option" where
  "translated_byte_buffer k token ptr len =
     translated_byte_buffer_loop k (pt_from_token token) ptr (ptr + len) []"

subsection \<open>Bytes of physical memory\<close>

lemma pa_floor_eq: "pa_floor pa = unat pa div 4096" and pa_page_offset_eq: "pa_page_offset pa = unat pa mod 4096"
  using unat_va_div [of pa] va_page_offset_eq [of pa]
  by (simp_all add: pa_floor_def va_floor_def pa_page_offset_def va_page_offset_def)

lemma pa_eq_iff: "pa = pb \<longleftrightarrow> pa_floor pa = pa_floor pb \<and> pa_page_offset pa = pa_page_offset pb"
  by (metis div_mult_mod_eq pa_floor_eq pa_page_offset_eq word_unat_eq_iff)

lemma pa_get_mut_eq: "pa_get_mut pa = (if pa = 0 then None else Some pa)"
  by (simp add: pa_get_mut_def kernel_of_phys_def phys_of_kernel_def)

lemma pm_byte_put: "pm_byte (pm_put k pa b) pb = (if pa = pb then b else pm_byte k pb)"
  by (auto simp: pm_byte_def pm_put_def read_write_byte pa_eq_iff)

lemma pm_put_other: "q \<noteq> pa_floor pa \<Longrightarrow> mem (pm_put k pa b) q = mem k q"
  by (simp add: pm_put_def write_byte_def)

lemma pm_put_allocator [simp]: "allocator (pm_put k pa b) = allocator k"
  by (simp add: pm_put_def)

lemma pm_write_other: "(\<And>i. i < length bs \<Longrightarrow> q \<noteq> pa_floor (pa + of_nat i)) \<Longrightarrow> mem (pm_write k pa bs) q = mem k q"
proof (induction bs arbitrary: k pa)
  case (Cons b bs)
  have "q \<noteq> pa_floor (pa + 1 + of_nat i)" if "i < length bs" for i
    using Cons.prems [of "Suc i"] that by (simp add: ac_simps)
  then show ?case using Cons.IH [of "pa + 1"] Cons.prems [of 0] by (simp add: pm_put_other)
qed simp

lemma pm_write_allocator [simp]: "allocator (pm_write k pa bs) = allocator k"
  by (induction bs arbitrary: k pa) simp_all

lemma length_pm_read [simp]: "length (pm_read k pa n) = n"
  by (simp add: pm_read_def)

subsection \<open>Translation of user addresses\<close>

text \<open>
  \<open>user_pa\<close> is the address translation as a function of the tables; \<open>user_range\<close> says that the addresses from
  \<open>va\<close> on stay below the direct mapping of the kernel.
\<close>

definition pte_frame :: "pte \<Rightarrow> ppn" where
  "pte_frame e = unat (take_bit 36 (drop_bit 12 e))"

definition user_pa :: "kmem \<Rightarrow> ppn \<Rightarrow> virt_addr \<Rightarrow> phys_addr option" where
  "user_pa k root va =
     map_option (\<lambda>a. pa_of_ppn (pte_frame (read_pte k a)) + of_nat (va_page_offset va))
       (pt_walk k root (va_floor va))"

definition user_range :: "virt_addr \<Rightarrow> nat \<Rightarrow> bool" where
  "user_range va n \<longleftrightarrow> unat va + n \<le> KERNEL_DIRECT_OFFSET"

lemma pte_ppn_frame: "pte_ppn e = Some (pte_frame e)"
proof -
  have "drop_bit 28 (push_bit 16 e) = take_bit 36 (drop_bit 12 e)"
    by (rule bit_word_eqI) (auto simp: bit_simps ac_simps)
  then show ?thesis
    by (simp add: pte_ppn_def pte_frame_def usize_get_bits_def PAGE_SIZE_BITS_def PALEN_def)
qed

lemma pte_frame_less: "pte_frame e < 2 ^ 36"
proof -
  have "unat (take_bit 36 w) < 2 ^ 36" for w :: usize
    unfolding unsigned_take_bit_eq by (rule take_bit_nat_less_exp)
  then show ?thesis by (simp add: pte_frame_def)
qed

lemma unat_in_page:
  assumes "va_page_offset va + i < 4096"
  shows "unat (va + of_nat i) = unat va + i"
proof -
  have "unat va < 2 ^ 52 * 4096" using unsigned_less [of va] by simp
  then have "unat va div 4096 < 2 ^ 52" by (rule less_mult_imp_div_less)
  then have "unat va div 4096 * 4096 + 4096 \<le> 2 ^ 64" by simp
  then have "unat va + i < 2 ^ 64"
    using assms div_mult_mod_eq [of "unat va" 4096] unfolding va_page_offset_eq by linarith
  then show ?thesis by (simp add: unat_word_ariths unat_of_nat)
qed

lemma div_mod_in_page:
  assumes "n mod 4096 + i < 4096"
  shows "(n + i) div 4096 = n div 4096" "(n + i) mod 4096 = n mod (4096 :: nat) + i"
proof -
  have "n + i = n div 4096 * 4096 + (n mod 4096 + i)" by simp
  with assms show "(n + i) div 4096 = n div 4096" "(n + i) mod 4096 = n mod 4096 + i"
    by (metis add.commute div_less div_mult_self3 mod_less mod_mult_self3 plus_nat.add_0 zero_neq_numeral)+
qed

lemma va_in_page:
  assumes "va_page_offset va + i < 4096"
  shows "va_floor (va + of_nat i) = va_floor va" "va_page_offset (va + of_nat i) = va_page_offset va + i"
  using assms div_mod_in_page [of "unat va" i]
  by (simp_all add: unat_va_div va_page_offset_eq unat_in_page)

lemma pa_in_page:
  assumes "pa_page_offset pa + i < 4096"
  shows "pa_floor (pa + of_nat i) = pa_floor pa" "pa_page_offset (pa + of_nat i) = pa_page_offset pa + i"
  using va_in_page [of pa i] assms
  by (simp_all add: pa_floor_eq pa_page_offset_eq va_page_offset_eq unat_va_div)

lemma user_pa_page:
  assumes "user_pa k root va = Some pa"
  shows "pa_page_offset pa = va_page_offset va" "unat pa < 2 ^ 48"
proof -
  obtain e where pa: "pa = va_of_vpn (pte_frame e) + of_nat (va_page_offset va)"
    using assms by (auto simp: user_pa_def pa_of_ppn_def va_of_vpn_def)
  have p: "pte_frame e < 2 ^ 52" "pte_frame e < 2 ^ 36" using pte_frame_less [of e] by simp_all
  note f = va_floor_of_vpn_offset [OF p(1) va_page_offset_less, of va]
  show "pa_page_offset pa = va_page_offset va"
    using f(2) by (simp add: pa pa_page_offset_eq va_page_offset_eq)
  have "unat pa = pte_frame e * 4096 + va_page_offset va"
    using va_split [of pa] f by (simp add: pa)
  then show "unat pa < 2 ^ 48" using p(2) va_page_offset_less [of va] by simp
qed

lemma user_pa_in_page:
  assumes "va_page_offset va + i < 4096"
  shows "user_pa k root (va + of_nat i) = map_option (\<lambda>pa. pa + of_nat i) (user_pa k root va)"
  using va_in_page [OF assms] by (cases "pt_walk k root (va_floor va)") (simp_all add: user_pa_def)

lemma pt_translate_va_user:
  assumes "pt_wf k pt T" "user_range va n" "0 < n"
  shows "pt_translate_va k pt va = Some (user_pa k (root_ppn pt) va)"
proof -
  have "\<not> of_nat KERNEL_DIRECT_OFFSET \<le> va"
    using assms(2,3) by (simp add: user_range_def word_le_nat_alt KERNEL_DIRECT_OFFSET_def)
  then show ?thesis
    by (simp add: pt_translate_va_def find_pte_walk [OF assms(1)] user_pa_def pte_ppn_frame split: option.split)
qed

lemma user_range_add:
  assumes "user_range va n" "i \<le> n"
  shows "unat (va + of_nat i) = unat va + i" "user_range (va + of_nat i) (n - i)"
proof -
  have "unat va + i < 2 ^ 64" using assms by (simp add: user_range_def KERNEL_DIRECT_OFFSET_def)
  then show "unat (va + of_nat i) = unat va + i" by (simp add: unat_word_ariths unat_of_nat)
  then show "user_range (va + of_nat i) (n - i)" using assms by (simp add: user_range_def)
qed

lemma pt_wf_token:
  assumes "pt_wf k pt T"
  shows "root_ppn (pt_from_token (pt_token pt)) = root_ppn pt" "pt_wf k (pt_from_token (pt_token pt)) T"
proof -
  have r: "root_ppn pt < 2 ^ 36" using pt_wf_range(2) [OF assms] tree_wfD(1) [OF pt_wfD(4) [OF assms]] by blast
  have m: "push_bit 36 1 - 1 = (mask 36 :: usize)" by (simp add: mask_eq_exp_minus_1)
  have "take_bit 36 (root_ppn pt) = root_ppn pt" "take_bit 64 (root_ppn pt) = root_ppn pt"
    using r by (simp_all add: take_bit_nat_eq_self)
  then have "unat ((of_nat (root_ppn pt) :: usize) AND (push_bit 36 1 - 1)) = root_ppn pt"
    unfolding m take_bit_eq_mask [symmetric] unsigned_take_bit_eq unsigned_of_nat by simp
  then show "root_ppn (pt_from_token (pt_token pt)) = root_ppn pt"
    by (simp add: pt_from_token_def pt_token_def)
  then show "pt_wf k (pt_from_token (pt_token pt)) T"
    using assms by (simp add: pt_wf_def) (simp add: pt_from_token_def)
qed

subsection \<open>Runs of addresses\<close>

text \<open>The number of leading addresses of a run that satisfy a predicate.\<close>

fun ok_prefix :: "(virt_addr \<Rightarrow> bool) \<Rightarrow> virt_addr \<Rightarrow> nat \<Rightarrow> nat" where
  "ok_prefix P va 0 = 0"
| "ok_prefix P va (Suc n) = (if P va then Suc (ok_prefix P (va + 1) n) else 0)"

definition paged :: "(virt_addr \<Rightarrow> bool) \<Rightarrow> bool" where
  "paged P \<longleftrightarrow> (\<forall>va i. va_page_offset va + i < 4096 \<longrightarrow> P (va + of_nat i) = P va)"

lemma ok_prefix_le: "ok_prefix P va n \<le> n"
  by (induction n arbitrary: va) auto

lemma ok_prefix_run:
  assumes "\<And>i. i < c \<Longrightarrow> P (va + of_nat i)" "c \<le> n"
  shows "ok_prefix P va n = c + ok_prefix P (va + of_nat c) (n - c)"
  using assms
proof (induction c arbitrary: va n)
  case (Suc c)
  obtain m where n: "n = Suc m" using Suc.prems(2) by (cases n) auto
  have "P (va + 1 + of_nat i)" if "i < c" for i
    using Suc.prems(1) [of "Suc i"] that by (simp add: ac_simps)
  with Suc.IH [of "va + 1" m] Suc.prems(1) [of 0] Suc.prems(2) show ?case
    by (simp add: n ac_simps)
qed simp

lemma ok_prefix_all: "(\<And>i. i < n \<Longrightarrow> P (va + of_nat i)) \<Longrightarrow> ok_prefix P va n = n"
  using ok_prefix_run [of n P va n] by simp

lemma ok_prefix_page:
  assumes "paged P" "P va" "c = min n (4096 - va_page_offset va)"
  shows "ok_prefix P va n = c + ok_prefix P (va + of_nat c) (n - c)"
  using assms(1,2) by (intro ok_prefix_run) (auto simp: paged_def assms(3))

lemma paged_user_pa: "paged (\<lambda>va. user_pa k root va \<noteq> None)"
  by (auto simp: paged_def user_pa_in_page)

definition user_byte :: "kmem \<Rightarrow> ppn \<Rightarrow> virt_addr \<Rightarrow> u8" where
  "user_byte k root va = pm_byte k (the (user_pa k root va))"

definition user_bytes :: "kmem \<Rightarrow> ppn \<Rightarrow> virt_addr \<Rightarrow> nat \<Rightarrow> u8 list" where
  "user_bytes k root va n = map (\<lambda>i. user_byte k root (va + of_nat i)) [0..<n]"

lemma length_user_bytes [simp]: "length (user_bytes k root va n) = n"
  by (simp add: user_bytes_def)

lemma user_bytes_add:
  "user_bytes k root va (c + m) = user_bytes k root va c @ user_bytes k root (va + of_nat c) m"
proof (rule nth_equalityI)
  fix i assume "i < length (user_bytes k root va (c + m))"
  moreover have "c \<le> i \<Longrightarrow> va + of_nat c + of_nat (i - c) = va + of_nat i" by (simp add: of_nat_diff)
  ultimately show "user_bytes k root va (c + m) ! i = (user_bytes k root va c @ user_bytes k root (va + of_nat c) m) ! i"
    by (cases "i < c") (simp_all add: user_bytes_def nth_append)
qed simp

lemma user_bytes_Suc: "user_bytes k root va (Suc n) = user_byte k root va # user_bytes k root (va + 1) n"
  using user_bytes_add [of k root va 1 n] by (simp add: user_bytes_def)

lemma pm_read_user_bytes:
  assumes "user_pa k root va = Some pa" "va_page_offset va + n \<le> 4096"
  shows "pm_read k pa n = user_bytes k root va n"
  using assms by (auto simp: pm_read_def user_bytes_def user_byte_def user_pa_in_page)

subsection \<open>Copies from user memory\<close>

text \<open>No address of the run translates to physical address 0, which the direct mapping refuses.\<close>

definition no_null :: "kmem \<Rightarrow> ppn \<Rightarrow> virt_addr \<Rightarrow> nat \<Rightarrow> bool" where
  "no_null k root va n \<longleftrightarrow> (\<forall>i<n. user_pa k root (va + of_nat i) \<noteq> Some 0)"

lemma no_null_add:
  assumes "no_null k root va n" "c \<le> n"
  shows "no_null k root (va + of_nat c) (n - c)"
  unfolding no_null_def
proof (intro allI impI)
  fix i assume "i < n - c"
  then have "c + i < n" using assms(2) by simp
  then have "user_pa k root (va + of_nat (c + i)) \<noteq> Some 0" using assms(1) unfolding no_null_def by blast
  then show "user_pa k root (va + of_nat c + of_nat i) \<noteq> Some 0" by (simp add: add.assoc)
qed

lemma no_null_get_mut:
  assumes "no_null k root va n" "0 < n" "user_pa k root va = Some pa"
  shows "pa_get_mut pa = Some pa"
  using assms by (auto simp: no_null_def pa_get_mut_eq dest: spec [of _ 0])

lemma continuous_bytes_user:
  assumes "pt_wf k (pt_from_token token) T" "root = root_ppn (pt_from_token token)" "user_range va n" "0 < n"
  shows "get_target_continuous_bytes_in_page k token va n =
    (case user_pa k root va of None \<Rightarrow> Some (Err (TranslationFailed va))
      | Some pa \<Rightarrow> if pa = 0 then None else Some (Ok ((pa, min n (4096 - va_page_offset va)), min n (4096 - va_page_offset va))))"
proof -
  have "va_page_offset va < 4096" by (rule va_page_offset_less)
  then show ?thesis
    using assms pt_translate_va_user [OF assms(1,3,4)]
    by (auto simp: get_target_continuous_bytes_in_page_def PAGE_SIZE_def Let_def pa_get_mut_eq split: option.split)
qed

text \<open>In a page only the first address can be physical address 0.\<close>

lemma user_pa_page_null:
  assumes "user_pa k root va = Some pa" "pa \<noteq> 0" "va_page_offset va + i < 4096"
  shows "user_pa k root (va + of_nat i) \<noteq> Some 0"
proof -
  obtain a where "pa = pa_of_ppn (pte_frame (read_pte k a)) + of_nat (va_page_offset va)"
    using assms(1) by (auto simp: user_pa_def)
  moreover define f where "f = pte_frame (read_pte k a)"
  moreover have "f < 2 ^ 36" unfolding f_def by (rule pte_frame_less)
  ultimately have pa: "pa = of_nat (f * 4096 + va_page_offset va)" "f < 2 ^ 36"
    by (simp_all add: pa_of_ppn_def PAGE_SIZE_BITS_def push_bit_eq_mult)
  have "f * 4096 + va_page_offset va \<noteq> 0" using pa(1) assms(2) by (intro notI) simp
  moreover have "f * 4096 + va_page_offset va + i < 2 ^ LENGTH(64)" using pa(2) assms(3) by simp
  then have "unat (of_nat (f * 4096 + va_page_offset va + i) :: usize) = f * 4096 + va_page_offset va + i"
    by (simp only: unat_of_nat mod_less)
  moreover have "pa + of_nat i = of_nat (f * 4096 + va_page_offset va + i)" by (simp add: pa(1))
  ultimately have "pa + of_nat i \<noteq> 0" by (metis add_eq_0_iff_both_eq_0 unsigned_0)
  then show ?thesis using assms(1) by (simp add: user_pa_in_page [OF assms(3)])
qed

lemma no_null_page:
  assumes "user_pa k root va = Some pa" "pa \<noteq> 0" "va_page_offset va + c \<le> 4096" "c \<le> m"
  shows "no_null k root va m \<longleftrightarrow> no_null k root (va + of_nat c) (m - c)"
proof
  show "no_null k root va m \<Longrightarrow> no_null k root (va + of_nat c) (m - c)" by (rule no_null_add [OF _ assms(4)])
  assume n: "no_null k root (va + of_nat c) (m - c)"
  show "no_null k root va m" unfolding no_null_def
  proof (intro allI impI)
    fix i assume i: "i < m"
    show "user_pa k root (va + of_nat i) \<noteq> Some 0"
    proof (cases "i < c")
      case True
      then show ?thesis using user_pa_page_null [OF assms(1,2), of i] assms(3) by simp
    next
      case False
      then have "va + of_nat i = va + of_nat c + of_nat (i - c)" by (simp add: of_nat_diff)
      then show ?thesis using n i False unfolding no_null_def by (metis diff_less_mono not_less)
    qed
  qed
qed

lemma no_null_mono: "no_null k root va n \<Longrightarrow> m \<le> n \<Longrightarrow> no_null k root va m"
  by (simp add: no_null_def)

lemma copy_from_user_loop_full:
  assumes "pt_wf k (pt_from_token token) T" "root = root_ppn (pt_from_token token)"
    "user_range va (len - n)" "n \<le> len" "len \<le> length buf"
    "m = ok_prefix (\<lambda>a. user_pa k root a \<noteq> None) va (len - n)"
  shows "copy_from_user_loop k token buf va len n n =
    (if no_null k root va m then Some (if m = len - n then Ok () else Err (TranslationFailed (va + of_nat m)),
      take n buf @ user_bytes k root va m @ drop (n + m) buf) else None)"
  using assms
proof (induction "len - n" arbitrary: n va buf m rule: less_induct)
  case less
  let ?P = "\<lambda>a. user_pa k root a \<noteq> None"
  show ?case
  proof (cases "n < len")
    case False
    then show ?thesis using less.prems by (subst copy_from_user_loop.simps) (simp add: user_bytes_def no_null_def)
  next
    case True
    note cb = continuous_bytes_user [OF less.prems(1-3)]
    show ?thesis
    proof (cases "user_pa k root va")
      case None
      have "m = 0" using less.prems(6) True None by (cases "len - n") auto
      then show ?thesis
        using True cb None by (subst copy_from_user_loop.simps) (simp add: user_bytes_def no_null_def)
    next
      case (Some pa)
      define c where "c = min (len - n) (4096 - va_page_offset va)"
      have c: "0 < c" "c \<le> len - n" "va_page_offset va + c \<le> 4096"
        using True va_page_offset_less [of va] by (auto simp: c_def)
      define buf' where "buf' = take n buf @ user_bytes k root va c @ drop (n + c) buf"
      have lb: "length buf' = length buf" "min c (length buf - n) = c"
        using c less.prems(5) True by (auto simp: buf'_def)
      have m: "m = c + ok_prefix ?P (va + of_nat c) (len - n - c)"
        unfolding less.prems(6) by (rule ok_prefix_page [OF paged_user_pa]) (simp_all add: Some c_def)
      have cm: "c \<le> m" using m by simp
      show ?thesis
      proof (cases "pa = 0")
        case z: True
        have "\<not> no_null k root va m" using c(1) cm Some z by (auto simp: no_null_def intro!: exI [of _ 0])
        moreover have "copy_from_user_loop k token buf va len n n = None"
          using True cb Some z by (subst copy_from_user_loop.simps) simp
        ultimately show ?thesis by simp
      next
        case nz: False
        have "copy_from_user_loop k token buf va len n n
            = copy_from_user_loop k token buf' (va + of_nat c) len (n + c) (n + c)"
          using True cb Some nz c lb(2) pm_read_user_bytes [OF Some c(3)]
          by (subst copy_from_user_loop.simps) (simp add: c_def [symmetric] buf'_def Let_def)
        also have "\<dots> = (if no_null k root (va + of_nat c) (m - c)
            then Some (if m - c = len - (n + c) then Ok () else Err (TranslationFailed (va + of_nat c + of_nat (m - c))),
              take (n + c) buf' @ user_bytes k root (va + of_nat c) (m - c) @ drop (n + c + (m - c)) buf') else None)"
          using less.prems c m user_range_add(2) [OF less.prems(3) c(2)]
          by (intro less.hyps) (simp_all add: lb)
        also have "va + of_nat c + of_nat (m - c) = va + of_nat m"
          using cm by (simp add: of_nat_diff)
        also have "take (n + c) buf' @ user_bytes k root (va + of_nat c) (m - c) @ drop (n + c + (m - c)) buf'
            = take n buf @ user_bytes k root va m @ drop (n + m) buf"
        proof -
          have "user_bytes k root va m = user_bytes k root va c @ user_bytes k root (va + of_nat c) (m - c)"
            using user_bytes_add [of k root va c "m - c"] m by simp
          moreover have "take (n + c) buf' = take n buf @ user_bytes k root va c"
            using less.prems(4,5) by (simp add: buf'_def)
          moreover have "drop (n + c + (m - c)) buf' = drop (n + m) buf"
            using less.prems(4,5) m by (simp add: buf'_def ac_simps)
          ultimately show ?thesis by simp
        qed
        also have "m - c = len - (n + c) \<longleftrightarrow> m = len - n" using cm c by linarith
        also have "no_null k root (va + of_nat c) (m - c) \<longleftrightarrow> no_null k root va m"
          using no_null_page [OF Some nz c(3) cm] by simp
        finally show ?thesis .
      qed
    qed
  qed
qed

lemma copy_from_user_loop_exact:
  assumes "pt_wf k (pt_from_token token) T" "root = root_ppn (pt_from_token token)"
    "user_range va (len - n)" "no_null k root va (len - n)" "n \<le> len" "len \<le> length buf"
    "m = ok_prefix (\<lambda>a. user_pa k root a \<noteq> None) va (len - n)"
  shows "copy_from_user_loop k token buf va len n n =
    Some (if m = len - n then Ok () else Err (TranslationFailed (va + of_nat m)),
      take n buf @ user_bytes k root va m @ drop (n + m) buf)"
  using copy_from_user_loop_full [OF assms(1-3,5-7)] no_null_mono [OF assms(4), of m] ok_prefix_le assms(7) by simp

subsection \<open>Stores into user memory\<close>

text \<open>Stores at a list of physical addresses.\<close>

fun put_at :: "kmem \<Rightarrow> phys_addr list \<Rightarrow> u8 list \<Rightarrow> kmem" where
  "put_at k (pa # pas) (b # bs) = put_at (pm_put k pa b) pas bs"
| "put_at k _ _ = k"

definition user_addrs :: "kmem \<Rightarrow> ppn \<Rightarrow> virt_addr \<Rightarrow> nat \<Rightarrow> phys_addr list" where
  "user_addrs k root va n = map (\<lambda>i. the (user_pa k root (va + of_nat i))) [0..<n]"

definition user_put :: "kmem \<Rightarrow> ppn \<Rightarrow> virt_addr \<Rightarrow> u8 list \<Rightarrow> kmem" where
  "user_put k root va bs = put_at k (user_addrs k root va (length bs)) bs"

lemma length_user_addrs [simp]: "length (user_addrs k root va n) = n"
  by (simp add: user_addrs_def)

lemma user_addrs_add:
  "user_addrs k root va (c + m) = user_addrs k root va c @ user_addrs k root (va + of_nat c) m"
proof (rule nth_equalityI)
  fix i assume "i < length (user_addrs k root va (c + m))"
  moreover have "c \<le> i \<Longrightarrow> va + of_nat c + of_nat (i - c) = va + of_nat i" by (simp add: of_nat_diff)
  ultimately show "user_addrs k root va (c + m) ! i = (user_addrs k root va c @ user_addrs k root (va + of_nat c) m) ! i"
    by (cases "i < c") (simp_all add: user_addrs_def nth_append)
qed simp

lemma put_at_append:
  "length pas = length bs \<Longrightarrow> put_at k (pas @ pas') (bs @ bs') = put_at (put_at k pas bs) pas' bs'"
  by (induction k pas bs rule: put_at.induct) simp_all

lemma put_at_allocator [simp]: "allocator (put_at k pas bs) = allocator k"
  by (induction k pas bs rule: put_at.induct) simp_all

lemma put_at_other: "q \<notin> pa_floor ` set pas \<Longrightarrow> mem (put_at k pas bs) q = mem k q"
  by (induction k pas bs rule: put_at.induct) (simp_all add: pm_put_other)

lemma pm_byte_put_at_other: "pb \<notin> set pas \<Longrightarrow> pm_byte (put_at k pas bs) pb = pm_byte k pb"
  by (induction k pas bs rule: put_at.induct) (auto simp: pm_byte_put)

lemma pm_byte_put_at:
  assumes "distinct pas" "length pas = length bs" "i < length bs"
  shows "pm_byte (put_at k pas bs) (pas ! i) = bs ! i"
  using assms
proof (induction k pas bs arbitrary: i rule: put_at.induct)
  case (1 k pa pas b bs)
  then show ?case
    by (cases i) (auto simp: pm_byte_put_at_other pm_byte_put)
qed simp_all

lemma pm_write_put_at: "pm_write k pa bs = put_at k (map (\<lambda>i. pa + of_nat i) [0..<length bs]) bs"
proof (induction bs arbitrary: k pa)
  case (Cons b bs)
  have "map (\<lambda>i. pa + of_nat i) [0..<length (b # bs)] = pa # map (\<lambda>i. pa + 1 + of_nat i) [0..<length bs]"
    by (rule nth_equalityI) (auto simp: nth_Cons ac_simps simp del: upt_Suc split: nat.split)
  then show ?case using Cons.IH [of "pm_put k pa b" "pa + 1"] by simp
qed simp

lemma pm_write_user:
  assumes "user_pa k root va = Some pa" "va_page_offset va + length bs \<le> 4096"
  shows "pm_write k pa bs = user_put k root va bs"
proof -
  have "map (\<lambda>i. pa + of_nat i) [0..<length bs] = user_addrs k root va (length bs)"
    using assms by (auto simp: user_addrs_def user_pa_in_page)
  then show ?thesis by (simp add: pm_write_put_at user_put_def)
qed

subsection \<open>Stores outside the tables\<close>

text \<open>
  Writing frames that hold no table changes no translation.  \<open>copy_ok\<close> describes the runs of addresses that
  can be written: the mapped pages of the run have entries whose flags decode and whose frames are not frames of the
  table tree \<open>T\<close>, and the writable ones are not mapped to frame 0.
\<close>

definition user_writable :: "kmem \<Rightarrow> ppn \<Rightarrow> virt_addr \<Rightarrow> bool" where
  "user_writable k root va = (case pt_walk k root (va_floor va) of None \<Rightarrow> False
     | Some a \<Rightarrow> pte_writable (read_pte k a) = Some True)"

definition page_ok :: "kmem \<Rightarrow> ppn \<Rightarrow> ppn set \<Rightarrow> virt_addr \<Rightarrow> bool" where
  "page_ok k root T va = (case pt_walk k root (va_floor va) of None \<Rightarrow> True
     | Some a \<Rightarrow> pte_flags_of (read_pte k a) \<noteq> None \<and> pte_frame (read_pte k a) \<notin> T
         \<and> (user_writable k root va \<longrightarrow> pte_frame (read_pte k a) \<noteq> 0))"

definition copy_ok :: "kmem \<Rightarrow> ppn \<Rightarrow> ppn set \<Rightarrow> virt_addr \<Rightarrow> nat \<Rightarrow> bool" where
  "copy_ok k root T va n \<longleftrightarrow> (\<forall>i<n. page_ok k root T (va + of_nat i))"

lemma walk_same:
  assumes "pt_wf k pt T" "\<And>q. q \<in> T \<Longrightarrow> mem k' q = mem k q"
  shows "pt_walk k' (root_ppn pt) v = pt_walk k (root_ppn pt) v"
    "pt_walk k (root_ppn pt) v = Some a \<Longrightarrow> read_pte k' a = read_pte k a"
proof -
  note t = tree_wfD [OF pt_wfD(4) [OF assms(1)]]
  have s: "sub_table k' p i = sub_table k p i" if "p \<in> T" for p i
    using assms(2) [OF that] by (simp add: sub_table_def)
  have s1: "sub_table k' p i = sub_table k p i" if "sub_table k (root_ppn pt) j = Some p" for p i j
    using s t(2) [OF that] by blast
  show "pt_walk k' (root_ppn pt) v = pt_walk k (root_ppn pt) v"
  proof (cases "sub_table k (root_ppn pt) (pn_index v 2)")
    case (Some p)
    show ?thesis by (simp add: pt_walk_def s [OF t(1)] Some s1 [OF Some])
  qed (simp add: pt_walk_def s [OF t(1)])
  show "read_pte k' a = read_pte k a" if w: "pt_walk k (root_ppn pt) v = Some a"
  proof -
    obtain p1 p0 where 1: "sub_table k (root_ppn pt) (pn_index v 2) = Some p1" and 2: "sub_table k p1 (pn_index v 1) = Some p0"
      and a: "a = (p0, pn_index v 0)"
      using w by (auto simp: pt_walk_def bind_eq_Some_conv)
    have "p0 \<in> T" using t(4) [OF 1 2] by blast
    from assms(2) [OF this] show ?thesis by (simp add: a read_pte_def)
  qed
qed

lemma pt_wf_transfer:
  assumes "pt_wf k pt T" "\<And>q. q \<in> T \<Longrightarrow> mem k' q = mem k q" "T \<subseteq> fa_used (allocator k')" "kmem_inv k'"
  shows "pt_wf k' pt T"
proof -
  note t = tree_wfD [OF pt_wfD(4) [OF assms(1)]]
  have "tree_wf (sub_table k') (root_ppn pt) T"
  proof (rule tree_wf_cong [OF pt_wfD(4) [OF assms(1)] order_refl])
    have s: "sub_table k' p = sub_table k p" if "p \<in> T" for p
      using assms(2) [OF that] by (simp add: sub_table_def fun_eq_iff)
    show "sub_table k' (root_ppn pt) = sub_table k (root_ppn pt)" by (rule s [OF t(1)])
    show "sub_table k' p = sub_table k p" if "sub_table k (root_ppn pt) i = Some p" for i p
      using t(2) [OF that] by (intro s) blast
  qed
  then show ?thesis using assms by (simp add: pt_wf_def)
qed

lemma pt_wf_same:
  assumes "pt_wf k pt T" "\<And>q. q \<in> T \<Longrightarrow> mem k' q = mem k q" "allocator k' = allocator k" "kmem_inv k'"
  shows "pt_wf k' pt T"
  using pt_wfD(2) [OF assms(1)] by (intro pt_wf_transfer [OF assms(1,2) _ assms(4)]) (simp_all add: assms(3))

lemma pt_leaf_same:
  assumes "pt_wf k pt T" "\<And>q. q \<in> T \<Longrightarrow> mem k' q = mem k q"
  shows "pt_leaf k' (root_ppn pt) v = pt_leaf k (root_ppn pt) v"
  using walk_same [OF assms, of v] by (simp add: pt_leaf_def split: option.splits)

lemma user_pa_same:
  assumes "pt_wf k pt T" "\<And>q. q \<in> T \<Longrightarrow> mem k' q = mem k q"
  shows "user_pa k' (root_ppn pt) va = user_pa k (root_ppn pt) va"
proof (cases "pt_walk k (root_ppn pt) (va_floor va)")
  case (Some a)
  then show ?thesis using walk_same(2) [OF assms Some] walk_same(1) [OF assms, of "va_floor va"] by (simp add: user_pa_def)
next
  case None
  then show ?thesis using walk_same(1) [OF assms, of "va_floor va"] by (simp add: user_pa_def)
qed

lemma page_same:
  assumes "pt_wf k pt T" "\<And>q. q \<in> T \<Longrightarrow> mem k' q = mem k q"
  shows "user_writable k' (root_ppn pt) va = user_writable k (root_ppn pt) va"
    "page_ok k' (root_ppn pt) T va = page_ok k (root_ppn pt) T va"
proof -
  note w = walk_same(1) [OF assms, of "va_floor va"]
  show "user_writable k' (root_ppn pt) va = user_writable k (root_ppn pt) va"
    using walk_same(2) [OF assms, of "va_floor va"] by (auto simp: user_writable_def w split: option.split)
  then show "page_ok k' (root_ppn pt) T va = page_ok k (root_ppn pt) T va"
    using walk_same(2) [OF assms, of "va_floor va"] by (auto simp: page_ok_def w split: option.split)
qed

lemma paged_writable: "paged (user_writable k root)"
  by (auto simp: paged_def user_writable_def va_in_page)

lemma user_pa_frame:
  assumes "pt_walk k root (va_floor va) = Some a" "user_pa k root va = Some pa"
  shows "pa_floor pa = pte_frame (read_pte k a)"
proof -
  have p: "pte_frame (read_pte k a) < 2 ^ 52" using pte_frame_less [of "read_pte k a"] by simp
  have "pa = va_of_vpn (pte_frame (read_pte k a)) + of_nat (va_page_offset va)"
    using assms by (auto simp: user_pa_def pa_of_ppn_def va_of_vpn_def)
  then show ?thesis
    using va_floor_of_vpn_offset(1) [OF p va_page_offset_less, of va] by (simp add: pa_floor_eq unat_va_div)
qed

lemma page_ok_pa:
  assumes "page_ok k root T va" "user_writable k root va"
  obtains pa where "user_pa k root va = Some pa" "pa_floor pa \<notin> T" "pa_floor pa \<noteq> 0" "pa_get_mut pa = Some pa"
proof -
  obtain a where a: "pt_walk k root (va_floor va) = Some a" "pte_frame (read_pte k a) \<notin> T" "pte_frame (read_pte k a) \<noteq> 0"
    using assms by (auto simp: page_ok_def user_writable_def split: option.splits)
  obtain pa where pa: "user_pa k root va = Some pa" using a(1) by (simp add: user_pa_def)
  have "pa_floor pa \<noteq> 0" "pa_floor pa \<notin> T" using user_pa_frame [OF a(1) pa] a by auto
  moreover from this have "pa_get_mut pa = Some pa" by (auto simp: pa_get_mut_eq pa_floor_def)
  ultimately show thesis using that pa by blast
qed

lemma kmem_inv_put_at [simp]: "kmem_inv (put_at k pas bs) \<longleftrightarrow> kmem_inv k"
  by (induction k pas bs rule: put_at.induct) (simp_all add: pm_put_def write_byte_def)

lemma user_put_outside:
  assumes "pt_wf k pt T" "copy_ok k (root_ppn pt) T va (length bs)"
    "\<forall>i<length bs. user_writable k (root_ppn pt) (va + of_nat i)" "k' = user_put k (root_ppn pt) va bs"
  shows "\<And>q. q \<in> T \<Longrightarrow> mem k' q = mem k q" "pt_wf k' pt T"
proof -
  have f: "q \<notin> pa_floor ` set (user_addrs k (root_ppn pt) va (length bs))" if "q \<in> T" for q
  proof
    assume "q \<in> pa_floor ` set (user_addrs k (root_ppn pt) va (length bs))"
    then obtain i where i: "i < length bs" "q = pa_floor (the (user_pa k (root_ppn pt) (va + of_nat i)))"
      by (auto simp: user_addrs_def)
    have "page_ok k (root_ppn pt) T (va + of_nat i)" using assms(2) i(1) by (simp add: copy_ok_def)
    then obtain pa where "user_pa k (root_ppn pt) (va + of_nat i) = Some pa" "pa_floor pa \<notin> T"
      using page_ok_pa assms(3) i(1) by blast
    then show False using i(2) that by simp
  qed
  show m: "mem k' q = mem k q" if "q \<in> T" for q
    unfolding assms(4) user_put_def by (rule put_at_other [OF f [OF that]])
  show "pt_wf k' pt T"
    using pt_wfD(1) [OF assms(1)]
    by (intro pt_wf_same [OF assms(1)]) (simp_all add: m, simp_all add: assms(4) user_put_def)
qed

lemma user_put_append:
  assumes "\<And>a. user_pa (user_put k root va bs) root a = user_pa k root a"
  shows "user_put (user_put k root va bs) root (va + of_nat (length bs)) bs' = user_put k root va (bs @ bs')"
proof -
  have "user_addrs (user_put k root va bs) root a n = user_addrs k root a n" for a n
    by (simp add: user_addrs_def assms)
  then have "user_put (user_put k root va bs) root (va + of_nat (length bs)) bs'
      = put_at (put_at k (user_addrs k root va (length bs)) bs) (user_addrs k root (va + of_nat (length bs)) (length bs')) bs'"
    by (simp add: user_put_def)
  also have "\<dots> = put_at k (user_addrs k root va (length bs) @ user_addrs k root (va + of_nat (length bs)) (length bs')) (bs @ bs')"
    by (simp add: put_at_append)
  finally show ?thesis by (simp add: user_put_def user_addrs_add [symmetric])
qed

lemma translate_writable:
  assumes "pt_wf k pt T" "root = root_ppn pt" "page_ok k root T va"
  shows "pt_translate_va_with_perm k pt va True =
    Some (if user_writable k root va then Ok (the (user_pa k root va)) else Err (PermissionDenied va))"
proof (cases "pt_walk k root (va_floor va)")
  case (Some a)
  then obtain f where f: "pte_flags_of (read_pte k a) = Some f"
    using assms(3) by (auto simp: page_ok_def)
  show ?thesis
    using Some f assms(2) by (simp add: pt_translate_va_with_perm_def find_pte_walk [OF assms(1)] user_writable_def
      pte_writable_bit [OF f] user_pa_def pte_ppn_frame)
next
  case None
  then show ?thesis
    using assms(2) by (simp add: pt_translate_va_with_perm_def find_pte_walk [OF assms(1)] user_writable_def)
qed

lemma continuous_writable_user:
  assumes "pt_wf k (pt_from_token token) T" "root = root_ppn (pt_from_token token)"
    "page_ok k root T va" "0 < n"
  shows "get_target_continuous_writable_bytes_in_page k token va n =
    Some (if user_writable k root va
      then Ok ((the (user_pa k root va), min n (4096 - va_page_offset va)), min n (4096 - va_page_offset va))
      else Err (PermissionDenied va))"
proof (cases "user_writable k root va")
  case True
  obtain pa where "user_pa k root va = Some pa" "pa_get_mut pa = Some pa"
    using page_ok_pa [OF assms(3) True] by blast
  moreover have "va_page_offset va < 4096" by (rule va_page_offset_less)
  ultimately show ?thesis
    using True assms(4) translate_writable [OF assms(1-3)]
    by (auto simp: get_target_continuous_writable_bytes_in_page_def PAGE_SIZE_def Let_def)
next
  case False
  then show ?thesis
    using assms(4) translate_writable [OF assms(1-3)]
    by (simp add: get_target_continuous_writable_bytes_in_page_def)
qed

lemma copy_ok_add:
  assumes "copy_ok k root T va n" "c \<le> n"
  shows "copy_ok k root T (va + of_nat c) (n - c)"
  unfolding copy_ok_def
proof (intro allI impI)
  fix i assume "i < n - c"
  then have "c + i < n" using assms(2) by simp
  then have "page_ok k root T (va + of_nat (c + i))" using assms(1) unfolding copy_ok_def by blast
  then show "page_ok k root T (va + of_nat c + of_nat i)" by (simp add: add.assoc)
qed

lemma copy_ok_le: "copy_ok k root T va n \<Longrightarrow> m \<le> n \<Longrightarrow> copy_ok k root T va m"
  by (auto simp: copy_ok_def)

lemma copy_to_user_loop_exact:
  assumes "pt_wf k (pt_from_token token) T" "root = root_ppn (pt_from_token token)" "n \<le> length src"
    "copy_ok k root T va (length src - n)" "m = ok_prefix (user_writable k root) va (length src - n)"
  shows "copy_to_user_loop k token va src n n =
    Some (if m = length src - n then Ok (length src) else Err (PermissionDenied (va + of_nat m)),
      user_put k root va (take m (drop n src)))"
  using assms
proof (induction "length src - n" arbitrary: k n va m rule: less_induct)
  case less
  show ?case
  proof (cases "n < length src")
    case False
    then show ?thesis
      using less.prems by (subst copy_to_user_loop.simps) (simp add: user_put_def)
  next
    case True
    have ok: "page_ok k root T va" using less.prems(4) True by (auto simp: copy_ok_def dest: spec [of _ 0])
    note cw = continuous_writable_user [OF less.prems(1,2) ok, of "length src - n"]
    show ?thesis
    proof (cases "user_writable k root va")
      case False
      have "m = 0" using less.prems(5) True False by (cases "length src - n") auto
      then show ?thesis
        using True cw False by (subst copy_to_user_loop.simps) (simp add: user_put_def)
    next
      case w: True
      define c where "c = min (length src - n) (4096 - va_page_offset va)"
      define bs where "bs = take c (drop n src)"
      define k' where "k' = user_put k root va bs"
      have c: "0 < c" "c \<le> length src - n" "va_page_offset va + c \<le> 4096" "length bs = c"
        using True va_page_offset_less [of va] by (auto simp: c_def bs_def)
      have m: "m = c + ok_prefix (user_writable k root) (va + of_nat c) (length src - n - c)"
        unfolding less.prems(5) by (rule ok_prefix_page [OF paged_writable w c_def])
      have cm: "c \<le> m" using m by simp
      obtain pa where pa: "user_pa k root va = Some pa" using page_ok_pa [OF ok w] by blast
      have wr: "\<forall>i<length bs. user_writable k root (va + of_nat i)"
        using paged_writable [of k root] w c by (auto simp: paged_def)
      note out = user_put_outside [OF less.prems(1) copy_ok_le [OF less.prems(4) c(2), folded c(4), unfolded less.prems(2)]
        wr [unfolded less.prems(2)] k'_def [unfolded less.prems(2)]]
      note same = user_pa_same [OF less.prems(1) out(1), folded less.prems(2)]
        page_same [OF less.prems(1) out(1), folded less.prems(2)]
      have "copy_to_user_loop k token va src n n = copy_to_user_loop k' token (va + of_nat c) src (n + c) (n + c)"
        using True cw w c pa pm_write_user [OF pa, of bs]
        by (subst copy_to_user_loop.simps) (simp add: c_def [symmetric] bs_def [symmetric] k'_def)
      also have "\<dots> = Some (if m - c = length src - (n + c) then Ok (length src)
            else Err (PermissionDenied (va + of_nat c + of_nat (m - c))),
          user_put k' root (va + of_nat c) (take (m - c) (drop (n + c) src)))"
      proof (rule less.hyps)
        show "length src - (n + c) < length src - n" using c True by simp
        show "pt_wf k' (pt_from_token token) T" by (rule out(2))
        show "root = root_ppn (pt_from_token token)" by (rule less.prems(2))
        show "n + c \<le> length src" using c True by simp
        show "copy_ok k' root T (va + of_nat c) (length src - (n + c))"
          using copy_ok_add [OF less.prems(4) c(2)] by (simp add: copy_ok_def same)
        have "user_writable k' root = user_writable k root" by (simp add: fun_eq_iff same)
        then show "m - c = ok_prefix (user_writable k' root) (va + of_nat c) (length src - (n + c))"
          using m by simp
      qed
      also have "user_put k' root (va + of_nat c) (take (m - c) (drop (n + c) src)) = user_put k root va (take m (drop n src))"
      proof -
        have "take m (drop n src) = bs @ take (m - c) (drop (n + c) src)"
          using cm take_add [of c "m - c" "drop n src"] by (simp add: bs_def ac_simps)
        then show ?thesis
          using user_put_append [of k root va bs] same(1) c(4) by (simp add: k'_def)
      qed
      also have "va + of_nat c + of_nat (m - c) = va + of_nat m" using cm by (simp add: of_nat_diff)
      also have "m - c = length src - (n + c) \<longleftrightarrow> m = length src - n" using cm c by linarith
      finally show ?thesis .
    qed
  qed
qed

subsection \<open>Values in user memory\<close>

lemma get_data_bytes_user:
  assumes "pt_wf k pt T" "root = root_ppn pt" "user_range va n" "no_null k root va n"
    "\<And>i. i < n \<Longrightarrow> user_pa k root (va + of_nat i) \<noteq> None"
  shows "get_data_bytes k pt va n = Some (user_bytes k root va n)"
  using assms
proof (induction n arbitrary: va)
  case (Suc n)
  obtain pa where pa: "user_pa k root va = Some pa" using Suc.prems(5) [of 0] by auto
  have t: "pt_translate_va k pt va = Some (Some pa)"
    using pt_translate_va_user [OF Suc.prems(1,3)] pa Suc.prems(2) by simp
  have "user_pa k root (va + 1 + of_nat i) \<noteq> None" if "i < n" for i
    using Suc.prems(5) [of "Suc i"] that by (simp add: ac_simps)
  then have "get_data_bytes k pt (va + 1) n = Some (user_bytes k root (va + 1) n)"
    using Suc.IH [of "va + 1"] Suc.prems(1,2) user_range_add(2) [OF Suc.prems(3), of 1] no_null_add [OF Suc.prems(4), of 1]
    by simp
  then show ?case
    using t no_null_get_mut [OF Suc.prems(4) _ pa] pa by (simp add: user_bytes_Suc user_byte_def)
qed (simp add: user_bytes_def)

lemma crossing_iff:
  assumes "user_pa k root va = Some pa" "user_range va n" "0 < n"
  shows "pa_floor (pa + of_nat (n - 1)) = pa_floor pa \<longleftrightarrow> va_page_offset va + n \<le> 4096"
proof -
  obtain m where m: "n = Suc m" using assms(3) by (cases n) auto
  note p = user_pa_page [OF assms(1)]
  have n: "n \<le> 0x9000000000000000" using assms(2) by (simp add: user_range_def KERNEL_DIRECT_OFFSET_def)
  have "unat pa + m < 2 ^ 64" using p(2) n m by simp
  then have u: "unat (pa + of_nat m) = unat pa + m" by (simp add: unat_word_ariths unat_of_nat)
  have "(unat pa + m) div 4096 = unat pa div 4096 \<longleftrightarrow> unat pa mod 4096 + m < 4096"
  proof
    assume "(unat pa + m) div 4096 = unat pa div 4096"
    then show "unat pa mod 4096 + m < 4096"
      using div_mult_mod_eq [of "unat pa + m" 4096] div_mult_mod_eq [of "unat pa" 4096]
        mod_less_divisor [of 4096 "unat pa + m"] by linarith
  qed (simp add: div_mod_in_page)
  then show ?thesis
    using p(1) by (auto simp: m pa_floor_eq u pa_page_offset_eq)
qed

lemma get_data_user:
  assumes "pt_wf k (pt_from_token token) T" "root = root_ppn (pt_from_token token)" "user_range va n"
    "no_null k root va n" "0 < n" "\<And>i. i < n \<Longrightarrow> user_pa k root (va + of_nat i) \<noteq> None"
  shows "get_data k token va n = Some (user_bytes k root va n)"
proof -
  obtain pa where pa: "user_pa k root va = Some pa" using assms(5) assms(6) [of 0] by auto
  have t: "pt_translate_va k (pt_from_token token) va = Some (Some pa)"
    using pt_translate_va_user [OF assms(1,3,5)] pa assms(2) by simp
  have e: "pa + of_nat n - 1 = pa + of_nat (n - 1)" using assms(5) by (cases n) simp_all
  show ?thesis
  proof (cases "va_page_offset va + n \<le> 4096")
    case True
    then show ?thesis
      using crossing_iff [OF pa assms(3,5)] no_null_get_mut [OF assms(4,5) pa] pm_read_user_bytes [OF pa True]
      by (simp add: get_data_def t e translated_ref_def)
  next
    case False
    then show ?thesis
      using crossing_iff [OF pa assms(3,5)] get_data_bytes_user [OF assms(1-4,6)]
      by (simp add: get_data_def t e)
  qed
qed

lemma put_data_bytes_user:
  assumes "pt_wf k pt T" "root = root_ppn pt" "user_range va (length bs)" "copy_ok k root T va (length bs)"
    "\<And>i. i < length bs \<Longrightarrow> user_writable k root (va + of_nat i)"
  shows "put_data_bytes k pt va bs = Some (Ok (), user_put k root va bs)"
  using assms
proof (induction bs arbitrary: k va)
  case (Cons b bs)
  have ok: "page_ok k root T va" using Cons.prems(4) by (auto simp: copy_ok_def dest: spec [of _ 0])
  obtain pa where pa: "user_pa k root va = Some pa" "pa_get_mut pa = Some pa"
    using page_ok_pa [OF ok] Cons.prems(5) [of 0] by auto
  have t: "pt_translate_va k pt va = Some (Some pa)"
    using pt_translate_va_user [OF Cons.prems(1,3)] pa(1) Cons.prems(2) by simp
  define k' where "k' = user_put k root va [b]"
  have k': "pm_put k pa b = k'" by (simp add: k'_def user_put_def user_addrs_def pa(1))
  have "copy_ok k root T va (length [b])" using copy_ok_le [OF Cons.prems(4), of 1] by simp
  moreover have "\<forall>i<length [b]. user_writable k root (va + of_nat i)" using Cons.prems(5) [of 0] by simp
  ultimately have out: "\<And>q. q \<in> T \<Longrightarrow> mem k' q = mem k q" "pt_wf k' pt T"
    using user_put_outside [OF Cons.prems(1) _ _ k'_def [unfolded Cons.prems(2)]] Cons.prems(2) by blast+
  note same = user_pa_same [OF Cons.prems(1) out(1), folded Cons.prems(2)]
    page_same [OF Cons.prems(1) out(1), folded Cons.prems(2)]
  have "put_data_bytes k' pt (va + 1) bs = Some (Ok (), user_put k' root (va + 1) bs)"
  proof (rule Cons.IH [OF out(2) Cons.prems(2)])
    show "user_range (va + 1) (length bs)" using user_range_add(2) [OF Cons.prems(3), of 1] by simp
    show "copy_ok k' root T (va + 1) (length bs)"
      using copy_ok_add [OF Cons.prems(4), of 1] by (simp add: copy_ok_def same)
    show "user_writable k' root (va + 1 + of_nat i)" if "i < length bs" for i
      using Cons.prems(5) [of "Suc i"] that by (simp add: same ac_simps)
  qed
  then show ?case
    using t pa(2) user_put_append [of k root va "[b]" bs] same(1) by (simp add: k' k'_def [symmetric])
qed (simp add: user_put_def)

lemma put_data_user:
  assumes "pt_wf k (pt_from_token token) T" "root = root_ppn (pt_from_token token)" "user_range va (length bs)"
    "copy_ok k root T va (length bs)" "\<And>i. i < length bs \<Longrightarrow> user_writable k root (va + of_nat i)"
  shows "put_data k token va bs = Some (Ok (), user_put k root va bs)"
proof (cases "bs = []")
  case True
  then show ?thesis by (simp add: put_data_def user_put_def)
next
  case False
  then have n: "0 < length bs" by simp
  have "page_ok k root T va" using assms(4) n by (auto simp: copy_ok_def dest: spec [of _ 0])
  then obtain pa where pa: "user_pa k root va = Some pa" "pa_get_mut pa = Some pa"
    using page_ok_pa [of k root T va] assms(5) [OF n] by auto
  have t: "pt_translate_va k (pt_from_token token) va = Some (Some pa)"
    using pt_translate_va_user [OF assms(1,3) n] pa assms(2) by simp
  obtain m where m: "length bs = Suc m" using n by (cases "length bs") auto
  show ?thesis
    using crossing_iff [OF pa(1) assms(3) n] pm_write_user [OF pa(1), of bs] put_data_bytes_user [OF assms] m pa(2)
    by (auto simp: put_data_def t Let_def)
qed

subsection \<open>Round trips\<close>

text \<open>
  A run of addresses that can hold data: all pages are mapped writable to frames outside the tables, and no
  two addresses of the run share a byte of memory.
\<close>

definition user_room :: "kmem \<Rightarrow> ppn \<Rightarrow> ppn set \<Rightarrow> virt_addr \<Rightarrow> nat \<Rightarrow> bool" where
  "user_room k root T va n \<longleftrightarrow> user_range va n \<and> distinct (user_addrs k root va n)
     \<and> (\<forall>i<n. page_ok k root T (va + of_nat i) \<and> user_writable k root (va + of_nat i))"

lemma user_room_mapped:
  assumes "user_room k root T va n"
  shows "no_null k root va n" "i < n \<Longrightarrow> user_pa k root (va + of_nat i) \<noteq> None"
proof -
  have "\<exists>pa. user_pa k root (va + of_nat i) = Some pa \<and> pa_floor pa \<noteq> 0" if "i < n" for i
    using assms that page_ok_pa [of k root T "va + of_nat i"] by (auto simp: user_room_def)
  then show "no_null k root va n" "i < n \<Longrightarrow> user_pa k root (va + of_nat i) \<noteq> None"
    by (force simp: no_null_def pa_floor_def)+
qed

lemma user_room_put:
  assumes "pt_wf k pt T" "root = root_ppn pt" "user_room k root T va (length bs)" "k' = user_put k root va bs"
  shows "pt_wf k' pt T" "user_room k' root T va (length bs)" "user_bytes k' root va (length bs) = bs"
    "user_pa k' root a = user_pa k root a" "pa \<notin> set (user_addrs k root va (length bs)) \<Longrightarrow> pm_byte k' pa = pm_byte k pa"
proof -
  have out: "\<And>q. q \<in> T \<Longrightarrow> mem k' q = mem k q" "pt_wf k' pt T"
    using user_put_outside [OF assms(1), of va bs k'] assms(2-4) by (auto simp: user_room_def copy_ok_def)
  note same = user_pa_same [OF assms(1) out(1), folded assms(2)] page_same [OF assms(1) out(1), folded assms(2)]
  show "pt_wf k' pt T" by (rule out(2))
  show p: "user_pa k' root a = user_pa k root a" for a by (simp add: same)
  have ad: "user_addrs k' root va n = user_addrs k root va n" for n by (simp add: user_addrs_def p)
  show "user_room k' root T va (length bs)"
    using assms(3) by (simp add: user_room_def same ad)
  show "pa \<notin> set (user_addrs k root va (length bs)) \<Longrightarrow> pm_byte k' pa = pm_byte k pa"
    by (simp add: assms(4) user_put_def pm_byte_put_at_other)
  show "user_bytes k' root va (length bs) = bs"
  proof (rule nth_equalityI)
    fix i assume "i < length (user_bytes k' root va (length bs))"
    then have i: "i < length bs" by simp
    then have "the (user_pa k root (va + of_nat i)) = user_addrs k root va (length bs) ! i"
      by (simp add: user_addrs_def)
    then have "user_bytes k' root va (length bs) ! i = pm_byte k' (user_addrs k root va (length bs) ! i)"
      using i by (simp add: user_bytes_def user_byte_def p)
    also have "\<dots> = bs ! i"
      unfolding assms(4) user_put_def using assms(3) i by (intro pm_byte_put_at) (simp_all add: user_room_def)
    finally show "user_bytes k' root va (length bs) ! i = bs ! i" .
  qed simp
qed

lemma copy_to_user_room:
  assumes "pt_wf k (pt_from_token token) T" "root = root_ppn (pt_from_token token)" "user_room k root T va (length src)"
  shows "copy_to_user_bytes k token va src = Some (Ok (length src), user_put k root va src)"
proof -
  have "copy_ok k root T va (length src - 0)" using assms(3) by (auto simp: user_room_def copy_ok_def)
  moreover have "ok_prefix (user_writable k root) va (length src - 0) = length src"
    using assms(3) by (simp add: ok_prefix_all user_room_def)
  ultimately show ?thesis
    using copy_to_user_loop_exact [OF assms(1,2), of 0 src va]
    by (simp add: copy_to_user_bytes_def user_put_def)
qed

lemma user_room_round_trip:
  assumes "pt_wf k (pt_from_token token) T" "root = root_ppn (pt_from_token token)" "user_room k root T va (length src)"
    "src \<noteq> []" "length src \<le> length buf"
  shows "\<exists>k'. copy_to_user_bytes k token va src = Some (Ok (length src), k') \<and> put_data k token va src = Some (Ok (), k')
    \<and> pt_wf k' (pt_from_token token) T
    \<and> copy_from_user_bytes k' token buf va (length src) = Some (Ok (), src @ drop (length src) buf)
    \<and> get_data k' token va (length src) = Some src
    \<and> (\<forall>pa. pa \<notin> set (user_addrs k root va (length src)) \<longrightarrow> pm_byte k' pa = pm_byte k pa)"
proof -
  define k' where "k' = user_put k root va src"
  note put = user_room_put [OF assms(1,2,3) k'_def]
  note mapped = user_room_mapped [OF put(2)]
  have rg: "user_range va (length src)" using assms(3) by (simp add: user_room_def)
  have "put_data k token va src = Some (Ok (), k')"
    unfolding k'_def using assms(3) by (intro put_data_user [OF assms(1,2) rg]) (auto simp: user_room_def copy_ok_def)
  moreover have "get_data k' token va (length src) = Some src"
    using get_data_user [OF put(1) assms(2) rg mapped(1) _ mapped(2)] assms(4) put(3) by simp
  moreover have "ok_prefix (\<lambda>a. user_pa k' root a \<noteq> None) va (length src - 0) = length src"
    using ok_prefix_all [of "length src" "\<lambda>a. user_pa k' root a \<noteq> None" va, OF mapped(2)] by simp
  then have "copy_from_user_bytes k' token buf va (length src) = Some (Ok (), src @ drop (length src) buf)"
    using copy_from_user_loop_exact [OF put(1) assms(2), of va "length src" 0 buf] rg mapped(1) assms(5) put(3)
    by (simp add: copy_from_user_bytes_def)
  ultimately show ?thesis
    using copy_to_user_room [OF assms(1-3)] put(1,5) k'_def by blast
qed

subsection \<open>Strings in user memory\<close>

lemma user_room_take: "user_room k root T va n \<Longrightarrow> m \<le> n \<Longrightarrow> user_room k root T va m"
  using user_addrs_add [of k root va m "n - m"] by (auto simp: user_room_def user_range_def)

lemma user_room_drop:
  assumes "user_room k root T va n" "c \<le> n"
  shows "user_room k root T (va + of_nat c) (n - c)"
proof -
  have "page_ok k root T (va + of_nat c + of_nat i) \<and> user_writable k root (va + of_nat c + of_nat i)" if "i < n - c" for i
  proof -
    have "c + i < n" using that by simp
    then have "page_ok k root T (va + of_nat (c + i)) \<and> user_writable k root (va + of_nat (c + i))"
      using assms(1) unfolding user_room_def by blast
    then show ?thesis by (simp add: add.assoc)
  qed
  then show ?thesis
    using assms user_addrs_add [of k root va c "n - c"] user_range_add(2) [of va n c] by (auto simp: user_room_def)
qed

lemma put_data_room:
  assumes "pt_wf k (pt_from_token token) T" "root = root_ppn (pt_from_token token)" "user_room k root T va (length bs)"
  shows "put_data k token va bs = Some (Ok (), user_put k root va bs)"
  using assms(3) by (intro put_data_user [OF assms(1,2)]) (auto simp: user_room_def copy_ok_def)

lemma user_room_same:
  assumes "pt_wf k pt T" "root = root_ppn pt" "user_room k root T va (length bs)" "k' = user_put k root va bs"
  shows "user_room k' root T a n = user_room k root T a n"
proof -
  have out: "\<And>q. q \<in> T \<Longrightarrow> mem k' q = mem k q"
    using user_put_outside [OF assms(1), of va bs k'] assms(2-4) by (auto simp: user_room_def copy_ok_def)
  note same = user_pa_same [OF assms(1) out, folded assms(2)] page_same [OF assms(1) out, folded assms(2)]
  show ?thesis by (simp add: user_room_def same user_addrs_def)
qed

lemma fill_bytes_user:
  assumes "pt_wf k (pt_from_token token) T" "root = root_ppn (pt_from_token token)" "user_room k root T va (length bs)"
  shows "fill_bytes k token va bs = Some (Ok (), user_put k root va bs)"
  using assms
proof (induction bs arbitrary: k va)
  case (Cons b bs)
  define k' where "k' = user_put k root va [b]"
  have r: "user_room k root T va (length [b])" using user_room_take [OF Cons.prems(3), of 1] by simp
  note put = user_room_put [OF Cons.prems(1,2) r k'_def]
  have "user_room k' root T (va + 1) (length bs)"
    using user_room_drop [OF Cons.prems(3), of 1] user_room_same [OF Cons.prems(1,2) r k'_def] by simp
  from Cons.IH [OF put(1) Cons.prems(2) this]
  show ?case
    using put_data_room [OF Cons.prems(1,2) r] user_put_append [of k root va "[b]" bs] put(4)
    by (simp add: k'_def [symmetric])
qed (simp add: user_put_def)

lemma fill_str_user:
  assumes "pt_wf k (pt_from_token token) T" "root = root_ppn (pt_from_token token)"
    "w = min (length bytes) (unat (max_len - 1))" "user_room k root T va (w + 1)"
  shows "fill_str k token va bytes max_len = Some (Ok (), user_put k root va (take w bytes @ [0]))"
proof -
  let ?s = "take w bytes"
  have l: "length ?s = w" using assms(3) by simp
  have r: "user_room k root T va (length ?s)" using user_room_take [OF assms(4), of w] l by simp
  define k' where "k' = user_put k root va ?s"
  note put = user_room_put [OF assms(1,2) r k'_def]
  have "user_room k' root T (va + of_nat w) (length [0 :: u8])"
    using user_room_drop [OF assms(4), of w] user_room_same [OF assms(1,2) r k'_def] by simp
  note put_data_room [OF put(1) assms(2) this]
  moreover have "user_put k' root (va + of_nat w) [0] = user_put k root va (?s @ [0])"
    using user_put_append [of k root va ?s "[0]"] put(4) l by (simp add: k'_def)
  ultimately show ?thesis
    using fill_bytes_user [OF assms(1,2) r] by (simp add: fill_str_def Let_def assms(3) [symmetric] k'_def [symmetric])
qed

lemma translated_str_loop_user:
  assumes "pt_wf k pt T" "root = root_ppn pt" "user_range va (Suc (length bs))" "no_null k root va (Suc (length bs))"
    "\<And>i. i < Suc (length bs) \<Longrightarrow> user_pa k root (va + of_nat i) \<noteq> None"
    "user_bytes k root va (Suc (length bs)) = bs @ [0]" "0 \<notin> set bs"
  shows "translated_str_loop k pt va s = Some (s @ bs)"
  using assms
proof (induction bs arbitrary: va s)
  case Nil
  obtain pa where pa: "user_pa k root va = Some pa" using Nil.prems(5) [of 0] by auto
  show ?case
    using pt_translate_va_user [OF Nil.prems(1,3)] pa Nil.prems(2,6) no_null_get_mut [OF Nil.prems(4) _ pa]
    by (subst translated_str_loop.simps) (simp add: user_bytes_Suc user_byte_def)
next
  case (Cons b bs)
  obtain pa where pa: "user_pa k root va = Some pa" using Cons.prems(5) [of 0] by auto
  have b: "pm_byte k pa = b" "b \<noteq> 0" "user_bytes k root (va + 1) (Suc (length bs)) = bs @ [0]"
    using Cons.prems(6,7) pa by (auto simp: user_bytes_Suc [of _ _ va] user_byte_def)
  have m: "user_pa k root (va + 1 + of_nat i) \<noteq> None" if "i < Suc (length bs)" for i
    using Cons.prems(5) [of "Suc i"] that by (simp add: ac_simps)
  have "translated_str_loop k pt (va + 1) (s @ [b]) = Some ((s @ [b]) @ bs)"
    using user_range_add(2) [OF Cons.prems(3), of 1] no_null_add [OF Cons.prems(4), of 1] Cons.prems(7) b(3) m
    by (intro Cons.IH [OF Cons.prems(1,2)]) simp_all
  then show ?case
    using pt_translate_va_user [OF Cons.prems(1,3)] pa Cons.prems(2) no_null_get_mut [OF Cons.prems(4) _ pa] b
    by (subst translated_str_loop.simps) simp
qed

subsection \<open>Segments of a user buffer\<close>

definition segment_bytes :: "kmem \<Rightarrow> ppn \<times> nat \<times> nat \<Rightarrow> u8 list" where
  "segment_bytes k s = (case s of (p, lo, hi) \<Rightarrow> read_bytes k p lo (hi - lo))"

lemma pm_read_in_page:
  assumes "pa_page_offset pa + n \<le> 4096"
  shows "pm_read k pa n = read_bytes k (pa_floor pa) (pa_page_offset pa) n"
  using assms by (auto simp: pm_read_def read_bytes_def pm_byte_def pa_in_page)

lemma segment_user:
  assumes "pt_wf k pt T" "root = root_ppn pt" "unat va < 2 ^ 38" "user_pa k root va = Some pa" "pa_floor pa \<noteq> 0"
  shows "\<exists>e. pt_translate k pt (va_floor va) = Some (Some e) \<and> pte_ppn e = Some (pa_floor pa)
    \<and> get_bytes_array (pa_floor pa) = Some (pa_floor pa)"
proof -
  obtain a where a: "pt_walk k root (va_floor va) = Some a" using assms(4) by (auto simp: user_pa_def)
  have f: "pa_floor pa = pte_frame (read_pte k a)" by (rule user_pa_frame [OF a assms(4)])
  then have p: "pa_floor pa < 2 ^ 36" using pte_frame_less [of "read_pte k a"] by simp
  have "va_floor va < KERNEL_PGNUM_OFFSET"
    using assms(3) by (simp add: unat_va_div KERNEL_PGNUM_OFFSET_def KERNEL_DIRECT_OFFSET_def PAGE_SIZE_BITS_def
      drop_bit_eq_div less_mult_imp_div_less)
  then have "pt_translate k pt (va_floor va) = Some (Some (read_pte k a))"
    using a assms(2) by (simp add: pt_translate_def find_pte_walk [OF assms(1)])
  moreover have "get_bytes_array (pa_floor pa) = Some (pa_floor pa)"
    using get_pte_list_ppn [of "pa_floor pa"] p assms(5) by (simp add: get_bytes_array_def get_pte_list_def)
  ultimately show ?thesis using f by (simp add: pte_ppn_frame)
qed

lemma usize_of_va_low: "unat va < 2 ^ 38 \<Longrightarrow> usize_of_va va = va"
  by (simp add: usize_of_va_def VA_WIDTH_SV39_def word_le_nat_alt)

text \<open>The end of the segment that starts at \<open>start\<close>.\<close>

lemma segment_end:
  assumes "start < e" "unat e < 2 ^ 38" "ev = min (va_of_vpn (Suc (va_floor start))) e"
    "c = min (unat e - unat start) (4096 - va_page_offset start)"
  shows "ev = start + of_nat c" "unat ev = unat start + c" "0 < c" "c \<le> unat e - unat start"
    "(if va_page_offset ev = 0 then PAGE_SIZE else va_page_offset ev) = va_page_offset start + c"
proof -
  have se: "unat start < unat e" using assms(1) by (simp add: word_less_nat_alt)
  have off: "va_page_offset start < 4096" by (rule va_page_offset_less)
  have "va_floor start < 2 ^ 26" using se assms(2) by (simp add: unat_va_div less_mult_imp_div_less)
  then have n: "unat (va_of_vpn (Suc (va_floor start))) = Suc (va_floor start) * 4096" by (intro unat_va_of_vpn) simp
  have "unat ev = min (Suc (va_floor start) * 4096) (unat e)"
    unfolding assms(3) by (auto simp: min_def word_le_nat_alt n)
  then show u: "unat ev = unat start + c"
    using va_split [of start] se off by (auto simp: assms(4) min_def)
  have "unat ev < 2 ^ 64" using unsigned_less [of ev, where 'a = nat] by simp
  then have "unat start + c < 2 ^ 64" using u by simp
  then have "unat (start + of_nat c) = unat start + c" by (simp add: unat_word_ariths unat_of_nat)
  with u show "ev = start + of_nat c" by (simp add: word_unat_eq_iff)
  show "0 < c" "c \<le> unat e - unat start" using se off by (simp_all add: assms(4))
  have c: "va_page_offset start + c \<le> 4096" "0 < c" using se off by (simp_all add: assms(4))
  have "va_page_offset ev = (va_page_offset start + c) mod 4096"
    by (simp add: va_page_offset_eq u mod_simps)
  then show "(if va_page_offset ev = 0 then PAGE_SIZE else va_page_offset ev) = va_page_offset start + c"
    using c by (cases "va_page_offset start + c = 4096") (auto simp: PAGE_SIZE_def)
qed

lemma translated_byte_buffer_loop_user:
  assumes "pt_wf k pt T" "root = root_ppn pt" "unat e < 2 ^ 38" "start \<le> e"
    "\<forall>i < unat e - unat start. \<exists>pa. user_pa k root (start + of_nat i) = Some pa \<and> pa_floor pa \<noteq> 0"
  shows "\<exists>segs. translated_byte_buffer_loop k pt start e v = Some (v @ segs)
    \<and> concat (map (segment_bytes k) segs) = user_bytes k root start (unat e - unat start)"
  using assms(4,5)
proof (induction "unat e - unat start" arbitrary: start v rule: less_induct)
  case less
  show ?case
  proof (cases "start < e")
    case False
    then have "start = e" using less.prems(1) by simp
    then show ?thesis by (subst translated_byte_buffer_loop.simps) (simp add: user_bytes_def)
  next
    case True
    define c where "c = min (unat e - unat start) (4096 - va_page_offset start)"
    define ev where "ev = min (va_of_vpn (Suc (va_floor start))) e"
    note ev = segment_end [OF True assms(3) ev_def c_def]
    have "unat start < unat e" using True by (simp add: word_less_nat_alt)
    then obtain pa where pa: "user_pa k root start = Some pa" "pa_floor pa \<noteq> 0"
      using less.prems(2) by (auto dest: spec [of _ 0])
    have lt: "unat start < 2 ^ 38" "unat ev < 2 ^ 38" using ev(2,4) \<open>unat start < unat e\<close> assms(3) by simp_all
    obtain pte where t: "pt_translate k pt (va_floor start) = Some (Some pte)" "pte_ppn pte = Some (pa_floor pa)"
      "get_bytes_array (pa_floor pa) = Some (pa_floor pa)"
      using segment_user [OF assms(1,2) lt(1) pa] by blast
    let ?s = "(pa_floor pa, va_page_offset start, va_page_offset start + c)"
    have step: "translated_byte_buffer_loop k pt start e v = translated_byte_buffer_loop k pt ev e (v @ [?s])"
      using True t ev(5) by (subst translated_byte_buffer_loop.simps)
        (simp add: ev_def [symmetric] usize_of_va_low [OF lt(2)] Let_def split: if_splits)
    have "\<forall>i < unat e - unat ev. \<exists>pa. user_pa k root (ev + of_nat i) = Some pa \<and> pa_floor pa \<noteq> 0"
    proof (intro allI impI)
      fix i assume "i < unat e - unat ev"
      then have "c + i < unat e - unat start" using ev(2) by simp
      then show "\<exists>pa. user_pa k root (ev + of_nat i) = Some pa \<and> pa_floor pa \<noteq> 0"
        using less.prems(2) [rule_format, of "c + i"] by (simp add: ev(1) add.assoc)
    qed
    moreover have ls: "ev \<le> e" "unat e - unat ev < unat e - unat start" using ev(2-4) by (simp_all add: ev_def)
    ultimately obtain segs where segs: "translated_byte_buffer_loop k pt ev e (v @ [?s]) = Some ((v @ [?s]) @ segs)"
      "concat (map (segment_bytes k) segs) = user_bytes k root ev (unat e - unat ev)"
      using less.hyps [of ev "v @ [?s]"] ls by blast
    have off: "pa_page_offset pa = va_page_offset start" by (rule user_pa_page(1) [OF pa(1)])
    have "segment_bytes k ?s = user_bytes k root start c"
      using pm_read_user_bytes [OF pa(1), of c] pm_read_in_page [of pa c k] off va_page_offset_less [of start]
      by (simp add: segment_bytes_def c_def)
    moreover have "unat e - unat start = c + (unat e - unat ev)" using ev(2,4) by simp
    ultimately have "concat (map (segment_bytes k) (?s # segs)) = user_bytes k root start (unat e - unat start)"
      using segs(2) user_bytes_add [of k root start c] by (simp add: ev(1) [symmetric])
    then show ?thesis using step segs(1) by (intro exI [of _ "?s # segs"]) simp
  qed
qed

end
