(* ===== verification/User_Copy_Props.thy ===== *)
theory User_Copy_Props
  imports User_Copy
begin

text \<open>
  What the accesses to user memory promise, on runs of addresses that the page table maps, and what they do
  on an unmapped page.
\<close>

subsection \<open>A mapped page\<close>

text \<open>
  The booted machine with page 5 mapped writable to frame 100; the statements below are exercised on it.
\<close>

lemma user_room_page:
  assumes "pt_walk k root (va_floor va) = Some a" "read_pte k a = e" "pte_flags_of e = Some f" "bit f 8"
    "pte_frame e \<notin> T" "pte_frame e \<noteq> 0" "va_page_offset va + n \<le> 4096" "user_range va n"
  shows "user_room k root T va n"
proof -
  have pg: "page_ok k root T (va + of_nat i)" "user_writable k root (va + of_nat i)" if "i < n" for i
    using assms that va_in_page [of va i] by (simp_all add: page_ok_def user_writable_def pte_writable_bit)
  obtain pa where pa: "user_pa k root va = Some pa" using assms(1) by (simp add: user_pa_def)
  have "pa + of_nat i = pa + of_nat j \<longleftrightarrow> i = j" if "i < n" "j < n" for i j
  proof -
    have "unat (of_nat i :: usize) = i" "unat (of_nat j :: usize) = j" using that assms(7) by (simp_all add: unat_of_nat)
    then show ?thesis by (metis add_left_cancel)
  qed
  then have "distinct (map (\<lambda>i. pa + of_nat i) [0..<n])" by (auto simp: distinct_map inj_on_def)
  moreover have "map (\<lambda>i. pa + of_nat i) [0..<n] = user_addrs k root va n"
    using assms(7) pa by (auto simp: user_addrs_def user_pa_in_page)
  ultimately show ?thesis using pg assms(8) by (simp add: user_room_def)
qed

lemma demo_page:
  obtains k pt T where "pt_map (snd booted) (fst booted) 5 100 (PTE_V OR PTE_W) = Some (k, pt)" "pt_wf k pt T"
    "\<And>n. n \<le> 4080 \<Longrightarrow> user_room k (root_ppn pt) T 0x5010 n"
    "\<exists>a. pt_walk k (root_ppn pt) 6 = Some a \<and> read_pte k a = 0"
proof -
  have free: "2 \<le> card (fa_frames (allocator (snd booted)) - fa_used (allocator (snd booted)))"
    by (simp add: booted_facts(3))
  obtain T0 where T0: "pt_wf (snd booted) (fst booted) T0" using booted_facts(1) by blast
  obtain e k pt T where m: "pt_map (snd booted) (fst booted) 5 100 (PTE_V OR PTE_W) = Some (k, pt)"
    "pte_new 100 (PTE_V OR PTE_W) = Some e" "pt_wf k pt T"
    "fa_frames (allocator k) = fa_frames (allocator (snd booted))" "root_ppn pt = root_ppn (fst booted)"
    "\<And>w. pt_leaf k (root_ppn (fst booted)) w =
       (if w mod 2 ^ 27 = 5 mod 2 ^ 27 then e else pt_leaf (snd booted) (root_ppn (fst booted)) w)"
    by (rule pt_map_ok [OF T0 free booted_facts(2) [of 5], of 100 "PTE_V OR PTE_W"]) simp_all
  have ok: "pte_flags_ok (PTE_V OR PTE_W)" by (auto simp: pte_flags_ok_bits bit_or_iff PTE_const_bits)
  have e: "pte_flags_of e = Some (PTE_V OR PTE_W)" "pte_frame e = 100"
    using la64.codec [OF _ ok, of 100] m(2) pte_ppn_frame [of e] by auto
  have "e \<noteq> 0" using e(2) by (auto simp: pte_frame_def)
  then obtain a where a: "pt_walk k (root_ppn pt) 5 = Some a" "read_pte k a = e"
    using m(6) [of 5] by (auto simp: pt_leaf_def m(5) split: option.splits)
  have "100 \<notin> T"
  proof
    assume "100 \<in> T"
    then have "100 \<in> fa_frames (allocator k)" using pt_wfD(2) [OF m(3)] fa_used_frames [of "allocator k"] by blast
    then show False by (simp add: m(4) booted_facts(4))
  qed
  moreover have "va_floor 0x5010 = 5" "va_page_offset 0x5010 = 16" by (simp_all add: unat_va_div va_page_offset_eq)
  moreover have "bit (PTE_V OR PTE_W) 8" unfolding bit_or_iff PTE_const_bits by simp
  ultimately have "user_room k (root_ppn pt) T 0x5010 n" if "n \<le> 4080" for n
    using that a e by (intro user_room_page [of k "root_ppn pt" _ a e])
      (simp_all add: user_range_def KERNEL_DIRECT_OFFSET_def)
  moreover have "\<exists>a. pt_walk k (root_ppn pt) 6 = Some a \<and> read_pte k a = 0"
  proof -
    obtain p1 p0 where p: "sub_table k (root_ppn pt) (pn_index 5 2) = Some p1" "sub_table k p1 (pn_index 5 1) = Some p0"
      using a(1) by (auto simp: pt_walk_def bind_eq_Some_conv)
    have "pn_index 6 2 = pn_index 5 2" "pn_index 6 1 = pn_index 5 1" by (simp_all add: pn_index_eq)
    then have "pt_walk k (root_ppn pt) 6 = Some (p0, pn_index 6 0)" using p by (simp add: pt_walk_def)
    moreover have "pt_leaf k (root_ppn pt) 6 = 0" using m(6) [of 6] booted_facts(2) by (simp add: m(5))
    ultimately show ?thesis by (simp add: pt_leaf_def)
  qed
  ultimately show thesis using that m(1,3) by blast
qed

subsection \<open>Properties\<close>

text \<open>
  C37: data written to user memory is read back.  In a run of addresses that can hold data,
  \<open>copy_to_user_bytes\<close> and \<open>put_data\<close> succeed and have the same effect, \<open>copy_from_user_bytes\<close> and \<open>get_data\<close>
  then return exactly the bytes written, wherever the run crosses pages, no other byte of memory
  changes, and the page table stays well formed.
\<close>

theorem user_copy_round_trip:
  assumes "pt_wf k (pt_from_token token) T" "user_room k (root_ppn (pt_from_token token)) T va (length src)"
    "src \<noteq> []" "length src \<le> length buf"
  shows "\<exists>k'. copy_to_user_bytes k token va src = Some (Ok (length src), k') \<and> put_data k token va src = Some (Ok (), k')
    \<and> pt_wf k' (pt_from_token token) T
    \<and> copy_from_user_bytes k' token buf va (length src) = Some (Ok (), src @ drop (length src) buf)
    \<and> get_data k' token va (length src) = Some src
    \<and> (\<forall>pa. pa \<notin> set (user_addrs k (root_ppn (pt_from_token token)) va (length src)) \<longrightarrow> pm_byte k' pa = pm_byte k pa)"
  using user_room_round_trip [OF assms(1) refl assms(2-4)] .

theorem user_copy_round_trip_witness:
  "\<exists>k pt k'. pt_map (snd booted) (fst booted) 5 100 (PTE_V OR PTE_W) = Some (k, pt)
     \<and> copy_to_user_bytes k (pt_token pt) 0x5010 [1, 2, 3] = Some (Ok 3, k')
     \<and> get_data k' (pt_token pt) 0x5010 3 = Some [1, 2, 3]"
proof -
  obtain k pt T where d: "pt_map (snd booted) (fst booted) 5 100 (PTE_V OR PTE_W) = Some (k, pt)" "pt_wf k pt T"
    "\<And>n. n \<le> 4080 \<Longrightarrow> user_room k (root_ppn pt) T 0x5010 n" by (rule demo_page) blast
  have l: "length [1, 2, 3 :: u8] = 3" by simp
  have "user_room k (root_ppn (pt_from_token (pt_token pt))) T 0x5010 (length [1, 2, 3 :: u8])"
    unfolding l pt_wf_token(1) [OF d(2)] by (rule d(3)) simp
  from user_copy_round_trip [OF pt_wf_token(2) [OF d(2)] this, of "[0, 0, 0, 0]", unfolded l] show ?thesis
    using d(1) by auto
qed

text \<open>
  Strings.  \<open>fill_str\<close> stores at most \<open>max_len - 1\<close> bytes of the string and a terminator, and
  \<open>translated_str\<close> reads exactly these bytes back; a string without a zero byte that fits is read back unchanged.
  (For \<open>max_len = 0\<close> the bound wraps and the whole string is stored.)
\<close>

lemma user_string_round_trip:
  assumes "pt_wf k (pt_from_token token) T" "0 \<notin> set bytes"
    "user_room k (root_ppn (pt_from_token token)) T va (min (length bytes) (unat (max_len - 1)) + 1)"
  shows "\<exists>k'. fill_str k token va bytes max_len = Some (Ok (), k')
    \<and> translated_str k' token va = Some (take (unat (max_len - 1)) bytes)"
proof -
  let ?root = "root_ppn (pt_from_token token)"
  define w where "w = min (length bytes) (unat (max_len - 1))"
  define bs where "bs = take w bytes"
  define k' where "k' = user_put k ?root va (bs @ [0])"
  have l: "length bs = w" "length (bs @ [0]) = Suc w" by (simp_all add: bs_def w_def)
  have f: "fill_str k token va bytes max_len = Some (Ok (), k')"
    using fill_str_user [OF assms(1) refl w_def] assms(3) by (simp add: k'_def bs_def w_def)
  have r: "user_room k ?root T va (length (bs @ [0]))" using assms(3) l by (simp add: w_def)
  note put = user_room_put [OF assms(1) refl r k'_def]
  note mapped = user_room_mapped [OF put(2)]
  have z: "0 \<notin> set bs" using assms(2) set_take_subset [of w bytes] by (auto simp: bs_def)
  have "translated_str_loop k' (pt_from_token token) va [] = Some ([] @ bs)"
  proof (rule translated_str_loop_user [OF put(1) refl])
    show "user_range va (Suc (length bs))" using put(2) by (simp add: user_room_def)
    show "no_null k' ?root va (Suc (length bs))" using mapped(1) by simp
    show "user_pa k' ?root (va + of_nat i) \<noteq> None" if "i < Suc (length bs)" for i using mapped(2) [of i] that by simp
    show "user_bytes k' ?root va (Suc (length bs)) = bs @ [0]" using put(3) by simp
  qed (rule z)
  moreover have "bs = take (unat (max_len - 1)) bytes" by (simp add: bs_def w_def min_def)
  ultimately show ?thesis using f by (simp add: translated_str_def)
qed

lemma user_string_round_trip_witness:
  "\<exists>k pt k'. pt_map (snd booted) (fst booted) 5 100 (PTE_V OR PTE_W) = Some (k, pt)
     \<and> fill_str k (pt_token pt) 0x5010 [104, 101, 108, 108, 111] 4 = Some (Ok (), k')
     \<and> translated_str k' (pt_token pt) 0x5010 = Some [104, 101, 108]"
proof -
  obtain k pt T where d: "pt_map (snd booted) (fst booted) 5 100 (PTE_V OR PTE_W) = Some (k, pt)" "pt_wf k pt T"
    "\<And>n. n \<le> 4080 \<Longrightarrow> user_room k (root_ppn pt) T 0x5010 n" by (rule demo_page) blast
  have l: "min (length [104, 101, 108, 108, 111 :: u8]) (unat (4 - 1 :: usize)) + 1 = 4"
    "take (unat (4 - 1 :: usize)) [104, 101, 108, 108, 111 :: u8] = [104, 101, 108]" by simp_all
  have "user_room k (root_ppn (pt_from_token (pt_token pt))) T 0x5010
      (min (length [104, 101, 108, 108, 111 :: u8]) (unat (4 - 1 :: usize)) + 1)"
    unfolding l pt_wf_token(1) [OF d(2)] by (rule d(3)) simp
  from user_string_round_trip [OF pt_wf_token(2) [OF d(2)] _ this, unfolded l] show ?thesis
    using d(1) by auto
qed

text \<open>
  C38: the copies are exact up to the first fault.  \<open>copy_from_user_bytes\<close> copies the bytes before the first
  address without translation and reports that address; it panics exactly when one of the addresses before it translates to physical
  address 0, as the first address of an unmapped page does when the tables of the page exist.  \<open>copy_to_user_bytes\<close>
  stores the bytes before the first address that is not writable, reports that address, and changes nothing else; here
  no page of the run may be mapped to a table of the page table, and no writable one to frame 0.  Both loops end.
\<close>

theorem user_copy_exact:
  assumes "pt_wf k (pt_from_token token) T" "root = root_ppn (pt_from_token token)"
    "user_range va n" "n \<le> length buf" "copy_ok k root T va (length src)"
  shows "(let m = ok_prefix (\<lambda>a. user_pa k root a \<noteq> None) va n in
      copy_from_user_bytes k token buf va n =
        (if no_null k root va m
         then Some (if m = n then Ok () else Err (TranslationFailed (va + of_nat m)), user_bytes k root va m @ drop m buf)
         else None))
    \<and> (let m = ok_prefix (user_writable k root) va (length src) in
      copy_to_user_bytes k token va src =
        Some (if m = length src then Ok (length src) else Err (PermissionDenied (va + of_nat m)),
          user_put k root va (take m src)))"
proof -
  have "copy_from_user_loop k token buf va n 0 0 =
      (let m = ok_prefix (\<lambda>a. user_pa k root a \<noteq> None) va n in
        if no_null k root va m
        then Some (if m = n then Ok () else Err (TranslationFailed (va + of_nat m)), user_bytes k root va m @ drop m buf)
        else None)"
    using copy_from_user_loop_full [OF assms(1,2), of va n 0 buf] assms(3,4) by (simp add: Let_def)
  moreover have "copy_to_user_loop k token va src 0 0 =
      (let m = ok_prefix (user_writable k root) va (length src) in
        Some (if m = length src then Ok (length src) else Err (PermissionDenied (va + of_nat m)),
          user_put k root va (take m src)))"
    using copy_to_user_loop_exact [OF assms(1,2), of 0 src va] assms(5) by (simp add: Let_def)
  ultimately show ?thesis
    by (auto simp: copy_from_user_bytes_def copy_to_user_bytes_def Let_def user_put_def)
qed

text \<open>
  A store and a load that run from page 5 into page 6, which is unmapped but has tables: the store stops at the page, and the load panics.  On the
  empty page table the load reports its first address.
\<close>

lemma page_end_addrs:
  assumes "i < 3" "P (0x6000 :: virt_addr)" "\<And>i. i < 2 \<Longrightarrow> P (0x5ffe + of_nat i)"
  shows "P (0x5ffe + of_nat i)"
proof (cases "i < 2")
  case False
  then have "i = 2" using assms(1) by simp
  then show ?thesis using assms(2) by simp
qed (rule assms(3))

theorem user_copy_exact_witness:
  "\<exists>k pt. pt_map (snd booted) (fst booted) 5 100 (PTE_V OR PTE_W) = Some (k, pt)
     \<and> fst (the (copy_to_user_bytes k (pt_token pt) 0x5ffe [7, 8, 9])) = Err (PermissionDenied 0x6000)
     \<and> copy_from_user_bytes k (pt_token pt) [0, 0, 0] 0x5ffe 3 = None
     \<and> fst (the (copy_from_user_bytes k (pt_token pt) [0, 0] 0x5ffe 2)) = Ok ()
     \<and> copy_from_user_bytes (snd booted) (pt_token (fst booted)) [0] 0x5010 1 = Some (Err (TranslationFailed 0x5010), [0])"
proof -
  obtain k pt T a where d: "pt_map (snd booted) (fst booted) 5 100 (PTE_V OR PTE_W) = Some (k, pt)" "pt_wf k pt T"
    "\<And>n. n \<le> 4080 \<Longrightarrow> user_room k (root_ppn pt) T 0x5010 n" "pt_walk k (root_ppn pt) 6 = Some a" "read_pte k a = 0"
    by (rule demo_page) blast
  let ?root = "root_ppn (pt_from_token (pt_token pt))" and ?P = "\<lambda>a. user_pa k (root_ppn (pt_from_token (pt_token pt))) a \<noteq> None"
  note root = pt_wf_token(1) [OF d(2)]
  have "user_room k ?root T (0x5010 + of_nat 0xfee) (4080 - 0xfee)" unfolding root by (rule user_room_drop [OF d(3)]) simp_all
  then have r: "user_room k ?root T 0x5ffe 2" by simp
  note mapped = user_room_mapped [OF r]
  have w6: "pt_walk k ?root (va_floor 0x6000) = Some a" unfolding root using d(4) by (simp add: unat_va_div)
  have pa6: "user_pa k ?root 0x6000 = Some 0"
    unfolding user_pa_def w6 by (simp add: d(5) pte_frame_def pa_of_ppn_def va_page_offset_eq)
  have f0: "pte_flags_of 0 = Some 0" by (simp add: pte_flags_of_Some)
  then have nw: "\<not> user_writable k ?root 0x6000" unfolding user_writable_def w6 by (simp add: d(5) pte_writable_def)
  have "0 \<notin> T" using pt_wf_range(1) [OF d(2), of 0] by blast
  then have ok6: "page_ok k ?root T 0x6000" using nw unfolding page_ok_def w6 by (simp add: d(5) f0 pte_frame_def)
  have m3: "ok_prefix ?P 0x5ffe 3 = 3" by (rule ok_prefix_all) (rule page_end_addrs [where P = ?P], simp_all add: pa6 mapped(2))
  have m2: "ok_prefix ?P 0x5ffe 2 = 2" by (rule ok_prefix_all) (rule mapped(2))
  have "ok_prefix (user_writable k ?root) 0x5ffe 3 = 2 + ok_prefix (user_writable k ?root) (0x5ffe + of_nat 2) (3 - 2)"
    using r by (intro ok_prefix_run) (simp_all add: user_room_def)
  moreover have "ok_prefix (user_writable k ?root) (0x5ffe + of_nat 2) (3 - 2) = 0" using nw by simp
  ultimately have "ok_prefix (user_writable k ?root) 0x5ffe 3 = 2" by (simp only: add_0_right)
  moreover have l: "length [7, 8, 9 :: u8] = 3" by simp
  ultimately have mw: "ok_prefix (user_writable k ?root) 0x5ffe (length [7, 8, 9 :: u8]) = 2" by (simp only: l)
  have cok: "copy_ok k ?root T 0x5ffe (length [7, 8, 9 :: u8])" unfolding copy_ok_def
  proof (intro allI impI)
    fix i assume "i < length [7, 8, 9 :: u8]"
    then have i: "i < 3" by simp
    show "page_ok k ?root T (0x5ffe + of_nat i)"
      by (rule page_end_addrs [where P = "page_ok k ?root T", OF i ok6]) (use r in \<open>simp add: user_room_def\<close>)
  qed
  have null: "\<not> no_null k ?root 0x5ffe 3" unfolding no_null_def using pa6 by (auto intro!: exI [of _ 2])
  have rg: "user_range 0x5ffe 3" "user_range 0x5ffe 2" "user_range 0x5010 1" by (simp_all add: user_range_def KERNEL_DIRECT_OFFSET_def)
  note c3 = user_copy_exact [OF pt_wf_token(2) [OF d(2)] refl rg(1) _ cok, of "[0, 0, 0]", unfolded Let_def m3 mw]
  note c2 = user_copy_exact [OF pt_wf_token(2) [OF d(2)] refl rg(2) _ cok, of "[0, 0]", unfolded Let_def m2 mw]
  have none: "user_pa (snd booted) (root_ppn (pt_from_token (pt_token (fst booted)))) va = None" for va
    unfolding pt_wf_token(1) [OF booted_facts(5)] by (simp add: user_pa_def booted_walk)
  note c1 = user_copy_exact [OF pt_wf_token(2) [OF booted_facts(5)] refl rg(3), of "[0]" "[]"]
  have "copy_from_user_bytes (snd booted) (pt_token (fst booted)) [0] 0x5010 1 = Some (Err (TranslationFailed 0x5010), [0])"
    using c1 by (simp add: copy_ok_def none no_null_def user_bytes_def)
  then show ?thesis using d(1) c3 c2 null mapped(1) by (intro exI [of _ k] exI [of _ pt]) simp
qed

text \<open>
  C39: an unmapped page is translated.  When the tables of an address exist but its leaf entry is empty,
  \<open>translate_va\<close> does not fail: it gives the address at the same offset of physical page 0, and \<open>get_data\<close> and
  \<open>copy_from_user_bytes\<close> return what is there; at offset 0 they panic.  Only the copies to user memory, which ask
  for write permission, refuse the address.
\<close>

theorem unmapped_reads_frame_0:
  assumes "pt_wf k (pt_from_token token) T" "pt_walk k (root_ppn (pt_from_token token)) (va_floor va) = Some a"
    "read_pte k a = 0" "user_range va 1"
  shows "pt_translate_va k (pt_from_token token) va = Some (Some (of_nat (va_page_offset va)))
    \<and> get_data k token va 1 = (if va_page_offset va = 0 then None else Some [read_byte k 0 (va_page_offset va)])
    \<and> copy_from_user_bytes k token [b] va 1 =
        (if va_page_offset va = 0 then None else Some (Ok (), [read_byte k 0 (va_page_offset va)]))
    \<and> copy_to_user_bytes k token va [b] = Some (Err (PermissionDenied va), k)"
proof -
  let ?root = "root_ppn (pt_from_token token)" and ?off = "va_page_offset va"
  have off: "?off < 4096" by (rule va_page_offset_less)
  have pa: "user_pa k ?root va = Some (of_nat ?off)"
    using assms(2,3) by (simp add: user_pa_def pte_frame_def pa_of_ppn_def)
  then have t: "pt_translate_va k (pt_from_token token) va = Some (Some (of_nat ?off))"
    using pt_translate_va_user [OF assms(1,4)] by simp
  have u: "unat (of_nat ?off :: usize) = ?off" using off by (simp add: unat_of_nat)
  have z: "(of_nat ?off :: usize) = 0 \<longleftrightarrow> ?off = 0"
  proof
    assume "(of_nat ?off :: usize) = 0"
    then have "unat (of_nat ?off :: usize) = 0" by (simp only: unsigned_0)
    with u show "?off = 0" by (simp only:)
  qed simp
  have b: "pm_byte k (of_nat ?off) = read_byte k 0 ?off"
    using off by (simp add: pm_byte_def pa_floor_eq pa_page_offset_eq u)
  have g: "get_data k token va 1 = (if ?off = 0 then None else Some [read_byte k 0 ?off])"
    by (simp add: get_data_def t translated_ref_def pa_get_mut_eq z pm_read_def b)
  have c: "get_target_continuous_bytes_in_page k token va 1 = (if ?off = 0 then None else Some (Ok ((of_nat ?off, 1), 1)))"
    using off by (simp add: get_target_continuous_bytes_in_page_def t pa_get_mut_eq z PAGE_SIZE_def)
  have "copy_from_user_bytes k token [b] va 1 = (if ?off = 0 then None else Some (Ok (), [read_byte k 0 ?off]))"
    unfolding copy_from_user_bytes_def
    by (subst copy_from_user_loop.simps, simp add: c [unfolded One_nat_def] pm_read_def b)
      (simp add: copy_from_user_loop.simps)
  moreover have "copy_to_user_bytes k token va [b] = Some (Err (PermissionDenied va), k)"
  proof -
    have "pte_flags_of 0 = Some 0" by (simp add: pte_flags_of_Some)
    then have "pte_writable 0 = Some False" by (simp add: pte_writable_def)
    then have "pt_translate_va_with_perm k (pt_from_token token) va True = Some (Err (PermissionDenied va))"
      using assms(2,3) by (simp add: pt_translate_va_with_perm_def find_pte_walk [OF assms(1)])
    then show ?thesis
      by (simp add: copy_to_user_bytes_def copy_to_user_loop.simps get_target_continuous_writable_bytes_in_page_def)
  qed
  ultimately show ?thesis using t g by blast
qed

theorem unmapped_reads_frame_0_witness:
  "\<exists>k pt. pt_map (snd booted) (fst booted) 5 100 (PTE_V OR PTE_W) = Some (k, pt)
     \<and> get_data k (pt_token pt) 0x6008 1 = Some [read_byte k 0 8]"
proof -
  obtain k pt T a where d: "pt_map (snd booted) (fst booted) 5 100 (PTE_V OR PTE_W) = Some (k, pt)" "pt_wf k pt T"
    "pt_walk k (root_ppn pt) 6 = Some a" "read_pte k a = 0" by (rule demo_page) blast
  have v: "va_floor 0x6008 = 6" "va_page_offset 0x6008 = 8" by (simp_all add: unat_va_div va_page_offset_eq)
  have "pt_walk k (root_ppn (pt_from_token (pt_token pt))) (va_floor 0x6008) = Some a"
    using d(3) pt_wf_token(1) [OF d(2)] v by simp
  from unmapped_reads_frame_0 [OF pt_wf_token(2) [OF d(2)] this d(4)] show ?thesis
    using d(1) v by (auto simp: user_range_def KERNEL_DIRECT_OFFSET_def)
qed

text \<open>
  \<open>translated_byte_buffer\<close> returns for every buffer below \<open>2 ^ 38\<close> whose pages are mapped, and the bytes of its
  segments, one after the other, are the bytes of the buffer.
\<close>

lemma translated_byte_buffer_returns:
  assumes "pt_wf k (pt_from_token token) T" "root = root_ppn (pt_from_token token)" "unat ptr + unat len < 2 ^ 38"
    "\<forall>i < unat len. \<exists>pa. user_pa k root (ptr + of_nat i) = Some pa \<and> pa_floor pa \<noteq> 0"
  shows "\<exists>segs. translated_byte_buffer k token ptr len = Some segs
    \<and> concat (map (segment_bytes k) segs) = user_bytes k root ptr (unat len)"
proof -
  have u: "unat (ptr + len) = unat ptr + unat len" using assms(3) by (simp add: unat_word_ariths)
  then have le: "ptr \<le> ptr + len" by (simp add: word_le_nat_alt)
  show ?thesis
    using translated_byte_buffer_loop_user [OF assms(1,2) _ le, of "[]"] assms(3,4)
    by (simp add: translated_byte_buffer_def u)
qed

lemma translated_byte_buffer_returns_witness:
  "\<exists>k pt segs. pt_map (snd booted) (fst booted) 5 100 (PTE_V OR PTE_W) = Some (k, pt)
     \<and> translated_byte_buffer k (pt_token pt) 0x5010 2 = Some segs \<and> length (concat (map (segment_bytes k) segs)) = 2"
proof -
  obtain k pt T where d: "pt_map (snd booted) (fst booted) 5 100 (PTE_V OR PTE_W) = Some (k, pt)" "pt_wf k pt T"
    "\<And>n. n \<le> 4080 \<Longrightarrow> user_room k (root_ppn pt) T 0x5010 n" by (rule demo_page) blast
  let ?root = "root_ppn (pt_from_token (pt_token pt))"
  have r: "user_room k ?root T 0x5010 2" unfolding pt_wf_token(1) [OF d(2)] by (rule d(3)) simp
  have "\<exists>pa. user_pa k ?root (0x5010 + of_nat i) = Some pa \<and> pa_floor pa \<noteq> 0" if "i < 2" for i
  proof -
    have "page_ok k ?root T (0x5010 + of_nat i)" "user_writable k ?root (0x5010 + of_nat i)"
      using r that unfolding user_room_def by blast+
    from page_ok_pa [OF this] show ?thesis by blast
  qed
  then have "\<exists>segs. translated_byte_buffer k (pt_token pt) 0x5010 2 = Some segs
    \<and> concat (map (segment_bytes k) segs) = user_bytes k ?root 0x5010 (unat (2 :: usize))"
    by (intro translated_byte_buffer_returns [OF pt_wf_token(2) [OF d(2)] refl]) simp_all
  then show ?thesis using d(1) by fastforce
qed

end
