(* ===== verification/Open_Flags.thy ===== *)
theory Open_Flags
  imports Bitflags
begin

text \<open>
  The flags of an open file and the kinds of inodes (\<open>OpenFlags\<close> and \<open>InodeType\<close> in \<open>os/src/fs/inode.rs\<close>).
  The octal constants of the source are written in hexadecimal.
\<close>

type_synonym open_flags = u32

definition O_RDONLY :: open_flags where "O_RDONLY = 0"
definition O_WRONLY :: open_flags where "O_WRONLY = 1"
definition O_RDWR :: open_flags where "O_RDWR = 2"
definition O_ACCMODE :: open_flags where "O_ACCMODE = 3"
definition O_CREATE :: open_flags where "O_CREATE = 0x40"
definition O_EXCL :: open_flags where "O_EXCL = 0x80"
definition O_NOCTTY :: open_flags where "O_NOCTTY = 0x100"
definition O_TRUNC :: open_flags where "O_TRUNC = 0x200"
definition O_APPEND :: open_flags where "O_APPEND = 0x400"
definition O_NONBLOCK :: open_flags where "O_NONBLOCK = 0x800"
definition O_DSYNC :: open_flags where "O_DSYNC = 0x1000"
definition O_SYNC :: open_flags where "O_SYNC = 0x101000"
definition O_RSYNC :: open_flags where "O_RSYNC = 0x101000"
definition O_DIRECTORY :: open_flags where "O_DIRECTORY = 0x10000"
definition O_NOFOLLOW :: open_flags where "O_NOFOLLOW = 0x20000"
definition OF_CLOEXEC :: open_flags where "OF_CLOEXEC = 0x80000"
definition O_ASYNC :: open_flags where "O_ASYNC = 0x2000"
definition O_DIRECT :: open_flags where "O_DIRECT = 0x4000"
definition O_LARGEFILE :: open_flags where "O_LARGEFILE = 0x8000"
definition O_NOATIME :: open_flags where "O_NOATIME = 0x40000"
definition O_PATH :: open_flags where "O_PATH = 0x200000"
definition O_TMPFILE :: open_flags where "O_TMPFILE = 0x410000"
definition O_ASK_SYMLINK :: open_flags where "O_ASK_SYMLINK = 0x80000000"

definition OF_all :: open_flags where
  "OF_all = O_RDONLY OR O_WRONLY OR O_RDWR OR O_ACCMODE OR O_CREATE OR O_EXCL OR O_NOCTTY OR O_TRUNC OR O_APPEND
     OR O_NONBLOCK OR O_DSYNC OR O_SYNC OR O_RSYNC OR O_DIRECTORY OR O_NOFOLLOW OR OF_CLOEXEC OR O_ASYNC OR O_DIRECT
     OR O_LARGEFILE OR O_NOATIME OR O_PATH OR O_TMPFILE OR O_ASK_SYMLINK"

definition read_write :: "open_flags \<Rightarrow> bool \<times> bool" where
  "read_write f =
     (if f = 0 then (True, False)
      else if fl_contains f O_WRONLY then (False, True)
      else (True, True))"

datatype inode_type = Unknown_inode | Fifo | CharDevice | Dir | BlockDevice | File_inode | SymLink | Socket

definition node_type :: "open_flags \<Rightarrow> inode_type" where
  "node_type f = (if fl_contains f O_DIRECTORY then Dir else File_inode)"

lemma OF_all_eq: "OF_all = 0x807FFFC3"
  by (simp add: OF_all_def O_RDONLY_def O_WRONLY_def O_RDWR_def O_ACCMODE_def O_CREATE_def O_EXCL_def O_NOCTTY_def
    O_TRUNC_def O_APPEND_def O_NONBLOCK_def O_DSYNC_def O_SYNC_def O_RSYNC_def O_DIRECTORY_def O_NOFOLLOW_def
    OF_CLOEXEC_def O_ASYNC_def O_DIRECT_def O_LARGEFILE_def O_NOATIME_def O_PATH_def O_TMPFILE_def O_ASK_SYMLINK_def)

text \<open>A flag set that only has declared bits, which is what the type \<open>OpenFlags\<close> guarantees.\<close>

definition of_ok :: "open_flags \<Rightarrow> bool" where
  "of_ok f \<longleftrightarrow> fl_contains OF_all f"

lemma of_ok_bits: "of_ok f \<longleftrightarrow> (\<forall>n. bit f n \<longrightarrow> bit OF_all n)"
  by (simp add: of_ok_def fl_contains_bit)

lemma of_ok_or: "of_ok f \<Longrightarrow> of_ok g \<Longrightarrow> of_ok (f OR g)"
  by (auto simp: of_ok_bits bit_simps)

lemma of_ok_remove: "of_ok f \<Longrightarrow> of_ok (fl_remove f g)"
  by (auto simp: of_ok_bits fl_remove_def bit_simps)

lemma of_ok_truncate: "of_ok (fl_from_bits_truncate OF_all f)"
  by (auto simp: of_ok_bits fl_from_bits_truncate_def bit_simps)

lemma of_ok_consts [simp]: "of_ok 0" "of_ok O_RDONLY" "of_ok O_WRONLY" "of_ok OF_CLOEXEC" "of_ok O_NONBLOCK"
  by (simp_all add: of_ok_def OF_all_eq fl_contains_def O_RDONLY_def O_WRONLY_def OF_CLOEXEC_def O_NONBLOCK_def)

end
