(* ===== verification/Os_Inode.thy ===== *)
theory Os_Inode
  imports Open_Flags User_Copy
begin

text \<open>
  Open files (\<open>OsInode\<close> in \<open>os/src/fs/inode.rs\<close>, \<open>FileClass\<close> and \<open>FileDescriptor\<close> in \<open>os/src/fs/fd.rs\<close>).

  An \<open>Arc<OsInode>\<close> is a number; the store maps it to the object, so clones of a descriptor share the file
  position.  What lies behind the traits \<open>VfsNodeOps\<close> (the ext4 library and the other inodes) and \<open>File\<close> (the
  abstract files) is a parameter: a record of their operations on a state of type \<open>'w\<close>.  The read of an inode
  returns the bytes that it stored at the start of the buffer.  A user buffer is the list of its segments in
  physical memory, as \<open>translated_byte_buffer\<close> builds it.
\<close>

type_synonym seg = "ppn \<times> nat \<times> nat"

record 'w fs_ops =
  vfs_read_at :: "'w \<Rightarrow> nat \<Rightarrow> u64 \<Rightarrow> nat \<Rightarrow> sys_err_no + u8 list"
  vfs_write_at :: "'w \<Rightarrow> nat \<Rightarrow> u64 \<Rightarrow> u8 list \<Rightarrow> (int + nat) \<times> 'w"
  vfs_truncate :: "'w \<Rightarrow> nat \<Rightarrow> u64 \<Rightarrow> (int + nat) \<times> 'w"
  vfs_size :: "'w \<Rightarrow> nat \<Rightarrow> usize"
  vfs_st_size :: "'w \<Rightarrow> nat \<Rightarrow> usize"
  vfs_path :: "'w \<Rightarrow> nat \<Rightarrow> string"
  vfs_is_dir :: "'w \<Rightarrow> nat \<Rightarrow> bool"
  abs_readable :: "'w \<Rightarrow> nat \<Rightarrow> sys_err_no + bool"
  abs_writable :: "'w \<Rightarrow> nat \<Rightarrow> sys_err_no + bool"
  abs_read :: "'w \<Rightarrow> kmem \<Rightarrow> nat \<Rightarrow> seg list \<Rightarrow> (sys_err_no + nat) \<times> 'w \<times> kmem"
  abs_write :: "'w \<Rightarrow> kmem \<Rightarrow> nat \<Rightarrow> seg list \<Rightarrow> (sys_err_no + nat) \<times> 'w"
  abs_lseek :: "'w \<Rightarrow> nat \<Rightarrow> usize \<Rightarrow> u32 \<Rightarrow> (sys_err_no + usize) \<times> 'w"
  abs_st_size :: "'w \<Rightarrow> nat \<Rightarrow> usize option"

record os_inode =
  oi_readable :: bool
  oi_writable :: bool
  oi_offset :: usize
  oi_inode :: nat

record 'w files =
  os_inodes :: "nat \<Rightarrow> os_inode"
  world :: 'w

definition oi_new :: "bool \<Rightarrow> bool \<Rightarrow> nat \<Rightarrow> os_inode" where
  "oi_new r w i = \<lparr> oi_readable = r, oi_writable = w, oi_offset = 0, oi_inode = i \<rparr>"

text \<open>\<open>inner.offset += n\<close> and \<open>inner.offset = off\<close>.\<close>

definition set_offset :: "'w files \<Rightarrow> nat \<Rightarrow> usize \<Rightarrow> 'w files" where
  "set_offset fs f off = fs\<lparr> os_inodes := (os_inodes fs)(f := (os_inodes fs f)\<lparr> oi_offset := off \<rparr>) \<rparr>"

abbreviation advance :: "'w files \<Rightarrow> nat \<Rightarrow> nat \<Rightarrow> 'w files" where
  "advance fs f n \<equiv> set_offset fs f (oi_offset (os_inodes fs f) + of_nat n)"

subsection \<open>OsInode\<close>

partial_function (option) oi_read_all_loop :: "'w fs_ops \<Rightarrow> 'w files \<Rightarrow> nat \<Rightarrow> u8 list \<Rightarrow> (u8 list \<times> 'w files) option" where
  "oi_read_all_loop V fs f out =
     (case vfs_read_at V (world fs) (oi_inode (os_inodes fs f)) (oi_offset (os_inodes fs f)) 512 of
        Inl _ \<Rightarrow> None
      | Inr bs \<Rightarrow> if bs = [] then Some (out, fs) else oi_read_all_loop V (advance fs f (length bs)) f (out @ bs))"

definition oi_read_all :: "'w fs_ops \<Rightarrow> 'w files \<Rightarrow> nat \<Rightarrow> (u8 list \<times> 'w files) option" where
  "oi_read_all V fs f = oi_read_all_loop V fs f []"

definition oi_get_path :: "'w fs_ops \<Rightarrow> 'w files \<Rightarrow> nat \<Rightarrow> string" where
  "oi_get_path V fs f = vfs_path V (world fs) (oi_inode (os_inodes fs f))"

definition oi_is_dir :: "'w fs_ops \<Rightarrow> 'w files \<Rightarrow> nat \<Rightarrow> bool" where
  "oi_is_dir V fs f = vfs_is_dir V (world fs) (oi_inode (os_inodes fs f))"

definition oi_read_at :: "'w fs_ops \<Rightarrow> 'w files \<Rightarrow> nat \<Rightarrow> usize \<Rightarrow> nat \<Rightarrow> (sys_err_no + u8 list) \<times> 'w files" where
  "oi_read_at V fs f off n =
     (case vfs_read_at V (world fs) (oi_inode (os_inodes fs f)) off n of
        Inl e \<Rightarrow> (Err e, fs)
      | Inr bs \<Rightarrow> (Ok bs, advance fs f (length bs)))"

definition oi_write_at :: "'w fs_ops \<Rightarrow> 'w files \<Rightarrow> nat \<Rightarrow> usize \<Rightarrow> u8 list \<Rightarrow> (sys_err_no + nat) \<times> 'w files" where
  "oi_write_at V fs f off bs =
     (case vfs_write_at V (world fs) (oi_inode (os_inodes fs f)) off bs of
        (Inl e, w) \<Rightarrow> (Err (from_primitive e), fs\<lparr> world := w \<rparr>)
      | (Inr n, w) \<Rightarrow> (Ok n, advance (fs\<lparr> world := w \<rparr>) f n))"

definition oi_truncate :: "'w fs_ops \<Rightarrow> 'w files \<Rightarrow> nat \<Rightarrow> u64 \<Rightarrow> (sys_err_no + nat) \<times> 'w files" where
  "oi_truncate V fs f sz =
     (case vfs_truncate V (world fs) (oi_inode (os_inodes fs f)) sz of
        (Inl e, w) \<Rightarrow> (Err (from_primitive (- e)), fs\<lparr> world := w \<rparr>)
      | (Inr n, w) \<Rightarrow> (Ok n, fs\<lparr> world := w \<rparr>))"

fun oi_read_segs :: "'w fs_ops \<Rightarrow> 'w files \<Rightarrow> kmem \<Rightarrow> nat \<Rightarrow> nat \<Rightarrow> seg list \<Rightarrow> (sys_err_no + nat) \<times> 'w files \<times> kmem" where
  "oi_read_segs V fs k f tot [] = (Ok tot, fs, k)"
| "oi_read_segs V fs k f tot ((p, lo, hi) # ss) =
     (case vfs_read_at V (world fs) (oi_inode (os_inodes fs f)) (oi_offset (os_inodes fs f)) (hi - lo) of
        Inl e \<Rightarrow> (Err e, fs, k)
      | Inr bs \<Rightarrow> if bs = [] then (Ok tot, fs, k)
          else oi_read_segs V (advance fs f (length bs)) (write_bytes k p lo bs) f (tot + length bs) ss)"

definition oi_read :: "'w fs_ops \<Rightarrow> 'w files \<Rightarrow> kmem \<Rightarrow> nat \<Rightarrow> seg list \<Rightarrow> (sys_err_no + nat) \<times> 'w files \<times> kmem" where
  "oi_read V fs k f ss = oi_read_segs V fs k f 0 ss"

fun oi_write_segs :: "'w fs_ops \<Rightarrow> 'w files \<Rightarrow> kmem \<Rightarrow> nat \<Rightarrow> nat \<Rightarrow> seg list \<Rightarrow> (sys_err_no + nat) \<times> 'w files" where
  "oi_write_segs V fs k f tot [] = (Ok tot, fs)"
| "oi_write_segs V fs k f tot (s # ss) =
     (case vfs_write_at V (world fs) (oi_inode (os_inodes fs f)) (oi_offset (os_inodes fs f)) (segment_bytes k s) of
        (Inl e, w) \<Rightarrow> (Err (from_primitive e), fs\<lparr> world := w \<rparr>)
      | (Inr n, w) \<Rightarrow> oi_write_segs V (advance (fs\<lparr> world := w \<rparr>) f n) k f (tot + n) ss)"

definition oi_write :: "'w fs_ops \<Rightarrow> 'w files \<Rightarrow> kmem \<Rightarrow> nat \<Rightarrow> seg list \<Rightarrow> (sys_err_no + nat) \<times> 'w files" where
  "oi_write V fs k f ss = oi_write_segs V fs k f 0 ss"

definition SEEK_SET :: u32 where "SEEK_SET = 0"
definition SEEK_CUR :: u32 where "SEEK_CUR = 1"
definition SEEK_END :: u32 where "SEEK_END = 2"

definition oi_lseek :: "'w fs_ops \<Rightarrow> 'w files \<Rightarrow> nat \<Rightarrow> usize \<Rightarrow> u32 \<Rightarrow> (sys_err_no + usize) \<times> 'w files" where
  "oi_lseek V fs f offset whence =
     (if whence > 2 then (Err EINVAL, fs)
      else let newoff =
          (if whence = SEEK_SET then offset
           else if whence = SEEK_CUR then oi_offset (os_inodes fs f) + offset
           else vfs_size V (world fs) (oi_inode (os_inodes fs f)) + offset)
        in if sint newoff < 0 then (Err EINVAL, fs) else (Ok newoff, set_offset fs f newoff))"

subsection \<open>Descriptors\<close>

datatype file_class = File nat | Abs nat

record file_descriptor =
  fd_flags :: open_flags
  fd_file :: file_class

fun fc_file :: "file_class \<Rightarrow> sys_err_no + nat" where
  "fc_file (File f) = Ok f"
| "fc_file (Abs f) = Err EINVAL"

fun fc_abs :: "file_class \<Rightarrow> sys_err_no + nat" where
  "fc_abs (File f) = Err EINVAL"
| "fc_abs (Abs f) = Ok f"

definition fd_new :: "open_flags \<Rightarrow> file_class \<Rightarrow> file_descriptor" where
  "fd_new flags file = \<lparr> fd_flags = flags, fd_file = file \<rparr>"

definition fd_default :: "file_class \<Rightarrow> file_descriptor" where
  "fd_default file = \<lparr> fd_flags = 0, fd_file = file \<rparr>"

definition unset_cloexec :: "file_descriptor \<Rightarrow> file_descriptor" where
  "unset_cloexec d = d\<lparr> fd_flags := fd_flags d AND (OF_all AND NOT OF_CLOEXEC) \<rparr>"

definition set_cloexec :: "file_descriptor \<Rightarrow> file_descriptor" where
  "set_cloexec d = d\<lparr> fd_flags := fd_flags d OR OF_CLOEXEC \<rparr>"

definition cloexec :: "file_descriptor \<Rightarrow> bool" where
  "cloexec d = fl_contains (fd_flags d) OF_CLOEXEC"

definition non_block :: "file_descriptor \<Rightarrow> bool" where
  "non_block d = fl_contains (fd_flags d) O_NONBLOCK"

definition unset_nonblock :: "file_descriptor \<Rightarrow> file_descriptor" where
  "unset_nonblock d = d\<lparr> fd_flags := fd_flags d AND (OF_all AND NOT O_NONBLOCK) \<rparr>"

definition set_nonblock :: "file_descriptor \<Rightarrow> file_descriptor" where
  "set_nonblock d = d\<lparr> fd_flags := fd_flags d OR O_NONBLOCK \<rparr>"

definition fd_is_file :: "file_descriptor \<Rightarrow> bool" where
  "fd_is_file d = (case fd_file d of File _ \<Rightarrow> True | _ \<Rightarrow> False)"

definition fd_is_abs :: "file_descriptor \<Rightarrow> bool" where
  "fd_is_abs d = (case fd_file d of Abs _ \<Rightarrow> True | _ \<Rightarrow> False)"

text \<open>The dynamic dispatch of \<open>any()\<close>.\<close>

fun any_readable :: "'w fs_ops \<Rightarrow> 'w files \<Rightarrow> file_class \<Rightarrow> sys_err_no + bool" where
  "any_readable V fs (File f) = Ok (oi_readable (os_inodes fs f))"
| "any_readable V fs (Abs f) = abs_readable V (world fs) f"

fun any_writable :: "'w fs_ops \<Rightarrow> 'w files \<Rightarrow> file_class \<Rightarrow> sys_err_no + bool" where
  "any_writable V fs (File f) = Ok (oi_writable (os_inodes fs f))"
| "any_writable V fs (Abs f) = abs_writable V (world fs) f"

fun any_read :: "'w fs_ops \<Rightarrow> 'w files \<Rightarrow> kmem \<Rightarrow> file_class \<Rightarrow> seg list \<Rightarrow> (sys_err_no + nat) \<times> 'w files \<times> kmem" where
  "any_read V fs k (File f) ss = oi_read V fs k f ss"
| "any_read V fs k (Abs f) ss = (let (r, w, k) = abs_read V (world fs) k f ss in (r, fs\<lparr> world := w \<rparr>, k))"

fun any_write :: "'w fs_ops \<Rightarrow> 'w files \<Rightarrow> kmem \<Rightarrow> file_class \<Rightarrow> seg list \<Rightarrow> (sys_err_no + nat) \<times> 'w files" where
  "any_write V fs k (File f) ss = oi_write V fs k f ss"
| "any_write V fs k (Abs f) ss = (let (r, w) = abs_write V (world fs) k f ss in (r, fs\<lparr> world := w \<rparr>))"

fun any_lseek :: "'w fs_ops \<Rightarrow> 'w files \<Rightarrow> file_class \<Rightarrow> usize \<Rightarrow> u32 \<Rightarrow> (sys_err_no + usize) \<times> 'w files" where
  "any_lseek V fs (File f) off whence = oi_lseek V fs f off whence"
| "any_lseek V fs (Abs f) off whence = (let (r, w) = abs_lseek V (world fs) f off whence in (r, fs\<lparr> world := w \<rparr>))"

text \<open>\<open>fstat().st_size\<close>; the default of the trait panics.\<close>

fun any_st_size :: "'w fs_ops \<Rightarrow> 'w files \<Rightarrow> file_class \<Rightarrow> usize option" where
  "any_st_size V fs (File f) = Some (vfs_st_size V (world fs) (oi_inode (os_inodes fs f)))"
| "any_st_size V fs (Abs f) = abs_st_size V (world fs) f"

subsection \<open>File positions\<close>

lemma set_offset_simps [simp]:
  "oi_offset (os_inodes (set_offset fs f off) f) = off" "world (set_offset fs f off) = world fs"
  "oi_inode (os_inodes (set_offset fs f off) g) = oi_inode (os_inodes fs g)"
  "g \<noteq> f \<Longrightarrow> os_inodes (set_offset fs f off) g = os_inodes fs g"
  "set_offset (set_offset fs f off) f off' = set_offset fs f off'"
  by (simp_all add: set_offset_def)

lemma set_offset_same: "set_offset fs f (oi_offset (os_inodes fs f)) = fs"
  by (simp add: set_offset_def)

lemma oi_read_segs_position:
  assumes "oi_read_segs V fs k f tot ss = (Inr n, fs', k')"
  shows "tot \<le> n \<and> fs' = advance fs f (n - tot)"
  using assms
proof (induction V fs k f tot ss rule: oi_read_segs.induct)
  case (1 V fs k f tot)
  then show ?case using set_offset_same [of fs f] by simp
next
  case (2 V fs k f tot p lo hi ss)
  show ?case
  proof (cases "vfs_read_at V (world fs) (oi_inode (os_inodes fs f)) (oi_offset (os_inodes fs f)) (hi - lo)")
    case (Inl e)
    then show ?thesis using 2(2) by simp
  next
    case (Inr bs)
    show ?thesis
    proof (cases "bs = []")
      case True
      then show ?thesis using 2(2) Inr set_offset_same [of fs f] by simp
    next
      case False
      then have "tot + length bs \<le> n \<and> fs' = advance (advance fs f (length bs)) f (n - (tot + length bs))"
        using 2 Inr by simp
      moreover from this have "(of_nat (length bs) + of_nat (n - (tot + length bs)) :: usize) = of_nat (n - tot)"
        unfolding of_nat_add [symmetric] by (intro arg_cong [where f = of_nat]) linarith
      ultimately show ?thesis by (simp add: add.assoc)
    qed
  qed
qed

lemma world_offset [simp]:
  "set_offset (fs\<lparr> world := w \<rparr>) f off = (set_offset fs f off)\<lparr> world := w \<rparr>"
  by (simp add: set_offset_def)

lemma oi_write_segs_position:
  assumes "oi_write_segs V fs k f tot ss = (Inr n, fs')"
  shows "tot \<le> n \<and> (\<exists>w. fs' = (advance fs f (n - tot))\<lparr> world := w \<rparr>)"
  using assms
proof (induction ss arbitrary: fs tot)
  case Nil
  then show ?case using set_offset_same [of fs f] by (auto intro!: exI [of _ "world fs"])
next
  case (Cons s ss)
  obtain r w where v: "vfs_write_at V (world fs) (oi_inode (os_inodes fs f)) (oi_offset (os_inodes fs f)) (segment_bytes k s) = (r, w)"
    by (cases "vfs_write_at V (world fs) (oi_inode (os_inodes fs f)) (oi_offset (os_inodes fs f)) (segment_bytes k s)")
  show ?case
  proof (cases r)
    case (Inl e)
    then show ?thesis using Cons.prems v by simp
  next
    case (Inr m)
    then have "oi_write_segs V ((advance fs f m)\<lparr> world := w \<rparr>) k f (tot + m) ss = (Inr n, fs')" using Cons.prems v by simp
    from Cons.IH [OF this] obtain w' where le: "tot + m \<le> n"
      and fs': "fs' = (set_offset fs f (oi_offset (os_inodes fs f) + of_nat m + of_nat (n - (tot + m))))\<lparr> world := w' \<rparr>"
      by (auto simp: set_offset_def)
    have "(of_nat m + of_nat (n - (tot + m)) :: usize) = of_nat (n - tot)"
      unfolding of_nat_add [symmetric] using le by (intro arg_cong [where f = of_nat]) linarith
    then show ?thesis using le fs' by (auto simp: add.assoc)
  qed
qed

text \<open>
  File positions.  A seek moves the position of the open file to its target or fails with \<open>EINVAL\<close> when the target is
  negative; a read and a write advance the position by exactly the count they return.  The positioned \<open>read_at\<close>, which
  pread64 uses, advances it as well, by the number of bytes read.  No other open file is affected.
\<close>

lemma file_positions:
  "oi_lseek V fs f off SEEK_SET = (if sint off < 0 then (Err EINVAL, fs) else (Ok off, set_offset fs f off))
   \<and> (\<forall>p. oi_offset (os_inodes fs f) = p \<and> \<not> sint p < 0 \<longrightarrow> oi_lseek V fs f 0 SEEK_CUR = (Ok p, fs))
   \<and> (oi_read V fs k f ss = (Inr n, fs', k') \<longrightarrow> fs' = set_offset fs f (oi_offset (os_inodes fs f) + of_nat n))
   \<and> (oi_write V fs k f ss = (Inr n, fs') \<longrightarrow> (\<exists>w. fs' = (set_offset fs f (oi_offset (os_inodes fs f) + of_nat n))\<lparr> world := w \<rparr>))
   \<and> (oi_read_at V fs f off n = (Inr bs, fs') \<longrightarrow>
        fs' = set_offset fs f (oi_offset (os_inodes fs f) + of_nat (length bs)))"
proof (intro conjI allI impI)
  show "oi_lseek V fs f off SEEK_SET = (if sint off < 0 then (Err EINVAL, fs) else (Ok off, set_offset fs f off))"
    by (simp add: oi_lseek_def SEEK_SET_def)
  show "oi_lseek V fs f 0 SEEK_CUR = (Ok p, fs)" if "oi_offset (os_inodes fs f) = p \<and> \<not> sint p < 0" for p
    using that set_offset_same [of fs f] by (auto simp: oi_lseek_def SEEK_SET_def SEEK_CUR_def)
  show "fs' = set_offset fs f (oi_offset (os_inodes fs f) + of_nat n)" if "oi_read V fs k f ss = (Inr n, fs', k')"
    using oi_read_segs_position [of V fs k f 0 ss n fs' k'] that by (simp add: oi_read_def)
  show "\<exists>w. fs' = (set_offset fs f (oi_offset (os_inodes fs f) + of_nat n))\<lparr> world := w \<rparr>" if "oi_write V fs k f ss = (Inr n, fs')"
    using oi_write_segs_position [of V fs k f 0 ss n fs'] that by (simp add: oi_write_def)
  show "fs' = set_offset fs f (oi_offset (os_inodes fs f) + of_nat (length bs))" if "oi_read_at V fs f off n = (Inr bs, fs')"
    using that by (auto simp: oi_read_at_def split: sum.splits)
qed

text \<open>A concrete file system for the witnesses: the state is the contents of the files, and every abstract file is closed.\<close>

definition flat_fs :: "(nat \<Rightarrow> u8 list) fs_ops" where
  "flat_fs = \<lparr>
     vfs_read_at = (\<lambda>w i off n. Inr (take n (drop (unat off) (w i)))),
     vfs_write_at = (\<lambda>w i off bs. (Inr (length bs), w(i := take (unat off) (w i) @ bs @ drop (unat off + length bs) (w i)))),
     vfs_truncate = (\<lambda>w i n. (Inr 0, w(i := take (unat n) (w i)))),
     vfs_size = (\<lambda>w i. of_nat (length (w i))),
     vfs_st_size = (\<lambda>w i. of_nat (length (w i))),
     vfs_path = (\<lambda>w i. ''f''),
     vfs_is_dir = (\<lambda>w i. False),
     abs_readable = (\<lambda>w i. Inr False),
     abs_writable = (\<lambda>w i. Inr False),
     abs_read = (\<lambda>w k i ss. (Inl EBADF, w, k)),
     abs_write = (\<lambda>w k i ss. (Inl EBADF, w)),
     abs_lseek = (\<lambda>w i off wh. (Inl ESPIPE, w)),
     abs_st_size = (\<lambda>w i. None) \<rparr>"

definition flat_files :: "(nat \<Rightarrow> u8 list) files" where
  "flat_files = \<lparr> os_inodes = (\<lambda>f. oi_new True True f), world = (\<lambda>i. [1, 2, 3, 4, 5]) \<rparr>"

lemma file_positions_witness:
  "\<exists>fs'. oi_read_at flat_fs flat_files 7 1 3 = (Inr [2, 3, 4], fs') \<and> oi_offset (os_inodes fs' 7) = 3"
proof -
  have "oi_read_at flat_fs flat_files 7 1 3 = (Inr [2, 3, 4], advance flat_files 7 3)"
    by (simp add: oi_read_at_def flat_fs_def flat_files_def)
  then show ?thesis
    using file_positions [of flat_fs flat_files 7 1 undefined undefined 3 "advance flat_files 7 3" undefined "[2, 3, 4]"]
    by (simp add: flat_files_def oi_new_def)
qed

subsection \<open>Contents\<close>

text \<open>
  The documented behaviour of the read of a regular file with contents \<open>c\<close>: the bytes from the offset on, as many as the buffer
  holds and the file has.
\<close>

definition reads_file :: "'w fs_ops \<Rightarrow> 'w \<Rightarrow> nat \<Rightarrow> u8 list \<Rightarrow> bool" where
  "reads_file V w i c \<longleftrightarrow> length c < 2 ^ 63 \<and> (\<forall>off n. vfs_read_at V w i off n = Inr (take n (drop (unat off) c)))"

definition segs_ok :: "seg list \<Rightarrow> bool" where
  "segs_ok ss \<longleftrightarrow> distinct (map fst ss) \<and> (\<forall>s\<in>set ss. fst (snd s) < snd (snd s))"

abbreviation segs_bytes :: "kmem \<Rightarrow> seg list \<Rightarrow> u8 list" where
  "segs_bytes k ss \<equiv> concat (map (segment_bytes k) ss)"

lemma segment_bytes_write:
  assumes "length bs \<le> hi - lo"
  shows "segment_bytes (write_bytes k p lo bs) (p, lo, hi) = bs @ drop (length bs) (segment_bytes k (p, lo, hi))"
  using assms by (auto simp: segment_bytes_def read_bytes_def read_write_bytes nth_append intro!: nth_equalityI)

lemma segment_bytes_other: "p \<noteq> fst s \<Longrightarrow> segment_bytes (write_bytes k p lo bs) s = segment_bytes k s"
  by (cases s) (simp add: segment_bytes_def read_bytes_def read_write_bytes)

lemma length_segment_bytes [simp]: "length (segment_bytes k (p, lo, hi)) = hi - lo"
  by (simp add: segment_bytes_def read_bytes_def)

lemma segs_bytes_other:
  "p \<notin> fst ` set ss \<Longrightarrow> segs_bytes (write_bytes k p lo bs) ss = segs_bytes k ss"
  by (induction ss) (auto simp: segment_bytes_other)

lemma oi_read_segs_other:
  assumes "p \<notin> fst ` set ss" "oi_read_segs V fs k f tot ss = (r, fs', k')"
  shows "mem k' p = mem k p"
  using assms
proof (induction V fs k f tot ss rule: oi_read_segs.induct)
  case (2 V fs k f tot q lo hi ss)
  then show ?case by (auto simp: write_bytes_other split: sum.splits if_splits)
qed simp

lemma segment_bytes_cong: "mem k' (fst s) = mem k (fst s) \<Longrightarrow> segment_bytes k' s = segment_bytes k s"
  by (cases s) (simp add: segment_bytes_def read_bytes_def read_byte_def)

lemma min_chain: "min a (length c - off) + min l (length c - (off + min a (length c - off))) = min (a + l) (length c - off)"
  by (auto simp: min_def)

lemma oi_read_segs_exact:
  assumes "reads_file V (world fs) (oi_inode (os_inodes fs f)) c" "segs_ok ss" "unat (oi_offset (os_inodes fs f)) = off"
  shows "\<exists>n fs' k'. oi_read_segs V fs k f tot ss = (Inr (tot + n), fs', k') \<and> n = min (length (segs_bytes k ss)) (length c - off)
    \<and> segs_bytes k' ss = take n (drop off c) @ drop n (segs_bytes k ss)"
  using assms
proof (induction ss arbitrary: fs k tot off)
  case Nil
  then show ?case by simp
next
  case (Cons s ss)
  obtain p lo hi where s: "s = (p, lo, hi)" by (cases s)
  let ?bs = "take (hi - lo) (drop off c)"
  have v: "vfs_read_at V (world fs) (oi_inode (os_inodes fs f)) (oi_offset (os_inodes fs f)) (hi - lo) = Inr ?bs"
    using Cons.prems(1,3) by (simp add: reads_file_def)
  have lt: "lo < hi" and p: "p \<notin> fst ` set ss" and ok: "segs_ok ss" using Cons.prems(2) s by (auto simp: segs_ok_def)
  show ?case
  proof (cases "?bs = []")
    case True
    then have "length c - off = 0" using lt by auto
    then show ?thesis using v s True by simp
  next
    case False
    let ?k = "write_bytes k p lo ?bs" and ?fs = "advance fs f (length ?bs)"
    have off: "unat (oi_offset (os_inodes ?fs f)) = off + length ?bs"
    proof -
      have "off + length ?bs < 2 ^ 64" using False Cons.prems(1) by (auto simp: reads_file_def)
      then show ?thesis using Cons.prems(3) by (simp add: unat_word_ariths unat_of_nat take_bit_nat_eq_self)
    qed
    have rf: "reads_file V (world ?fs) (oi_inode (os_inodes ?fs f)) c" using Cons.prems(1) by simp
    from Cons.IH [OF rf ok off, of ?k "tot + length ?bs"] obtain n fs' k' where
      r: "oi_read_segs V ?fs ?k f (tot + length ?bs) ss = (Inr (tot + length ?bs + n), fs', k')"
      and n: "n = min (length (segs_bytes ?k ss)) (length c - (off + length ?bs))"
      and b: "segs_bytes k' ss = take n (drop (off + length ?bs) c) @ drop n (segs_bytes ?k ss)" by blast
    note o = segs_bytes_other [OF p, of k lo ?bs]
    have "mem k' p = mem ?k p" by (rule oi_read_segs_other [OF p r])
    then have seg: "segment_bytes k' s = ?bs @ drop (length ?bs) (segment_bytes k s)"
      using segment_bytes_cong [of k' s ?k] segment_bytes_write [of ?bs hi lo k p] s by simp
    have tk: "?bs @ take n (drop (off + length ?bs) c) = take (length ?bs + n) (drop off c)"
    proof (cases "length ?bs = hi - lo")
      case True
      have "take (hi - lo + n) (drop off c) = ?bs @ take n (drop (off + (hi - lo)) c)"
        unfolding take_add drop_drop add.commute [of "hi - lo" off] ..
      then show ?thesis using True by simp
    next
      case False
      then have "length c - off < hi - lo" by simp
      then show ?thesis using n by simp
    qed
    have "segs_bytes k' (s # ss) = take (length ?bs + n) (drop off c) @ drop (length ?bs + n) (segs_bytes k (s # ss))"
    proof (cases "length ?bs = hi - lo")
      case True
      then have "segment_bytes k' s = ?bs" using seg s by simp
      then have "segs_bytes k' (s # ss) = (?bs @ take n (drop (off + length ?bs) c)) @ drop n (segs_bytes k ss)"
        using b o by simp
      also have "drop n (segs_bytes k ss) = drop (length ?bs + n) (segs_bytes k (s # ss))"
        using True s by simp
      finally show ?thesis unfolding tk .
    next
      case False
      then have "n = 0" using n by simp
      then have "segs_bytes k' (s # ss) = ?bs @ drop (length ?bs) (segment_bytes k s) @ segs_bytes k ss" using b o seg by simp
      also have "\<dots> = take (length ?bs + n) (drop off c) @ drop (length ?bs + n) (segs_bytes k (s # ss))"
        using \<open>n = 0\<close> s False by (simp add: min_def)
      finally show ?thesis .
    qed
    moreover have "length ?bs + n = min (length (segs_bytes k (s # ss))) (length c - off)"
    proof -
      have bl: "length ?bs = min (hi - lo) (length c - off)" by (simp add: min.commute)
      have "length (segs_bytes k (s # ss)) = hi - lo + length (segs_bytes k ss)" by (simp add: s)
      then show ?thesis using n [unfolded o bl] unfolding bl by (simp only: min_chain)
    qed
    moreover have "oi_read_segs V fs k f tot (s # ss) = (Inr (tot + (length ?bs + n)), fs', k')"
      using v s False r by (simp add: add.assoc)
    ultimately show ?thesis by blast
  qed
qed

end
