(* ===== verification/Fd_Table.thy ===== *)
theory Fd_Table
  imports Os_Inode Resource_Pool Config
begin

text \<open>
  The table of file descriptors of a process (\<open>FdManage\<close> in \<open>os/src/task/fdmanage.rs\<close>).

  \<open>fd_at\<close> is the abstraction: the partial function from numbers to descriptors.  The lemmas read every operation as an
  update of it.  A descriptor number is a resource: opening and closing satisfy the contract of
  \<open>Resource_Pool\<close>.
\<close>

record fd_manage =
  fds :: "file_descriptor option list"
  soft_limit :: nat
  hard_limit :: nat

definition fdm_new :: "nat \<Rightarrow> nat \<Rightarrow> file_descriptor option list \<Rightarrow> fd_manage" where
  "fdm_new soft hard tbl = \<lparr> fds = tbl, soft_limit = soft, hard_limit = hard \<rparr>"

definition set_limit :: "fd_manage \<Rightarrow> nat \<Rightarrow> nat \<Rightarrow> fd_manage" where
  "set_limit t soft hard = t\<lparr> soft_limit := soft, hard_limit := hard \<rparr>"

text \<open>The three console files are new objects; their numbers are arguments.\<close>

definition new_with_stdio :: "nat \<Rightarrow> nat \<Rightarrow> nat \<Rightarrow> fd_manage" where
  "new_with_stdio i0 i1 i2 = fdm_new 128 256 [
     Some \<lparr> fd_flags = O_RDONLY, fd_file = Abs i0 \<rparr>,
     Some \<lparr> fd_flags = O_WRONLY, fd_file = Abs i1 \<rparr>,
     Some \<lparr> fd_flags = O_WRONLY, fd_file = Abs i2 \<rparr>]"

definition fdm_from_another :: "fd_manage \<Rightarrow> fd_manage" where
  "fdm_from_another t = \<lparr> fds = fds t, soft_limit = soft_limit t, hard_limit = hard_limit t \<rparr>"

definition fdm_len :: "fd_manage \<Rightarrow> nat" where
  "fdm_len t = length (fds t)"

text \<open>\<open>table.get(fd)\<close>, flattened: none when the number is out of range or free.\<close>

definition fd_at :: "fd_manage \<Rightarrow> nat \<rightharpoonup> file_descriptor" where
  "fd_at t = (\<lambda>i. if i < length (fds t) then fds t ! i else None)"

definition get_file :: "fd_manage \<Rightarrow> nat \<Rightarrow> sys_err_no + file_descriptor" where
  "get_file t fd = (case fd_at t fd of Some d \<Rightarrow> Ok d | None \<Rightarrow> Err EBADF)"

definition alloc_fd_from :: "fd_manage \<Rightarrow> nat \<Rightarrow> nat option" where
  "alloc_fd_from t min_fd =
     List.find (\<lambda>c. if c < length (fds t) then fds t ! c = None else True) [min_fd..<soft_limit t]"

definition vec_resize :: "nat \<Rightarrow> 'a option list \<Rightarrow> 'a option list" where
  "vec_resize n xs = take n xs @ replicate (n - length xs) None"

definition add_fd :: "fd_manage \<Rightarrow> file_descriptor \<Rightarrow> nat \<Rightarrow> ((sys_err_no + file_descriptor option) \<times> fd_manage) option" where
  "add_fd t d pos = do {
     ensure (\<not> pos > MAX_FD_NUM);
     Some (if pos < length (fds t) then (Ok (fds t ! pos), t\<lparr> fds := (fds t)[pos := Some d] \<rparr>)
       else if pos < soft_limit t then
         (let tbl = vec_resize (pos + 1) (fds t) in (Ok (tbl ! pos), t\<lparr> fds := tbl[pos := Some d] \<rparr>))
       else (Err EMFILE, t)) }"

definition take_file :: "fd_manage \<Rightarrow> nat \<Rightarrow> file_descriptor option \<times> fd_manage" where
  "take_file t fd =
     (if fd < length (fds t) then (fds t ! fd, t\<lparr> fds := (fds t)[fd := None] \<rparr>) else (None, t))"

definition alloc_fd :: "fd_manage \<Rightarrow> (sys_err_no + nat) \<times> fd_manage" where
  "alloc_fd t =
     (case List.find (\<lambda>i. fds t ! i = None) [0..<length (fds t)] of
        Some fd \<Rightarrow> (Ok fd, t)
      | None \<Rightarrow>
          if length (fds t) < soft_limit t then
            (let t = t\<lparr> fds := fds t @ [None] \<rparr> in (Ok (length (fds t) - 1), t))
          else (Err EMFILE, t))"

definition close_on_exec :: "fd_manage \<Rightarrow> fd_manage" where
  "close_on_exec t = t\<lparr> fds := map (\<lambda>x. case x of None \<Rightarrow> None | Some d \<Rightarrow> if cloexec d then None else Some d) (fds t) \<rparr>"

definition find_fd :: "'w fs_ops \<Rightarrow> 'w files \<Rightarrow> fd_manage \<Rightarrow> string \<Rightarrow> nat option" where
  "find_fd V fs t path = List.find (\<lambda>i. case fds t ! i of
      Some d \<Rightarrow> (case fc_file (fd_file d) of Inr f \<Rightarrow> oi_get_path V fs f = path | Inl _ \<Rightarrow> False)
    | None \<Rightarrow> False) [0..<length (fds t)]"

text \<open>\<open>ProcessControlBlock::alloc_and_add_fd\<close> (\<open>os/src/task/task.rs\<close>).\<close>

definition alloc_and_add_fd :: "fd_manage \<Rightarrow> file_descriptor \<Rightarrow> ((sys_err_no + nat) \<times> fd_manage) option" where
  "alloc_and_add_fd t d =
     (case alloc_fd t of
        (Inl e, t) \<Rightarrow> Some (Err e, t)
      | (Inr res, t) \<Rightarrow> do {
          (r, t) \<leftarrow> add_fd t d res;
          (case r of Inl e \<Rightarrow> Some (Err e, t) | Inr _ \<Rightarrow> Some (Ok res, t)) })"

text \<open>The last step of \<open>sys_openat\<close> and of \<open>sys_dup\<close>: the descriptor is stored at the number that \<open>alloc_fd\<close> gives.\<close>

definition install_fd :: "fd_manage \<Rightarrow> file_descriptor \<Rightarrow> (sys_err_no + nat) \<times> fd_manage" where
  "install_fd t d =
     (case alloc_fd t of
        (Inl e, t) \<Rightarrow> (Err e, t)
      | (Inr fd, t) \<Rightarrow> (Ok fd, t\<lparr> fds := (fds t)[fd := Some d] \<rparr>))"

subsection \<open>The table as a partial function\<close>

lemma fd_at_finite: "dom (fd_at t) \<subseteq> {..<length (fds t)}"
  by (auto simp: fd_at_def split: if_splits)

lemma vec_resize_grow: "length xs \<le> n \<Longrightarrow> vec_resize n xs = xs @ replicate (n - length xs) None"
  by (simp add: vec_resize_def)

lemma fd_at_grow: "fd_at (t\<lparr> fds := fds t @ replicate n None \<rparr>) = fd_at t"
  by (auto simp: fd_at_def nth_append fun_eq_iff)

lemma fd_at_update: "i < length (fds t) \<Longrightarrow> fd_at (t\<lparr> fds := (fds t)[i := x] \<rparr>) = (fd_at t)(i := x)"
  by (auto simp: fd_at_def fun_eq_iff)

lemma fd_at_grow_update:
  assumes "length (fds t) \<le> n" "i < n"
  shows "fd_at (t\<lparr> fds := (vec_resize n (fds t))[i := x] \<rparr>) = (fd_at t)(i := x)"
  using assms by (auto simp: fd_at_def vec_resize_grow nth_append nth_list_update fun_eq_iff)

text \<open>The smallest number that is not in use.\<close>

definition lowest_free :: "fd_manage \<Rightarrow> nat \<Rightarrow> nat \<Rightarrow> bool" where
  "lowest_free t m n \<longleftrightarrow> m \<le> n \<and> fd_at t n = None \<and> (\<forall>j. m \<le> j \<and> j < n \<longrightarrow> fd_at t j \<noteq> None)"

lemma lowest_free_le_length: "lowest_free t 0 n \<Longrightarrow> n \<le> length (fds t)"
  by (rule ccontr) (auto simp: lowest_free_def fd_at_def dest: spec [of _ "length (fds t)"])

lemma alloc_fd_Ok:
  assumes "alloc_fd t = (Inr n, t')"
  shows "lowest_free t 0 n" "fd_at t' = fd_at t" "n < length (fds t')" "soft_limit t' = soft_limit t"
    "length (fds t) \<le> length (fds t')" "length (fds t') \<le> max (length (fds t)) (soft_limit t)"
    "set (fds t') \<subseteq> insert None (set (fds t))"
proof -
  consider "List.find (\<lambda>i. fds t ! i = None) [0..<length (fds t)] = Some n" "t' = t"
    | "List.find (\<lambda>i. fds t ! i = None) [0..<length (fds t)] = None" "n = length (fds t)" "length (fds t) < soft_limit t"
      "t' = t\<lparr> fds := fds t @ replicate 1 None \<rparr>"
    using assms by (auto simp: alloc_fd_def Let_def split: option.splits if_splits)
  then show "lowest_free t 0 n" "fd_at t' = fd_at t" "n < length (fds t')" "soft_limit t' = soft_limit t"
    "length (fds t) \<le> length (fds t')" "length (fds t') \<le> max (length (fds t)) (soft_limit t)"
    "set (fds t') \<subseteq> insert None (set (fds t))"
    by (cases; auto simp: lowest_free_def fd_at_def find_upt_Some find_upt_None nth_append fun_eq_iff)+
qed

lemma alloc_fd_Err:
  "alloc_fd t = (Inl e, t') \<longleftrightarrow> e = EMFILE \<and> t' = t \<and> soft_limit t \<le> length (fds t) \<and> (\<forall>i<length (fds t). fd_at t i \<noteq> None)"
  by (auto simp: alloc_fd_def Let_def fd_at_def find_upt_None find_upt_Some split: option.splits if_splits)

lemma alloc_fd_from_eq:
  "alloc_fd_from t m = Some n \<longleftrightarrow> lowest_free t m n \<and> n < soft_limit t"
  "alloc_fd_from t m = None \<longleftrightarrow> (\<forall>n. m \<le> n \<and> n < soft_limit t \<longrightarrow> fd_at t n \<noteq> None)"
  by (auto simp: alloc_fd_from_def find_upt_Some find_upt_None lowest_free_def fd_at_def)

lemma install_fd_Ok:
  assumes "install_fd t d = (Inr n, t')"
  shows "lowest_free t 0 n" "fd_at t' = (fd_at t)(n \<mapsto> d)" "soft_limit t' = soft_limit t"
    "set (fds t') \<subseteq> insert None (insert (Some d) (set (fds t)))"
proof -
  obtain t1 where t1: "alloc_fd t = (Inr n, t1)" "t' = t1\<lparr> fds := (fds t1)[n := Some d] \<rparr>"
    using assms by (auto simp: install_fd_def split: prod.splits sum.splits)
  note a = alloc_fd_Ok [OF t1(1)]
  show "lowest_free t 0 n" "soft_limit t' = soft_limit t" using a t1 by auto
  show "fd_at t' = (fd_at t)(n \<mapsto> d)" using a(2,3) t1(2) fd_at_update [of n t1 "Some d"] by simp
  show "set (fds t') \<subseteq> insert None (insert (Some d) (set (fds t)))"
    using a(7) t1(2) set_update_subset_insert [of "fds t1" n "Some d"] by auto
qed

lemma install_fd_Err: "install_fd t d = (Inl e, t') \<longleftrightarrow> alloc_fd t = (Inl e, t')"
  by (auto simp: install_fd_def split: prod.splits sum.splits)

lemma take_file_at: "take_file t n = (fd_at t n, t') \<Longrightarrow> fd_at t' = (fd_at t)(n := None)"
  by (auto simp: take_file_def fd_at_def fun_eq_iff split: if_splits)

lemma take_file_fst: "fst (take_file t n) = fd_at t n"
  by (simp add: take_file_def fd_at_def)

lemma close_on_exec_at: "fd_at (close_on_exec t) = (\<lambda>i. case fd_at t i of None \<Rightarrow> None | Some d \<Rightarrow> if cloexec d then None else Some d)"
  by (auto simp: close_on_exec_def fd_at_def fun_eq_iff)

lemma add_fd_at:
  assumes "add_fd t d pos = Some (Inr old, t')"
  shows "old = fd_at t pos \<and> fd_at t' = (fd_at t)(pos \<mapsto> d) \<and> pos \<le> MAX_FD_NUM"
proof -
  have p: "pos \<le> MAX_FD_NUM" using assms by (auto simp: add_fd_def)
  consider "pos < length (fds t)" "old = fds t ! pos" "t' = t\<lparr> fds := (fds t)[pos := Some d] \<rparr>"
    | "length (fds t) \<le> pos" "old = vec_resize (pos + 1) (fds t) ! pos"
      "t' = t\<lparr> fds := (vec_resize (pos + 1) (fds t))[pos := Some d] \<rparr>"
    using assms by (auto simp: add_fd_def Let_def split: if_splits)
  then show ?thesis
  proof cases
    case 1
    then show ?thesis using p fd_at_update [of pos t "Some d"] by (simp add: fd_at_def)
  next
    case 2
    then have "old = None" by (simp add: vec_resize_grow nth_append)
    then show ?thesis using p 2 fd_at_grow_update [of t "pos + 1" pos "Some d"] by (simp add: fd_at_def)
  qed
qed

text \<open>
  \<open>alloc_and_add_fd\<close> is \<open>install_fd\<close> as long as the number is at most \<open>MAX_FD_NUM\<close>, and panics beyond: the
  number that \<open>alloc_fd\<close> returns is bounded by the soft limit only.
\<close>

lemma alloc_and_add_fd_eq:
  "alloc_and_add_fd t d = (case install_fd t d of
      (Inl e, t') \<Rightarrow> Some (Inl e, t')
    | (Inr n, t') \<Rightarrow> if n \<le> MAX_FD_NUM then Some (Inr n, t') else None)"
proof (cases "alloc_fd t")
  case (Pair r t1)
  show ?thesis
  proof (cases r)
    case (Inl e)
    then show ?thesis using Pair by (simp add: alloc_and_add_fd_def install_fd_def)
  next
    case (Inr n)
    then have "n < length (fds t1)" using Pair alloc_fd_Ok(3) by blast
    then show ?thesis using Pair Inr by (simp add: alloc_and_add_fd_def install_fd_def add_fd_def)
  qed
qed

subsection \<open>Descriptor numbers as resources\<close>

definition fd_used :: "fd_manage \<Rightarrow> nat set" where
  "fd_used t = dom (fd_at t)"

definition open_fd :: "file_descriptor \<Rightarrow> fd_manage \<Rightarrow> (nat \<times> fd_manage) option" where
  "open_fd d t = (case install_fd t d of (Inr n, t') \<Rightarrow> Some (n, t') | _ \<Rightarrow> None)"

definition close_fd :: "fd_manage \<Rightarrow> nat \<Rightarrow> fd_manage option" where
  "close_fd t n = (case take_file t n of (Some _, t') \<Rightarrow> Some t' | _ \<Rightarrow> None)"

lemma close_fd_Some: "close_fd t n = Some t' \<longleftrightarrow> fd_at t n \<noteq> None \<and> t' = snd (take_file t n)"
  using take_file_fst [of t n] by (cases "take_file t n"; cases "fd_at t n") (auto simp: close_fd_def)

interpretation fdp: resource_pool "\<lambda>_. True" fd_used "open_fd d" close_fd for d
proof unfold_locales
  fix s i s'
  assume "open_fd d s = Some (i, s')"
  then have i: "install_fd s d = (Inr i, s')" by (auto simp: open_fd_def split: prod.splits sum.splits)
  show "i \<notin> fd_used s" using install_fd_Ok(1) [OF i] by (auto simp: lowest_free_def fd_used_def)
  show "fd_used s' = insert i (fd_used s)" using install_fd_Ok(2) [OF i] by (auto simp: fd_used_def)
next
  fix s i
  show "(close_fd s i \<noteq> None) = (i \<in> fd_used s)"
    using close_fd_Some [of s i] by (auto simp: fd_used_def)
next
  fix s i s'
  assume "close_fd s i = Some s'"
  then have "take_file s i = (fd_at s i, s')" using close_fd_Some [of s i s'] take_file_fst [of s i] by (simp add: prod_eq_iff)
  from take_file_at [OF this] show "fd_used s' = fd_used s - {i}" by (auto simp: fd_used_def)
qed auto

end
