(* ===== verification/Mutex_Guard.thy ===== *)
theory Mutex_Guard
  imports Prelude
begin

text \<open>
  Guards of the sleeping mutex (\<open>os/src/sync/mutex.rs\<close>) as the code that uses the protected data sees them.  \<open>lock\<close> only
  makes a guard; awaiting the guard acquires the mutex, and only an acquired guard can be dereferenced.  How the
  mutex itself is acquired and released by several tasks is in \<open>Kmutex\<close>; here the argument of a guard is the protected
  data, and awaiting is the poll that returns \<open>Ready\<close>.
\<close>

datatype 'a mutex_guard = Unacquired 'a | Acquired 'a

definition mutex_lock :: "'a \<Rightarrow> 'a mutex_guard" where
  "mutex_lock x = Unacquired x"

fun guard_await :: "'a mutex_guard \<Rightarrow> 'a mutex_guard" where
  "guard_await (Unacquired x) = Acquired x"
| "guard_await (Acquired x) = Acquired x"

fun guard_deref :: "'a mutex_guard \<Rightarrow> 'a option" where
  "guard_deref (Acquired x) = Some x"
| "guard_deref (Unacquired x) = None"

lemma guard_deref_lock [simp]: "guard_deref (mutex_lock x) = None"
  by (simp add: mutex_lock_def)

lemma guard_deref_await [simp]: "guard_deref (guard_await (mutex_lock x)) = Some x"
  by (simp add: mutex_lock_def)

end
