(* ===== verification/Byte_Stream.thy ===== *)
theory Byte_Stream
  imports Prelude
begin

text \<open>
  The contract of a byte stream between two ends: what \<open>put\<close> adds at the end, \<open>take_one\<close> takes from the
  front.  The locale proves what a reader and a writer may conclude for any interleaving of their
  operations; the pipe's ring buffer provides the contract.
\<close>

datatype stream_op = Put u8 | Take

text \<open>A run returns the bytes put, the bytes taken and the final state; operations that cannot proceed do nothing.\<close>

fun stream_run :: "(u8 \<Rightarrow> 's \<Rightarrow> 's option) \<Rightarrow> ('s \<Rightarrow> (u8 \<times> 's) option) \<Rightarrow> stream_op list \<Rightarrow> 's \<Rightarrow> u8 list \<times> u8 list \<times> 's" where
  "stream_run put tk [] s = ([], [], s)"
| "stream_run put tk (Put b # ops) s =
     (case put b s of
        Some s' \<Rightarrow> (let (ins, outs, s'') = stream_run put tk ops s' in (b # ins, outs, s''))
      | None \<Rightarrow> stream_run put tk ops s)"
| "stream_run put tk (Take # ops) s =
     (case tk s of
        Some (b, s') \<Rightarrow> (let (ins, outs, s'') = stream_run put tk ops s' in (ins, b # outs, s''))
      | None \<Rightarrow> stream_run put tk ops s)"

locale byte_stream =
  fixes put :: "u8 \<Rightarrow> 's \<Rightarrow> 's option"
    and take_one :: "'s \<Rightarrow> (u8 \<times> 's) option"
    and contents :: "'s \<Rightarrow> u8 list"
    and invar :: "'s \<Rightarrow> bool"
  assumes put_contents: "invar s \<Longrightarrow> put b s = Some s' \<Longrightarrow> contents s' = contents s @ [b] \<and> invar s'"
    and take_contents: "invar s \<Longrightarrow> take_one s = Some (b, s') \<Longrightarrow> contents s = b # contents s' \<and> invar s'"
begin

lemma run_fifo:
  assumes "invar s" "stream_run put take_one ops s = (ins, outs, s')"
  shows "contents s @ ins = outs @ contents s' \<and> invar s'"
  using assms
proof (induction ops arbitrary: s ins outs s')
  case (Cons p ops)
  show ?case
  proof (cases p)
    case (Put b)
    show ?thesis
    proof (cases "put b s")
      case None
      then show ?thesis using Cons Put by simp
    next
      case (Some s1)
      obtain i o1 s2 where r: "stream_run put take_one ops s1 = (i, o1, s2)" by (metis prod_cases3)
      then have e: "ins = b # i" "outs = o1" "s' = s2" using Cons.prems Put Some by simp_all
      have c: "contents s1 = contents s @ [b]" "invar s1" using put_contents [OF Cons.prems(1) Some] by auto
      then show ?thesis using Cons.IH [OF c(2) r] e by simp
    qed
  next
    case Take
    show ?thesis
    proof (cases "take_one s")
      case None
      then show ?thesis using Cons Take by simp
    next
      case (Some r1)
      obtain b s1 where b: "r1 = (b, s1)" by (cases r1)
      obtain i o1 s2 where r: "stream_run put take_one ops s1 = (i, o1, s2)" by (metis prod_cases3)
      then have e: "ins = i" "outs = b # o1" "s' = s2" using Cons.prems Take Some b by simp_all
      have c: "contents s = b # contents s1" "invar s1" using take_contents [OF Cons.prems(1)] Some b by auto
      then show ?thesis using Cons.IH [OF c(2) r] e by simp
    qed
  qed
qed simp

end

end
