(* ===== verification/Pipe.thy ===== *)
theory Pipe
  imports Byte_Stream Executor Errno Open_Flags
begin

text \<open>
  Pipes (\<open>os/src/fs/pipe.rs\<close>): the ring buffer, the two ends, polling, and one round of the read and write
  loops.  A user buffer is the list of its segments.  A round either ends the call or registers the task's
  waker and waits; the loop then starts the next round.
\<close>

definition RING_BUFFER_SIZE :: nat where "RING_BUFFER_SIZE = 0x4000"

datatype ring_status = Full | Empty | Normal

text \<open>The array is a function on indices; the operations check the index as the code's indexing does.\<close>

record ring =
  arr :: "nat \<Rightarrow> u8"
  head :: nat
  tail :: nat
  rstatus :: ring_status
  read_end_closed :: bool
  write_end_closed :: bool
  read_waiters :: "nat list"
  write_waiters :: "nat list"

definition ring_new :: ring where
  "ring_new = \<lparr> arr = (\<lambda>_. 0), head = 0, tail = 0, rstatus = Empty,
     read_end_closed = False, write_end_closed = False, read_waiters = [], write_waiters = [] \<rparr>"

definition notify_readers :: "exec \<Rightarrow> ring \<Rightarrow> (exec \<times> ring) option" where
  "notify_readers e rb = do { e' \<leftarrow> wake_list e (read_waiters rb); Some (e', rb\<lparr> read_waiters := [] \<rparr>) }"

definition notify_writers :: "exec \<Rightarrow> ring \<Rightarrow> (exec \<times> ring) option" where
  "notify_writers e rb = do { e' \<leftarrow> wake_list e (write_waiters rb); Some (e', rb\<lparr> write_waiters := [] \<rparr>) }"

text \<open>\<open>will_wake\<close> compares the task a waker wakes.\<close>

definition register_reader_waker :: "nat \<Rightarrow> ring \<Rightarrow> ring" where
  "register_reader_waker t rb =
     (if t \<notin> set (read_waiters rb) then rb\<lparr> read_waiters := read_waiters rb @ [t] \<rparr> else rb)"

definition register_writer_waker :: "nat \<Rightarrow> ring \<Rightarrow> ring" where
  "register_writer_waker t rb =
     (if t \<notin> set (write_waiters rb) then rb\<lparr> write_waiters := write_waiters rb @ [t] \<rparr> else rb)"

definition mark_write_end_closed :: "exec \<Rightarrow> ring \<Rightarrow> (exec \<times> ring) option" where
  "mark_write_end_closed e rb =
     (if \<not> write_end_closed rb then notify_readers e (rb\<lparr> write_end_closed := True \<rparr>) else Some (e, rb))"

definition mark_read_end_closed :: "exec \<Rightarrow> ring \<Rightarrow> (exec \<times> ring) option" where
  "mark_read_end_closed e rb =
     (if \<not> read_end_closed rb then notify_writers e (rb\<lparr> read_end_closed := True \<rparr>) else Some (e, rb))"

definition rb_write_byte :: "u8 \<Rightarrow> exec \<Rightarrow> ring \<Rightarrow> ((sys_err_no + unit) \<times> exec \<times> ring) option" where
  "rb_write_byte b e rb =
     (if rstatus rb = Full then Some (Err EAGAIN, e, rb)
      else if read_end_closed rb then Some (Err EPIPE, e, rb)
      else do {
        let buffer_was_empty = (rstatus rb = Empty);
        ensure (tail rb < RING_BUFFER_SIZE);
        let tl1 = (tail rb + 1) mod RING_BUFFER_SIZE;
        let rb = rb\<lparr> arr := (arr rb)(tail rb := b), tail := tl1,
          rstatus := (if tl1 = head rb then Full else Normal) \<rparr>;
        (e, rb) \<leftarrow> (if buffer_was_empty then notify_readers e rb else Some (e, rb));
        Some (Ok (), e, rb) })"

definition rb_read_byte :: "exec \<Rightarrow> ring \<Rightarrow> (u8 option \<times> exec \<times> ring) option" where
  "rb_read_byte e rb =
     (if rstatus rb = Empty then Some (None, e, rb)
      else do {
        let buffer_was_full = (rstatus rb = Full);
        ensure (head rb < RING_BUFFER_SIZE);
        let c = arr rb (head rb);
        let hd1 = (head rb + 1) mod RING_BUFFER_SIZE;
        let rb = rb\<lparr> head := hd1, rstatus := (if hd1 = tail rb then Empty else Normal) \<rparr>;
        (e, rb) \<leftarrow> (if buffer_was_full then notify_writers e rb else Some (e, rb));
        Some (Some c, e, rb) })"

definition available_read :: "ring \<Rightarrow> nat" where
  "available_read rb =
     (if rstatus rb = Empty then 0
      else if tail rb > head rb then tail rb - head rb
      else tail rb + RING_BUFFER_SIZE - head rb)"

definition available_write :: "ring \<Rightarrow> nat" where
  "available_write rb = (if rstatus rb = Full then 0 else RING_BUFFER_SIZE - available_read rb)"

subsection \<open>The two ends\<close>

record pipe =
  p_readable :: bool
  p_writable :: bool
  p_flags :: u32

definition read_end_with_buffer :: "u32 \<Rightarrow> pipe" where
  "read_end_with_buffer flags = \<lparr> p_readable = True, p_writable = False, p_flags = flags OR O_RDONLY \<rparr>"

definition write_end_with_buffer :: "u32 \<Rightarrow> pipe" where
  "write_end_with_buffer flags = \<lparr> p_readable = False, p_writable = True, p_flags = flags OR O_WRONLY \<rparr>"

definition is_non_block :: "pipe \<Rightarrow> bool" where
  "is_non_block p = fl_contains (p_flags p) O_NONBLOCK"

definition make_pipe :: "u32 \<Rightarrow> pipe \<times> pipe \<times> ring" where
  "make_pipe flags = (
     let read_flags = flags OR O_RDONLY; write_flags = flags OR O_WRONLY
     in (read_end_with_buffer read_flags, write_end_with_buffer write_flags, ring_new))"

definition pipe_drop :: "pipe \<Rightarrow> exec \<Rightarrow> ring \<Rightarrow> (exec \<times> ring) option" where
  "pipe_drop p e rb = do {
     (e, rb) \<leftarrow> (if p_readable p then mark_read_end_closed e rb else Some (e, rb));
     (if p_writable p then mark_write_end_closed e rb else Some (e, rb)) }"

definition POLLIN :: u16 where "POLLIN = 1"
definition POLLOUT :: u16 where "POLLOUT = 4"
definition POLLERR :: u16 where "POLLERR = 8"
definition POLLHUP :: u16 where "POLLHUP = 16"

definition pipe_poll_read :: "u16 \<Rightarrow> nat \<Rightarrow> u16 \<Rightarrow> ring \<Rightarrow> u16 \<times> ring" where
  "pipe_poll_read requested t revents rb = (
     let (revents, rb) =
       (if fl_contains requested POLLIN then
          (if available_read rb > 0 then (fl_insert revents POLLIN, rb)
           else if write_end_closed rb then (fl_insert (fl_insert revents POLLIN) POLLHUP, rb)
           else (revents, register_reader_waker t rb))
        else (revents, rb))
     in (if write_end_closed rb then fl_insert revents POLLHUP else revents, rb))"

definition pipe_poll_write :: "u16 \<Rightarrow> nat \<Rightarrow> u16 \<Rightarrow> ring \<Rightarrow> u16 \<times> ring" where
  "pipe_poll_write requested t revents rb = (
     let (revents, rb) =
       (if fl_contains requested POLLOUT then
          (if available_write rb > 0 then (fl_insert revents POLLOUT, rb)
           else if read_end_closed rb then (fl_insert (fl_insert revents POLLOUT) POLLERR, rb)
           else (revents, register_writer_waker t rb))
        else (revents, rb))
     in (if read_end_closed rb then fl_insert revents POLLERR else revents, rb))"

definition pipe_poll :: "pipe \<Rightarrow> u16 \<Rightarrow> nat \<Rightarrow> ring \<Rightarrow> u16 \<times> ring" where
  "pipe_poll p requested t rb = (
     let (revents, rb) = (if p_readable p then pipe_poll_read requested t 0 rb else (0, rb))
     in if p_writable p then pipe_poll_write requested t revents rb else (revents, rb))"

subsection \<open>Reading\<close>

text \<open>The inner loop fills a segment until it is full or the ring is empty.\<close>

fun pipe_fill :: "nat \<Rightarrow> exec \<Rightarrow> ring \<Rightarrow> (u8 list \<times> exec \<times> ring) option" where
  "pipe_fill 0 e rb = Some ([], e, rb)"
| "pipe_fill (Suc n) e rb = do {
     (r, e, rb) \<leftarrow> rb_read_byte e rb;
     (case r of
        None \<Rightarrow> Some ([], e, rb)
      | Some b \<Rightarrow> do { (bs, e, rb) \<leftarrow> pipe_fill n e rb; Some (b # bs, e, rb) }) }"

fun pipe_read_segs :: "nat \<Rightarrow> nat \<Rightarrow> u8 list list \<Rightarrow> exec \<Rightarrow> ring \<Rightarrow> (nat \<times> u8 list list \<times> exec \<times> ring) option" where
  "pipe_read_segs len total_read [] e rb = Some (total_read, [], e, rb)"
| "pipe_read_segs len total_read (seg # segs) e rb = do {
     (bs, e, rb) \<leftarrow> pipe_fill (min (length seg) (len - total_read)) e rb;
     let total_read = total_read + length bs;
     let seg' = bs @ drop (length bs) seg;
     (if length bs = length seg then
        (if segs = [] \<or> total_read = len then Some (total_read, seg' # segs, e, rb)
         else do {
           (n, segs', e, rb) \<leftarrow> pipe_read_segs len total_read segs e rb;
           Some (n, seg' # segs', e, rb) })
      else Some (total_read, seg' # segs, e, rb)) }"

datatype io_result = IoDone "sys_err_no + nat" | IoWait

definition pipe_read :: "pipe \<Rightarrow> nat \<Rightarrow> u8 list list \<Rightarrow> exec \<Rightarrow> ring \<Rightarrow> (io_result \<times> u8 list list \<times> exec \<times> ring) option" where
  "pipe_read p t buf e rb =
     (if \<not> p_readable p then Some (IoDone (Err EBADF), buf, e, rb)
      else if sum_list (map length buf) = 0 then Some (IoDone (Ok 0), buf, e, rb)
      else if available_read rb > 0 then do {
        (n, buf', e, rb) \<leftarrow> pipe_read_segs (sum_list (map length buf)) 0 buf e rb;
        Some (IoDone (Ok n), buf', e, rb) }
      else if write_end_closed rb then Some (IoDone (Ok 0), buf, e, rb)
      else if is_non_block p then Some (IoDone (Err EAGAIN), buf, e, rb)
      else Some (IoWait, buf, e, register_reader_waker t rb))"

subsection \<open>Writing\<close>

fun pipe_drain :: "u8 list \<Rightarrow> exec \<Rightarrow> ring \<Rightarrow> (nat \<times> exec \<times> ring) option" where
  "pipe_drain [] e rb = Some (0, e, rb)"
| "pipe_drain (b # bs) e rb =
     (if available_write rb > 0 then do {
        (r, e, rb) \<leftarrow> rb_write_byte b e rb;
        (case r of
           Err _ \<Rightarrow> None
         | Ok _ \<Rightarrow> do { (n, e, rb) \<leftarrow> pipe_drain bs e rb; Some (n + 1, e, rb) }) }
      else Some (0, e, rb))"

fun pipe_write_segs :: "nat \<Rightarrow> nat \<Rightarrow> u8 list list \<Rightarrow> exec \<Rightarrow> ring \<Rightarrow> (nat \<times> exec \<times> ring) option" where
  "pipe_write_segs len total_written [] e rb = Some (total_written, e, rb)"
| "pipe_write_segs len total_written (seg # segs) e rb = do {
     (n, e, rb) \<leftarrow> pipe_drain (take (len - total_written) seg) e rb;
     let total_written = total_written + n;
     (if n = length seg then
        (if segs = [] \<or> total_written = len then Some (total_written, e, rb)
         else pipe_write_segs len total_written segs e rb)
      else Some (total_written, e, rb)) }"

definition pipe_write :: "pipe \<Rightarrow> nat \<Rightarrow> u8 list list \<Rightarrow> exec \<Rightarrow> ring \<Rightarrow> (io_result \<times> exec \<times> ring) option" where
  "pipe_write p t buf e rb =
     (if \<not> p_writable p then Some (IoDone (Err EBADF), e, rb)
      else if sum_list (map length buf) = 0 then Some (IoDone (Ok 0), e, rb)
      else if read_end_closed rb then Some (IoDone (Err EPIPE), e, rb)
      else if available_write rb > 0 then do {
        (n, e, rb) \<leftarrow> pipe_write_segs (sum_list (map length buf)) 0 buf e rb;
        Some (IoDone (Ok n), e, rb) }
      else if is_non_block p then Some (IoDone (Err EAGAIN), e, rb)
      else Some (IoWait, e, register_writer_waker t rb))"

subsection \<open>The ring buffer as a list\<close>

lemma ring_size_pos [simp]: "0 < RING_BUFFER_SIZE"
  by (simp add: RING_BUFFER_SIZE_def)

definition ring_inv :: "ring \<Rightarrow> bool" where
  "ring_inv rb \<longleftrightarrow> head rb < RING_BUFFER_SIZE \<and> tail rb < RING_BUFFER_SIZE
     \<and> (rstatus rb = Normal \<longleftrightarrow> head rb \<noteq> tail rb)"

definition ring_contents :: "ring \<Rightarrow> u8 list" where
  "ring_contents rb = map (\<lambda>i. arr rb ((head rb + i) mod RING_BUFFER_SIZE)) [0..<available_read rb]"

lemma ring_index:
  "h < RING_BUFFER_SIZE \<Longrightarrow> i \<le> RING_BUFFER_SIZE \<Longrightarrow>
     (h + i) mod RING_BUFFER_SIZE = (if h + i < RING_BUFFER_SIZE then h + i else h + i - RING_BUFFER_SIZE)"
  by (simp add: mod_if)

lemma ring_available:
  assumes "ring_inv rb"
  shows "available_read rb \<le> RING_BUFFER_SIZE"
    "tail rb = (head rb + available_read rb) mod RING_BUFFER_SIZE"
    "available_read rb = 0 \<longleftrightarrow> rstatus rb = Empty" "available_read rb = RING_BUFFER_SIZE \<longleftrightarrow> rstatus rb = Full"
proof -
  have st: "rstatus rb \<noteq> Normal \<Longrightarrow> head rb = tail rb" "rstatus rb = Normal \<Longrightarrow> head rb \<noteq> tail rb"
    and b: "head rb < RING_BUFFER_SIZE" "tail rb < RING_BUFFER_SIZE"
    using assms by (auto simp: ring_inv_def)
  show a: "available_read rb \<le> RING_BUFFER_SIZE" using b by (auto simp: available_read_def)
  show "tail rb = (head rb + available_read rb) mod RING_BUFFER_SIZE"
    unfolding ring_index [OF b(1) a] using b st by (cases "rstatus rb") (auto simp: available_read_def)
  show "available_read rb = 0 \<longleftrightarrow> rstatus rb = Empty" "available_read rb = RING_BUFFER_SIZE \<longleftrightarrow> rstatus rb = Full"
    using b st by (cases "rstatus rb"; auto simp: available_read_def)+
qed

lemma length_ring_contents [simp]: "length (ring_contents rb) = available_read rb"
  by (simp add: ring_contents_def)

lemma available_write_room:
  "ring_inv rb \<Longrightarrow> available_write rb = RING_BUFFER_SIZE - length (ring_contents rb)"
  using ring_available(4) [of rb] by (auto simp: available_write_def)

lemma ring_put:
  fixes rb b
  defines "tl1 \<equiv> (tail rb + 1) mod RING_BUFFER_SIZE"
  defines "rb' \<equiv> rb\<lparr> arr := (arr rb)(tail rb := b), tail := tl1, rstatus := (if tl1 = head rb then Full else Normal) \<rparr>"
  assumes inv: "ring_inv rb" and nf: "rstatus rb \<noteq> Full"
  shows "ring_inv rb'" "ring_contents rb' = ring_contents rb @ [b]"
proof -
  have b: "head rb < RING_BUFFER_SIZE" "tail rb < RING_BUFFER_SIZE" using inv by (auto simp: ring_inv_def)
  have tl1: "tl1 = (if tail rb + 1 < RING_BUFFER_SIZE then tail rb + 1 else 0)"
    unfolding tl1_def using b by (auto simp: mod_Suc)
  show i: "ring_inv rb'" using b by (auto simp: rb'_def ring_inv_def tl1)
  note av = ring_available [OF inv]
  have lt: "available_read rb < RING_BUFFER_SIZE" using av nf by (simp add: order.not_eq_order_implies_strict)
  have av': "available_read rb' = available_read rb + 1"
    using b inv nf by (cases "rstatus rb") (auto simp: rb'_def available_read_def tl1 ring_inv_def)
  have "arr rb' ((head rb + i) mod RING_BUFFER_SIZE) = arr rb ((head rb + i) mod RING_BUFFER_SIZE)"
    if "i < available_read rb" for i
  proof -
    have "(head rb + i) mod RING_BUFFER_SIZE \<noteq> tail rb"
      unfolding av(2) using that lt b(1) av(1) by (simp add: ring_index) linarith
    then show ?thesis by (simp add: rb'_def)
  qed
  moreover have "arr rb' ((head rb + available_read rb) mod RING_BUFFER_SIZE) = b"
    using av(2) by (simp add: rb'_def)
  moreover have "head rb' = head rb" by (simp add: rb'_def)
  ultimately show "ring_contents rb' = ring_contents rb @ [b]"
    unfolding ring_contents_def av' by simp
qed

lemma ring_take:
  fixes rb
  defines "hd1 \<equiv> (head rb + 1) mod RING_BUFFER_SIZE"
  defines "rb' \<equiv> rb\<lparr> head := hd1, rstatus := (if hd1 = tail rb then Empty else Normal) \<rparr>"
  assumes inv: "ring_inv rb" and ne: "rstatus rb \<noteq> Empty"
  shows "ring_inv rb'" "ring_contents rb = arr rb (head rb) # ring_contents rb'"
proof -
  have b: "head rb < RING_BUFFER_SIZE" "tail rb < RING_BUFFER_SIZE" using inv by (auto simp: ring_inv_def)
  have hd1: "hd1 = (if head rb + 1 < RING_BUFFER_SIZE then head rb + 1 else 0)"
    unfolding hd1_def using b by (auto simp: mod_Suc)
  show i: "ring_inv rb'" using b by (auto simp: rb'_def ring_inv_def hd1)
  have av': "available_read rb = Suc (available_read rb')"
    using b inv ne by (cases "rstatus rb") (auto simp: rb'_def available_read_def hd1 ring_inv_def)
  have ix: "arr rb' ((head rb' + i) mod RING_BUFFER_SIZE) = arr rb ((head rb + Suc i) mod RING_BUFFER_SIZE)" for i
    by (simp add: rb'_def hd1_def mod_simps)
  have up: "[0..<Suc n] = 0 # map Suc [0..<n]" for n
    by (simp add: map_Suc_upt upt_conv_Cons del: upt_Suc)
  show "ring_contents rb = arr rb (head rb) # ring_contents rb'"
    unfolding ring_contents_def av' up using b(1) ix by simp
qed

subsection \<open>The operations on the list\<close>

definition readers_ok :: "exec \<Rightarrow> ring \<Rightarrow> bool" where
  "readers_ok e rb \<longleftrightarrow> distinct (read_waiters rb) \<and> (\<forall>t\<in>set (read_waiters rb). wakeable e t)"

definition writers_ok :: "exec \<Rightarrow> ring \<Rightarrow> bool" where
  "writers_ok e rb \<longleftrightarrow> distinct (write_waiters rb) \<and> (\<forall>t\<in>set (write_waiters rb). wakeable e t)"

lemma ring_waiters_irrelevant [simp]:
  "ring_inv (rb\<lparr> read_waiters := r \<rparr>) = ring_inv rb" "ring_contents (rb\<lparr> read_waiters := r \<rparr>) = ring_contents rb"
  "ring_inv (rb\<lparr> write_waiters := r \<rparr>) = ring_inv rb" "ring_contents (rb\<lparr> write_waiters := r \<rparr>) = ring_contents rb"
  by (simp_all add: ring_inv_def ring_contents_def available_read_def)

lemma rb_write_byte_Ok:
  assumes "ring_inv rb" "rb_write_byte b e rb = Some (Ok (), e', rb')"
  shows "ring_inv rb' \<and> ring_contents rb' = ring_contents rb @ [b] \<and> read_end_closed rb' = read_end_closed rb
    \<and> write_end_closed rb' = write_end_closed rb \<and> write_waiters rb' = write_waiters rb"
proof -
  have nf: "rstatus rb \<noteq> Full" using assms(2) by (auto simp: rb_write_byte_def)
  from ring_put [OF assms(1) nf, of b] assms(2) show ?thesis
    by (auto simp: rb_write_byte_def notify_readers_def ensure_def Let_def bind_eq_Some_conv split: if_splits)
qed

lemma rb_read_byte_Some:
  assumes "ring_inv rb" "rb_read_byte e rb = Some (Some b, e', rb')"
  shows "ring_inv rb' \<and> ring_contents rb = b # ring_contents rb' \<and> read_end_closed rb' = read_end_closed rb
    \<and> write_end_closed rb' = write_end_closed rb \<and> read_waiters rb' = read_waiters rb"
proof -
  have ne: "rstatus rb \<noteq> Empty" using assms(2) by (auto simp: rb_read_byte_def)
  from ring_take [OF assms(1) ne] assms(2) show ?thesis
    by (auto simp: rb_read_byte_def notify_writers_def ensure_def Let_def bind_eq_Some_conv split: if_splits)
qed

lemma rb_write_byte_total:
  assumes "ring_inv rb" "available_write rb > 0" "\<not> read_end_closed rb" "readers_ok e rb"
  obtains e' rb' where "rb_write_byte b e rb = Some (Ok (), e', rb')" "readers_ok e' rb'"
proof -
  have nf: "rstatus rb \<noteq> Full" "tail rb < RING_BUFFER_SIZE"
    using assms(1,2) by (auto simp: available_write_def ring_inv_def)
  obtain e1 where e1: "wake_list e (read_waiters rb) = Some e1"
    using wake_list_total [of "read_waiters rb" e] assms(4) by (auto simp: readers_ok_def)
  show thesis
    using that assms(3,4) nf e1
    by (cases "rstatus rb = Empty") (auto simp: rb_write_byte_def notify_readers_def readers_ok_def Let_def)
qed

lemma rb_read_byte_total:
  assumes "ring_inv rb" "available_read rb > 0" "writers_ok e rb"
  obtains b e' rb' where "rb_read_byte e rb = Some (Some b, e', rb')" "writers_ok e' rb'"
proof -
  have ne: "rstatus rb \<noteq> Empty" "head rb < RING_BUFFER_SIZE"
    using assms(1,2) by (auto simp: available_read_def ring_inv_def)
  obtain e1 where e1: "wake_list e (write_waiters rb) = Some e1"
    using wake_list_total [of "write_waiters rb" e] assms(3) by (auto simp: writers_ok_def)
  show thesis
    using that assms(3) ne e1
    by (cases "rstatus rb = Full") (auto simp: rb_read_byte_def notify_writers_def writers_ok_def Let_def)
qed

lemma pipe_drain_exact:
  assumes "ring_inv rb" "\<not> read_end_closed rb" "readers_ok e rb"
  shows "\<exists>e' rb'. pipe_drain bs e rb = Some (min (length bs) (available_write rb), e', rb')
    \<and> ring_inv rb' \<and> \<not> read_end_closed rb' \<and> readers_ok e' rb'
    \<and> ring_contents rb' = ring_contents rb @ take (available_write rb) bs"
  using assms
proof (induction bs arbitrary: e rb)
  case (Cons b bs)
  show ?case
  proof (cases "available_write rb > 0")
    case False
    then show ?thesis using Cons.prems by simp
  next
    case True
    obtain e1 rb1 where w: "rb_write_byte b e rb = Some (Ok (), e1, rb1)" "readers_ok e1 rb1"
      using rb_write_byte_total [OF Cons.prems(1) True Cons.prems(2,3)] by metis
    have c: "ring_inv rb1" "ring_contents rb1 = ring_contents rb @ [b]" "\<not> read_end_closed rb1"
      using rb_write_byte_Ok [OF Cons.prems(1) w(1)] Cons.prems(2) by auto
    have "length (ring_contents rb1) = length (ring_contents rb) + 1" unfolding c(2) by (simp del: length_ring_contents)
    then have a: "available_write rb = Suc (available_write rb1)"
      using True available_write_room [OF c(1)] available_write_room [OF Cons.prems(1)] by simp
    obtain e2 rb2 where r: "pipe_drain bs e1 rb1 = Some (min (length bs) (available_write rb1), e2, rb2)"
      "ring_inv rb2" "\<not> read_end_closed rb2" "readers_ok e2 rb2"
      "ring_contents rb2 = ring_contents rb1 @ take (available_write rb1) bs"
      using Cons.IH [OF c(1,3) w(2)] by blast
    then show ?thesis using w(1) c(2) True by (simp add: a)
  qed
qed simp

lemma pipe_fill_exact:
  assumes "ring_inv rb" "writers_ok e rb"
  shows "\<exists>e' rb'. pipe_fill n e rb = Some (take n (ring_contents rb), e', rb')
    \<and> ring_inv rb' \<and> writers_ok e' rb' \<and> ring_contents rb' = drop n (ring_contents rb)"
  using assms
proof (induction n arbitrary: e rb)
  case (Suc n)
  show ?case
  proof (cases "available_read rb > 0")
    case False
    then have "ring_contents rb = []" "rstatus rb = Empty"
      using ring_available(3) [OF Suc.prems(1)] by (auto simp: ring_contents_def)
    then show ?thesis using Suc.prems by (simp add: rb_read_byte_def)
  next
    case True
    obtain b e1 rb1 where w: "rb_read_byte e rb = Some (Some b, e1, rb1)" "writers_ok e1 rb1"
      using rb_read_byte_total [OF Suc.prems(1) True Suc.prems(2)] by metis
    have c: "ring_inv rb1" "ring_contents rb = b # ring_contents rb1"
      using rb_read_byte_Some [OF Suc.prems(1) w(1)] by auto
    then show ?thesis using Suc.IH [OF c(1) w(2)] w(1) by auto
  qed
qed simp

lemma pipe_write_segs_exact:
  assumes "ring_inv rb" "\<not> read_end_closed rb" "readers_ok e rb" "len = done1 + length (concat segs)"
  shows "\<exists>e' rb'. pipe_write_segs len done1 segs e rb =
      Some (done1 + min (length (concat segs)) (available_write rb), e', rb')
    \<and> ring_inv rb' \<and> ring_contents rb' = ring_contents rb @ take (available_write rb) (concat segs)"
  using assms
proof (induction segs arbitrary: e rb done1)
  case (Cons seg segs)
  have l: "take (len - done1) seg = seg" using Cons.prems(4) by simp
  obtain e1 rb1 where d: "pipe_drain seg e rb = Some (min (length seg) (available_write rb), e1, rb1)"
    "ring_inv rb1" "\<not> read_end_closed rb1" "readers_ok e1 rb1"
    "ring_contents rb1 = ring_contents rb @ take (available_write rb) seg"
    using pipe_drain_exact [OF Cons.prems(1-3)] by blast
  show ?case
  proof (cases "length seg \<le> available_write rb")
    case False
    then show ?thesis using d l by (simp add: min_def)
  next
    case True
    have "length (ring_contents rb1) = length (ring_contents rb) + length seg"
      unfolding d(5) using True by (simp del: length_ring_contents)
    then have a: "available_write rb1 = available_write rb - length seg"
      using available_write_room [OF d(2)] available_write_room [OF Cons.prems(1)] by simp
    have c: "ring_contents rb1 = ring_contents rb @ seg" using d(5) True by simp
    show ?thesis
    proof (cases "segs = [] \<or> done1 + length seg = len")
      case stop: True
      then have "concat segs = []" using Cons.prems(4) by auto
      then show ?thesis using d(1,2) l True c stop by (auto simp: min_def simp del: concat_eq_Nil_conv)
    next
      case False
      have "len = (done1 + length seg) + length (concat segs)" using Cons.prems(4) by simp
      from Cons.IH [OF d(2-4) this] obtain e2 rb2 where
        "pipe_write_segs len (done1 + length seg) segs e1 rb1 =
           Some (done1 + length seg + min (length (concat segs)) (available_write rb1), e2, rb2)"
        "ring_inv rb2" "ring_contents rb2 = ring_contents rb1 @ take (available_write rb1) (concat segs)"
        by blast
      moreover have "done1 + length seg + min (length (concat segs)) (available_write rb - length seg) =
        done1 + min (length seg + length (concat segs)) (available_write rb)" using True by simp
      ultimately show ?thesis using d(1) l True False c a by (simp add: min_absorb1 del: concat_eq_Nil_conv)
    qed
  qed
qed simp

text \<open>Reading fills the segments from the front; the rest of the buffer is untouched.\<close>

lemma pipe_read_segs_exact:
  assumes "ring_inv rb" "writers_ok e rb" "len = done1 + length (concat segs)"
  shows "\<exists>e' rb' segs'. pipe_read_segs len done1 segs e rb =
      Some (done1 + min (length (concat segs)) (available_read rb), segs', e', rb')
    \<and> ring_inv rb' \<and> ring_contents rb' = drop (length (concat segs)) (ring_contents rb)
    \<and> map length segs' = map length segs
    \<and> concat segs' = take (length (concat segs)) (ring_contents rb) @ drop (available_read rb) (concat segs)"
  using assms
proof (induction segs arbitrary: e rb done1)
  case (Cons seg segs)
  have l: "min (length seg) (len - done1) = length seg" using Cons.prems(3) by simp
  obtain e1 rb1 where d: "pipe_fill (length seg) e rb = Some (take (length seg) (ring_contents rb), e1, rb1)"
    "ring_inv rb1" "writers_ok e1 rb1" "ring_contents rb1 = drop (length seg) (ring_contents rb)"
    using pipe_fill_exact [OF Cons.prems(1,2)] by blast
  show ?case
  proof (cases "length seg \<le> available_read rb")
    case False
    then have "take (length seg) (ring_contents rb) = ring_contents rb" by simp
    then show ?thesis using d l False by (simp add: min_def)
  next
    case True
    have a: "available_read rb1 = available_read rb - length seg"
      using d(4) by (metis length_drop length_ring_contents)
    show ?thesis
    proof (cases "segs = [] \<or> done1 + length seg = len")
      case stop: True
      then have "concat segs = []" using Cons.prems(3) by auto
      then show ?thesis using d l True stop by (auto simp: min_def simp del: concat_eq_Nil_conv)
    next
      case False
      have "len = (done1 + length seg) + length (concat segs)" using Cons.prems(3) by simp
      from Cons.IH [OF d(2,3) this] obtain e2 rb2 segs2 where r:
        "pipe_read_segs len (done1 + length seg) segs e1 rb1 =
           Some (done1 + length seg + min (length (concat segs)) (available_read rb1), segs2, e2, rb2)"
        "ring_inv rb2" "ring_contents rb2 = drop (length (concat segs)) (ring_contents rb1)"
        "map length segs2 = map length segs"
        "concat segs2 = take (length (concat segs)) (ring_contents rb1) @ drop (available_read rb1) (concat segs)"
        by blast
      have "take (length seg + length (concat segs)) (ring_contents rb) =
        take (length seg) (ring_contents rb) @ take (length (concat segs)) (ring_contents rb1)"
        using d(4) by (simp add: take_add)
      moreover have "done1 + length seg + min (length (concat segs)) (available_read rb - length seg) =
        done1 + min (length seg + length (concat segs)) (available_read rb)" using True by simp
      ultimately show ?thesis
        using d(1,4) l True False a r by (simp add: min_absorb1 add.commute del: concat_eq_Nil_conv)
    qed
  qed
qed simp

subsection \<open>Properties\<close>

text \<open>
  The byte operations provide the stream contract.  A byte that is refused and a wake-up that panics are both \<open>None\<close> here; the runs
  below start from \<open>ring_new\<close>, where no waiter is registered, so that only the first occurs.
\<close>

definition ring_write :: "u8 \<Rightarrow> exec \<times> ring \<Rightarrow> (exec \<times> ring) option" where
  "ring_write b s = (case rb_write_byte b (fst s) (snd s) of Some (Ok _, s') \<Rightarrow> Some s' | _ \<Rightarrow> None)"

definition ring_read :: "exec \<times> ring \<Rightarrow> (u8 \<times> exec \<times> ring) option" where
  "ring_read s = (case rb_read_byte (fst s) (snd s) of Some (Some b, s') \<Rightarrow> Some (b, s') | _ \<Rightarrow> None)"

interpretation pipe_stream: byte_stream ring_write ring_read "\<lambda>s. ring_contents (snd s)" "\<lambda>s. ring_inv (snd s)"
proof
  fix s :: "exec \<times> ring" and b s'
  assume a: "ring_inv (snd s)"
  show "ring_write b s = Some s' \<Longrightarrow> ring_contents (snd s') = ring_contents (snd s) @ [b] \<and> ring_inv (snd s')"
    using rb_write_byte_Ok [OF a, of b "fst s" "fst s'" "snd s'"]
    by (auto simp: ring_write_def split: option.splits sum.splits)
  show "ring_read s = Some (b, s') \<Longrightarrow> ring_contents (snd s) = b # ring_contents (snd s') \<and> ring_inv (snd s')"
    using rb_read_byte_Some [OF a, of "fst s" b "fst s'" "snd s'"]
    by (auto simp: ring_read_def split: option.splits)
qed

lemma ring_new_inv: "ring_inv ring_new" "ring_contents ring_new = []"
  by (simp_all add: ring_inv_def ring_new_def ring_contents_def available_read_def)

lemma ring_new_facts:
  "available_write ring_new = 16384" "\<not> read_end_closed ring_new" "\<not> write_end_closed ring_new" "readers_ok e ring_new"
  by (simp_all add: ring_new_def available_write_def available_read_def RING_BUFFER_SIZE_def readers_ok_def)

lemma concat_empty_length: "sum_list (map length xss) = length (concat xss)"
  by (simp add: length_concat)

text \<open>
  C34: a pipe is a first-in first-out stream.  For every interleaving of byte writes and byte reads on a new
  ring buffer, whatever the tasks do in between, the bytes read followed by the bytes still in the buffer
  are exactly the bytes written, in order.
\<close>

theorem pipe_fifo:
  assumes "stream_run ring_write ring_read ops (e, ring_new) = (ins, outs, e', rb')"
  shows "ins = outs @ ring_contents rb'"
  using pipe_stream.run_fifo [OF _ assms] ring_new_inv by simp

theorem pipe_fifo_witness:
  "case stream_run ring_write ring_read [Put 5, Put 6, Take, Put 7] (exec_start 2, ring_new) of
     (ins, outs, e', rb') \<Rightarrow> ins = outs @ ring_contents rb'"
  using pipe_fifo [of "[Put 5, Put 6, Take, Put 7]" "exec_start 2"] by (auto split: prod.split)

lemma pipe_transfer_cases:
  assumes "ring_inv rb"
  shows "p_writable p \<Longrightarrow> \<not> read_end_closed rb \<Longrightarrow> available_write rb > 0 \<Longrightarrow> readers_ok e rb \<Longrightarrow> concat buf \<noteq> [] \<Longrightarrow>
      \<exists>e' rb'. pipe_write p t buf e rb = Some (IoDone (Ok (min (length (concat buf)) (available_write rb))), e', rb')
        \<and> ring_inv rb' \<and> ring_contents rb' = ring_contents rb @ take (available_write rb) (concat buf)"
    and "p_readable p \<Longrightarrow> available_read rb > 0 \<Longrightarrow> writers_ok e rb \<Longrightarrow> concat buf \<noteq> [] \<Longrightarrow>
      \<exists>e' rb' buf'. pipe_read p t buf e rb = Some (IoDone (Ok (min (length (concat buf)) (available_read rb))), buf', e', rb')
        \<and> ring_inv rb' \<and> ring_contents rb' = drop (length (concat buf)) (ring_contents rb)
        \<and> map length buf' = map length buf
        \<and> concat buf' = take (length (concat buf)) (ring_contents rb) @ drop (available_read rb) (concat buf)"
proof -
  assume w: "p_writable p" "\<not> read_end_closed rb" "available_write rb > 0" "readers_ok e rb" "concat buf \<noteq> []"
  then have "sum_list (map length buf) \<noteq> 0" by (simp add: concat_empty_length del: concat_eq_Nil_conv)
  then show "\<exists>e' rb'. pipe_write p t buf e rb = Some (IoDone (Ok (min (length (concat buf)) (available_write rb))), e', rb')
        \<and> ring_inv rb' \<and> ring_contents rb' = ring_contents rb @ take (available_write rb) (concat buf)"
    using pipe_write_segs_exact [OF assms w(2,4), of "length (concat buf)" 0 buf] w(1-3)
    by (auto simp: pipe_write_def concat_empty_length)
next
  assume r: "p_readable p" "available_read rb > 0" "writers_ok e rb" "concat buf \<noteq> []"
  then have "sum_list (map length buf) \<noteq> 0" by (simp add: concat_empty_length del: concat_eq_Nil_conv)
  then show "\<exists>e' rb' buf'. pipe_read p t buf e rb = Some (IoDone (Ok (min (length (concat buf)) (available_read rb))), buf', e', rb')
        \<and> ring_inv rb' \<and> ring_contents rb' = drop (length (concat buf)) (ring_contents rb)
        \<and> map length buf' = map length buf
        \<and> concat buf' = take (length (concat buf)) (ring_contents rb) @ drop (available_read rb) (concat buf)"
    using pipe_read_segs_exact [OF assms r(3), of "length (concat buf)" 0 buf] r(1,2)
    by (fastforce simp: pipe_read_def concat_empty_length)
qed

text \<open>
  C35: a write on a pipe whose read end is open and that has room takes the longest prefix of the user's
  bytes that fits and appends it to the stream; a read on a pipe that has bytes moves the longest prefix of the
  stream that fits into the user's segments, in order, and leaves the rest of the segments as they were.
  Both return the number of bytes.
\<close>

theorem pipe_transfer:
  assumes "ring_inv rb" "concat buf \<noteq> []"
  shows "(p_writable p \<and> \<not> read_end_closed rb \<and> available_write rb > 0 \<and> readers_ok e rb \<longrightarrow>
      (\<exists>e' rb'. pipe_write p t buf e rb = Some (IoDone (Ok (min (length (concat buf)) (available_write rb))), e', rb')
        \<and> ring_inv rb' \<and> ring_contents rb' = ring_contents rb @ take (available_write rb) (concat buf)))
    \<and> (p_readable p \<and> available_read rb > 0 \<and> writers_ok e rb \<longrightarrow>
      (\<exists>e' rb' buf'. pipe_read p t buf e rb = Some (IoDone (Ok (min (length (concat buf)) (available_read rb))), buf', e', rb')
        \<and> ring_inv rb' \<and> ring_contents rb' = drop (length (concat buf)) (ring_contents rb)
        \<and> map length buf' = map length buf
        \<and> concat buf' = take (length (concat buf)) (ring_contents rb) @ drop (available_read rb) (concat buf)))"
  using pipe_transfer_cases(1) [OF assms(1) _ _ _ _ assms(2), of p e t]
    pipe_transfer_cases(2) [OF assms(1) _ _ _ assms(2), of p e t] by blast

theorem pipe_transfer_witness:
  "\<exists>e' rb'. pipe_write (write_end_with_buffer 0) 3 [[1, 2], [3]] (exec_start 2) ring_new = Some (IoDone (Ok 3), e', rb')
     \<and> ring_contents rb' = [1, 2, 3]"
  using pipe_transfer [OF ring_new_inv(1), of "[[1, 2], [3]]" "write_end_with_buffer 0" "exec_start 2" 3]
  by (auto simp: write_end_with_buffer_def ring_new_inv(2) ring_new_facts numeral_3_eq_3)

lemma pipe_no_transfer_cases:
  assumes "ring_inv rb" "concat buf \<noteq> []"
  shows "p_readable p \<Longrightarrow> ring_contents rb = [] \<Longrightarrow>
      pipe_read p t buf e rb = Some (if write_end_closed rb then IoDone (Ok 0)
        else if is_non_block p then IoDone (Err EAGAIN) else IoWait, buf, e,
        if write_end_closed rb \<or> is_non_block p then rb else register_reader_waker t rb)"
    and "p_writable p \<Longrightarrow> read_end_closed rb \<or> length (ring_contents rb) = RING_BUFFER_SIZE \<Longrightarrow>
      pipe_write p t buf e rb = Some (if read_end_closed rb then IoDone (Err EPIPE)
        else if is_non_block p then IoDone (Err EAGAIN) else IoWait, e,
        if read_end_closed rb \<or> is_non_block p then rb else register_writer_waker t rb)"
    and "t \<in> set (read_waiters (register_reader_waker t rb))" "t \<in> set (write_waiters (register_writer_waker t rb))"
    and "ring_contents (register_reader_waker t rb) = ring_contents rb"
      "ring_contents (register_writer_waker t rb) = ring_contents rb"
proof -
  have ne: "sum_list (map length buf) \<noteq> 0" using assms(2) by (simp add: concat_empty_length del: concat_eq_Nil_conv)
  show "p_readable p \<Longrightarrow> ring_contents rb = [] \<Longrightarrow>
      pipe_read p t buf e rb = Some (if write_end_closed rb then IoDone (Ok 0)
        else if is_non_block p then IoDone (Err EAGAIN) else IoWait, buf, e,
        if write_end_closed rb \<or> is_non_block p then rb else register_reader_waker t rb)"
    using ne length_ring_contents [of rb] by (simp add: pipe_read_def)
  show "p_writable p \<Longrightarrow> read_end_closed rb \<or> length (ring_contents rb) = RING_BUFFER_SIZE \<Longrightarrow>
      pipe_write p t buf e rb = Some (if read_end_closed rb then IoDone (Err EPIPE)
        else if is_non_block p then IoDone (Err EAGAIN) else IoWait, e,
        if read_end_closed rb \<or> is_non_block p then rb else register_writer_waker t rb)"
    using ne available_write_room [OF assms(1)] by (auto simp: pipe_write_def)
qed (auto simp: register_reader_waker_def register_writer_waker_def)

text \<open>
  the calls that transfer nothing.  Reading an empty pipe gives end of file when the write end is closed,
  \<open>EAGAIN\<close> in non-blocking mode, and otherwise waits with the task registered; writing gives \<open>EPIPE\<close> when the
  read end is closed, \<open>EAGAIN\<close> or a registered wait when the buffer is full.  The bytes in the pipe do not change.
\<close>

lemma pipe_no_transfer:
  assumes "ring_inv rb" "concat buf \<noteq> []"
  shows "(p_readable p \<and> ring_contents rb = [] \<longrightarrow>
      pipe_read p t buf e rb = Some (if write_end_closed rb then IoDone (Ok 0)
        else if is_non_block p then IoDone (Err EAGAIN) else IoWait, buf, e,
        if write_end_closed rb \<or> is_non_block p then rb else register_reader_waker t rb))
    \<and> (p_writable p \<and> (read_end_closed rb \<or> length (ring_contents rb) = RING_BUFFER_SIZE) \<longrightarrow>
      pipe_write p t buf e rb = Some (if read_end_closed rb then IoDone (Err EPIPE)
        else if is_non_block p then IoDone (Err EAGAIN) else IoWait, e,
        if read_end_closed rb \<or> is_non_block p then rb else register_writer_waker t rb))
    \<and> t \<in> set (read_waiters (register_reader_waker t rb)) \<and> t \<in> set (write_waiters (register_writer_waker t rb))
    \<and> ring_contents (register_reader_waker t rb) = ring_contents rb
    \<and> ring_contents (register_writer_waker t rb) = ring_contents rb"
  using pipe_no_transfer_cases [OF assms] by blast

lemma pipe_no_transfer_witness:
  "pipe_read (read_end_with_buffer O_NONBLOCK) 3 [[0]] (exec_start 2) ring_new =
     Some (IoDone (Err EAGAIN), [[0]], exec_start 2, ring_new)"
proof -
  have "is_non_block (read_end_with_buffer O_NONBLOCK)"
    by (simp add: is_non_block_def read_end_with_buffer_def fl_contains_def O_NONBLOCK_def O_RDONLY_def)
  then show ?thesis
    using pipe_no_transfer [OF ring_new_inv(1), of "[[0]]" "read_end_with_buffer O_NONBLOCK" 3 "exec_start 2"] ring_new_inv(2)
    by (simp add: read_end_with_buffer_def ring_new_facts)
qed

end
