(* ===== verification/Fd_Syscalls.thy ===== *)
theory Fd_Syscalls
  imports Fd_Table Mutex_Guard Pipe
begin

text \<open>
  System calls on file descriptors (\<open>os/src/syscall/fs.rs\<close>): read and write with their positioned and vectored
  variants, lseek, ftruncate, close, dup, dup3, fcntl and pipe2.

  A call takes the descriptor table of the process, the open files, and, where it touches user memory, the physical memory
  and the token of the page table.  An awaited lock is acquired and the call runs to its end; a guard that the code does not await cannot be dereferenced (\<open>Mutex_Guard\<close>).  The read and write
  of an abstract file stand for the whole future.  \<open>None\<close> is a panic.
\<close>

type_synonym i32 = "32 word"

abbreviation usize_of_i32 :: "i32 \<Rightarrow> nat" where
  "usize_of_i32 fd \<equiv> unat (scast fd :: usize)"

definition F_DUPFD :: nat where "F_DUPFD = 0"
definition F_DUPFD_CLOEXEC :: nat where "F_DUPFD_CLOEXEC = 1030"
definition F_GETFD :: nat where "F_GETFD = 1"
definition F_SETFD :: nat where "F_SETFD = 2"
definition F_GETFL :: nat where "F_GETFL = 3"
definition F_SETFL :: nat where "F_SETFL = 4"
definition FD_CLOEXEC :: usize where "FD_CLOEXEC = 1"

subsection \<open>Reading and writing\<close>

definition sys_write ::
  "'w fs_ops \<Rightarrow> 'w files \<Rightarrow> kmem \<Rightarrow> usize \<Rightarrow> fd_manage \<Rightarrow> nat \<Rightarrow> usize \<Rightarrow> usize \<Rightarrow> ((sys_err_no + nat) \<times> 'w files) option" where
  "sys_write V fs k token t fd buf len =
     (case fd_at t fd of
        None \<Rightarrow> Some (Err EBADF, fs)
      | Some d \<Rightarrow>
          (case any_writable V fs (fd_file d) of
             Inl _ \<Rightarrow> Some (Err EIO, fs)
           | Inr w \<Rightarrow>
               if \<not> w then Some (Err EBADF, fs)
               else do {
                 ss \<leftarrow> translated_byte_buffer k token buf len;
                 let (r, fs) = any_write V fs k (fd_file d) ss;
                 Some (case r of Inl _ \<Rightarrow> (Err EIO, fs) | Inr n \<Rightarrow> (Ok n, fs)) }))"

definition sys_read ::
  "'w fs_ops \<Rightarrow> 'w files \<Rightarrow> kmem \<Rightarrow> usize \<Rightarrow> fd_manage \<Rightarrow> nat \<Rightarrow> usize \<Rightarrow> usize \<Rightarrow> ((sys_err_no + nat) \<times> 'w files \<times> kmem) option" where
  "sys_read V fs k token t fd buf len =
     (case fd_at t fd of
        None \<Rightarrow> Some (Err EBADF, fs, k)
      | Some d \<Rightarrow>
          (case any_readable V fs (fd_file d) of
             Inl _ \<Rightarrow> Some (Err EIO, fs, k)
           | Inr w \<Rightarrow>
               if \<not> w then Some (Err EBADF, fs, k)
               else do {
                 ss \<leftarrow> translated_byte_buffer k token buf len;
                 let (r, fs, k) = any_read V fs k (fd_file d) ss;
                 Some (case r of Inl _ \<Rightarrow> (Err EIO, fs, k) | Inr n \<Rightarrow> (Ok n, fs, k)) }))"

definition sys_lseek :: "'w fs_ops \<Rightarrow> 'w files \<Rightarrow> fd_manage \<Rightarrow> nat \<Rightarrow> usize \<Rightarrow> u32 \<Rightarrow> (sys_err_no + usize) \<times> 'w files" where
  "sys_lseek V fs t fd offset whence =
     (if fd \<ge> fdm_len t then (Err EBADF, fs)
      else case get_file t fd of Inl e \<Rightarrow> (Err e, fs) | Inr d \<Rightarrow> any_lseek V fs (fd_file d) offset whence)"

definition sys_pread64 ::
  "'w fs_ops \<Rightarrow> 'w files \<Rightarrow> kmem \<Rightarrow> usize \<Rightarrow> fd_manage \<Rightarrow> i32 \<Rightarrow> virt_addr \<Rightarrow> nat \<Rightarrow> usize
     \<Rightarrow> ((sys_err_no + nat) \<times> 'w files \<times> kmem) option" where
  "sys_pread64 V fs k token t fd user_buf_ptr cnt offset =
     (if cnt = 0 then Some (Ok 0, fs, k)
      else if sint fd < 0 \<or> usize_of_i32 fd \<ge> fdm_len t then Some (Err EBADF, fs, k)
      else case fd_at t (usize_of_i32 fd) of
        None \<Rightarrow> Some (Err EBADF, fs, k)
      | Some d \<Rightarrow>
          if user_buf_ptr = 0 then Some (Err EFAULT, fs, k)
          else let n = min cnt MAX_KERNEL_RW_BUFFER_SIZE in
            case fc_file (fd_file d) of
              Inl e \<Rightarrow> Some (Err e, fs, k)
            | Inr f \<Rightarrow>
                (case oi_read_at V fs f offset n of
                   (Inl e, fs) \<Rightarrow> Some (Err e, fs, k)
                 | (Inr bs, fs) \<Rightarrow>
                     if bs = [] then Some (Ok 0, fs, k)
                     else do {
                       (r, k) \<leftarrow> copy_to_user_bytes k token user_buf_ptr bs;
                       (case r of Inl e \<Rightarrow> Some (Err (errno_of_translate_error e), fs, k)
                        | Inr n \<Rightarrow> Some (Ok n, fs, k)) }))"

text \<open>The table is locked without awaiting the guard, so the first access to it panics.\<close>

definition sys_pwrite64 ::
  "'w fs_ops \<Rightarrow> 'w files \<Rightarrow> kmem \<Rightarrow> usize \<Rightarrow> fd_manage \<Rightarrow> nat \<Rightarrow> virt_addr \<Rightarrow> nat \<Rightarrow> usize
     \<Rightarrow> ((sys_err_no + nat) \<times> 'w files) option" where
  "sys_pwrite64 V fs k token t fd user_buf_ptr cnt offset =
     (if cnt = 0 then Some (Ok 0, fs)
      else do {
        t \<leftarrow> guard_deref (mutex_lock t);
        (if fd \<ge> fdm_len t then Some (Err EBADF, fs)
         else case fd_at t fd of
           None \<Rightarrow> Some (Err EBADF, fs)
         | Some d \<Rightarrow>
          if user_buf_ptr = 0 then Some (Err EFAULT, fs)
          else let n = min cnt MAX_KERNEL_RW_BUFFER_SIZE in do {
            (r, buf) \<leftarrow> copy_from_user_bytes k token (replicate n 0) user_buf_ptr n;
            (case r of
               Inl e \<Rightarrow> Some (Err (errno_of_translate_error e), fs)
             | Inr _ \<Rightarrow>
                 (case fc_file (fd_file d) of
                    Inl e \<Rightarrow> Some (Err e, fs)
                  | Inr f \<Rightarrow> Some (oi_write_at V fs f offset buf))) }) })"

subsection \<open>Vectored input and output\<close>

record io_vec =
  iov_base :: usize
  iov_len :: usize

definition le_usize :: "u8 list \<Rightarrow> usize" where
  "le_usize bs = foldr (\<lambda>b w. ucast b OR push_bit 8 w) bs 0"

definition iov_of_bytes :: "u8 list \<Rightarrow> io_vec" where
  "iov_of_bytes bs = \<lparr> iov_base = le_usize (take 8 bs), iov_len = le_usize (take 8 (drop 8 bs)) \<rparr>"

definition segs_len :: "seg list \<Rightarrow> nat" where
  "segs_len ss = sum_list (map (\<lambda>(_, lo, hi). hi - lo) ss)"

text \<open>The result of an early exit of the transfer loops: the count so far, or the error when nothing was transferred.\<close>

definition so_far :: "nat \<Rightarrow> sys_err_no \<Rightarrow> sys_err_no + nat" where
  "so_far tot e = (if tot > 0 then Ok tot else Err e)"

fun readv_loop ::
  "'w fs_ops \<Rightarrow> 'w files \<Rightarrow> kmem \<Rightarrow> usize \<Rightarrow> file_class \<Rightarrow> nat \<Rightarrow> io_vec list \<Rightarrow> ((sys_err_no + nat) \<times> 'w files \<times> kmem) option" where
  "readv_loop V fs k token c tot [] = Some (Ok tot, fs, k)"
| "readv_loop V fs k token c tot (v # vs) =
     (if iov_len v = 0 then readv_loop V fs k token c tot vs
      else do {
        ss \<leftarrow> translated_byte_buffer k token (iov_base v) (iov_len v);
        if segs_len ss < unat (iov_len v) then Some (so_far tot EFAULT, fs, k)
        else if ss = [] \<and> iov_len v > 0 then Some (so_far tot EFAULT, fs, k)
        else case any_read V fs k c ss of
            (Inr n, fs, k) \<Rightarrow>
              if n = 0 then Some (Ok tot, fs, k)
              else if n < unat (iov_len v) then Some (Ok (tot + n), fs, k)
              else readv_loop V fs k token c (tot + n) vs
          | (Inl e, fs, k) \<Rightarrow> Some (so_far tot e, fs, k) })"

fun writev_loop ::
  "'w fs_ops \<Rightarrow> 'w files \<Rightarrow> kmem \<Rightarrow> usize \<Rightarrow> file_class \<Rightarrow> nat \<Rightarrow> io_vec list \<Rightarrow> ((sys_err_no + nat) \<times> 'w files) option" where
  "writev_loop V fs k token c tot [] = Some (Ok tot, fs)"
| "writev_loop V fs k token c tot (v # vs) =
     (if iov_len v = 0 then writev_loop V fs k token c tot vs
      else do {
        ss \<leftarrow> translated_byte_buffer k token (iov_base v) (iov_len v);
        if segs_len ss < unat (iov_len v) then Some (so_far tot EFAULT, fs)
        else if ss = [] \<and> iov_len v > 0 then Some (so_far tot EFAULT, fs)
        else case any_write V fs k c ss of
            (Inr n, fs) \<Rightarrow>
              if n = 0 then Some (Ok tot, fs)
              else if n < unat (iov_len v) then Some (Ok (tot + n), fs)
              else writev_loop V fs k token c (tot + n) vs
          | (Inl e, fs) \<Rightarrow> Some (so_far tot e, fs) })"

text \<open>The argument checks that the two calls share; the result is the descriptor and the vector.\<close>

definition iov_request ::
  "kmem \<Rightarrow> usize \<Rightarrow> (nat \<Rightarrow> u8) \<Rightarrow> fd_manage \<Rightarrow> nat \<Rightarrow> virt_addr \<Rightarrow> i32 \<Rightarrow> (sys_err_no + file_descriptor \<times> io_vec list) option" where
  "iov_request k token junk t fd iov_ptr iovcnt =
     (if sint iovcnt \<le> 0 \<or> sint iovcnt > int UIO_MAXIOV then Some (Err EINVAL)
      else if fd \<ge> fdm_len t then Some (Err EBADF)
      else case fd_at t fd of
        None \<Rightarrow> Some (Err EBADF)
      | Some d \<Rightarrow> do {
          r \<leftarrow> copy_from_user_array k token junk iov_ptr (nat (sint iovcnt)) 16;
          (case r of
             Inl e \<Rightarrow> Some (Err (errno_of_translate_error e))
           | Inr cs \<Rightarrow>
               let vs = map iov_of_bytes cs
               in Some (if \<exists>v\<in>set vs. iov_base v = 0 \<and> iov_len v > 0 then Err EFAULT else Ok (d, vs))) })"

definition sys_readv ::
  "'w fs_ops \<Rightarrow> 'w files \<Rightarrow> kmem \<Rightarrow> usize \<Rightarrow> (nat \<Rightarrow> u8) \<Rightarrow> fd_manage \<Rightarrow> nat \<Rightarrow> virt_addr \<Rightarrow> i32
     \<Rightarrow> ((sys_err_no + nat) \<times> 'w files \<times> kmem) option" where
  "sys_readv V fs k token junk t fd iov_ptr iovcnt = do {
     r \<leftarrow> iov_request k token junk t fd iov_ptr iovcnt;
     (case r of
        Inl e \<Rightarrow> Some (Err e, fs, k)
      | Inr (d, vs) \<Rightarrow>
          if (\<forall>v\<in>set vs. iov_len v = 0) then Some (Ok 0, fs, k)
          else readv_loop V fs k token (fd_file d) 0 vs) }"

definition sys_writev ::
  "'w fs_ops \<Rightarrow> 'w files \<Rightarrow> kmem \<Rightarrow> usize \<Rightarrow> (nat \<Rightarrow> u8) \<Rightarrow> fd_manage \<Rightarrow> nat \<Rightarrow> virt_addr \<Rightarrow> i32
     \<Rightarrow> ((sys_err_no + nat) \<times> 'w files) option" where
  "sys_writev V fs k token junk t fd iov_ptr iovcnt = do {
     r \<leftarrow> iov_request k token junk t fd iov_ptr iovcnt;
     (case r of
        Inl e \<Rightarrow> Some (Err e, fs)
      | Inr (d, vs) \<Rightarrow>
          if (\<forall>v\<in>set vs. iov_len v = 0) then Some (Ok 0, fs)
          else writev_loop V fs k token (fd_file d) 0 vs) }"

subsection \<open>The table\<close>

definition sys_close :: "fd_manage \<Rightarrow> i32 \<Rightarrow> (sys_err_no + nat) \<times> fd_manage" where
  "sys_close t fd = (
     let i = usize_of_i32 fd
     in if i \<ge> fdm_len t \<or> fds t ! i = None then (Err EBADF, t)
        else (Ok 0, t\<lparr> fds := (fds t)[i := None] \<rparr>))"

definition sys_dup :: "fd_manage \<Rightarrow> i32 \<Rightarrow> (sys_err_no + nat) \<times> fd_manage" where
  "sys_dup t oldfd =
     (if sint oldfd < 0 then (Err EBADF, t)
      else if usize_of_i32 oldfd \<ge> soft_limit t then (Err EBADF, t)
      else case fd_at t (usize_of_i32 oldfd) of
        None \<Rightarrow> (Err EBADF, t)
      | Some d \<Rightarrow> install_fd t (unset_cloexec d))"

text \<open>The vector is extended when the number is beyond its end, and the descriptor stored.\<close>

definition fd_put :: "fd_manage \<Rightarrow> nat \<Rightarrow> file_descriptor \<Rightarrow> fd_manage" where
  "fd_put t n d = (
     let t = (if n \<ge> fdm_len t then t\<lparr> fds := vec_resize (n + 1) (fds t) \<rparr> else t)
     in t\<lparr> fds := (fds t)[n := Some d] \<rparr>)"

definition dup3_fd :: "u32 \<Rightarrow> file_descriptor \<Rightarrow> file_descriptor" where
  "dup3_fd flags d = d\<lparr> fd_flags := (if fl_contains flags OF_CLOEXEC then fl_insert (fd_flags d) OF_CLOEXEC
     else fl_remove (fd_flags d) OF_CLOEXEC) \<rparr>"

definition dup3_close :: "fd_manage \<Rightarrow> nat \<Rightarrow> fd_manage" where
  "dup3_close t n = (if n < fdm_len t \<and> fds t ! n \<noteq> None then t\<lparr> fds := (fds t)[n := None] \<rparr> else t)"

definition sys_dup3 :: "fd_manage \<Rightarrow> i32 \<Rightarrow> i32 \<Rightarrow> u32 \<Rightarrow> (sys_err_no + nat) \<times> fd_manage" where
  "sys_dup3 t oldfd newfd flags_u32 = (
     let creation_flags = fl_from_bits_truncate OF_all flags_u32
     in if creation_flags \<noteq> 0 \<and> \<not> fl_contains creation_flags OF_CLOEXEC then (Err EINVAL, t)
        else if sint oldfd < 0 \<or> usize_of_i32 oldfd \<ge> MAX_FD_NUM \<or> sint newfd < 0 \<or> usize_of_i32 newfd \<ge> MAX_FD_NUM
          then (Err EBADF, t)
        else if oldfd = newfd then (Err EINVAL, t)
        else if usize_of_i32 oldfd \<ge> soft_limit t then (Err EBADF, t)
        else case fd_at t (usize_of_i32 oldfd) of
          None \<Rightarrow> (Err EBADF, t)
        | Some d \<Rightarrow>
            let n = usize_of_i32 newfd
            in (Ok n, fd_put (dup3_close t n) n (dup3_fd creation_flags d)))"

text \<open>
  \<open>get_file\<close> returns a clone of the descriptor, and the flags are part of the descriptor: the changes that fcntl
  makes to the clone are dropped with it.
\<close>

definition sys_fcntl :: "fd_manage \<Rightarrow> nat \<Rightarrow> nat \<Rightarrow> usize \<Rightarrow> (sys_err_no + nat) \<times> fd_manage" where
  "sys_fcntl t fd cmd arg =
     (if cmd = F_DUPFD \<or> cmd = F_DUPFD_CLOEXEC then
        (case get_file t fd of
           Inl e \<Rightarrow> (Err e, t)
         | Inr file \<Rightarrow>
             (case alloc_fd_from t (unat arg) of
                None \<Rightarrow> (Err EMFILE, t)
              | Some new_fd \<Rightarrow>
                  let t = fd_put t new_fd file
                  in case get_file t new_fd of
                       Inl e \<Rightarrow> (Err e, t)
                     | Inr new_file \<Rightarrow>
                         let new_file = (if cmd = F_DUPFD_CLOEXEC then set_cloexec new_file else unset_cloexec new_file)
                         in (Ok new_fd, t)))
      else if cmd = F_GETFD then
        (case get_file t fd of Inl e \<Rightarrow> (Err e, t) | Inr file \<Rightarrow> (Ok (if cloexec file then 1 else 0), t))
      else if cmd = F_SETFD then
        (case get_file t fd of
           Inl e \<Rightarrow> (Err e, t)
         | Inr file \<Rightarrow>
             let file = (if arg AND FD_CLOEXEC \<noteq> 0 then set_cloexec file else unset_cloexec file) in (Ok 0, t))
      else if cmd = F_GETFL then
        (case get_file t fd of Inl e \<Rightarrow> (Err e, t) | Inr file \<Rightarrow> (Ok (unat (fd_flags file)), t))
      else if cmd = F_SETFL then
        (case get_file t fd of
           Inl e \<Rightarrow> (Err e, t)
         | Inr file \<Rightarrow>
             let settable = O_APPEND OR O_NONBLOCK;
                 new_bits = (fd_flags file AND NOT settable) OR (ucast arg AND settable);
                 file = file\<lparr> fd_flags := fl_from_bits_truncate OF_all new_bits \<rparr>
             in (Ok 0, t))
      else (Err EINVAL, t))"

definition sys_ftruncate :: "'w fs_ops \<Rightarrow> 'w files \<Rightarrow> fd_manage \<Rightarrow> i32 \<Rightarrow> u64 \<Rightarrow> (sys_err_no + nat) \<times> 'w files" where
  "sys_ftruncate V fs t fd len =
     (case get_file t (usize_of_i32 fd) of
        Inl e \<Rightarrow> (Err e, fs)
      | Inr d \<Rightarrow>
          (case fc_file (fd_file d) of
             Inl e \<Rightarrow> (Err e, fs)
           | Inr f \<Rightarrow>
               if \<not> oi_writable (os_inodes fs f) then (Err EINVAL, fs)
               else case oi_truncate V fs f len of (Inl e, fs) \<Rightarrow> (Err e, fs) | (Inr _, fs) \<Rightarrow> (Ok 0, fs)))"

text \<open>
  \<open>make_pipe\<close> creates two new objects; their numbers are the arguments \<open>rid\<close> and \<open>wid\<close>.  The result also has the two ends
  and their ring buffer.
\<close>

definition le_bytes_i32 :: "i32 \<Rightarrow> u8 list" where
  "le_bytes_i32 w = map (\<lambda>i. ucast (drop_bit (8 * i) w)) [0..<4]"

definition sys_pipe2 ::
  "kmem \<Rightarrow> usize \<Rightarrow> fd_manage \<Rightarrow> nat \<Rightarrow> nat \<Rightarrow> virt_addr \<Rightarrow> u32
     \<Rightarrow> ((sys_err_no + nat) \<times> kmem \<times> fd_manage \<times> (pipe \<times> pipe \<times> ring) option) option" where
  "sys_pipe2 k token t rid wid pipefd_user_ptr flags_u32 =
     (if pipefd_user_ptr = 0 then Some (Err EFAULT, k, t, None)
      else let open_flags = fl_from_bits_truncate OF_all flags_u32; p = make_pipe open_flags in do {
        (r, t) \<leftarrow> alloc_and_add_fd t (fd_new open_flags (Abs rid));
        (case r of
           Inl e \<Rightarrow> Some (Err e, k, t, Some p)
         | Inr fd_read \<Rightarrow> do {
             (r, t) \<leftarrow> alloc_and_add_fd t (fd_new open_flags (Abs wid));
             (case r of
                Inl e \<Rightarrow> Some (Err e, k, t, Some p)
              | Inr fd_write \<Rightarrow> do {
                  (r, k) \<leftarrow> copy_to_user_bytes_exact k token pipefd_user_ptr
                    (le_bytes_i32 (of_nat fd_read) @ le_bytes_i32 (of_nat fd_write));
                  Some (case r of Inr _ \<Rightarrow> Ok 0 | Inl _ \<Rightarrow> Err EFAULT, k, t, Some p) }) }) })"

subsection \<open>Effects on the table\<close>

lemma sys_close_at:
  "fst (sys_close t fd) = (if fd_at t (usize_of_i32 fd) = None then Err EBADF else Ok 0)"
  "fd_at (snd (sys_close t fd)) = (fd_at t)(usize_of_i32 fd := None)"
  by (auto simp: sys_close_def fdm_len_def fd_at_def Let_def fun_eq_iff)

lemma fd_put_at: "fd_at (fd_put t n d) = (fd_at t)(n \<mapsto> d)"
proof (cases "fdm_len t \<le> n")
  case True
  then show ?thesis using fd_at_grow_update [of t "n + 1" n "Some d"] by (simp add: fd_put_def fdm_len_def)
next
  case False
  then show ?thesis using fd_at_update [of n t "Some d"] by (simp add: fd_put_def fdm_len_def)
qed

lemma fd_put_room: "length (fds (fd_put t n d)) = max (length (fds t)) (n + 1)" "soft_limit (fd_put t n d) = soft_limit t"
  by (auto simp: fd_put_def fdm_len_def vec_resize_def Let_def)

lemma sys_dup_Ok:
  assumes "sys_dup t old = (Inr n, t')"
  shows "\<exists>d. fd_at t (usize_of_i32 old) = Some d \<and> lowest_free t 0 n \<and> fd_at t' = (fd_at t)(n \<mapsto> unset_cloexec d)"
proof -
  obtain d where d: "fd_at t (usize_of_i32 old) = Some d" "install_fd t (unset_cloexec d) = (Inr n, t')"
    using assms by (auto simp: sys_dup_def split: if_splits option.splits)
  show ?thesis using d(1) install_fd_Ok(1,2) [OF d(2)] by blast
qed

lemma sys_dup_Err: "sys_dup t old = (Inl e, t') \<Longrightarrow> t' = t"
  by (auto simp: sys_dup_def install_fd_Err alloc_fd_Err split: if_splits option.splits)

lemma contains_truncate: "fl_contains (fl_from_bits_truncate OF_all f) OF_CLOEXEC \<longleftrightarrow> fl_contains f OF_CLOEXEC"
proof -
  have "OF_all AND OF_CLOEXEC = OF_CLOEXEC" by (simp add: OF_all_eq OF_CLOEXEC_def)
  then show ?thesis by (simp add: fl_contains_def fl_from_bits_truncate_def and.assoc)
qed

lemma dup3_fd_truncate: "dup3_fd (fl_from_bits_truncate OF_all f) d = dup3_fd f d"
  by (simp add: dup3_fd_def contains_truncate)

lemma dup3_close_facts:
  "fd_at (dup3_close t n) = (fd_at t)(n := None)" "length (fds (dup3_close t n)) = length (fds t)" "soft_limit (dup3_close t n) = soft_limit t"
  using fd_at_update [of n t None] by (auto simp: dup3_close_def fdm_len_def fd_at_def)

lemma sys_dup3_Ok:
  assumes "sys_dup3 t old new flags = (Inr n, t')"
  shows "\<exists>d. fd_at t (usize_of_i32 old) = Some d \<and> old \<noteq> new \<and> n = usize_of_i32 new \<and> n < MAX_FD_NUM
    \<and> fd_at t' = (fd_at t)(n \<mapsto> dup3_fd flags d) \<and> length (fds t') = max (length (fds t)) (n + 1) \<and> soft_limit t' = soft_limit t"
proof -
  obtain d where "fd_at t (usize_of_i32 old) = Some d" "old \<noteq> new" "n < MAX_FD_NUM" "n = usize_of_i32 new"
    "t' = fd_put (dup3_close t n) n (dup3_fd flags d)"
    using assms by (auto simp: sys_dup3_def Let_def dup3_fd_truncate split: if_splits option.splits)
  then show ?thesis by (simp add: fd_put_at fd_put_room dup3_close_facts)
qed

lemma sys_dup3_Err: "sys_dup3 t old new flags = (Inl e, t') \<Longrightarrow> t' = t"
  by (auto simp: sys_dup3_def Let_def split: if_splits option.splits)

lemma fcntl_dup_Ok:
  assumes "cmd = F_DUPFD \<or> cmd = F_DUPFD_CLOEXEC" "sys_fcntl t fd cmd arg = (Inr n, t')"
  shows "\<exists>d. fd_at t fd = Some d \<and> lowest_free t (unat arg) n \<and> n < soft_limit t \<and> t' = fd_put t n d"
proof -
  obtain d where d: "fd_at t fd = Some d" using assms by (auto simp: sys_fcntl_def get_file_def split: option.splits)
  obtain m where m: "alloc_fd_from t (unat arg) = Some m"
    using assms d by (cases "alloc_fd_from t (unat arg)") (auto simp: sys_fcntl_def get_file_def)
  let ?t = "fd_put t m d"
  have at: "fd_at ?t = (fd_at t)(m \<mapsto> d)" by (rule fd_put_at)
  then have "get_file ?t m = Inr d" by (simp add: get_file_def)
  then have "sys_fcntl t fd cmd arg = (Inr m, ?t)"
    using assms(1) d m by (simp add: sys_fcntl_def get_file_def Let_def)
  then show ?thesis using assms(2) d m alloc_fd_from_eq(1) [of t "unat arg" m] by auto
qed

lemma fcntl_other: "\<not> (cmd = F_DUPFD \<or> cmd = F_DUPFD_CLOEXEC) \<Longrightarrow> snd (sys_fcntl t fd cmd arg) = t"
  by (auto simp: sys_fcntl_def Let_def split: sum.splits)

lemma fcntl_dup_Err:
  assumes "sys_fcntl t fd cmd arg = (Inl e, t')"
  shows "t' = t"
proof (cases "cmd = F_DUPFD \<or> cmd = F_DUPFD_CLOEXEC")
  case False
  then show ?thesis using fcntl_other [OF False, of t fd arg] assms by simp
next
  case True
  show ?thesis
  proof (cases "fd_at t fd")
    case None
    then show ?thesis using assms True by (auto simp: sys_fcntl_def get_file_def)
  next
    case (Some d)
    show ?thesis
    proof (cases "alloc_fd_from t (unat arg)")
      case None
      then show ?thesis using assms True Some by (auto simp: sys_fcntl_def get_file_def)
    next
      case m: (Some m)
      let ?t = "fd_put t m d"
      have "get_file ?t m = Inr d" using fd_put_at [of t m d] by (simp add: get_file_def)
      then have "sys_fcntl t fd cmd arg = (Inr m, ?t)"
        using True Some m by (simp add: sys_fcntl_def get_file_def Let_def)
      then show ?thesis using assms by simp
    qed
  qed
qed

text \<open>
  C24: the table of descriptors as a partial function from numbers to open files.  \<open>close\<close> removes one entry; \<open>dup\<close> adds the
  same file at the smallest free number with close-on-exec cleared; \<open>dup3\<close> binds the given number with close-on-exec as asked
  for; \<open>fcntl\<close> with \<open>F_DUPFD\<close> or \<open>F_DUPFD_CLOEXEC\<close> binds the smallest free number from its argument on to the file with the
  flags of the old entry: the step that is to clear or to set close-on-exec works on a copy of the new entry.  For the same reason
  no other command of \<open>fcntl\<close> changes the table.  No other entry changes, and a call that returns an error changes none.
\<close>

theorem fd_table_refines:
  "fd_at (snd (sys_close t fd)) = (fd_at t)(usize_of_i32 fd := None)
   \<and> (sys_dup t fd = (Inr n, t') \<longrightarrow>
        (\<exists>d. fd_at t (usize_of_i32 fd) = Some d \<and> lowest_free t 0 n \<and> fd_at t' = (fd_at t)(n \<mapsto> unset_cloexec d)))
   \<and> (sys_dup3 t fd fd' flags = (Inr n, t') \<longrightarrow>
        (\<exists>d. fd_at t (usize_of_i32 fd) = Some d \<and> n = usize_of_i32 fd' \<and> fd_at t' = (fd_at t)(n \<mapsto> dup3_fd flags d)))
   \<and> (dupcmd \<in> {F_DUPFD, F_DUPFD_CLOEXEC} \<and> sys_fcntl t i dupcmd arg = (Inr n, t') \<longrightarrow>
        (\<exists>d. fd_at t i = Some d \<and> lowest_free t (unat arg) n \<and> fd_at t' = (fd_at t)(n \<mapsto> d)))
   \<and> (cmd \<notin> {F_DUPFD, F_DUPFD_CLOEXEC} \<longrightarrow> fd_at (snd (sys_fcntl t i cmd arg)) = fd_at t)
   \<and> (sys_dup t fd = (Inl e, t') \<or> sys_dup3 t fd fd' flags = (Inl e, t') \<or> sys_fcntl t i cmd arg = (Inl e, t') \<longrightarrow>
        fd_at t' = fd_at t)"
proof (intro conjI impI)
  show "fd_at (snd (sys_close t fd)) = (fd_at t)(usize_of_i32 fd := None)" by (rule sys_close_at(2))
  show "\<exists>d. fd_at t (usize_of_i32 fd) = Some d \<and> lowest_free t 0 n \<and> fd_at t' = (fd_at t)(n \<mapsto> unset_cloexec d)"
    if "sys_dup t fd = (Inr n, t')" using sys_dup_Ok [OF that] .
  show "\<exists>d. fd_at t (usize_of_i32 fd) = Some d \<and> n = usize_of_i32 fd' \<and> fd_at t' = (fd_at t)(n \<mapsto> dup3_fd flags d)"
    if "sys_dup3 t fd fd' flags = (Inr n, t')" using sys_dup3_Ok [OF that] by blast
  show "\<exists>d. fd_at t i = Some d \<and> lowest_free t (unat arg) n \<and> fd_at t' = (fd_at t)(n \<mapsto> d)"
    if "dupcmd \<in> {F_DUPFD, F_DUPFD_CLOEXEC} \<and> sys_fcntl t i dupcmd arg = (Inr n, t')"
    using fcntl_dup_Ok [of dupcmd t i arg n t'] that fd_put_at by blast
  show "fd_at (snd (sys_fcntl t i cmd arg)) = fd_at t" if "cmd \<notin> {F_DUPFD, F_DUPFD_CLOEXEC}"
    using that by (auto simp: sys_fcntl_def get_file_def Let_def split: option.splits)
  show "fd_at t' = fd_at t"
    if "sys_dup t fd = (Inl e, t') \<or> sys_dup3 t fd fd' flags = (Inl e, t') \<or> sys_fcntl t i cmd arg = (Inl e, t')"
    using that sys_dup_Err [of t fd e t'] sys_dup3_Err [of t fd fd' flags e t'] fcntl_dup_Err [of t i cmd arg e t'] by auto
qed

lemma stdio_facts:
  "fds (new_with_stdio i0 i1 i2) = [Some \<lparr> fd_flags = O_RDONLY, fd_file = Abs i0 \<rparr>,
     Some \<lparr> fd_flags = O_WRONLY, fd_file = Abs i1 \<rparr>, Some \<lparr> fd_flags = O_WRONLY, fd_file = Abs i2 \<rparr>]"
  "soft_limit (new_with_stdio i0 i1 i2) = 128"
  by (simp_all add: new_with_stdio_def fdm_new_def)

theorem fd_table_refines_witness:
  "\<exists>t'. sys_dup (new_with_stdio 0 1 2) 1 = (Inr 3, t')
    \<and> (\<exists>d. fd_at (new_with_stdio 0 1 2) (usize_of_i32 1) = Some d \<and> fd_at t' = (fd_at (new_with_stdio 0 1 2))(3 \<mapsto> unset_cloexec d))"
proof -
  have "fst (sys_dup (new_with_stdio 0 1 2) 1) = Inr 3"
    by (simp add: sys_dup_def fd_at_def stdio_facts install_fd_def alloc_fd_def upt_rec)
  then obtain t' where t': "sys_dup (new_with_stdio 0 1 2) 1 = (Inr 3, t')" by (metis prod.collapse)
  then show ?thesis using fd_table_refines [of "new_with_stdio 0 1 2" 1 3 t'] by blast
qed

subsection \<open>Types\<close>

text \<open>
  The values of the table are well typed: the flags of every descriptor have declared bits only, and the vector is not longer than
  the limits allow.
\<close>

definition fds_ok :: "fd_manage \<Rightarrow> bool" where
  "fds_ok t \<longleftrightarrow> (\<forall>d\<in>ran (fd_at t). of_ok (fd_flags d)) \<and> length (fds t) \<le> max (soft_limit t) MAX_FD_NUM"

lemma fds_ok_D: "fds_ok t \<Longrightarrow> fd_at t i = Some d \<Longrightarrow> of_ok (fd_flags d)"
  by (auto simp: fds_ok_def ran_def)

lemma fds_ok_update:
  assumes "fds_ok t" "fd_at t' = (fd_at t)(i := x)" "\<And>d. x = Some d \<Longrightarrow> of_ok (fd_flags d)"
    "length (fds t') \<le> max (soft_limit t') MAX_FD_NUM"
  shows "fds_ok t'"
  using assms by (auto simp: fds_ok_def ran_def split: if_splits)

lemma cloexec_ok:
  assumes "of_ok (fd_flags d)"
  shows "of_ok (fd_flags (unset_cloexec d))" "of_ok (fd_flags (dup3_fd flags d))"
  using assms of_ok_or [OF assms of_ok_consts(4)] of_ok_remove [OF assms, of OF_CLOEXEC]
  by (auto simp: unset_cloexec_def dup3_fd_def fl_insert_def of_ok_bits bit_simps)

lemma table_room:
  assumes "fds_ok t"
  shows "length (fds (snd (alloc_fd t))) \<le> max (soft_limit t) MAX_FD_NUM" "soft_limit (snd (alloc_fd t)) = soft_limit t"
    "length (fds (snd (install_fd t d))) = length (fds (snd (alloc_fd t)))" "soft_limit (snd (install_fd t d)) = soft_limit t"
  using assms by (auto simp: fds_ok_def alloc_fd_def install_fd_def Let_def split: option.splits)

lemma install_fd_typed:
  assumes "fds_ok t" "of_ok (fd_flags d)"
  shows "fds_ok (snd (install_fd t d))"
proof (cases "install_fd t d")
  case (Pair r t')
  note room = table_room [OF assms(1)]
  show ?thesis
  proof (cases r)
    case (Inl e)
    then have "t' = t" using Pair by (simp add: install_fd_Err alloc_fd_Err)
    then show ?thesis using Pair assms(1) by simp
  next
    case (Inr n)
    then have "install_fd t d = (Inr n, t')" using Pair by simp
    note i = install_fd_Ok(2,3) [OF this]
    have "length (fds t') \<le> max (soft_limit t') MAX_FD_NUM" using room(1) room(3) [of d] Pair i(2) by simp
    then show ?thesis using fds_ok_update [OF assms(1) i(1)] assms(2) Pair by simp
  qed
qed

lemma alloc_and_add_fd_typed:
  "fds_ok t \<Longrightarrow> of_ok (fd_flags d) \<Longrightarrow> alloc_and_add_fd t d = Some (r, t') \<Longrightarrow> fds_ok t'"
  using install_fd_typed [of t d]
  by (cases "install_fd t d"; cases "fst (install_fd t d)") (auto simp: alloc_and_add_fd_eq split: if_splits)

lemma sys_dup_typed: "fds_ok t \<Longrightarrow> fds_ok (snd (sys_dup t fd))"
  using install_fd_typed [OF _ cloexec_ok(1)] by (auto simp: sys_dup_def dest: fds_ok_D split: option.splits)

lemma sys_dup3_typed:
  assumes "fds_ok t"
  shows "fds_ok (snd (sys_dup3 t old new flags))"
proof (cases "sys_dup3 t old new flags")
  case (Pair r t')
  show ?thesis
  proof (cases r)
    case (Inl e)
    then show ?thesis using Pair assms sys_dup3_Err by fastforce
  next
    case (Inr n)
    then have r: "sys_dup3 t old new flags = (Inr n, t')" using Pair by simp
    then obtain d where d: "fd_at t (usize_of_i32 old) = Some d" "n < MAX_FD_NUM" "fd_at t' = (fd_at t)(n \<mapsto> dup3_fd flags d)"
      "length (fds t') = max (length (fds t)) (n + 1)" "soft_limit t' = soft_limit t"
      using sys_dup3_Ok by blast
    have "length (fds t') \<le> max (soft_limit t') MAX_FD_NUM" using assms d(2,4,5) by (auto simp: fds_ok_def)
    then show ?thesis
      using fds_ok_update [OF assms d(3)] cloexec_ok(2) [OF fds_ok_D [OF assms d(1)]] Pair by simp
  qed
qed

lemma sys_fcntl_typed:
  assumes "fds_ok t"
  shows "fds_ok (snd (sys_fcntl t fd cmd arg))"
proof (cases "cmd = F_DUPFD \<or> cmd = F_DUPFD_CLOEXEC")
  case False
  then show ?thesis using fcntl_other [OF False] assms by simp
next
  case True
  show ?thesis
  proof (cases "sys_fcntl t fd cmd arg")
    case (Pair r t')
    show ?thesis
    proof (cases r)
      case (Inl e)
      then show ?thesis using assms fcntl_dup_Err Pair by fastforce
    next
      case (Inr n)
      then obtain d where d: "fd_at t fd = Some d" "n < soft_limit t" "t' = fd_put t n d" using fcntl_dup_Ok [OF True] Pair by blast
      have "length (fds t') \<le> max (soft_limit t') MAX_FD_NUM" using assms d(2,3) by (auto simp: fds_ok_def fd_put_room)
      then show ?thesis using fds_ok_update [OF assms fd_put_at [of t n d]] fds_ok_D [OF assms d(1)] d(3) Pair by simp
    qed
  qed
qed

lemma sys_close_typed: "fds_ok t \<Longrightarrow> fds_ok (snd (sys_close t fd))"
  by (rule fds_ok_update [OF _ sys_close_at(2)]) (auto simp: sys_close_def Let_def fds_ok_def)

lemma close_on_exec_typed: "fds_ok t \<Longrightarrow> fds_ok (close_on_exec t)"
  unfolding fds_ok_def close_on_exec_at
  by (auto simp: close_on_exec_def ran_def split: option.splits if_splits)

lemma sys_pipe2_typed:
  assumes "fds_ok t" "sys_pipe2 k token t rid wid ptr flags = Some (r, k', t', p)"
  shows "fds_ok t'"
proof (cases "ptr = 0")
  case True
  then show ?thesis using assms by (simp add: sys_pipe2_def)
next
  case False
  let ?f = "fl_from_bits_truncate OF_all flags"
  have ok: "of_ok (fd_flags (fd_new ?f c))" for c by (simp add: fd_new_def of_ok_truncate)
  obtain r1 t1 where 1: "alloc_and_add_fd t (fd_new ?f (Abs rid)) = Some (r1, t1)"
    using assms(2) False by (cases "alloc_and_add_fd t (fd_new ?f (Abs rid))") (auto simp: sys_pipe2_def Let_def)
  note t1 = alloc_and_add_fd_typed [OF assms(1) ok 1]
  show ?thesis
  proof (cases r1)
    case (Inl e)
    then show ?thesis using assms(2) False 1 t1 by (simp add: sys_pipe2_def Let_def)
  next
    case (Inr n)
    obtain r2 t2 where 2: "alloc_and_add_fd t1 (fd_new ?f (Abs wid)) = Some (r2, t2)"
      using assms(2) False 1 Inr by (cases "alloc_and_add_fd t1 (fd_new ?f (Abs wid))") (auto simp: sys_pipe2_def Let_def)
    have "t' = t2" using assms(2) False 1 Inr 2 by (cases r2) (auto simp: sys_pipe2_def Let_def split: bind_splits)
    then show ?thesis using alloc_and_add_fd_typed [OF t1 ok 2] by simp
  qed
qed

text \<open>
  C25: descriptor tables stay well typed.  The table of a new process has flag sets with declared bits only and is within its
  limits, and close, dup, dup3, fcntl, pipe2, exec and the installation of a well-typed descriptor keep it so, whatever
  their arguments and results.
\<close>

theorem fd_table_typed:
  "fds_ok (new_with_stdio i0 i1 i2)
   \<and> (fds_ok t \<longrightarrow> fds_ok (snd (sys_close t fd)) \<and> fds_ok (snd (sys_dup t fd)) \<and> fds_ok (snd (sys_dup3 t fd fd' flags))
        \<and> fds_ok (snd (sys_fcntl t i cmd arg)) \<and> fds_ok (close_on_exec t)
        \<and> (\<forall>r k' t' p. sys_pipe2 k token t rid wid ptr flags = Some (r, k', t', p) \<longrightarrow> fds_ok t')
        \<and> (of_ok (fd_flags d) \<longrightarrow> fds_ok (snd (install_fd t d))))"
proof (intro conjI impI allI)
  show "fds_ok (new_with_stdio i0 i1 i2)"
    by (auto simp: fds_ok_def stdio_facts fd_at_def ran_def less_Suc_eq numeral_3_eq_3 split: if_splits)
  assume t: "fds_ok t"
  show "fds_ok (snd (sys_close t fd))" by (rule sys_close_typed [OF t])
  show "fds_ok (snd (sys_dup t fd))" by (rule sys_dup_typed [OF t])
  show "fds_ok (snd (sys_dup3 t fd fd' flags))" by (rule sys_dup3_typed [OF t])
  show "fds_ok (snd (sys_fcntl t i cmd arg))" by (rule sys_fcntl_typed [OF t])
  show "fds_ok (close_on_exec t)" by (rule close_on_exec_typed [OF t])
  show "fds_ok t'" if "sys_pipe2 k token t rid wid ptr flags = Some (r, k', t', p)" for r k' t' p
    by (rule sys_pipe2_typed [OF t that])
  show "fds_ok (snd (install_fd t d))" if "of_ok (fd_flags d)" by (rule install_fd_typed [OF t that])
qed

theorem fd_table_typed_witness:
  "fds_ok (snd (sys_dup3 (new_with_stdio 7 8 9) 1 50 (ucast OF_CLOEXEC)))"
  using fd_table_typed [of 7 8 9 "new_with_stdio 7 8 9"] by blast

text \<open>
  The limits disagree.  \<open>alloc_fd\<close> is bounded by the soft limit (128 at start), but \<open>alloc_and_add_fd\<close>, which pipe2 and the socket
  calls use, panics exactly when the smallest free number is above \<open>MAX_FD_NUM = 100\<close>: a process with 101 descriptors brings
  the kernel down by calling pipe2.
\<close>

lemma fd_limit_panics:
  "(alloc_and_add_fd t d = None \<longleftrightarrow>
      (\<exists>n. lowest_free t 0 n \<and> MAX_FD_NUM < n \<and> (n < length (fds t) \<or> length (fds t) < soft_limit t)))
   \<and> ((\<exists>n. lowest_free t 0 n \<and> MAX_FD_NUM < n) \<and> length (fds t) < soft_limit t \<and> ptr \<noteq> 0 \<longrightarrow>
        sys_pipe2 k token t rid wid ptr flags = None)"
proof -
  have u: "n = m" if "lowest_free t 0 n" "lowest_free t 0 m" for n m
    using that by (metis (no_types, lifting) lowest_free_def le0 linorder_neqE_nat)
  have eq: "alloc_and_add_fd t d = None \<longleftrightarrow>
      (\<exists>n. lowest_free t 0 n \<and> MAX_FD_NUM < n \<and> (n < length (fds t) \<or> length (fds t) < soft_limit t))" for d
  proof (cases "install_fd t d")
    case (Pair r t')
    show ?thesis
    proof (cases r)
      case (Inl e)
      then have "soft_limit t \<le> length (fds t) \<and> (\<forall>i<length (fds t). fd_at t i \<noteq> None)"
        using Pair by (simp add: install_fd_Err alloc_fd_Err)
      then have "\<not> (\<exists>n. lowest_free t 0 n \<and> (n < length (fds t) \<or> length (fds t) < soft_limit t))"
        by (auto simp: lowest_free_def)
      then show ?thesis using Pair Inl by (auto simp: alloc_and_add_fd_eq)
    next
      case (Inr n)
      then have i: "install_fd t d = (Inr n, t')" using Pair by simp
      then obtain t1 where a: "alloc_fd t = (Inr n, t1)" by (auto simp: install_fd_def split: prod.splits sum.splits)
      have "n < length (fds t) \<or> length (fds t) < soft_limit t"
        using alloc_fd_Ok(3,6) [OF a] by auto
      moreover have "lowest_free t 0 m \<longleftrightarrow> m = n" for m using install_fd_Ok(1) [OF i] u by blast
      ultimately show ?thesis using i by (auto simp: alloc_and_add_fd_eq)
    qed
  qed
  have "sys_pipe2 k token t rid wid ptr flags = None"
    if "\<exists>n. lowest_free t 0 n \<and> MAX_FD_NUM < n" "length (fds t) < soft_limit t" "ptr \<noteq> 0"
  proof -
    have "alloc_and_add_fd t (fd_new (fl_from_bits_truncate OF_all flags) (Abs rid)) = None" unfolding eq using that by blast
    then show ?thesis using that(3) by (simp add: sys_pipe2_def Let_def)
  qed
  then show ?thesis using eq [of d] by blast
qed

lemma free_101:
  assumes "\<forall>i\<le>MAX_FD_NUM. fd_at t i \<noteq> None" "fd_at t 101 = None"
  shows "lowest_free t 0 101 \<and> MAX_FD_NUM < 101"
  using assms by (auto simp: lowest_free_def MAX_FD_NUM_def)

lemma fd_limit_panics_witness:
  "\<forall>k token. sys_pipe2 k token (fdm_new 128 256 (replicate 101 (Some (fd_new 0 (Abs 0))))) 1 2 4096 0 = None"
proof (intro allI)
  fix k token
  let ?t = "fdm_new 128 256 (replicate 101 (Some (fd_new 0 (Abs 0))))"
  have "lowest_free ?t 0 101 \<and> MAX_FD_NUM < 101"
    by (rule free_101) (auto simp: fd_at_def fdm_new_def MAX_FD_NUM_def)
  moreover have "length (fds ?t) < soft_limit ?t" by (simp add: fdm_new_def)
  moreover have "(4096 :: virt_addr) \<noteq> 0" by simp
  ultimately show "sys_pipe2 k token ?t 1 2 4096 0 = None" using fd_limit_panics [of ?t undefined 4096] by blast
qed

text \<open>
  \<open>fcntl\<close> loses the flags it sets.  \<open>F_SETFD\<close> and \<open>F_SETFL\<close> return success for an open descriptor and leave the table as it
  was, so a following \<open>F_GETFD\<close> returns the old flag; the descriptor that \<open>F_DUPFD_CLOEXEC\<close> makes has the flags of the original.
\<close>

lemma fcntl_flags_lost:
  assumes "fd_at t fd = Some d"
  shows "sys_fcntl t fd F_SETFD arg = (Ok 0, t) \<and> sys_fcntl t fd F_SETFL arg = (Ok 0, t)
    \<and> sys_fcntl (snd (sys_fcntl t fd F_SETFD 1)) fd F_GETFD 0 = (Ok (if cloexec d then 1 else 0), t)
    \<and> (sys_fcntl t fd F_DUPFD_CLOEXEC arg = (Inr n, t') \<longrightarrow> fd_at t' n = Some d)"
proof (intro conjI impI)
  show 1: "sys_fcntl t fd F_SETFD arg = (Ok 0, t)" for arg
    using assms by (simp add: sys_fcntl_def F_DUPFD_def F_DUPFD_CLOEXEC_def F_GETFD_def F_SETFD_def get_file_def)
  show "sys_fcntl t fd F_SETFL arg = (Ok 0, t)"
    using assms by (simp add: sys_fcntl_def F_DUPFD_def F_DUPFD_CLOEXEC_def F_GETFD_def F_SETFD_def F_GETFL_def F_SETFL_def
      get_file_def Let_def)
  show "sys_fcntl (snd (sys_fcntl t fd F_SETFD 1)) fd F_GETFD 0 = (Ok (if cloexec d then 1 else 0), t)"
    unfolding 1 using assms by (simp add: sys_fcntl_def F_DUPFD_def F_DUPFD_CLOEXEC_def F_GETFD_def get_file_def)
  show "fd_at t' n = Some d" if "sys_fcntl t fd F_DUPFD_CLOEXEC arg = (Inr n, t')"
    using fcntl_dup_Ok [OF _ that] assms fd_put_at [of t n d] by auto
qed

lemma fcntl_flags_lost_witness:
  "sys_fcntl (snd (sys_fcntl (new_with_stdio 7 8 9) 1 F_SETFD 1)) 1 F_GETFD 0 = (Ok 0, new_with_stdio 7 8 9)"
proof -
  let ?d = "\<lparr> fd_flags = O_WRONLY, fd_file = Abs 8 \<rparr>"
  have d: "fd_at (new_with_stdio 7 8 9) 1 = Some ?d" by (simp add: fd_at_def stdio_facts)
  have c: "\<not> cloexec ?d" by (simp add: cloexec_def fl_contains_def O_WRONLY_def OF_CLOEXEC_def)
  show ?thesis using fcntl_flags_lost [OF d, of 1 undefined undefined] unfolding if_not_P [OF c] by blast
qed

end
