(* ===== verification/Vm_Area.thy ===== *)
theory Vm_Area
  imports Os_Inode Btree
begin

text \<open>
  The areas of an address space and the tree they are kept in (\<open>MapArea\<close> and \<open>VmAreaTree\<close> of
  \<open>os/src/mm/area.rs\<close>): the data, the searches for a gap, and the tests on ranges of pages.  The operations of an
  area on the page table are in \<open>Map_Area\<close>.

  The tree is a \<open>BTreeMap\<close> from the first page of an area to the area.  The numbers of pages that the callers
  pass are byte lengths divided by the page size, so the sums of page numbers do not overflow and page
  numbers are natural numbers.
\<close>

datatype map_type = Framed | Direct

datatype map_area_type = Elf | Stack | Brk | Mmap | Shm int | Physical | MMIO | Tls

record mmap_file =
  mf_file :: file_descriptor
  mf_offset :: usize

definition MAP_SHARED :: u32 where "MAP_SHARED = 1"
definition MAP_PRIVATE :: u32 where "MAP_PRIVATE = push_bit 1 1"
definition MAP_FIXED :: u32 where "MAP_FIXED = push_bit 4 1"
definition MAP_ANONYMOUS :: u32 where "MAP_ANONYMOUS = push_bit 5 1"
definition MAP_POPULATE :: u32 where "MAP_POPULATE = push_bit 13 1"
definition MAP_FIXED_NOREPLACE :: u32 where "MAP_FIXED_NOREPLACE = push_bit 16 1"

definition PROT_READ :: u32 where "PROT_READ = 1"
definition PROT_WRITE :: u32 where "PROT_WRITE = push_bit 1 1"
definition PROT_EXEC :: u32 where "PROT_EXEC = push_bit 2 1"

definition perm_of_prot :: "u32 \<Rightarrow> map_permission" where
  "perm_of_prot prot = (
     let flag = 0 OR MP_U;
         flag = (if fl_contains prot PROT_READ then flag OR MP_R else flag);
         flag = (if fl_contains prot PROT_WRITE then flag OR MP_W else flag);
         flag = (if fl_contains prot PROT_EXEC then flag OR MP_X else flag)
     in flag)"

record map_area =
  ma_range :: vpn_range
  data_frames :: "(vpn, ppn) btree"
  ma_type :: map_type
  ma_perm :: map_permission
  area_type :: map_area_type
  ma_fd :: "mmap_file option"
  mmap_flags :: u32

abbreviation start_vpn :: "map_area \<Rightarrow> vpn" where "start_vpn a \<equiv> get_start (ma_range a)"
abbreviation end_vpn :: "map_area \<Rightarrow> vpn" where "end_vpn a \<equiv> get_end (ma_range a)"

definition ma_new_by_vpn :: "vpn \<Rightarrow> vpn \<Rightarrow> map_type \<Rightarrow> map_permission \<Rightarrow> map_area_type \<Rightarrow> map_area option" where
  "ma_new_by_vpn s e mt perm at = do {
     rg \<leftarrow> range_new s e;
     Some \<lparr> ma_range = rg, data_frames = [], ma_type = mt, ma_perm = perm, area_type = at, ma_fd = None,
       mmap_flags = 0 \<rparr> }"

definition ma_new :: "virt_addr \<Rightarrow> virt_addr \<Rightarrow> map_type \<Rightarrow> map_permission \<Rightarrow> map_area_type \<Rightarrow> map_area option" where
  "ma_new start_va end_va mt perm at = do {
     e \<leftarrow> va_ceil end_va;
     ma_new_by_vpn (va_floor start_va) e mt perm at }"

definition ma_from_another :: "map_area \<Rightarrow> map_area option" where
  "ma_from_another a = do {
     rg \<leftarrow> range_new (start_vpn a) (end_vpn a);
     Some \<lparr> ma_range = rg, data_frames = [], ma_type = ma_type a, ma_perm = ma_perm a, area_type = area_type a,
       ma_fd = ma_fd a, mmap_flags = 0 \<rparr> }"

definition ma_from_another_with_range :: "map_area \<Rightarrow> vpn \<Rightarrow> vpn \<Rightarrow> map_area option" where
  "ma_from_another_with_range a s e = do {
     rg \<leftarrow> range_new s e;
     Some \<lparr> ma_range = rg, data_frames = [], ma_type = ma_type a, ma_perm = ma_perm a, area_type = area_type a,
       ma_fd = None, mmap_flags = 0 \<rparr> }"

definition ma_range_size :: "map_area \<Rightarrow> nat" where
  "ma_range_size a = push_bit PAGE_SIZE_BITS (end_vpn a - start_vpn a)"

definition ma_size :: "map_area \<Rightarrow> nat" where
  "ma_size a = length (data_frames a) * PAGE_SIZE"

definition ma_allocated :: "map_area \<Rightarrow> vpn \<Rightarrow> bool" where
  "ma_allocated a v = (bt_get (data_frames a) v \<noteq> None)"

definition ma_contains :: "map_area \<Rightarrow> vpn \<Rightarrow> bool" where
  "ma_contains a v = range_contains (ma_range a) v"

definition ma_overlap_with :: "map_area \<Rightarrow> vpn \<Rightarrow> vpn \<Rightarrow> bool" where
  "ma_overlap_with a s e = (start_vpn a \<le> s \<and> s < end_vpn a \<or> s \<le> start_vpn a \<and> start_vpn a < e)"

definition ma_contained_in :: "map_area \<Rightarrow> vpn \<Rightarrow> vpn \<Rightarrow> bool" where
  "ma_contained_in a s e = (s \<le> start_vpn a \<and> end_vpn a \<le> e)"

definition ma_strict_contain :: "map_area \<Rightarrow> vpn \<Rightarrow> vpn \<Rightarrow> bool" where
  "ma_strict_contain a s e = (start_vpn a < s \<and> e < end_vpn a)"

subsection \<open>The tree\<close>

type_synonym area_tree = "(vpn, map_area) btree"

abbreviation area_span :: "vpn \<times> map_area \<Rightarrow> vpn \<times> vpn" where
  "area_span e \<equiv> (start_vpn (snd e), end_vpn (snd e))"

definition vt_is_overlap :: "area_tree \<Rightarrow> vpn \<Rightarrow> vpn \<Rightarrow> bool" where
  "vt_is_overlap t s e = list_ex (\<lambda>(_, a). s < end_vpn a \<and> start_vpn a < e) t"

definition vt_find_area :: "area_tree \<Rightarrow> vpn \<Rightarrow> vpn option" where
  "vt_find_area t v = (case bt_last (bt_upto v t) of
      None \<Rightarrow> None
    | Some (vi, a) \<Rightarrow> if ma_contains a v then Some vi else None)"

text \<open>
  The downward search for a gap that \<open>alloc_pages\<close> and \<open>find_gap_from\<close> share: the list holds the first
  page and the end of the areas, the highest first; \<open>end_pn\<close> bounds the gap from above.
\<close>

fun gap_scan :: "nat \<Rightarrow> vpn \<Rightarrow> (vpn \<times> vpn) list \<Rightarrow> vpn option" where
  "gap_scan npages end_pn [] = (if end_pn \<ge> npages then Some (end_pn - npages) else None)"
| "gap_scan npages end_pn ((s, e) # as) =
     (if end_pn \<ge> e + npages \<and> end_pn - npages \<ge> e then Some (end_pn - npages)
      else gap_scan npages (min end_pn s) as)"

definition vt_alloc_pages :: "area_tree \<Rightarrow> nat \<Rightarrow> vpn option" where
  "vt_alloc_pages t npages = gap_scan npages MMAP_PGNUM_TOP (rev (map area_span t))"

definition vt_find_gap_from :: "area_tree \<Rightarrow> vpn \<Rightarrow> nat \<Rightarrow> vpn option" where
  "vt_find_gap_from t hint npages =
     gap_scan npages hint (rev (map (\<lambda>e. (fst e, end_vpn (snd e))) (bt_below hint t)))"

text \<open>The upward search of \<open>alloc_pages_from_hint\<close>: a gap, or the end of the last area.\<close>

fun hint_scan :: "nat \<Rightarrow> vpn \<Rightarrow> area_tree \<Rightarrow> vpn + vpn" where
  "hint_scan npages last_end [] = Inr last_end"
| "hint_scan npages last_end ((s, a) # as) =
     (if s > last_end \<and> s - last_end \<ge> npages \<and> last_end + npages \<le> MMAP_TOP div PAGE_SIZE then Inl last_end
      else hint_scan npages (max last_end (end_vpn a)) as)"

fun top_scan :: "nat \<Rightarrow> vpn \<Rightarrow> map_area list \<Rightarrow> vpn + vpn" where
  "top_scan npages prev_start [] = Inr prev_start"
| "top_scan npages prev_start (a # as) =
     (if prev_start > end_vpn a \<and> prev_start - end_vpn a \<ge> npages then Inl (prev_start - npages)
      else top_scan npages (start_vpn a) as)"

definition vt_alloc_pages_from_hint :: "area_tree \<Rightarrow> nat \<Rightarrow> vpn \<Rightarrow> vpn option" where
  "vt_alloc_pages_from_hint t npages hint_vpn = (
     let start_hint = max hint_vpn (drop_bit PAGE_SIZE_BITS MMAP_BASE)
     in case hint_scan npages start_hint (bt_from start_hint t) of
          Inl v \<Rightarrow> Some v
        | Inr last_end \<Rightarrow>
            if MMAP_TOP div PAGE_SIZE > last_end \<and> MMAP_TOP div PAGE_SIZE - last_end \<ge> npages then Some last_end
            else case top_scan npages (MMAP_TOP div PAGE_SIZE) (rev (map snd t)) of
                Inl v \<Rightarrow> Some v
              | Inr final_end \<Rightarrow>
                  let final_start = drop_bit PAGE_SIZE_BITS MMAP_BASE
                  in if final_end > final_start \<and> final_end - final_start \<ge> npages then Some (final_end - npages)
                     else None)"

function fully_contained_loop :: "area_tree \<Rightarrow> vpn \<Rightarrow> vpn \<Rightarrow> bool" where
  "fully_contained_loop t cursor e =
     (if cursor < e then
        (case bt_last (bt_upto cursor t) of
           None \<Rightarrow> False
         | Some (_, a) \<Rightarrow>
             if cursor < start_vpn a \<or> cursor \<ge> end_vpn a then False
             else fully_contained_loop t (end_vpn a) e)
      else True)"
  by pat_completeness auto
termination
  by (relation "measure (\<lambda>(_, c, e). e - c)") auto

declare fully_contained_loop.simps [simp del]

definition vt_is_fully_contained :: "area_tree \<Rightarrow> vpn \<Rightarrow> vpn \<Rightarrow> bool" where
  "vt_is_fully_contained t s e = fully_contained_loop t s e"

subsection \<open>Well-formed trees\<close>

text \<open>The keys are the first pages, in increasing order, and the areas do not overlap.\<close>

definition areas_ok :: "area_tree \<Rightarrow> bool" where
  "areas_ok t \<longleftrightarrow> bt_inv t \<and> (\<forall>e\<in>set t. start_vpn (snd e) = fst e \<and> fst e \<le> end_vpn (snd e))
     \<and> sorted_wrt (\<lambda>x y. end_vpn (snd x) \<le> fst y) t"

lemma areas_ok_Nil [simp]: "areas_ok []"
  by (simp add: areas_ok_def)

lemma areas_ok_append:
  "areas_ok (xs @ ys) \<longleftrightarrow> areas_ok xs \<and> areas_ok ys
     \<and> (\<forall>x\<in>set xs. \<forall>y\<in>set ys. fst x < fst y \<and> end_vpn (snd x) \<le> fst y)"
  by (auto simp: areas_ok_def bt_inv_append sorted_wrt_append)

lemma areas_ok_D:
  assumes "areas_ok t" "(s, a) \<in> set t"
  shows "start_vpn a = s" "s \<le> end_vpn a"
  using assms by (force simp: areas_ok_def)+

lemma areas_ok_disjoint:
  assumes "areas_ok t" "(s, a) \<in> set t" "(s', a') \<in> set t" "s < s'"
  shows "end_vpn a \<le> s'"
proof -
  obtain xs ys where t: "t = xs @ (s, a) # ys" using split_list [OF assms(2)] by blast
  have "areas_ok (xs @ (s, a) # ys)" using assms(1) t by simp
  then have "\<forall>x\<in>set xs. fst x < s" "\<forall>y\<in>set ys. end_vpn a \<le> fst y"
    by (auto simp: areas_ok_def bt_inv_append sorted_wrt_append)
  then show ?thesis using assms(3,4) t by force
qed

lemma bt_last_append: "bt_last (xs @ [e]) = Some e"
  by (simp add: bt_last_def)

lemma vt_is_overlap_iff:
  "vt_is_overlap t s e \<longleftrightarrow> (\<exists>(k, a) \<in> set t. s < end_vpn a \<and> start_vpn a < e)"
  by (auto simp: vt_is_overlap_def list_ex_iff)

subsection \<open>Gaps\<close>

lemma gap_scan_hit:
  assumes "b + n \<le> ep"
  shows "gap_scan n ep ((a, b) # sp) = Some (ep - n)"
proof -
  have "b \<le> ep - n" using assms by simp
  then show ?thesis using assms by simp
qed

lemma gap_scan_free:
  assumes "gap_scan n ep sp = Some s" "sorted_wrt (\<lambda>x y. snd y \<le> fst x) sp" "\<forall>x\<in>set sp. fst x \<le> snd x"
  shows "s + n \<le> ep \<and> (\<forall>x\<in>set sp. \<not> (s < snd x \<and> fst x < s + n))"
  using assms
proof (induction n ep sp rule: gap_scan.induct)
  case (2 n ep a b sp)
  show ?case
  proof (cases "b + n \<le> ep")
    case True
    then have s: "s = ep - n" using 2(2) by (simp only: gap_scan_hit [OF True] option.inject)
    have "snd x \<le> a" if "x \<in> set sp" for x using 2(3) that by simp
    moreover have "a \<le> b" using 2(4) by simp
    ultimately have "snd x \<le> s" if "x \<in> set ((a, b) # sp)" for x using True s that by fastforce
    then show ?thesis using True s by fastforce
  next
    case False
    then have "gap_scan n (min ep a) sp = Some s" using 2(2) by simp
    then have "s + n \<le> min ep a \<and> (\<forall>x\<in>set sp. \<not> (s < snd x \<and> fst x < s + n))"
      using 2(1,3,4) False by simp
    then show ?thesis by auto
  qed
qed (auto split: if_splits)

lemma gap_scan_highest:
  assumes "case gap_scan n ep sp of None \<Rightarrow> True | Some s \<Rightarrow> s < s'" "s' + n \<le> ep"
  shows "\<exists>x\<in>set sp. s' < snd x \<and> fst x < s' + n"
  using assms
proof (induction n ep sp rule: gap_scan.induct)
  case (2 n ep a b sp)
  show ?case
  proof (cases "b + n \<le> ep")
    case True
    then show ?thesis using 2(2,3) by (simp only: gap_scan_hit [OF True] option.case)
  next
    case False
    then have s: "s' < b" using 2(3) by simp
    show ?thesis
    proof (cases "s' + n \<le> min ep a")
      case True
      then have "\<exists>x\<in>set sp. s' < snd x \<and> fst x < s' + n" using 2(1,2) \<open>\<not> b + n \<le> ep\<close> by simp
      then show ?thesis by auto
    next
      case False
      then show ?thesis using s 2(3) by auto
    qed
  qed
qed (auto split: if_splits option.splits)

lemma areas_ok_spans:
  assumes "areas_ok t"
  shows "sorted_wrt (\<lambda>x y. snd y \<le> fst x) (rev (map area_span t))" "\<forall>x\<in>set (rev (map area_span t)). fst x \<le> snd x"
    "map (\<lambda>e. (fst e, end_vpn (snd e))) t = map area_span t"
proof -
  have k: "\<forall>e\<in>set t. start_vpn (snd e) = fst e \<and> fst e \<le> end_vpn (snd e)"
    and o: "sorted_wrt (\<lambda>x y. end_vpn (snd x) \<le> fst y) t" using assms by (auto simp: areas_ok_def)
  have "sorted_wrt (\<lambda>x y. end_vpn (snd x) \<le> start_vpn (snd y)) t"
    by (rule sorted_wrt_mono_rel [OF _ o]) (simp add: k)
  then show "sorted_wrt (\<lambda>x y. snd y \<le> fst x) (rev (map area_span t))"
    by (simp add: sorted_wrt_rev sorted_wrt_map)
  show "\<forall>x\<in>set (rev (map area_span t)). fst x \<le> snd x" "map (\<lambda>e. (fst e, end_vpn (snd e))) t = map area_span t"
    using k by auto
qed

lemma span_overlap:
  "(\<exists>x\<in>set (rev (map area_span t)). s < snd x \<and> fst x < e) \<longleftrightarrow> vt_is_overlap t s e"
  unfolding vt_is_overlap_iff by (simp add: case_prod_beta)

lemma gap_scan_overlap:
  assumes "areas_ok t"
  shows "gap_scan n ep (rev (map area_span t)) = Some s \<Longrightarrow> s + n \<le> ep \<and> \<not> vt_is_overlap t s (s + n)"
    and "case gap_scan n ep (rev (map area_span t)) of None \<Rightarrow> True | Some s \<Rightarrow> s < s' \<Longrightarrow> s' + n \<le> ep \<Longrightarrow>
      vt_is_overlap t s' (s' + n)"
proof -
  assume g: "gap_scan n ep (rev (map area_span t)) = Some s"
  note f = gap_scan_free [OF g areas_ok_spans(1,2) [OF assms]]
  then show "s + n \<le> ep \<and> \<not> vt_is_overlap t s (s + n)"
    using span_overlap [of t s "s + n"] by blast
next
  assume "case gap_scan n ep (rev (map area_span t)) of None \<Rightarrow> True | Some s \<Rightarrow> s < s'" "s' + n \<le> ep"
  from gap_scan_highest [OF this] show "vt_is_overlap t s' (s' + n)"
    unfolding span_overlap .
qed

lemma areas_ok_below: "areas_ok t \<Longrightarrow> areas_ok (bt_below v t)"
proof -
  assume t: "areas_ok t"
  obtain r where "t = bt_below v t @ r" unfolding bt_below_def by (metis takeWhile_dropWhile_id)
  then show ?thesis using t areas_ok_append [of "bt_below v t" r] by simp
qed

lemma areas_ok_inv: "areas_ok t \<Longrightarrow> bt_inv t"
  by (simp add: areas_ok_def)

lemma overlap_below:
  assumes "areas_ok t" "e \<le> v"
  shows "vt_is_overlap (bt_below v t) s e \<longleftrightarrow> vt_is_overlap t s e"
proof -
  have "(k, a) \<in> set (bt_below v t)" if "(k, a) \<in> set t" "start_vpn a < e" for k a
    using that assms areas_ok_D(1) [OF assms(1) that(1)] bt_set_below [OF areas_ok_inv [OF assms(1)], of v] by auto
  moreover have "set (bt_below v t) \<subseteq> set t" using bt_set_below [OF areas_ok_inv [OF assms(1)], of v] by auto
  ultimately show ?thesis unfolding vt_is_overlap_iff by blast
qed

text \<open>Both downward searches return the highest free run of pages below their bound, when there is one.\<close>

lemma vt_alloc_pages_exact:
  assumes "areas_ok t"
  shows "vt_alloc_pages t n = Some s \<Longrightarrow> s + n \<le> MMAP_PGNUM_TOP \<and> \<not> vt_is_overlap t s (s + n)"
    and "case vt_alloc_pages t n of None \<Rightarrow> True | Some s \<Rightarrow> s < s' \<Longrightarrow> s' + n \<le> MMAP_PGNUM_TOP \<Longrightarrow>
      vt_is_overlap t s' (s' + n)"
  unfolding vt_alloc_pages_def
  by (rule gap_scan_overlap(1) [OF assms], assumption) (rule gap_scan_overlap(2) [OF assms])

lemma vt_find_gap_from_exact:
  assumes "areas_ok t"
  shows "vt_find_gap_from t hint n = Some s \<Longrightarrow> s + n \<le> hint \<and> \<not> vt_is_overlap t s (s + n)"
    and "case vt_find_gap_from t hint n of None \<Rightarrow> True | Some s \<Rightarrow> s < s' \<Longrightarrow> s' + n \<le> hint \<Longrightarrow>
      vt_is_overlap t s' (s' + n)"
proof -
  note b = areas_ok_below [OF assms, of hint]
  have g: "vt_find_gap_from t hint n = gap_scan n hint (rev (map area_span (bt_below hint t)))"
    unfolding vt_find_gap_from_def areas_ok_spans(3) [OF b] ..
  show "s + n \<le> hint \<and> \<not> vt_is_overlap t s (s + n)" if "vt_find_gap_from t hint n = Some s"
    using gap_scan_overlap(1) [OF b that [unfolded g]] overlap_below [OF assms, of "s + n" hint s] by blast
  show "vt_is_overlap t s' (s' + n)"
    if c: "case vt_find_gap_from t hint n of None \<Rightarrow> True | Some s \<Rightarrow> s < s'" and le: "s' + n \<le> hint"
    using gap_scan_overlap(2) [OF b c [unfolded g] le] overlap_below [OF assms le] by blast
qed

subsection \<open>Gaps near a hint\<close>

text \<open>No area that starts before the first page considered reaches beyond it.\<close>

definition no_straddle :: "area_tree \<Rightarrow> vpn \<Rightarrow> bool" where
  "no_straddle t h \<longleftrightarrow> (\<forall>(k, a)\<in>set t. k < h \<longrightarrow> end_vpn a \<le> h)"

lemma hint_scan_gap:
  assumes "bt_inv as" "hint_scan n le as = Inl s"
  shows "le \<le> s \<and> (\<forall>e\<in>set as. \<not> (s < end_vpn (snd e) \<and> fst e < s + n))"
  using assms
proof (induction n le as rule: hint_scan.induct)
  case (2 n le k a as)
  show ?case
  proof (cases "k > le \<and> k - le \<ge> n \<and> le + n \<le> MMAP_TOP div PAGE_SIZE")
    case True
    then have "s = le" using 2(3) by simp
    moreover have "s + n \<le> k" using True \<open>s = le\<close> by linarith
    moreover have "k < fst e" if "e \<in> set as" for e using 2(2) that by auto
    ultimately show ?thesis by fastforce
  next
    case False
    then have "hint_scan n (max le (end_vpn a)) as = Inl s" using 2(3) by auto
    then show ?thesis using 2(1) [OF False] 2(2) by auto
  qed
qed simp

lemma hint_scan_end:
  assumes "hint_scan n le as = Inr s"
  shows "le \<le> s \<and> (\<forall>e\<in>set as. end_vpn (snd e) \<le> s)"
  using assms by (induction n le as rule: hint_scan.induct) (fastforce split: if_splits)+

text \<open>
  The downward search starts at \<open>MMAP_TOP\<close> even when areas lie above it; from the second area on, the
  bound is above all remaining areas.
\<close>

lemma top_scan_below:
  assumes "top_scan n prev as = Inl s" "sorted_wrt (\<lambda>x y. end_vpn y \<le> start_vpn x) as"
    "\<forall>a\<in>set as. start_vpn a \<le> end_vpn a \<and> end_vpn a \<le> prev"
  shows "s + n \<le> prev \<and> (\<forall>a\<in>set as. \<not> (s < end_vpn a \<and> start_vpn a < s + n))"
  using assms
proof (induction n prev as rule: top_scan.induct)
  case (2 n prev a as)
  show ?case
  proof (cases "prev > end_vpn a \<and> prev - end_vpn a \<ge> n")
    case True
    then have s: "s = prev - n" using 2(2) by simp
    have "end_vpn b \<le> s" if "b \<in> set (a # as)" for b
    proof -
      have "end_vpn b \<le> end_vpn a" using that 2(3,4) by fastforce
      then show ?thesis using True s by linarith
    qed
    then show ?thesis using True s by fastforce
  next
    case False
    then have "top_scan n (start_vpn a) as = Inl s" using 2(2) by auto
    then have "s + n \<le> start_vpn a \<and> (\<forall>b\<in>set as. \<not> (s < end_vpn b \<and> start_vpn b < s + n))"
      using 2(1) [OF False] 2(3,4) by simp
    moreover have "start_vpn a \<le> prev" using 2(4) by auto
    ultimately show ?thesis by auto
  qed
qed simp

lemma top_scan_gap:
  assumes "top_scan n prev as = Inl s" "sorted_wrt (\<lambda>x y. end_vpn y \<le> start_vpn x) as" "\<forall>a\<in>set as. start_vpn a \<le> end_vpn a"
  shows "\<forall>a\<in>set as. \<not> (s < end_vpn a \<and> start_vpn a < s + n)"
proof (cases as)
  case (Cons a bs)
  show ?thesis
  proof (cases "prev > end_vpn a \<and> prev - end_vpn a \<ge> n")
    case True
    then have s: "s = prev - n" using assms(1) Cons by simp
    have "end_vpn b \<le> s" if "b \<in> set as" for b
    proof -
      have "end_vpn b \<le> end_vpn a" using that assms(2,3) Cons by fastforce
      then show ?thesis using True s by linarith
    qed
    then show ?thesis by fastforce
  next
    case False
    then have "top_scan n (start_vpn a) bs = Inl s" using assms(1) Cons by auto
    from top_scan_below [OF this] show ?thesis using assms(2,3) Cons by auto
  qed
qed simp

lemma top_scan_end:
  assumes "top_scan n prev as = Inr s" "sorted_wrt (\<lambda>x y. end_vpn y \<le> start_vpn x) as" "\<forall>a\<in>set as. start_vpn a \<le> end_vpn a"
  shows "as \<noteq> [] \<Longrightarrow> \<forall>a\<in>set as. s \<le> start_vpn a"
  using assms
proof (induction n prev as rule: top_scan.induct)
  case (2 n prev a as)
  then have r: "top_scan n (start_vpn a) as = Inr s" by (auto split: if_splits)
  show ?case
  proof (cases as)
    case Nil
    then show ?thesis using r by simp
  next
    case (Cons b bs)
    have nhit: "\<not> (prev > end_vpn a \<and> prev - end_vpn a \<ge> n)" using 2(3) by auto
    have "\<forall>c\<in>set as. s \<le> start_vpn c" using 2(1) [OF nhit] r 2(4,5) Cons by simp
    moreover have "start_vpn b \<le> start_vpn a" using 2(4,5) Cons by fastforce
    ultimately show ?thesis using Cons by auto
  qed
qed simp

lemma areas_ok_rev:
  assumes "areas_ok t"
  shows "sorted_wrt (\<lambda>x y. end_vpn y \<le> start_vpn x) (rev (map snd t))" "\<forall>a\<in>set (rev (map snd t)). start_vpn a \<le> end_vpn a"
proof -
  have k: "\<forall>e\<in>set t. start_vpn (snd e) = fst e \<and> fst e \<le> end_vpn (snd e)"
    and o: "sorted_wrt (\<lambda>x y. end_vpn (snd x) \<le> fst y) t" using assms by (auto simp: areas_ok_def)
  have "sorted_wrt (\<lambda>x y. end_vpn (snd x) \<le> start_vpn (snd y)) t"
    by (rule sorted_wrt_mono_rel [OF _ o]) (simp add: k)
  then show "sorted_wrt (\<lambda>x y. end_vpn y \<le> start_vpn x) (rev (map snd t))"
    by (simp add: sorted_wrt_rev sorted_wrt_map)
  show "\<forall>a\<in>set (rev (map snd t)). start_vpn a \<le> end_vpn a" using k by auto
qed

lemma hint_gap_upward:
  assumes "areas_ok t" "no_straddle t h" "h \<le> s"
    "\<forall>e\<in>set (bt_from h t). \<not> (s < end_vpn (snd e) \<and> fst e < s + n)"
  shows "\<not> vt_is_overlap t s (s + n)"
proof
  assume "vt_is_overlap t s (s + n)"
  then obtain k a where a: "(k, a) \<in> set t" "s < end_vpn a" "start_vpn a < s + n"
    by (auto simp: vt_is_overlap_iff)
  have k: "start_vpn a = k" by (rule areas_ok_D(1) [OF assms(1) a(1)])
  show False
  proof (cases "k < h")
    case True
    then show False using assms(2,3) a by (auto simp: no_straddle_def)
  next
    case False
    then have "(k, a) \<in> set (bt_from h t)" using a(1) bt_set_from [OF areas_ok_inv [OF assms(1)], of h] by simp
    then show False using assms(4) a k by fastforce
  qed
qed

lemma not_overlap_values:
  "\<forall>a\<in>set (rev (map snd t)). \<not> (s < end_vpn a \<and> start_vpn a < e) \<Longrightarrow> \<not> vt_is_overlap t s e"
  by (auto simp: vt_is_overlap_iff)

lemma vt_alloc_pages_from_hint_free:
  assumes "areas_ok t" "no_straddle t (max hint (drop_bit PAGE_SIZE_BITS MMAP_BASE))"
    "vt_alloc_pages_from_hint t n hint = Some s"
  shows "\<not> vt_is_overlap t s (s + n)"
proof -
  define h where "h = max hint (drop_bit PAGE_SIZE_BITS MMAP_BASE)"
  note up = hint_gap_upward [OF assms(1) assms(2) [folded h_def]]
  note r = areas_ok_rev [OF assms(1)]
  have bf: "bt_inv (bt_from h t)" by (rule bt_inv_from [OF areas_ok_inv [OF assms(1)]])
  show ?thesis
  proof (cases "hint_scan n h (bt_from h t)")
    case (Inl v)
    then have "s = v" using assms(3) by (simp add: vt_alloc_pages_from_hint_def h_def [symmetric] Let_def)
    with hint_scan_gap [OF bf Inl] show ?thesis using up by blast
  next
    case (Inr le)
    note he = hint_scan_end [OF Inr]
    show ?thesis
    proof (cases "MMAP_TOP div PAGE_SIZE > le \<and> MMAP_TOP div PAGE_SIZE - le \<ge> n")
      case True
      then have "s = le" using assms(3) Inr by (simp add: vt_alloc_pages_from_hint_def h_def [symmetric] Let_def)
      then show ?thesis using he by (intro up) fastforce+
    next
      case False
      show ?thesis
      proof (cases "top_scan n (MMAP_TOP div PAGE_SIZE) (rev (map snd t))")
        case t: (Inl v)
        have "vt_alloc_pages_from_hint t n hint = Some v"
          unfolding vt_alloc_pages_from_hint_def h_def [symmetric] Let_def Inr sum.case if_not_P [OF False] t ..
        then have "s = v" using assms(3) by simp
        then show ?thesis using top_scan_gap [OF t r] by (intro not_overlap_values) blast
      next
        case t: (Inr f)
        have "s + n = f"
          using assms(3) unfolding vt_alloc_pages_from_hint_def h_def [symmetric] Let_def Inr sum.case if_not_P [OF False] t
          by (auto split: if_splits)
        then show ?thesis using top_scan_end [OF t r] by (intro not_overlap_values) (cases "t = []", auto)
      qed
    qed
  qed
qed

subsection \<open>Cover and lookup\<close>

definition covered :: "area_tree \<Rightarrow> vpn \<Rightarrow> bool" where
  "covered t v \<longleftrightarrow> (\<exists>e\<in>set t. fst e \<le> v \<and> v < end_vpn (snd e))"

text \<open>The last area that starts at or before a page is the only candidate to contain it.\<close>

lemma last_upto:
  assumes "areas_ok t"
  shows "bt_last (bt_upto v t) = None \<Longrightarrow> e \<in> set t \<Longrightarrow> v < fst e"
    and "bt_last (bt_upto v t) = Some (k, a) \<Longrightarrow> (k, a) \<in> set t \<and> k \<le> v \<and> (\<forall>e\<in>set t. fst e \<le> v \<longrightarrow> fst e \<le> k)"
proof -
  note inv = areas_ok_inv [OF assms]
  show "v < fst e" if "bt_last (bt_upto v t) = None" "e \<in> set t"
  proof (rule ccontr)
    assume "\<not> v < fst e"
    then have "e \<in> set (bt_upto v t)" using that(2) by (simp add: bt_set_upto [OF inv])
    then show False using that(1) by (simp add: bt_last_None)
  qed
  show "(k, a) \<in> set t \<and> k \<le> v \<and> (\<forall>e\<in>set t. fst e \<le> v \<longrightarrow> fst e \<le> k)" if l: "bt_last (bt_upto v t) = Some (k, a)"
  proof -
    have "bt_inv (bt_upto v t)" unfolding bt_upto_def by (rule bt_inv_takeWhile [OF inv])
    note m = bt_last_max [OF this l]
    then show ?thesis unfolding bt_set_upto [OF inv] by fastforce
  qed
qed

lemma covered_last:
  assumes "areas_ok t" "bt_last (bt_upto v t) = Some (k, a)"
  shows "covered t v \<longleftrightarrow> v < end_vpn a"
proof
  note l = last_upto(2) [OF assms]
  assume "covered t v"
  then obtain k' a' where c: "(k', a') \<in> set t" "k' \<le> v" "v < end_vpn a'" by (auto simp: covered_def)
  show "v < end_vpn a"
  proof (cases "k' = k")
    case True
    then have "a' = a" using c(1) l bt_get_Some [OF areas_ok_inv [OF assms(1)]] by (metis option.inject)
    then show ?thesis using c by simp
  next
    case False
    then have "k' < k" using l c by fastforce
    then have "end_vpn a' \<le> k" using areas_ok_disjoint [OF assms(1) c(1)] l by blast
    then show ?thesis using c l by linarith
  qed
next
  assume "v < end_vpn a"
  then show "covered t v" using last_upto(2) [OF assms] by (force simp: covered_def)
qed

lemma vt_is_fully_contained_exact:
  assumes "areas_ok t"
  shows "vt_is_fully_contained t s e \<longleftrightarrow> (\<forall>v. s \<le> v \<and> v < e \<longrightarrow> covered t v)"
  unfolding vt_is_fully_contained_def using assms
proof (induction t s e rule: fully_contained_loop.induct)
  case (1 t c e)
  show ?case
  proof (cases "c < e")
    case False
    then show ?thesis by (subst fully_contained_loop.simps) auto
  next
    case True
    show ?thesis
    proof (cases "bt_last (bt_upto c t)")
      case None
      then have "\<not> covered t c" using last_upto(1) [OF 1(2) None] by (force simp: covered_def)
      then show ?thesis using True None by (subst fully_contained_loop.simps) auto
    next
      case (Some ka)
      obtain k a where ka: "ka = (k, a)" by (cases ka)
      note l = last_upto(2) [OF 1(2) Some [unfolded ka]] and cl = covered_last [OF 1(2) Some [unfolded ka]]
      have st: "start_vpn a \<le> c" using areas_ok_D(1) [OF 1(2)] l by auto
      show ?thesis
      proof (cases "c < end_vpn a")
        case False
        then show ?thesis using True Some ka cl by (subst fully_contained_loop.simps) auto
      next
        case ca: True
        have "fully_contained_loop t c e = fully_contained_loop t (end_vpn a) e"
          using True Some ka st ca by (subst fully_contained_loop.simps) auto
        also have "\<dots> = (\<forall>v. end_vpn a \<le> v \<and> v < e \<longrightarrow> covered t v)"
          using 1(1) [OF True Some ka [symmetric]] st ca 1(2) by auto
        also have "\<dots> = (\<forall>v. c \<le> v \<and> v < e \<longrightarrow> covered t v)"
        proof -
          have "covered t v" if "c \<le> v" "v < end_vpn a" for v
            using that l by (auto simp: covered_def intro!: bexI [of _ "(k, a)"])
          then show ?thesis using ca by (meson le_trans less_imp_le not_le)
        qed
        finally show ?thesis .
      qed
    qed
  qed
qed

text \<open>
  \<open>find_area\<close> uses \<open>SimpleRange::contains\<close>, which includes the end of the range: a page is found when it is covered,
  and also when it is the first page after an area.
\<close>

lemma vt_find_area_Some:
  assumes "areas_ok t"
  shows "vt_find_area t v = Some k \<longleftrightarrow>
    (\<exists>a. (k, a) \<in> set t \<and> k \<le> v \<and> v \<le> end_vpn a \<and> (\<forall>e\<in>set t. fst e \<le> v \<longrightarrow> fst e \<le> k))"
proof (cases "bt_last (bt_upto v t)")
  case None
  then show ?thesis using last_upto(1) [OF assms None] by (fastforce simp: vt_find_area_def)
next
  case (Some ka)
  obtain k' a' where ka: "ka = (k', a')" by (cases ka)
  note l = last_upto(2) [OF assms Some [unfolded ka]]
  have st: "start_vpn a' = k'" using areas_ok_D(1) [OF assms] l by auto
  have u: "k = k' \<and> a = a'" if "(k, a) \<in> set t" "k \<le> v" "\<forall>e\<in>set t. fst e \<le> v \<longrightarrow> fst e \<le> k" for a
  proof -
    have "k = k'" using that l by (metis fst_conv le_antisym)
    then show ?thesis using that l bt_get_Some [OF areas_ok_inv [OF assms]] by (metis option.inject)
  qed
  show ?thesis
    using l st u by (auto simp: vt_find_area_def Some ka ma_contains_def range_contains_def)
qed

lemma vt_find_area_covered:
  assumes "areas_ok t" "covered t v"
  shows "\<exists>k a. vt_find_area t v = Some k \<and> (k, a) \<in> set t \<and> k \<le> v \<and> v < end_vpn a"
proof (cases "bt_last (bt_upto v t)")
  case None
  then show ?thesis using last_upto(1) [OF assms(1) None] assms(2) by (fastforce simp: covered_def)
next
  case (Some ka)
  obtain k a where ka: "ka = (k, a)" by (cases ka)
  note l = last_upto(2) [OF assms(1) Some [unfolded ka]]
  have "v < end_vpn a" using covered_last [OF assms(1) Some [unfolded ka]] assms(2) by simp
  moreover have "vt_find_area t v = Some k" using l calculation by (auto simp: vt_find_area_Some [OF assms(1)])
  ultimately show ?thesis using l by blast
qed

lemma highest_iff:
  fixes f :: "nat option"
  assumes "\<And>s. f = Some s \<Longrightarrow> s + n \<le> b \<and> \<not> P s"
    and "\<And>s'. case f of None \<Rightarrow> True | Some s \<Rightarrow> s < s' \<Longrightarrow> s' + n \<le> b \<Longrightarrow> P s'"
  shows "f = Some s \<longleftrightarrow> s + n \<le> b \<and> \<not> P s \<and> (\<forall>s'. s < s' \<and> s' + n \<le> b \<longrightarrow> P s')"
proof (cases f)
  case None
  then show ?thesis using assms(2) [of s] by auto
next
  case (Some r)
  have "r = s" if "s + n \<le> b" "\<not> P s" "\<forall>s'. s < s' \<and> s' + n \<le> b \<longrightarrow> P s'"
    using assms(1) [OF Some] assms(2) [of s] that Some by (metis linorder_neqE_nat option.case(2))
  then show ?thesis using assms(1) [OF Some] assms(2) Some by auto
qed

text \<open>
  C40: the searches for free address space are exact.  \<open>alloc_pages\<close> returns the highest run of \<open>n\<close> pages below the top of the
  mmap region that overlaps no area, and \<open>find_gap_from\<close> the highest one below its hint; either returns none
  only when there is none.  \<open>alloc_pages_from_hint\<close> returns a run that overlaps no area, provided that no area
  straddles the first page it considers.
\<close>

theorem gap_search_exact:
  assumes "areas_ok t"
  shows "(vt_alloc_pages t n = Some s \<longleftrightarrow> s + n \<le> MMAP_PGNUM_TOP \<and> \<not> vt_is_overlap t s (s + n)
        \<and> (\<forall>s'. s < s' \<and> s' + n \<le> MMAP_PGNUM_TOP \<longrightarrow> vt_is_overlap t s' (s' + n)))
    \<and> (vt_find_gap_from t hint n = Some s \<longleftrightarrow> s + n \<le> hint \<and> \<not> vt_is_overlap t s (s + n)
        \<and> (\<forall>s'. s < s' \<and> s' + n \<le> hint \<longrightarrow> vt_is_overlap t s' (s' + n)))
    \<and> (no_straddle t (max hint (drop_bit PAGE_SIZE_BITS MMAP_BASE)) \<and> vt_alloc_pages_from_hint t n hint = Some s \<longrightarrow>
        \<not> vt_is_overlap t s (s + n))"
proof (intro conjI)
  note a = vt_alloc_pages_exact [OF assms] and g = vt_find_gap_from_exact [OF assms]
  show "vt_alloc_pages t n = Some s \<longleftrightarrow> s + n \<le> MMAP_PGNUM_TOP \<and> \<not> vt_is_overlap t s (s + n)
    \<and> (\<forall>s'. s < s' \<and> s' + n \<le> MMAP_PGNUM_TOP \<longrightarrow> vt_is_overlap t s' (s' + n))"
    by (rule highest_iff [OF a])
  show "vt_find_gap_from t hint n = Some s \<longleftrightarrow> s + n \<le> hint \<and> \<not> vt_is_overlap t s (s + n)
    \<and> (\<forall>s'. s < s' \<and> s' + n \<le> hint \<longrightarrow> vt_is_overlap t s' (s' + n))"
    by (rule highest_iff [OF g])
  show "no_straddle t (max hint (drop_bit PAGE_SIZE_BITS MMAP_BASE)) \<and> vt_alloc_pages_from_hint t n hint = Some s \<longrightarrow>
    \<not> vt_is_overlap t s (s + n)"
    using vt_alloc_pages_from_hint_free [OF assms] by blast
qed

definition demo_area :: map_area where
  "demo_area = \<lparr> ma_range = \<lparr> get_start = 10, get_end = 20 \<rparr>, data_frames = [], ma_type = Framed, ma_perm = MP_U OR MP_R OR MP_W, area_type = Mmap,
     ma_fd = None, mmap_flags = MAP_PRIVATE \<rparr>"

lemma demo_area_ok: "areas_ok [(10, demo_area)]"
  by (simp add: areas_ok_def demo_area_def)

theorem gap_search_exact_witness:
  "areas_ok [(10, demo_area)] \<and> vt_find_gap_from [(10, demo_area)] 21 4 = Some 6 \<and> \<not> vt_is_overlap [(10, demo_area)] 6 10"
proof -
  have "vt_find_gap_from [(10, demo_area)] 21 4 = Some 6"
    by (simp add: vt_find_gap_from_def bt_below_def demo_area_def)
  then show ?thesis using gap_search_exact [OF demo_area_ok, of 4 6 21] demo_area_ok by simp
qed

end
