(* ===== verification/Map_Area.thy ===== *)
theory Map_Area
  imports Vm_Area
begin

text \<open>
  The operations of an area on the page table and on physical memory (\<open>MapArea\<close> and \<open>VmAreaTree\<close> in
  \<open>os/src/mm/area.rs\<close>).

  \<open>data_frames\<close> owns a reference to each of its frames: replacing or removing an entry, or dropping an area, drops
  references with \<open>arc_drop\<close>.  An operation returns \<open>None\<close> where the source panics; its \<open>Result\<close> is the first component
  of the value.
\<close>

fun frames_drop :: "kmem \<Rightarrow> ppn list \<Rightarrow> kmem option" where
  "frames_drop k [] = Some k"
| "frames_drop k (p # ps) = do { k \<leftarrow> arc_drop k p; frames_drop k ps }"

definition ma_drop :: "kmem \<Rightarrow> map_area \<Rightarrow> kmem option" where
  "ma_drop k a = frames_drop k (map snd (data_frames a))"

definition opt_drop :: "kmem \<Rightarrow> ppn option \<Rightarrow> kmem option" where
  "opt_drop k r = (case r of None \<Rightarrow> Some k | Some p \<Rightarrow> arc_drop k p)"

subsection \<open>The tree\<close>

definition vt_push :: "kmem \<Rightarrow> area_tree \<Rightarrow> map_area \<Rightarrow> (kmem \<times> area_tree) option" where
  "vt_push k t a = do {
     k \<leftarrow> (case bt_get t (start_vpn a) of None \<Rightarrow> Some k | Some b \<Rightarrow> ma_drop k b);
     Some (k, bt_insert (start_vpn a) a t) }"

definition vt_remove_by_area :: "kmem \<Rightarrow> area_tree \<Rightarrow> map_area \<Rightarrow> (map_area \<times> kmem \<times> area_tree) option" where
  "vt_remove_by_area k t a = do {
     b \<leftarrow> bt_get t (start_vpn a);
     k \<leftarrow> ma_drop k a;
     Some (b, k, bt_remove (start_vpn a) t) }"

definition vt_insert_vpn_area ::
  "kmem \<Rightarrow> area_tree \<Rightarrow> vpn \<Rightarrow> vpn \<Rightarrow> map_type \<Rightarrow> map_permission \<Rightarrow> map_area_type \<Rightarrow> ((string + unit) \<times> kmem \<times> area_tree) option" where
  "vt_insert_vpn_area k t s e mt perm at =
     (if vt_is_overlap t s e then Some (Err ''insert: overlap with existing region'', k, t)
      else do {
        a \<leftarrow> ma_new_by_vpn s e mt perm at;
        (k, t) \<leftarrow> vt_push k t a;
        Some (Ok (), k, t) })"

definition vt_dealloc :: "area_tree \<Rightarrow> vpn \<Rightarrow> map_area option \<times> area_tree" where
  "vt_dealloc t s = (bt_get t s, bt_remove s t)"

subsection \<open>Pages\<close>

definition ma_insert_frame :: "kmem \<Rightarrow> map_area \<Rightarrow> vpn \<Rightarrow> ppn \<Rightarrow> (kmem \<times> map_area) option" where
  "ma_insert_frame k a v p = do {
     k \<leftarrow> opt_drop k (bt_get (data_frames a) v);
     Some (k, a\<lparr> data_frames := bt_insert v p (data_frames a) \<rparr>) }"

definition ma_remove_frame :: "kmem \<Rightarrow> map_area \<Rightarrow> vpn \<Rightarrow> (kmem \<times> map_area) option" where
  "ma_remove_frame k a v = do {
     k \<leftarrow> opt_drop k (bt_get (data_frames a) v);
     Some (k, a\<lparr> data_frames := bt_remove v (data_frames a) \<rparr>) }"

definition ma_map_one ::
  "kmem \<Rightarrow> page_table \<Rightarrow> map_area \<Rightarrow> vpn \<Rightarrow> ((sys_err_no + unit) \<times> kmem \<times> page_table \<times> map_area) option" where
  "ma_map_one k pt a v =
     (case ma_type a of
        Framed \<Rightarrow> do {
          (r, k) \<leftarrow> frame_alloc k;
          (case r of
             None \<Rightarrow> Some (Err ENOMEM, k, pt, a)
           | Some p \<Rightarrow> do {
               (k, a) \<leftarrow> ma_insert_frame k a v p;
               (k, pt) \<leftarrow> pt_map k pt v p (pte_flags_of_perm (ma_perm a));
               Some (Ok (), k, pt, a) }) }
      | Direct \<Rightarrow> do {
          (k, pt) \<leftarrow> pt_map k pt v ((v + 2 ^ 64 - KERNEL_PGNUM_OFFSET) mod 2 ^ 64) (pte_flags_of_perm (ma_perm a));
          Some (Ok (), k, pt, a) })"

definition ma_unmap_one :: "kmem \<Rightarrow> page_table \<Rightarrow> map_area \<Rightarrow> vpn \<Rightarrow> (kmem \<times> map_area) option" where
  "ma_unmap_one k pt a v = do {
     (k, a) \<leftarrow> (if ma_type a = Framed then ma_remove_frame k a v else Some (k, a));
     k \<leftarrow> pt_unmap k pt v;
     Some (k, a) }"

fun ma_map_loop ::
  "kmem \<Rightarrow> page_table \<Rightarrow> map_area \<Rightarrow> vpn list \<Rightarrow> ((sys_err_no + unit) \<times> kmem \<times> page_table \<times> map_area) option" where
  "ma_map_loop k pt a [] = Some (Ok (), k, pt, a)"
| "ma_map_loop k pt a (v # vs) = do {
     (r, k, pt, a) \<leftarrow> ma_map_one k pt a v;
     (case r of Inl e \<Rightarrow> Some (Err e, k, pt, a) | Inr _ \<Rightarrow> ma_map_loop k pt a vs) }"

fun ma_unmap_loop :: "kmem \<Rightarrow> page_table \<Rightarrow> map_area \<Rightarrow> vpn list \<Rightarrow> (kmem \<times> map_area) option" where
  "ma_unmap_loop k pt a [] = Some (k, a)"
| "ma_unmap_loop k pt a (v # vs) = do { (k, a) \<leftarrow> ma_unmap_one k pt a v; ma_unmap_loop k pt a vs }"

definition ma_map :: "kmem \<Rightarrow> page_table \<Rightarrow> map_area \<Rightarrow> ((sys_err_no + unit) \<times> kmem \<times> page_table \<times> map_area) option" where
  "ma_map k pt a = ma_map_loop k pt a (range_list (ma_range a))"

definition ma_unmap :: "kmem \<Rightarrow> page_table \<Rightarrow> map_area \<Rightarrow> (kmem \<times> map_area) option" where
  "ma_unmap k pt a = ma_unmap_loop k pt a (range_list (ma_range a))"

definition ma_shrink_to :: "kmem \<Rightarrow> page_table \<Rightarrow> map_area \<Rightarrow> vpn \<Rightarrow> (kmem \<times> map_area) option" where
  "ma_shrink_to k pt a new_end = do {
     rg \<leftarrow> range_new new_end (end_vpn a);
     (k, a) \<leftarrow> ma_unmap_loop k pt a (range_list rg);
     rg \<leftarrow> range_new (start_vpn a) new_end;
     Some (k, a\<lparr> ma_range := rg \<rparr>) }"

definition ma_append_to ::
  "kmem \<Rightarrow> page_table \<Rightarrow> map_area \<Rightarrow> vpn \<Rightarrow> ((sys_err_no + unit) \<times> kmem \<times> page_table \<times> map_area) option" where
  "ma_append_to k pt a new_end = do {
     rg \<leftarrow> range_new (end_vpn a) new_end;
     (r, k, pt, a) \<leftarrow> ma_map_loop k pt a (range_list rg);
     (case r of
        Inl e \<Rightarrow> Some (Err e, k, pt, a)
      | Inr _ \<Rightarrow> do {
          rg \<leftarrow> range_new (start_vpn a) new_end;
          Some (Ok (), k, pt, a\<lparr> ma_range := rg \<rparr>) }) }"

text \<open>\<open>map_given_frames\<close>: the flags are the raw bits of the permission, read as page-table flags.\<close>

fun map_given_loop ::
  "kmem \<Rightarrow> page_table \<Rightarrow> map_area \<Rightarrow> pte_flags \<Rightarrow> (vpn, ppn) btree \<Rightarrow> bool \<Rightarrow> (kmem \<times> page_table \<times> map_area) option" where
  "map_given_loop k pt a flags [] is_cow = Some (k, pt, a)"
| "map_given_loop k pt a flags ((v, p) # fs) is_cow = do {
     (k, pt) \<leftarrow> pt_map k pt v p flags;
     (k, a) \<leftarrow> (if is_cow then do {
         r \<leftarrow> find_pte k pt v;
         e \<leftarrow> r;
         w \<leftarrow> pte_set_cow (read_pte k e);
         ma_insert_frame (arc_clone (write_pte k e w) p) a v p }
       else Some (k, a));
     map_given_loop k pt a flags fs is_cow }"

definition ma_map_given_frames ::
  "kmem \<Rightarrow> page_table \<Rightarrow> map_area \<Rightarrow> (vpn, ppn) btree \<Rightarrow> bool \<Rightarrow> (kmem \<times> page_table \<times> map_area) option" where
  "ma_map_given_frames k pt a fs is_cow = do {
     flags \<leftarrow> fl_from_bits PTE_all (ucast (ma_perm a));
     map_given_loop k pt a flags fs is_cow }"

definition ma_update_flags :: "kmem \<Rightarrow> page_table \<Rightarrow> map_area \<Rightarrow> map_permission \<Rightarrow> (kmem \<times> map_area) option" where
  "ma_update_flags k pt a flags = (
     let a = a\<lparr> ma_perm := flags \<rparr> in do {
       (r, k) \<leftarrow> pt_update_region k pt (va_of_vpn (start_vpn a)) (of_nat (ma_size a)) flags;
       (case r of Inl _ \<Rightarrow> None | Inr _ \<Rightarrow> Some (k, a)) })"

text \<open>One page of \<open>copy_data\<close>, and its loop over the pages of the area.\<close>

definition copy_data_page :: "kmem \<Rightarrow> page_table \<Rightarrow> u8 list \<Rightarrow> nat \<Rightarrow> vpn \<Rightarrow> nat \<Rightarrow> kmem option" where
  "copy_data_page k pt data start v off = do {
     let src = take (PAGE_SIZE - off) (drop start data);
     r \<leftarrow> pt_translate k pt v;
     e \<leftarrow> r;
     p \<leftarrow> pte_ppn e;
     q \<leftarrow> get_bytes_array p;
     Some (write_bytes k q off src) }"

function copy_data_loop :: "kmem \<Rightarrow> page_table \<Rightarrow> u8 list \<Rightarrow> nat \<Rightarrow> vpn \<Rightarrow> nat \<Rightarrow> kmem option" where
  "copy_data_loop k pt data start v off = do {
     k \<leftarrow> copy_data_page k pt data start v off;
     (if start + (PAGE_SIZE - off) \<ge> length data then Some k
      else copy_data_loop k pt data (start + (PAGE_SIZE - off)) (v + 1) 0) }"
  by pat_completeness auto
termination
  by (relation "measure (\<lambda>(k, pt, data, start, v, off). 2 * (length data - start) + (if off = 0 then 0 else 1))")
    (auto simp: PAGE_SIZE_def)

declare copy_data_loop.simps [simp del]

definition ma_copy_data :: "kmem \<Rightarrow> page_table \<Rightarrow> map_area \<Rightarrow> u8 list \<Rightarrow> nat \<Rightarrow> kmem option" where
  "ma_copy_data k pt a data offset = do {
     ensure (ma_type a = Framed);
     ensure (offset < PAGE_SIZE);
     copy_data_loop k pt data 0 (start_vpn a) offset }"

subsection \<open>Splitting\<close>

definition bt_split_off :: "'k :: linorder \<Rightarrow> ('k, 'v) btree \<Rightarrow> ('k, 'v) btree \<times> ('k, 'v) btree" where
  "bt_split_off v m = (bt_below v m, bt_from v m)"

text \<open>
  The file of a piece that starts \<open>off\<close> bytes into the area: the position is read with \<open>SEEK_CUR\<close> and put back with
  \<open>SEEK_SET\<close>.
\<close>

definition split_file :: "'w fs_ops \<Rightarrow> 'w files \<Rightarrow> mmap_file option \<Rightarrow> usize \<Rightarrow> (mmap_file option \<times> 'w files) option" where
  "split_file V fs fd off =
     (case fd of
        None \<Rightarrow> Some (None, fs)
      | Some m \<Rightarrow>
          (case fc_file (fd_file (mf_file m)) of
             Inl _ \<Rightarrow> None
           | Inr f \<Rightarrow>
               (case oi_lseek V fs f off SEEK_CUR of
                  (Inl _, _) \<Rightarrow> None
                | (Inr new_off, fs) \<Rightarrow>
                    (case oi_lseek V fs f (new_off - off) SEEK_SET of
                       (Inl _, _) \<Rightarrow> None
                     | (Inr _, fs) \<Rightarrow> Some (Some (m\<lparr> mf_offset := new_off \<rparr>), fs)))))"

definition page_bytes :: "vpn \<Rightarrow> vpn \<Rightarrow> usize" where
  "page_bytes s v = push_bit PAGE_SIZE_BITS (of_nat v - of_nat s)"

definition ma_split3 ::
  "'w fs_ops \<Rightarrow> 'w files \<Rightarrow> map_area \<Rightarrow> vpn \<Rightarrow> vpn \<Rightarrow> (map_area \<times> map_area \<times> map_area \<times> 'w files) option" where
  "ma_split3 V fs a s e = do {
     ensure (ma_strict_contain a s e);
     let (rest, right_frames) = bt_split_off e (data_frames a);
     let (left_frames, mid_frames) = bt_split_off s rest;
     (mid_file, fs) \<leftarrow> split_file V fs (ma_fd a) (page_bytes (start_vpn a) s);
     mid_rg \<leftarrow> range_new s e;
     (right_file, fs) \<leftarrow> split_file V fs (ma_fd a) (page_bytes (start_vpn a) e);
     right_rg \<leftarrow> range_new e (end_vpn a);
     left_rg \<leftarrow> range_set_end (ma_range a) s;
     Some (a\<lparr> ma_range := left_rg, data_frames := left_frames \<rparr>,
       a\<lparr> ma_range := mid_rg, data_frames := mid_frames, ma_fd := mid_file \<rparr>,
       a\<lparr> ma_range := right_rg, data_frames := right_frames, ma_fd := right_file \<rparr>, fs) }"

definition ma_split :: "'w fs_ops \<Rightarrow> 'w files \<Rightarrow> map_area \<Rightarrow> vpn \<Rightarrow> (map_area \<times> map_area \<times> 'w files) option" where
  "ma_split V fs a v = do {
     let (left_frames, right_frames) = bt_split_off v (data_frames a);
     (right_file, fs) \<leftarrow> split_file V fs (ma_fd a) (page_bytes (start_vpn a) v);
     right_rg \<leftarrow> range_new v (end_vpn a);
     left_rg \<leftarrow> range_set_end (ma_range a) v;
     Some (a\<lparr> ma_range := left_rg, data_frames := left_frames \<rparr>,
       a\<lparr> ma_range := right_rg, data_frames := right_frames, ma_fd := right_file \<rparr>, fs) }"

end
