(* ===== verification/Shm.thy ===== *)
theory Shm
  imports Map_Area Mutex_Guard
begin

text \<open>
  System V shared memory segments and their manager (\<open>os/src/mm/shm.rs\<close>).  Keys and identifiers are \<open>i32\<close> values, kept as
  integers; the clock reading of an operation is its argument \<open>now\<close>.
\<close>

definition IPC_CREAT :: usize where "IPC_CREAT = 0x200"
definition IPC_EXCL :: usize where "IPC_EXCL = 0x400"
definition IPC_PRIVATE :: int where "IPC_PRIVATE = 0"
definition IPC_RMID :: nat where "IPC_RMID = 0"
definition IPC_SET :: nat where "IPC_SET = 1"
definition IPC_STAT :: nat where "IPC_STAT = 2"
definition SHM_LOCK :: nat where "SHM_LOCK = 11"
definition SHM_UNLOCK :: nat where "SHM_UNLOCK = 12"

record ipc_perm =
  ip_key :: int
  ip_uid :: u32
  ip_gid :: u32
  ip_cuid :: u32
  ip_cgid :: u32
  ip_mode :: u16

record shm_id_ds =
  shm_perm :: ipc_perm
  shm_segsz :: usize
  shm_atime :: usize
  shm_dtime :: usize
  shm_ctime :: usize
  shm_cpid :: u32
  shm_lpid :: u32
  shm_nattch :: usize

record shm_segment =
  id_ds :: shm_id_ds
  shm_frames :: "ppn list"
  marked_for_deletion :: bool

definition shm_new :: "kmem \<Rightarrow> int \<Rightarrow> usize \<Rightarrow> nat \<Rightarrow> usize \<Rightarrow> (shm_segment option \<times> kmem) option" where
  "shm_new k key sz pid now = (
     let num_pages = unat ((sz + of_nat PAGE_SIZE - 1) div of_nat PAGE_SIZE)
     in do {
       (r, k) \<leftarrow> frame_alloc_continue k num_pages;
       (case r of
          None \<Rightarrow> Some (None, k)
        | Some frames \<Rightarrow> Some (Some \<lparr>
            id_ds = \<lparr> shm_perm = \<lparr> ip_key = key, ip_uid = 0, ip_gid = 0, ip_cuid = 0, ip_cgid = 0, ip_mode = 0x1b6 \<rparr>,
              shm_segsz = sz, shm_atime = 0, shm_dtime = 0, shm_ctime = now, shm_cpid = of_nat pid, shm_lpid = 0, shm_nattch = 0 \<rparr>,
            shm_frames = frames, marked_for_deletion = False \<rparr>, k)) })"

definition page_count :: "shm_segment \<Rightarrow> nat" where
  "page_count s = length (shm_frames s)"

definition get_frame_ppn :: "shm_segment \<Rightarrow> nat \<Rightarrow> ppn option" where
  "get_frame_ppn s i = (if i < length (shm_frames s) then Some (shm_frames s ! i) else None)"

definition shm_attach :: "shm_segment \<Rightarrow> u32 \<Rightarrow> usize \<Rightarrow> shm_segment" where
  "shm_attach s pid now = s\<lparr> id_ds := (id_ds s)\<lparr> shm_nattch := shm_nattch (id_ds s) + 1, shm_lpid := pid, shm_atime := now \<rparr> \<rparr>"

definition shm_detach :: "shm_segment \<Rightarrow> u32 \<Rightarrow> usize \<Rightarrow> shm_segment" where
  "shm_detach s pid now = s\<lparr> id_ds := (id_ds s)\<lparr>
     shm_nattch := (if shm_nattch (id_ds s) > 0 then shm_nattch (id_ds s) - 1 else shm_nattch (id_ds s)),
     shm_lpid := pid, shm_dtime := now \<rparr> \<rparr>"

definition is_deletable :: "shm_segment \<Rightarrow> bool" where
  "is_deletable s = (marked_for_deletion s \<and> shm_nattch (id_ds s) = 0)"

record shm_manager =
  key_to_id :: "(int, int) btree"
  id_to_segment :: "(int, shm_segment) btree"
  next_id :: usize

definition shm_manager_new :: shm_manager where
  "shm_manager_new = \<lparr> key_to_id = [], id_to_segment = [], next_id = 0 \<rparr>"

text \<open>An existing segment is locked without awaiting the guard.\<close>

definition sys_shmget ::
  "kmem \<Rightarrow> shm_manager \<Rightarrow> int \<Rightarrow> usize \<Rightarrow> usize \<Rightarrow> nat \<Rightarrow> usize \<Rightarrow> ((sys_err_no + usize) \<times> kmem \<times> shm_manager) option" where
  "sys_shmget k m key sz shmflg pid now =
     (if unat sz > MAX_SHM_SIZE then Some (Err EINVAL, k, m)
      else let is_create = (shmflg AND IPC_CREAT \<noteq> 0); is_exclusive = (shmflg AND IPC_EXCL \<noteq> 0)
        in case (if key \<noteq> IPC_PRIVATE then bt_get (key_to_id m) key else None) of
          Some shmid \<Rightarrow>
            if is_create \<and> is_exclusive then Some (Err EEXIST, k, m)
            else do {
              s \<leftarrow> bt_get (id_to_segment m) shmid;
              s \<leftarrow> guard_deref (mutex_lock s);
              Some (if sz > shm_segsz (id_ds s) then Err EINVAL else Ok (of_int shmid), k, m) }
        | None \<Rightarrow>
            if \<not> is_create \<and> key \<noteq> IPC_PRIVATE then Some (Err ENOENT, k, m)
            else if sz = 0 then Some (Err EINVAL, k, m)
            else do {
              (r, k) \<leftarrow> shm_new k key sz pid now;
              (case r of
                 None \<Rightarrow> Some (Err ENOMEM, k, m)
               | Some s \<Rightarrow> do {
                   let shmid = sint (ucast (next_id m) :: 32 word);
                   k \<leftarrow> (case bt_get (id_to_segment m) shmid of None \<Rightarrow> Some k | Some s \<Rightarrow> frames_drop k (shm_frames s));
                   let m = m\<lparr> next_id := next_id m + 1, id_to_segment := bt_insert shmid s (id_to_segment m) \<rparr>;
                   let m = (if key \<noteq> IPC_PRIVATE then m\<lparr> key_to_id := bt_insert key shmid (key_to_id m) \<rparr> else m);
                   Some (Ok (of_int shmid), k, m) }) })"

text \<open>The end of \<open>IPC_RMID\<close> and of shmdt: a deletable segment is removed, and its frames are released with it.\<close>

definition shm_reap :: "kmem \<Rightarrow> shm_manager \<Rightarrow> int \<Rightarrow> shm_segment \<Rightarrow> (kmem \<times> shm_manager) option" where
  "shm_reap k m shmid s =
     (if is_deletable s then do {
        let key = ip_key (shm_perm (id_ds s));
        let m = (if key \<noteq> IPC_PRIVATE then m\<lparr> key_to_id := bt_remove key (key_to_id m) \<rparr> else m);
        k \<leftarrow> frames_drop k (shm_frames s);
        Some (k, m\<lparr> id_to_segment := bt_remove shmid (id_to_segment m) \<rparr>) }
      else Some (k, m\<lparr> id_to_segment := bt_insert shmid s (id_to_segment m) \<rparr>))"

end
