(* ===== verification/Memory_Set.thy ===== *)
theory Memory_Set
  imports Shm
begin

text \<open>
  Address spaces (\<open>MemorySet\<close> in \<open>os/src/mm/memory_set.rs\<close>): the page table and the tree of areas, mapping and unmapping,
  page faults with lazy allocation and copy-on-write, protection changes, fork and the access functions that resolve faults.

  The operations work on the frames of \<open>kmem\<close>, the address space and, where an area is backed by a file, the open files.
  Loading of ELF images and the construction of the kernel's own address space are not modelled; TLB flushes have no
  counterpart.
\<close>

record memory_set =
  ms_pt :: page_table
  areatree :: area_tree

datatype page_fault_error = AreaNotFound | NotMmapType | RangeEmpty | AlreadyAllocated | VpnNotHandled | OtherFault

fun errno_of_page_fault_error :: "page_fault_error \<Rightarrow> sys_err_no" where
  "errno_of_page_fault_error AreaNotFound = EFAULT"
| "errno_of_page_fault_error NotMmapType = EINVAL"
| "errno_of_page_fault_error RangeEmpty = EBUSY"
| "errno_of_page_fault_error VpnNotHandled = EINVAL"
| "errno_of_page_fault_error AlreadyAllocated = EEXIST"
| "errno_of_page_fault_error OtherFault = EFAULT"

definition ms_token :: "memory_set \<Rightarrow> usize" where
  "ms_token ms = pt_token (ms_pt ms)"

subsection \<open>Unmapping a range\<close>

fun unmap_allocated :: "kmem \<Rightarrow> page_table \<Rightarrow> map_area \<Rightarrow> vpn list \<Rightarrow> kmem option" where
  "unmap_allocated k pt a [] = Some k"
| "unmap_allocated k pt a (v # vs) = do {
     k \<leftarrow> (if ma_allocated a v then pt_unmap k pt v else Some k);
     unmap_allocated k pt a vs }"

fun munmap_loop :: "kmem \<Rightarrow> page_table \<Rightarrow> area_tree \<Rightarrow> vpn \<Rightarrow> vpn \<Rightarrow> vpn list \<Rightarrow> (kmem \<times> area_tree) option" where
  "munmap_loop k pt t r0 r1 [] = Some (k, t)"
| "munmap_loop k pt t r0 r1 (start # starts) = do {
     a \<leftarrow> bt_get t start;
     let t = bt_remove start t;
     let a0 = start_vpn a;
     let a1 = end_vpn a;
     (k, t) \<leftarrow> (if a0 < r0 then do { l \<leftarrow> ma_from_another_with_range a a0 r0; vt_push k t l } else Some (k, t));
     (k, t) \<leftarrow> (if a1 > r1 then do { r \<leftarrow> ma_from_another_with_range a r1 a1; vt_push k t r } else Some (k, t));
     k \<leftarrow> unmap_allocated k pt a [r0..<r1];
     k \<leftarrow> ma_drop k a;
     munmap_loop k pt t r0 r1 starts }"

definition munmap :: "kmem \<Rightarrow> memory_set \<Rightarrow> vpn \<Rightarrow> vpn \<Rightarrow> (kmem \<times> memory_set) option" where
  "munmap k ms new_start new_end = (
     let overlaps = map fst (filter (\<lambda>(_, a). end_vpn a > new_start) (bt_below new_end (areatree ms)))
     in do {
       (k, t) \<leftarrow> munmap_loop k (ms_pt ms) (areatree ms) new_start new_end overlaps;
       Some (k, ms\<lparr> areatree := t \<rparr>) })"

subsection \<open>Copying areas\<close>

text \<open>One page: the frames are found in the source and in the destination page table.\<close>

definition copy_page :: "kmem \<Rightarrow> page_table \<Rightarrow> vpn \<Rightarrow> page_table \<Rightarrow> vpn \<Rightarrow> kmem option" where
  "copy_page k spt sv dpt dv = do {
     r \<leftarrow> pt_translate k spt sv; e \<leftarrow> r; sp \<leftarrow> pte_ppn e;
     r \<leftarrow> pt_translate k dpt dv; e \<leftarrow> r; dp \<leftarrow> pte_ppn e;
     d \<leftarrow> get_bytes_array dp;
     s \<leftarrow> get_bytes_array sp;
     Some (k\<lparr> mem := (mem k)(d := mem k s) \<rparr>) }"

fun copy_pages :: "kmem \<Rightarrow> page_table \<Rightarrow> page_table \<Rightarrow> (vpn \<times> vpn) list \<Rightarrow> kmem option" where
  "copy_pages k spt dpt [] = Some k"
| "copy_pages k spt dpt ((sv, dv) # vs) = do { k \<leftarrow> copy_page k spt sv dpt dv; copy_pages k spt dpt vs }"

definition clone_area :: "kmem \<Rightarrow> memory_set \<Rightarrow> vpn \<Rightarrow> memory_set \<Rightarrow> kmem option" where
  "clone_area k ms start another =
     (case bt_get (areatree another) start of
        None \<Rightarrow> Some k
      | Some a \<Rightarrow> copy_pages k (ms_pt another) (ms_pt ms) (map (\<lambda>v. (v, v)) (range_list (ma_range a))))"

definition copy_area_data :: "kmem \<Rightarrow> memory_set \<Rightarrow> memory_set \<Rightarrow> vpn \<Rightarrow> vpn \<Rightarrow> (kmem \<times> memory_set) option" where
  "copy_area_data k ms src src_vpn dst_vpn = do {
     sa \<leftarrow> bt_get (areatree src) src_vpn;
     da \<leftarrow> bt_get (areatree ms) dst_vpn;
     ensure (ma_range_size sa = ma_range_size da);
     (k, pt, da) \<leftarrow> ma_map_given_frames k (ms_pt ms) da (data_frames sa) True;
     Some (k, ms\<lparr> ms_pt := pt, areatree := bt_insert dst_vpn da (areatree ms) \<rparr>) }"

definition ms_new_from_kernel :: "kmem \<Rightarrow> ppn \<Rightarrow> (memory_set \<times> kmem) option" where
  "ms_new_from_kernel k global_root_ppn = do {
     (pt, k) \<leftarrow> pt_new_from_kernel k global_root_ppn;
     Some (\<lparr> ms_pt = pt, areatree = [] \<rparr>, k) }"

definition ms_new_bare :: "kmem \<Rightarrow> (memory_set \<times> kmem) option" where
  "ms_new_bare k = do { (pt, k) \<leftarrow> pt_new k; Some (\<lparr> ms_pt = pt, areatree = [] \<rparr>, k) }"

subsection \<open>Adding and removing areas\<close>

text \<open>
  \<open>push\<close> owns the area: when the mapping fails, the early return drops it, with the frames mapped so far; the page table keeps
  their entries.
\<close>

definition ms_push_with_offset ::
  "kmem \<Rightarrow> memory_set \<Rightarrow> map_area \<Rightarrow> nat \<Rightarrow> u8 list option \<Rightarrow> ((sys_err_no + unit) \<times> kmem \<times> memory_set) option" where
  "ms_push_with_offset k ms a offset data = do {
     (r, k, pt, a) \<leftarrow> ma_map k (ms_pt ms) a;
     let ms = ms\<lparr> ms_pt := pt \<rparr>;
     (case r of
        Inl e \<Rightarrow> do { k \<leftarrow> ma_drop k a; Some (Err e, k, ms) }
      | Inr _ \<Rightarrow> do {
          k \<leftarrow> (case data of None \<Rightarrow> Some k | Some d \<Rightarrow> ma_copy_data k pt a d offset);
          (k, t) \<leftarrow> vt_push k (areatree ms) a;
          Some (Ok (), k, ms\<lparr> areatree := t \<rparr>) }) }"

definition ms_push ::
  "kmem \<Rightarrow> memory_set \<Rightarrow> map_area \<Rightarrow> u8 list option \<Rightarrow> ((sys_err_no + unit) \<times> kmem \<times> memory_set) option" where
  "ms_push k ms a data = ms_push_with_offset k ms a 0 data"

definition insert_framed_area ::
  "kmem \<Rightarrow> memory_set \<Rightarrow> virt_addr \<Rightarrow> virt_addr \<Rightarrow> map_permission \<Rightarrow> map_area_type
     \<Rightarrow> ((sys_err_no + unit) \<times> kmem \<times> memory_set) option" where
  "insert_framed_area k ms start_va end_va perm at = do {
     a \<leftarrow> ma_new start_va end_va Framed perm at;
     ms_push k ms a None }"

definition remove_area_with_start_vpn :: "kmem \<Rightarrow> memory_set \<Rightarrow> vpn \<Rightarrow> (kmem \<times> memory_set) option" where
  "remove_area_with_start_vpn k ms start =
     (case bt_get (areatree ms) start of
        None \<Rightarrow> Some (k, ms)
      | Some a \<Rightarrow> do {
          (k, a) \<leftarrow> ma_unmap k (ms_pt ms) a;
          k \<leftarrow> ma_drop k a;
          Some (k, ms\<lparr> areatree := bt_remove start (areatree ms) \<rparr>) })"

definition push_with_given_frames ::
  "kmem \<Rightarrow> memory_set \<Rightarrow> map_area \<Rightarrow> (vpn, ppn) btree \<Rightarrow> bool \<Rightarrow> (kmem \<times> memory_set) option" where
  "push_with_given_frames k ms a frames is_cow = do {
     (k, pt, a) \<leftarrow> ma_map_given_frames k (ms_pt ms) a frames is_cow;
     (k, t) \<leftarrow> vt_push k (areatree ms) a;
     Some (k, ms\<lparr> ms_pt := pt, areatree := t \<rparr>) }"

definition ms_shrink_to :: "kmem \<Rightarrow> memory_set \<Rightarrow> virt_addr \<Rightarrow> virt_addr \<Rightarrow> (bool \<times> kmem \<times> memory_set) option" where
  "ms_shrink_to k ms start new_end =
     (case bt_get (areatree ms) (va_floor start) of
        None \<Rightarrow> Some (False, k, ms)
      | Some a \<Rightarrow> do {
          e \<leftarrow> va_ceil new_end;
          (k, a) \<leftarrow> ma_shrink_to k (ms_pt ms) a e;
          Some (True, k, ms\<lparr> areatree := bt_insert (va_floor start) a (areatree ms) \<rparr>) })"

text \<open>The result of the area's \<open>append_to\<close> is discarded.\<close>

definition ms_append_to :: "kmem \<Rightarrow> memory_set \<Rightarrow> virt_addr \<Rightarrow> virt_addr \<Rightarrow> (bool \<times> kmem \<times> memory_set) option" where
  "ms_append_to k ms start new_end =
     (case bt_get (areatree ms) (va_floor start) of
        None \<Rightarrow> Some (False, k, ms)
      | Some a \<Rightarrow> do {
          e \<leftarrow> va_ceil new_end;
          (_, k, pt, a) \<leftarrow> ma_append_to k (ms_pt ms) a e;
          Some (True, k, \<lparr> ms_pt = pt, areatree = bt_insert (va_floor start) a (areatree ms) \<rparr>) })"

definition is_region_alloc :: "memory_set \<Rightarrow> virt_addr \<Rightarrow> virt_addr \<Rightarrow> bool option" where
  "is_region_alloc ms start_va end_va = do {
     e \<leftarrow> va_ceil end_va;
     Some (vt_is_fully_contained (areatree ms) (va_floor start_va) e) }"

subsection \<open>Page faults\<close>

text \<open>
  The page just mapped is filled from the file that backs the area; the position of the file is put back afterwards.
\<close>

definition fill_from_file ::
  "'w fs_ops \<Rightarrow> 'w files \<Rightarrow> kmem \<Rightarrow> page_table \<Rightarrow> mmap_file \<Rightarrow> vpn \<Rightarrow> vpn \<Rightarrow> (kmem \<times> 'w files) option" where
  "fill_from_file V fs k pt m start v =
     (case fc_file (fd_file (mf_file m)) of
        Inl _ \<Rightarrow> None
      | Inr f \<Rightarrow>
          (case oi_lseek V fs f 0 SEEK_CUR of
             (Inl _, _) \<Rightarrow> None
           | (Inr old_offset, fs) \<Rightarrow> do {
               ss \<leftarrow> translated_byte_buffer k (pt_token pt) (va_of_vpn v) (of_nat PAGE_SIZE);
               (case oi_lseek V fs f (va_of_vpn v - va_of_vpn start + mf_offset m) SEEK_SET of
                  (Inl _, _) \<Rightarrow> None
                | (Inr _, fs) \<Rightarrow>
                    (case oi_read V fs k f ss of
                       (Inl _, _, _) \<Rightarrow> None
                     | (Inr _, fs, k) \<Rightarrow>
                         (case oi_lseek V fs f old_offset SEEK_SET of
                            (Inl _, _) \<Rightarrow> None
                          | (Inr _, fs) \<Rightarrow> Some (k, fs)))) }))"

definition lazy_fault ::
  "'w fs_ops \<Rightarrow> 'w files \<Rightarrow> kmem \<Rightarrow> page_table \<Rightarrow> map_area \<Rightarrow> vpn \<Rightarrow> vpn
     \<Rightarrow> (kmem \<times> page_table \<times> map_area \<times> 'w files) option" where
  "lazy_fault V fs k pt a start v = do {
     ensure (ma_contains a v);
     (r, k, pt, a) \<leftarrow> ma_map_one k pt a v;
     (case r of
        Inl _ \<Rightarrow> None
      | Inr _ \<Rightarrow>
          (case ma_fd a of
             None \<Rightarrow> Some (k, pt, a, fs)
           | Some m \<Rightarrow> do {
               (k, fs) \<leftarrow> fill_from_file V fs k pt m start v;
               Some (k, pt, a, fs) })) }"

text \<open>
  The copy of a shared page: the source slice is taken before the page is unmapped; the frame stays alive through its other
  references.  The entry on which \<open>un_cow\<close> is called is a copy.
\<close>

definition cow_copy :: "kmem \<Rightarrow> page_table \<Rightarrow> map_area \<Rightarrow> vpn \<Rightarrow> (kmem \<times> page_table \<times> map_area) option" where
  "cow_copy k pt a v = do {
     r \<leftarrow> pt_translate k pt v; e \<leftarrow> r; sp \<leftarrow> pte_ppn e;
     src \<leftarrow> get_bytes_array sp;
     (k, a) \<leftarrow> ma_unmap_one k pt a v;
     (r, k, pt, a) \<leftarrow> ma_map_one k pt a v;
     (case r of
        Inl _ \<Rightarrow> None
      | Inr _ \<Rightarrow> do {
          r \<leftarrow> pt_translate k pt v; e \<leftarrow> r; dp \<leftarrow> pte_ppn e;
          dst \<leftarrow> get_bytes_array dp;
          let k = k\<lparr> mem := (mem k)(dst := mem k src) \<rparr>;
          r \<leftarrow> pt_translate k pt v; e \<leftarrow> r; _ \<leftarrow> pte_un_cow e;
          Some (k, pt, a) }) }"

definition present_fault :: "kmem \<Rightarrow> page_table \<Rightarrow> map_area \<Rightarrow> vpn \<Rightarrow> bool \<Rightarrow> (bool \<times> kmem \<times> page_table \<times> map_area) option" where
  "present_fault k pt a v is_write = do {
     r \<leftarrow> find_pte k pt v;
     e \<leftarrow> r;
     cow \<leftarrow> pte_is_cow (read_pte k e);
     (if cow \<or> is_write then do {
        p \<leftarrow> bt_get (data_frames a) v;
        (if arcs k p > 1 then do {
           (k, pt, a) \<leftarrow> cow_copy k pt a v;
           Some (True, k, pt, a) }
         else do {
           w \<leftarrow> pte_un_cow (read_pte k e);
           Some (True, write_pte k e w, pt, a) }) }
      else Some (False, k, pt, a)) }"

definition handle_page_fault ::
  "'w fs_ops \<Rightarrow> 'w files \<Rightarrow> kmem \<Rightarrow> memory_set \<Rightarrow> usize \<Rightarrow> bool
     \<Rightarrow> ((page_fault_error + bool) \<times> kmem \<times> memory_set \<times> 'w files) option" where
  "handle_page_fault V fs k ms stval is_write = (
     let v = va_floor stval in
     case vt_find_area (areatree ms) v of
       None \<Rightarrow> Some (Err AreaNotFound, k, ms, fs)
     | Some start \<Rightarrow> do {
         a \<leftarrow> bt_get (areatree ms) start;
         (if area_type a \<noteq> Mmap \<and> area_type a \<noteq> Stack then Some (Err NotMmapType, k, ms, fs)
          else if range_empty (ma_range a) then Some (Err RangeEmpty, k, ms, fs)
          else if \<not> ma_allocated a v then do {
            (k, pt, a, fs) \<leftarrow> lazy_fault V fs k (ms_pt ms) a start v;
            Some (Ok True, k, \<lparr> ms_pt = pt, areatree = bt_insert start a (areatree ms) \<rparr>, fs) }
          else do {
            (b, k, pt, a) \<leftarrow> present_fault k (ms_pt ms) a v is_write;
            Some (Ok b, k, \<lparr> ms_pt = pt, areatree = bt_insert start a (areatree ms) \<rparr>, fs) }) })"

end
