(* ===== verification/Memory_Ops.thy ===== *)
theory Memory_Ops
  imports Memory_Set
begin

text \<open>
  The operations of an address space that build on page faults (\<open>os/src/mm/memory_set.rs\<close>): manual allocation, the access functions
  that resolve faults, fork, recycling, mprotect, mremap and \<open>MADV_DONTNEED\<close>.
\<close>

subsection \<open>Manual allocation\<close>

text \<open>
  The loop over the pages; \<open>vpn.step()\<close> is an addition of one, and page numbers of addresses are below \<open>2 ^ 52\<close>, so the
  number of iterations is the length of the range.
\<close>

fun manual_alloc_loop ::
  "'w fs_ops \<Rightarrow> 'w files \<Rightarrow> kmem \<Rightarrow> memory_set \<Rightarrow> vpn list \<Rightarrow> ((page_fault_error + unit) \<times> kmem \<times> memory_set \<times> 'w files) option" where
  "manual_alloc_loop V fs k ms [] = Some (Ok (), k, ms, fs)"
| "manual_alloc_loop V fs k ms (v # vs) = do {
     (r, k, ms, fs) \<leftarrow> handle_page_fault V fs k ms (va_of_vpn v) True;
     (case r of
        Inl e \<Rightarrow> if e \<in> {NotMmapType, RangeEmpty, AlreadyAllocated} then manual_alloc_loop V fs k ms vs
          else Some (Err e, k, ms, fs)
      | Inr _ \<Rightarrow> manual_alloc_loop V fs k ms vs) }"

definition manual_alloc_range_for_lazy ::
  "'w fs_ops \<Rightarrow> 'w files \<Rightarrow> kmem \<Rightarrow> memory_set \<Rightarrow> virt_addr \<Rightarrow> virt_addr
     \<Rightarrow> ((page_fault_error + unit) \<times> kmem \<times> memory_set \<times> 'w files) option" where
  "manual_alloc_range_for_lazy V fs k ms start_va end_va = do {
     ensure (start_va \<le> end_va);
     e \<leftarrow> va_ceil end_va;
     manual_alloc_loop V fs k ms [va_floor start_va..<e] }"

definition manual_alloc_type_for_lazy ::
  "'w fs_ops \<Rightarrow> 'w files \<Rightarrow> kmem \<Rightarrow> memory_set \<Rightarrow> usize \<Rightarrow> nat \<Rightarrow> ((sys_err_no + unit) \<times> kmem \<times> memory_set \<times> 'w files) option" where
  "manual_alloc_type_for_lazy V fs k ms obj size_t =
     (if unat obj + unat (of_nat size_t - 1 :: usize) \<ge> 2 ^ 64 then Some (Err EINVAL, k, ms, fs)
      else do {
        (r, k, ms, fs) \<leftarrow> manual_alloc_range_for_lazy V fs k ms obj (obj + (of_nat size_t - 1));
        Some (case r of Inl e \<Rightarrow> (Err (errno_of_page_fault_error e), k, ms, fs) | Inr _ \<Rightarrow> (Ok (), k, ms, fs)) })"

subsection \<open>Access that resolves faults\<close>

text \<open>The loop retries as long as the fault handler succeeds.\<close>

partial_function (option) safe_translate ::
  "'w fs_ops \<Rightarrow> 'w files \<Rightarrow> kmem \<Rightarrow> memory_set \<Rightarrow> vpn \<Rightarrow> (pte option \<times> kmem \<times> memory_set \<times> 'w files) option" where
  "safe_translate V fs k ms v = do {
     r \<leftarrow> pt_translate k (ms_pt ms) v;
     (case (case r of None \<Rightarrow> None | Some e \<Rightarrow> if \<not> pte_is_valid e then None else Some e) of
        Some e \<Rightarrow> Some (Some e, k, ms, fs)
      | None \<Rightarrow> do {
          (r, k, ms, fs) \<leftarrow> handle_page_fault V fs k ms (va_of_vpn v) True;
          (case r of Inr _ \<Rightarrow> safe_translate V fs k ms v | Inl _ \<Rightarrow> Some (None, k, ms, fs)) }) }"

definition safe_translate_va ::
  "'w fs_ops \<Rightarrow> 'w files \<Rightarrow> kmem \<Rightarrow> memory_set \<Rightarrow> virt_addr \<Rightarrow> (phys_addr option \<times> kmem \<times> memory_set \<times> 'w files) option" where
  "safe_translate_va V fs k ms va = do {
     (r, k, ms, fs) \<leftarrow> safe_translate V fs k ms (va_floor va);
     (case r of
        None \<Rightarrow> Some (None, k, ms, fs)
      | Some e \<Rightarrow> do {
          p \<leftarrow> pte_ppn e;
          Some (Some (pa_of_ppn p + of_nat (va_page_offset va)), k, ms, fs) }) }"

partial_function (option) safe_translated_str_loop ::
  "'w fs_ops \<Rightarrow> 'w files \<Rightarrow> kmem \<Rightarrow> memory_set \<Rightarrow> usize \<Rightarrow> u8 list \<Rightarrow> (u8 list \<times> kmem \<times> memory_set \<times> 'w files) option" where
  "safe_translated_str_loop V fs k ms va out = do {
     (r, k, ms, fs) \<leftarrow> safe_translate_va V fs k ms va;
     pa \<leftarrow> r;
     pa \<leftarrow> pa_get_mut pa;
     (if pm_byte k pa = 0 then Some (out, k, ms, fs)
      else safe_translated_str_loop V fs k ms (va + 1) (out @ [pm_byte k pa])) }"

definition safe_translated_str ::
  "'w fs_ops \<Rightarrow> 'w files \<Rightarrow> kmem \<Rightarrow> memory_set \<Rightarrow> usize \<Rightarrow> (u8 list \<times> kmem \<times> memory_set \<times> 'w files) option" where
  "safe_translated_str V fs k ms ptr = safe_translated_str_loop V fs k ms ptr []"

definition safe_translated_refmut ::
  "'w fs_ops \<Rightarrow> 'w files \<Rightarrow> kmem \<Rightarrow> memory_set \<Rightarrow> virt_addr \<Rightarrow> ((sys_err_no + phys_addr) \<times> kmem \<times> memory_set \<times> 'w files) option" where
  "safe_translated_refmut V fs k ms ptr = do {
     (r, k, ms, fs) \<leftarrow> safe_translate_va V fs k ms ptr;
     (case r of
        None \<Rightarrow> Some (Err EFAULT, k, ms, fs)
      | Some pa \<Rightarrow> do { pa \<leftarrow> pa_get_mut pa; Some (Ok pa, k, ms, fs) }) }"

definition safe_get_target_ref ::
  "'w fs_ops \<Rightarrow> 'w files \<Rightarrow> kmem \<Rightarrow> memory_set \<Rightarrow> virt_addr \<Rightarrow> nat
     \<Rightarrow> ((translate_error + phys_addr option) \<times> kmem \<times> memory_set \<times> 'w files) option" where
  "safe_get_target_ref V fs k ms va size_t = do {
     (r, k, ms, fs) \<leftarrow> safe_translate_va V fs k ms va;
     (case r of
        None \<Rightarrow> Some (Err (TranslationFailed va), k, ms, fs)
      | Some pa \<Rightarrow>
          if size_t = 0 then Some (Ok None, k, ms, fs)
          else if pa_floor pa \<noteq> pa_floor (pa + (of_nat size_t - 1)) then Some (Err DataCrossesPageBoundary, k, ms, fs)
          else do { pa \<leftarrow> pa_get_mut pa; Some (Ok (Some pa), k, ms, fs) }) }"

partial_function (option) safe_byte_buffer_loop ::
  "'w fs_ops \<Rightarrow> 'w files \<Rightarrow> kmem \<Rightarrow> memory_set \<Rightarrow> usize \<Rightarrow> usize \<Rightarrow> seg list \<Rightarrow> (seg list \<times> kmem \<times> memory_set \<times> 'w files) option" where
  "safe_byte_buffer_loop V fs k ms start e out =
     (if start < e then do {
        (r, k, ms, fs) \<leftarrow> safe_translate V fs k ms (va_floor start);
        pte \<leftarrow> r;
        p \<leftarrow> pte_ppn pte;
        let end_va = min (va_of_vpn (va_floor start + 1)) e;
        q \<leftarrow> get_bytes_array p;
        let hi = (if va_page_offset end_va = 0 then PAGE_SIZE else va_page_offset end_va);
        ensure (va_page_offset start \<le> hi);
        safe_byte_buffer_loop V fs k ms (usize_of_va end_va) e (out @ [(q, va_page_offset start, hi)]) }
      else Some (out, k, ms, fs))"

definition safe_translated_byte_buffer ::
  "'w fs_ops \<Rightarrow> 'w files \<Rightarrow> kmem \<Rightarrow> memory_set \<Rightarrow> usize \<Rightarrow> usize \<Rightarrow> (seg list \<times> kmem \<times> memory_set \<times> 'w files) option" where
  "safe_translated_byte_buffer V fs k ms ptr len = safe_byte_buffer_loop V fs k ms ptr (ptr + len) []"

definition safe_put_data ::
  "'w fs_ops \<Rightarrow> 'w files \<Rightarrow> kmem \<Rightarrow> memory_set \<Rightarrow> virt_addr \<Rightarrow> u8 list
     \<Rightarrow> ((put_data_error + unit) \<times> kmem \<times> memory_set \<times> 'w files) option" where
  "safe_put_data V fs k ms va data =
     (if data = [] then Some (Ok (), k, ms, fs)
      else do {
        (r, k, ms, fs) \<leftarrow> manual_alloc_range_for_lazy V fs k ms va (va + of_nat (length data));
        (case r of
           Inl _ \<Rightarrow> Some (Err (PutTranslationFailed va), k, ms, fs)
         | Inr _ \<Rightarrow> do {
             r \<leftarrow> pt_translate_va k (ms_pt ms) va;
             (case r of
                None \<Rightarrow> Some (Err (PutTranslationFailed va), k, ms, fs)
              | Some pa \<Rightarrow>
                  if pa_floor pa = pa_floor (pa + (of_nat (length data) - 1)) then do {
                    pa \<leftarrow> pa_get_mut pa;
                    Some (Ok (), pm_write k pa data, ms, fs) }
                  else do {
                    (r, k) \<leftarrow> put_data_bytes k (ms_pt ms) va data;
                    Some (r, k, ms, fs) }) }) })"

subsection \<open>Fork\<close>

text \<open>The entries of the parent are marked when its pages are shared with the child.\<close>

fun mark_cow :: "kmem \<Rightarrow> page_table \<Rightarrow> vpn list \<Rightarrow> kmem option" where
  "mark_cow k pt [] = Some k"
| "mark_cow k pt (v # vs) = do {
     r \<leftarrow> find_pte k pt v;
     e \<leftarrow> r;
     w \<leftarrow> pte_set_cow (read_pte k e);
     mark_cow (write_pte k e w) pt vs }"

definition fork_area ::
  "kmem \<Rightarrow> shm_manager \<Rightarrow> memory_set \<Rightarrow> page_table \<Rightarrow> nat \<Rightarrow> usize \<Rightarrow> map_area \<Rightarrow> (kmem \<times> shm_manager \<times> memory_set) option" where
  "fork_area k m ms old_pt pid now a =
     (if area_type a = Mmap \<and> fl_contains (mmap_flags a) MAP_SHARED then do {
        b \<leftarrow> ma_from_another a;
        (k, ms) \<leftarrow> push_with_given_frames k ms b (data_frames a) False;
        Some (k, m, ms) }
      else if area_type a = Mmap then do {
        b \<leftarrow> ma_from_another a;
        let b = b\<lparr> mmap_flags := fl_insert (mmap_flags b) MAP_PRIVATE \<rparr>;
        (k, ms) \<leftarrow> push_with_given_frames k ms b (data_frames a) True;
        k \<leftarrow> mark_cow k old_pt (map fst (data_frames a));
        Some (k, m, ms) }
      else case area_type a of
        Shm shmid \<Rightarrow> do {
          s \<leftarrow> bt_get (id_to_segment m) shmid;
          let m = m\<lparr> id_to_segment := bt_insert shmid (shm_attach s (of_nat pid) now) (id_to_segment m) \<rparr>;
          b \<leftarrow> ma_from_another a;
          (k, ms) \<leftarrow> push_with_given_frames k ms b (data_frames a) False;
          Some (k, m, ms) }
      | _ \<Rightarrow> do {
          b \<leftarrow> ma_from_another a;
          (r, k, ms) \<leftarrow> ms_push k ms b None;
          (case r of
             Inl _ \<Rightarrow> None
           | Inr _ \<Rightarrow> do {
               k \<leftarrow> copy_pages k old_pt (ms_pt ms) (map (\<lambda>v. (v, v)) (range_list (ma_range a)));
               Some (k, m, ms) }) })"

fun fork_areas ::
  "kmem \<Rightarrow> shm_manager \<Rightarrow> memory_set \<Rightarrow> page_table \<Rightarrow> nat \<Rightarrow> usize \<Rightarrow> map_area list \<Rightarrow> (kmem \<times> shm_manager \<times> memory_set) option" where
  "fork_areas k m ms old_pt pid now [] = Some (k, m, ms)"
| "fork_areas k m ms old_pt pid now (a # as) = do {
     (k, m, ms) \<leftarrow> fork_area k m ms old_pt pid now a;
     fork_areas k m ms old_pt pid now as }"

definition from_existed_user ::
  "kmem \<Rightarrow> shm_manager \<Rightarrow> ppn \<Rightarrow> memory_set \<Rightarrow> nat \<Rightarrow> usize \<Rightarrow> (memory_set \<times> kmem \<times> shm_manager) option" where
  "from_existed_user k m global_root_ppn user pid now = do {
     (ms, k) \<leftarrow> ms_new_from_kernel k global_root_ppn;
     (k, m, ms) \<leftarrow> fork_areas k m ms (ms_pt user) pid now
       (filter (\<lambda>a. area_type a \<noteq> Stack) (map snd (areatree user)));
     Some (ms, k, m) }"

text \<open>
  The user stack of the child (\<open>clone_user_res\<close> in \<open>os/src/task/task.rs\<close>): a stack area at the top of the child, with the frames of
  the parent's stack shared.
\<close>

definition stack_pages :: nat where
  "stack_pages = (USER_STACK_SIZE + PAGE_SIZE - 1) div PAGE_SIZE"

definition clone_user_res ::
  "kmem \<Rightarrow> memory_set \<Rightarrow> memory_set \<Rightarrow> usize \<Rightarrow> (virt_addr \<times> kmem \<times> memory_set) option" where
  "clone_user_res k ms another another_stack_top = do {
     hint \<leftarrow> va_ceil (of_nat USER_STACK_TOP);
     base \<leftarrow> vt_find_gap_from (areatree ms) hint stack_pages;
     let end_va = va_of_vpn (base + stack_pages);
     a \<leftarrow> ma_new (va_of_vpn base) end_va Framed (MP_R OR MP_W OR MP_U) Stack;
     old \<leftarrow> bt_get (areatree another) (unat (drop_bit PAGE_SIZE_BITS (another_stack_top - of_nat USER_STACK_SIZE)));
     (k, ms) \<leftarrow> push_with_given_frames k ms a (data_frames old) True;
     k \<leftarrow> mark_cow k (ms_pt another) (map fst (data_frames old));
     Some (end_va, k, ms) }"

subsection \<open>Recycling\<close>

fun areas_drop :: "kmem \<Rightarrow> map_area list \<Rightarrow> kmem option" where
  "areas_drop k [] = Some k"
| "areas_drop k (a # as) = do { k \<leftarrow> ma_drop k a; areas_drop k as }"

text \<open>Writable shared file mappings are written back, from the first page on, as many pages as are allocated.\<close>

fun write_back ::
  "'w fs_ops \<Rightarrow> 'w files \<Rightarrow> kmem \<Rightarrow> page_table \<Rightarrow> map_area list \<Rightarrow> ((sys_err_no + unit) \<times> 'w files) option" where
  "write_back V fs k pt [] = Some (Ok (), fs)"
| "write_back V fs k pt (a # as) =
     (if area_type a = Mmap \<and> fl_contains (mmap_flags a) MAP_SHARED \<and> fl_contains (ma_perm a) MP_W then do {
        let mapped_len = length (filter (ma_allocated a) (range_list (ma_range a))) * PAGE_SIZE;
        m \<leftarrow> ma_fd a;
        ss \<leftarrow> translated_byte_buffer k (pt_token pt) (va_of_vpn (start_vpn a)) (of_nat mapped_len);
        (case any_write V fs k (fd_file (mf_file m)) ss of
           (Inl e, fs) \<Rightarrow> Some (Err e, fs)
         | (Inr _, fs) \<Rightarrow> write_back V fs k pt as) }
      else write_back V fs k pt as)"

definition recycle_data_pages ::
  "'w fs_ops \<Rightarrow> 'w files \<Rightarrow> kmem \<Rightarrow> memory_set \<Rightarrow> ((sys_err_no + nat) \<times> kmem \<times> memory_set \<times> 'w files) option" where
  "recycle_data_pages V fs k ms = do {
     (r, fs) \<leftarrow> write_back V fs k (ms_pt ms) (map snd (areatree ms));
     (case r of
        Inl e \<Rightarrow> Some (Err e, k, ms, fs)
      | Inr _ \<Rightarrow> do {
          k \<leftarrow> areas_drop k (map snd (areatree ms));
          k \<leftarrow> frames_drop k (pt_frames (ms_pt ms));
          Some (Ok 0, k, \<lparr> ms_pt = (ms_pt ms)\<lparr> pt_frames := [] \<rparr>, areatree = [] \<rparr>, fs) }) }"

subsection \<open>Protection\<close>

text \<open>\<open>areatree.insert(k, a).is_none()\<close>, asserted.\<close>

definition vt_insert_new :: "area_tree \<Rightarrow> map_area \<Rightarrow> area_tree option" where
  "vt_insert_new t a = do { ensure (bt_get t (start_vpn a) = None); Some (bt_insert (start_vpn a) a t) }"

definition mprotect_area ::
  "'w fs_ops \<Rightarrow> 'w files \<Rightarrow> kmem \<Rightarrow> page_table \<Rightarrow> area_tree \<Rightarrow> vpn \<Rightarrow> vpn \<Rightarrow> map_permission \<Rightarrow> map_area
     \<Rightarrow> (kmem \<times> area_tree \<times> 'w files) option" where
  "mprotect_area V fs k pt t s e flags a =
     (if ma_contained_in a s e then do {
        (k, a) \<leftarrow> ma_update_flags k pt a flags;
        t \<leftarrow> vt_insert_new t a;
        Some (k, t, fs) }
      else if ma_strict_contain a s e then do {
        (a, mid, right, fs) \<leftarrow> ma_split3 V fs a s e;
        (k, mid) \<leftarrow> ma_update_flags k pt mid flags;
        t \<leftarrow> vt_insert_new t mid;
        t \<leftarrow> vt_insert_new t right;
        t \<leftarrow> vt_insert_new t a;
        Some (k, t, fs) }
      else if s \<le> start_vpn a \<and> start_vpn a < e then do {
        (a, right, fs) \<leftarrow> ma_split V fs a e;
        (k, a) \<leftarrow> ma_update_flags k pt a flags;
        t \<leftarrow> vt_insert_new t right;
        t \<leftarrow> vt_insert_new t a;
        Some (k, t, fs) }
      else do {
        (a, right, fs) \<leftarrow> ma_split V fs a s;
        (k, right) \<leftarrow> ma_update_flags k pt right flags;
        t \<leftarrow> vt_insert_new t right;
        t \<leftarrow> vt_insert_new t a;
        Some (k, t, fs) })"

fun mprotect_loop ::
  "'w fs_ops \<Rightarrow> 'w files \<Rightarrow> kmem \<Rightarrow> page_table \<Rightarrow> area_tree \<Rightarrow> vpn \<Rightarrow> vpn \<Rightarrow> map_permission \<Rightarrow> map_area list
     \<Rightarrow> (kmem \<times> area_tree \<times> 'w files) option" where
  "mprotect_loop V fs k pt t s e flags [] = Some (k, t, fs)"
| "mprotect_loop V fs k pt t s e flags (a # as) = do {
     (k, t, fs) \<leftarrow> mprotect_area V fs k pt t s e flags a;
     mprotect_loop V fs k pt t s e flags as }"

definition mprotect ::
  "'w fs_ops \<Rightarrow> 'w files \<Rightarrow> kmem \<Rightarrow> memory_set \<Rightarrow> virt_addr \<Rightarrow> usize \<Rightarrow> map_permission \<Rightarrow> (kmem \<times> memory_set \<times> 'w files) option" where
  "mprotect V fs k ms start sz flags = do {
     e \<leftarrow> va_ceil (start + sz);
     let s = va_floor start;
     let overlapped = filter (\<lambda>a. ma_overlap_with a s e) (map snd (areatree ms));
     let prev = filter (\<lambda>(_, a). \<not> ma_overlap_with a s e) (areatree ms);
     (k, t, fs) \<leftarrow> mprotect_loop V fs k (ms_pt ms) prev s e flags overlapped;
     Some (k, ms\<lparr> areatree := t \<rparr>, fs) }"

subsection \<open>Moving and discarding\<close>

definition MREMAP_MAYMOVE :: u32 where "MREMAP_MAYMOVE = 1"

definition mremap ::
  "kmem \<Rightarrow> memory_set \<Rightarrow> virt_addr \<Rightarrow> usize \<Rightarrow> usize \<Rightarrow> u32 \<Rightarrow> ((sys_err_no + usize) \<times> kmem \<times> memory_set) option" where
  "mremap k ms old_start old_size new_size flags =
     (case vt_find_area (areatree ms) (va_floor old_start) of
        None \<Rightarrow> Some (Err EFAULT, k, ms)
      | Some start \<Rightarrow> do {
          old_area \<leftarrow> bt_get (areatree ms) start;
          let lacklen = sint (new_size - old_size);
          let new_end = old_start + new_size;
          (if lacklen = 0 then Some (Ok old_start, k, ms)
           else if lacklen < 0 then do {
             (_, k, ms) \<leftarrow> ms_shrink_to k ms (va_of_vpn start) new_end;
             Some (Ok old_start, k, ms) }
           else do {
             let npages = unat (drop_bit PAGE_SIZE_BITS new_size);
             (allocated, k, ms) \<leftarrow>
               (if vt_find_gap_from (areatree ms) (unat (drop_bit PAGE_SIZE_BITS new_end)) npages = Some (va_floor old_start)
                then do { (_, k, ms) \<leftarrow> ms_append_to k ms (va_of_vpn start) new_end; Some (True, k, ms) }
                else Some (False, k, ms));
             (if \<not> allocated \<and> fl_contains flags MREMAP_MAYMOVE then
                (case vt_find_gap_from (areatree ms) MMAP_PGNUM_TOP npages of
                   None \<Rightarrow> Some (Err ENOMEM, k, ms)
                 | Some v \<Rightarrow> do {
                     a \<leftarrow> ma_new_by_vpn v (v + npages) Framed (MP_U OR MP_W OR MP_R) (area_type old_area);
                     (r, k, ms) \<leftarrow> ms_push k ms a None;
                     (case r of
                        Inl e \<Rightarrow> Some (Err e, k, ms)
                      | Inr _ \<Rightarrow> do {
                          k \<leftarrow> copy_pages k (ms_pt ms) (ms_pt ms) (zip (range_list (ma_range old_area)) [v..<v + npages]);
                          (k, ms) \<leftarrow> munmap k ms (start_vpn old_area) (end_vpn old_area);
                          Some (Ok (va_of_vpn v), k, ms) }) })
              else Some (Ok old_start, k, ms)) }) })"

fun dontneed_loop :: "kmem \<Rightarrow> page_table \<Rightarrow> area_tree \<Rightarrow> vpn list \<Rightarrow> (kmem \<times> area_tree) option" where
  "dontneed_loop k pt t [] = Some (k, t)"
| "dontneed_loop k pt t (v # vs) = do {
     r \<leftarrow> find_pte k pt v;
     (k, t) \<leftarrow>
       (case r of
          None \<Rightarrow> Some (k, t)
        | Some e \<Rightarrow>
            if pte_is_valid (read_pte k e) then do {
              _ \<leftarrow> pte_ppn (read_pte k e);
              w \<leftarrow> pte_new 0 0;
              let k = write_pte k e w;
              start \<leftarrow> vt_find_area t v;
              (case bt_get t start of
                 None \<Rightarrow> Some (k, t)
               | Some a \<Rightarrow> do {
                   (k, a) \<leftarrow> ma_remove_frame k a v;
                   Some (k, bt_insert start a t) }) }
            else Some (k, t));
     dontneed_loop k pt t vs }"

definition madvise_dontneed :: "kmem \<Rightarrow> memory_set \<Rightarrow> vpn \<Rightarrow> vpn \<Rightarrow> (kmem \<times> memory_set) option" where
  "madvise_dontneed k ms s e = do {
     rg \<leftarrow> range_new s (e + 1);
     (k, t) \<leftarrow> dontneed_loop k (ms_pt ms) (areatree ms) (range_list rg);
     Some (k, ms\<lparr> areatree := t \<rparr>) }"

end
