(* ===== verification/Mm_Syscalls.thy ===== *)
theory Mm_Syscalls
  imports Memory_Ops Fd_Table
begin

text \<open>
  System calls on the address space: mmap, munmap, mprotect, brk, mremap, madvise and mlock (\<open>os/src/syscall/process.rs\<close>,
  \<open>os/src/syscall/fs.rs\<close>) and shared memory (\<open>os/src/syscall/mm.rs\<close>).
\<close>

definition page_round_up :: "usize \<Rightarrow> usize" where
  "page_round_up v =
     (if v mod of_nat PAGE_SIZE = 0 then v else v - v mod of_nat PAGE_SIZE + of_nat PAGE_SIZE)"

definition MAP_DENYWRITE :: u32 where "MAP_DENYWRITE = push_bit 11 1"
definition MAP_STACK :: u32 where "MAP_STACK = push_bit 17 1"
definition MAP_NORESERVE :: u32 where "MAP_NORESERVE = push_bit 14 1"

definition MmapProt_all :: u32 where
  "MmapProt_all = PROT_READ OR PROT_WRITE OR PROT_EXEC"

definition MmapFlags_all :: u32 where
  "MmapFlags_all = MAP_SHARED OR MAP_PRIVATE OR MAP_FIXED OR MAP_ANONYMOUS OR MAP_DENYWRITE OR MAP_POPULATE OR MAP_STACK
     OR MAP_FIXED_NOREPLACE OR MAP_NORESERVE"

definition insert_framed_area_with_hint ::
  "kmem \<Rightarrow> memory_set \<Rightarrow> usize \<Rightarrow> usize \<Rightarrow> map_permission \<Rightarrow> map_area_type \<Rightarrow> (usize \<times> usize \<times> kmem \<times> memory_set) option" where
  "insert_framed_area_with_hint k ms hint sz perm at = do {
     hint_vpn \<leftarrow> va_ceil hint;
     let npages = unat ((sz + of_nat PAGE_SIZE - 1) div of_nat PAGE_SIZE);
     base \<leftarrow> vt_find_gap_from (areatree ms) hint_vpn npages;
     let start_va = va_of_vpn base;
     let end_va = va_of_vpn (base + npages);
     (_, k, ms) \<leftarrow> insert_framed_area k ms start_va end_va perm at;
     Some (start_va, end_va, k, ms) }"

subsection \<open>Mappings\<close>

text \<open>The checks of a file mapping; the first \<open>None\<close> is a panic of \<open>fstat\<close>.\<close>

definition mmap_check_file ::
  "'w fs_ops \<Rightarrow> 'w files \<Rightarrow> fd_manage \<Rightarrow> map_permission \<Rightarrow> nat \<Rightarrow> usize \<Rightarrow> (sys_err_no + file_descriptor) option" where
  "mmap_check_file V fs t perm fd off =
     (case get_file t fd of
        Inl e \<Rightarrow> Some (Err e)
      | Inr d \<Rightarrow> do {
          let w = (if fl_contains perm MP_W then any_writable V fs (fd_file d) else Ok True);
          (case w of
             Inl e \<Rightarrow> Some (Err e)
           | Inr b \<Rightarrow>
               if \<not> b then Some (Err EACCES)
               else do {
                 sz \<leftarrow> any_st_size V fs (fd_file d);
                 Some (if off > sz then Err EINVAL else Ok d) }) })"

text \<open>The choice of the base address.\<close>

definition mmap_base ::
  "kmem \<Rightarrow> memory_set \<Rightarrow> u32 \<Rightarrow> usize \<Rightarrow> nat \<Rightarrow> ((sys_err_no + virt_addr) \<times> kmem \<times> memory_set) option" where
  "mmap_base k ms flags addr pages = (
     let v = va_floor addr; e = v + pages in
     if fl_contains flags MAP_FIXED then do {
       (k, ms) \<leftarrow> (if vt_is_overlap (areatree ms) v e then munmap k ms v e else Some (k, ms));
       Some (Ok addr, k, ms) }
     else if fl_contains flags MAP_FIXED_NOREPLACE then
       Some (if vt_is_overlap (areatree ms) v e then Err EEXIST else Ok addr, k, ms)
     else do {
       hint \<leftarrow> (if addr = 0 then Some (drop_bit PAGE_SIZE_BITS MMAP_BASE) else va_ceil addr);
       Some (case vt_alloc_pages_from_hint (areatree ms) pages hint of None \<Rightarrow> Err ENOMEM | Some v \<Rightarrow> Ok (va_of_vpn v), k, ms) })"

definition mmap_install ::
  "kmem \<Rightarrow> memory_set \<Rightarrow> virt_addr \<Rightarrow> usize \<Rightarrow> map_permission \<Rightarrow> u32 \<Rightarrow> mmap_file option
     \<Rightarrow> ((sys_err_no + usize) \<times> kmem \<times> memory_set) option" where
  "mmap_install k ms base len perm flags file = do {
     a \<leftarrow> ma_new base (base + len) Framed perm Mmap;
     let a = a\<lparr> mmap_flags := flags, ma_fd := file \<rparr>;
     (r, k, pt, a) \<leftarrow> (if fl_contains flags MAP_POPULATE then ma_map k (ms_pt ms) a else Some (Ok (), k, ms_pt ms, a));
     let ms = ms\<lparr> ms_pt := pt \<rparr>;
     (case r of
        Inl e \<Rightarrow> do { k \<leftarrow> ma_drop k a; Some (Err e, k, ms) }
      | Inr _ \<Rightarrow> do {
          (k, t) \<leftarrow> vt_push k (areatree ms) a;
          Some (Ok base, k, ms\<lparr> areatree := t \<rparr>) }) }"

definition sys_mmap ::
  "'w fs_ops \<Rightarrow> 'w files \<Rightarrow> kmem \<Rightarrow> memory_set \<Rightarrow> fd_manage \<Rightarrow> usize \<Rightarrow> usize \<Rightarrow> u32 \<Rightarrow> u32 \<Rightarrow> usize \<Rightarrow> usize
     \<Rightarrow> ((sys_err_no + usize) \<times> kmem \<times> memory_set) option" where
  "sys_mmap V fs k ms t addr len prot flags fd off =
     (if fl_from_bits MmapProt_all prot = None then Some (Err EINVAL, k, ms)
      else if flags = 0 then Some (Err EINVAL, k, ms)
      else if fl_from_bits MmapFlags_all flags = None then Some (Err EINVAL, k, ms)
      else let map_perm = perm_of_prot prot; anon = fl_contains flags MAP_ANONYMOUS in
      if \<not> anon \<and> sint fd < 0 then Some (Err EINVAL, k, ms)
      else if len = 0 then Some (Err EINVAL, k, ms)
      else if off mod of_nat PAGE_SIZE \<noteq> 0 then Some (Err EINVAL, k, ms)
      else if unat (drop_bit PAGE_SIZE_BITS len) > fa_remaining_frames (allocator k) then Some (Err ENOMEM, k, ms)
      else if \<not> anon \<and> fd = - 1 then Some (Err EBADE, k, ms)
      else if anon \<and> fd \<noteq> - 1 then Some (Err EINVAL, k, ms)
      else if fl_contains flags MAP_FIXED \<and> addr = 0 then Some (Err EPERM, k, ms)
      else let len = page_round_up len; pages = unat (len div of_nat PAGE_SIZE) in do {
        file \<leftarrow> (if anon then Some (Ok None)
          else map_option (map_sum id Some) (mmap_check_file V fs t map_perm (unat fd) off));
        (case file of
           Inl e \<Rightarrow> Some (Err e, k, ms)
         | Inr file \<Rightarrow> do {
             (r, k, ms) \<leftarrow> mmap_base k ms flags addr pages;
             (case r of
                Inl e \<Rightarrow> Some (Err e, k, ms)
              | Inr base \<Rightarrow>
                  if base \<ge> of_nat MMAP_TOP then Some (Err ENOMEM, k, ms)
                  else mmap_install k ms base len map_perm flags
                    (map_option (\<lambda>d. \<lparr> mf_file = d, mf_offset = off \<rparr>) file)) }) })"

definition sys_munmap :: "kmem \<Rightarrow> memory_set \<Rightarrow> usize \<Rightarrow> usize \<Rightarrow> ((sys_err_no + nat) \<times> kmem \<times> memory_set) option" where
  "sys_munmap k ms start len = do {
     e \<leftarrow> va_ceil (start + len);
     (k, ms) \<leftarrow> munmap k ms (va_floor start) e;
     Some (Ok 0, k, ms) }"

definition sys_mprotect ::
  "'w fs_ops \<Rightarrow> 'w files \<Rightarrow> kmem \<Rightarrow> memory_set \<Rightarrow> usize \<Rightarrow> usize \<Rightarrow> usize
     \<Rightarrow> ((sys_err_no + nat) \<times> kmem \<times> memory_set \<times> 'w files) option" where
  "sys_mprotect V fs k ms start sz flags =
     (case fl_from_bits MmapProt_all (ucast flags) of
        None \<Rightarrow> Some (Err EINVAL, k, ms, fs)
      | Some prot \<Rightarrow> do {
          (k, ms, fs) \<leftarrow> mprotect V fs k ms start sz (perm_of_prot prot);
          Some (Ok 0, k, ms, fs) })"

text \<open>The heap: \<open>change_program_brk\<close> of the process (\<open>os/src/task/task.rs\<close>) and its system call.\<close>

definition change_program_brk ::
  "kmem \<Rightarrow> memory_set \<Rightarrow> usize \<Rightarrow> usize \<Rightarrow> usize \<Rightarrow> (usize option \<times> usize \<times> kmem \<times> memory_set) option" where
  "change_program_brk k ms heap_bottom old_break new_brk =
     (if new_brk < heap_bottom then Some (None, old_break, k, ms)
      else do {
        (r, k, ms) \<leftarrow> (if sint (new_brk - old_break) < 0 then ms_shrink_to k ms heap_bottom new_brk
          else ms_append_to k ms heap_bottom new_brk);
        Some (if r then (Some new_brk, new_brk, k, ms) else (None, old_break, k, ms)) })"

definition sys_brk ::
  "kmem \<Rightarrow> memory_set \<Rightarrow> usize \<Rightarrow> usize \<Rightarrow> usize \<Rightarrow> ((sys_err_no + usize) \<times> usize \<times> kmem \<times> memory_set) option" where
  "sys_brk k ms heap_bottom current_brk new_brk =
     (if new_brk = 0 then Some (Ok current_brk, current_brk, k, ms)
      else if new_brk = current_brk then Some (Ok current_brk, current_brk, k, ms)
      else if new_brk < heap_bottom then Some (Err EINVAL, current_brk, k, ms)
      else do {
        (r, brk, k, ms) \<leftarrow> change_program_brk k ms heap_bottom current_brk new_brk;
        Some (case r of Some b \<Rightarrow> Ok b | None \<Rightarrow> Err ENOMEM, brk, k, ms) })"

definition MREMAP_FIXED :: u32 where "MREMAP_FIXED = push_bit 1 1"
definition MREMAP_DONTUNMAP :: u32 where "MREMAP_DONTUNMAP = push_bit 2 1"

definition MremapFlags_all :: u32 where
  "MremapFlags_all = MREMAP_MAYMOVE OR MREMAP_FIXED OR MREMAP_DONTUNMAP"

definition sys_mremap ::
  "kmem \<Rightarrow> memory_set \<Rightarrow> usize \<Rightarrow> usize \<Rightarrow> usize \<Rightarrow> u32 \<Rightarrow> ((sys_err_no + usize) \<times> kmem \<times> memory_set) option" where
  "sys_mremap k ms old_address old_size new_size flags = do {
     flags \<leftarrow> fl_from_bits MremapFlags_all flags;
     mremap k ms old_address old_size new_size flags }"

definition MADV_NORMAL :: u32 where "MADV_NORMAL = 0"
definition MADV_RANDOM :: u32 where "MADV_RANDOM = 1"
definition MADV_SEQUENTIAL :: u32 where "MADV_SEQUENTIAL = 2"
definition MADV_WILLNEED :: u32 where "MADV_WILLNEED = 3"
definition MADV_DONTNEED :: u32 where "MADV_DONTNEED = 4"
definition MEMORY_END :: nat where "MEMORY_END = KERNEL_DIRECT_OFFSET + 0xB0000000"

definition sys_madvise :: "kmem \<Rightarrow> memory_set \<Rightarrow> usize \<Rightarrow> usize \<Rightarrow> u32 \<Rightarrow> ((sys_err_no + nat) \<times> kmem \<times> memory_set) option" where
  "sys_madvise k ms addr len advice =
     (if va_page_offset addr \<noteq> 0 then Some (Err EINVAL, k, ms)
      else if len = 0 then Some (Ok 0, k, ms)
      else if unat addr + unat len \<ge> 2 ^ 64 then Some (Err EINVAL, k, ms)
      else if unat (addr + len) > MEMORY_END then Some (Err ENOMEM, k, ms)
      else if advice = MADV_NORMAL \<or> advice = MADV_RANDOM \<or> advice = MADV_SEQUENTIAL \<or> advice = MADV_WILLNEED then Some (Ok 0, k, ms)
      else if advice = MADV_DONTNEED then do {
        (k, ms) \<leftarrow> madvise_dontneed k ms (va_floor addr) (va_floor (addr + len - 1));
        Some (Ok 0, k, ms) }
      else Some (Err EINVAL, k, ms))"

definition sys_mlock :: "memory_set \<Rightarrow> usize \<Rightarrow> usize \<Rightarrow> (sys_err_no + nat) option" where
  "sys_mlock ms addr len =
     (if len = 0 then Some (Err EINVAL)
      else do {
        b \<leftarrow> is_region_alloc ms addr (addr + len - 1);
        Some (if \<not> b then Err ENOMEM else Ok 0) })"

definition sys_munlock :: "memory_set \<Rightarrow> usize \<Rightarrow> usize \<Rightarrow> (sys_err_no + nat) option" where
  "sys_munlock ms addr len =
     (if len = 0 then Some (Err EINVAL)
      else do {
        b \<leftarrow> is_region_alloc ms addr (addr + len - 1);
        Some (if \<not> b then Err ENOMEM else Ok 0) })"

subsection \<open>Shared memory\<close>

text \<open>
  The calls lock the address space and the segment without awaiting the guards.  The bodies are translated to their end;
  \<open>guard_deref\<close> is where they stop.
\<close>

definition sys_shmat ::
  "kmem \<Rightarrow> memory_set \<Rightarrow> shm_manager \<Rightarrow> int \<Rightarrow> usize \<Rightarrow> nat \<Rightarrow> usize \<Rightarrow> ((sys_err_no + usize) \<times> kmem \<times> memory_set \<times> shm_manager) option" where
  "sys_shmat k ms m shmid shmaddr pid now =
     (case bt_get (id_to_segment m) shmid of
        None \<Rightarrow> Some (Err EINVAL, k, ms, m)
      | Some segment \<Rightarrow> do {
          s \<leftarrow> guard_deref (mutex_lock segment);
          (if page_count s = 0 then Some (Ok shmaddr, k, ms, m)
           else do {
            ms \<leftarrow> guard_deref (mutex_lock ms);
            hint \<leftarrow> va_ceil shmaddr;
            (case vt_alloc_pages_from_hint (areatree ms) (page_count s) hint of
               None \<Rightarrow> Some (Err ENOMEM, k, ms, m)
             | Some v \<Rightarrow> do {
                 a \<leftarrow> ma_new_by_vpn v (v + page_count s) Framed (MP_U OR MP_R OR MP_W) (Shm shmid);
                 (k, ms) \<leftarrow> push_with_given_frames k ms a (zip [v..<v + page_count s] (shm_frames s)) False;
                 s \<leftarrow> guard_deref (mutex_lock segment);
                 Some (Ok (va_of_vpn v), k, ms,
                   m\<lparr> id_to_segment := bt_insert shmid (shm_attach s (of_nat pid) now) (id_to_segment m) \<rparr>) }) }) })"

text \<open>
  \<open>ShmIdDs\<close> in memory (\<open>repr(C)\<close>, 112 bytes).  The padding after \<open>_pad2\<close> is not written by the code; it is taken as zero.
\<close>

definition le_bytes :: "nat \<Rightarrow> usize \<Rightarrow> u8 list" where
  "le_bytes n w = map (\<lambda>i. ucast (drop_bit (8 * i) w)) [0..<n]"

definition ipc_perm_bytes :: "ipc_perm \<Rightarrow> u8 list" where
  "ipc_perm_bytes p = le_bytes 4 (of_int (ip_key p)) @ le_bytes 4 (ucast (ip_uid p)) @ le_bytes 4 (ucast (ip_gid p))
     @ le_bytes 4 (ucast (ip_cuid p)) @ le_bytes 4 (ucast (ip_cgid p)) @ le_bytes 2 (ucast (ip_mode p)) @ replicate 26 0"

definition shm_id_ds_bytes :: "shm_id_ds \<Rightarrow> u8 list" where
  "shm_id_ds_bytes d = ipc_perm_bytes (shm_perm d) @ le_bytes 8 (shm_segsz d) @ le_bytes 8 (shm_atime d)
     @ le_bytes 8 (shm_dtime d) @ le_bytes 8 (shm_ctime d) @ le_bytes 4 (ucast (shm_cpid d)) @ le_bytes 4 (ucast (shm_lpid d))
     @ le_bytes 8 (shm_nattch d) @ replicate 16 0"

definition le_word :: "u8 list \<Rightarrow> usize" where
  "le_word bs = foldr (\<lambda>b w. ucast b OR push_bit 8 w) bs 0"

definition shm_set_perm :: "shm_id_ds \<Rightarrow> u8 list \<Rightarrow> usize \<Rightarrow> shm_id_ds" where
  "shm_set_perm d user now = d\<lparr>
     shm_perm := (shm_perm d)\<lparr> ip_uid := ucast (le_word (take 4 (drop 4 user))), ip_gid := ucast (le_word (take 4 (drop 8 user))),
       ip_mode := ucast (le_word (take 2 (drop 20 user))) AND 0x1ff \<rparr>,
     shm_ctime := now \<rparr>"

definition sys_shmctl ::
  "'w fs_ops \<Rightarrow> 'w files \<Rightarrow> kmem \<Rightarrow> memory_set \<Rightarrow> shm_manager \<Rightarrow> int \<Rightarrow> nat \<Rightarrow> usize \<Rightarrow> usize
     \<Rightarrow> ((sys_err_no + nat) \<times> kmem \<times> memory_set \<times> shm_manager \<times> 'w files) option" where
  "sys_shmctl V fs k ms m shmid cmd buf now = do {
     let token = ms_token ms;
     (r, k, ms, fs) \<leftarrow> manual_alloc_type_for_lazy V fs k ms buf 112;
     (case r of
        Inl e \<Rightarrow> Some (Err e, k, ms, m, fs)
      | Inr _ \<Rightarrow>
          (case bt_get (id_to_segment m) shmid of
             None \<Rightarrow> Some (Err EINVAL, k, ms, m, fs)
           | Some s \<Rightarrow>
               let segment = mutex_lock s in
               if cmd = IPC_STAT then
                 if buf = 0 then Some (Err EFAULT, k, ms, m, fs)
                 else do {
                   s \<leftarrow> guard_deref segment;
                   (r, k) \<leftarrow> put_data k token buf (shm_id_ds_bytes (id_ds s));
                   Some (case r of Inl _ \<Rightarrow> Err EFAULT | Inr _ \<Rightarrow> Ok 0, k, ms, m, fs) }
               else if cmd = IPC_SET then
                 if buf = 0 then Some (Err EFAULT, k, ms, m, fs)
                 else do {
                   r \<leftarrow> get_target_ref k token buf 112;
                   (case r of
                      Inl e \<Rightarrow> Some (Err (errno_of_translate_error e), k, ms, m, fs)
                    | Inr ref \<Rightarrow> do {
                        pa \<leftarrow> ref;
                        s \<leftarrow> guard_deref segment;
                        let s = s\<lparr> id_ds := shm_set_perm (id_ds s) (pm_read k pa 112) now \<rparr>;
                        Some (Ok 0, k, ms, m\<lparr> id_to_segment := bt_insert shmid s (id_to_segment m) \<rparr>, fs) }) }
               else if cmd = IPC_RMID then do {
                 s \<leftarrow> guard_deref segment;
                 (k, m) \<leftarrow> shm_reap k m shmid (s\<lparr> marked_for_deletion := True \<rparr>);
                 Some (Ok 0, k, ms, m, fs) }
               else if cmd = SHM_LOCK \<or> cmd = SHM_UNLOCK then Some (Ok 0, k, ms, m, fs)
               else Some (Err EINVAL, k, ms, m, fs))) }"

text \<open>
  The part of shmdt that works on the address space.  The keys that the third and fourth case look up are the page number of
  the address, not the key of the area.
\<close>

definition shmdt_unmap ::
  "'w fs_ops \<Rightarrow> 'w files \<Rightarrow> kmem \<Rightarrow> area_tree \<Rightarrow> map_area \<Rightarrow> vpn \<Rightarrow> vpn \<Rightarrow> (kmem \<times> area_tree \<times> 'w files) option" where
  "shmdt_unmap V fs k t a s e = (
     let area_start = start_vpn a; area_end = end_vpn a in
     if s = area_start \<and> e = area_end then do {
       k \<leftarrow> (case bt_get t area_start of None \<Rightarrow> Some k | Some b \<Rightarrow> ma_drop k b);
       Some (k, bt_remove area_start t, fs) }
     else if s = area_start then do {
       b \<leftarrow> bt_get t area_start;
       (left, right, fs) \<leftarrow> ma_split V fs b e;
       k \<leftarrow> ma_drop k left;
       (k, t) \<leftarrow> vt_push k (bt_remove area_start t) right;
       Some (k, t, fs) }
     else if e = area_end then do {
       b \<leftarrow> bt_get t s;
       (left, right, fs) \<leftarrow> ma_split V fs b s;
       k \<leftarrow> ma_drop k right;
       Some (k, bt_insert s left t, fs) }
     else do {
       b \<leftarrow> bt_get t s;
       (left, mid, right, fs) \<leftarrow> ma_split3 V fs b s e;
       (k, t) \<leftarrow> vt_push k (bt_insert s left t) right;
       k \<leftarrow> ma_drop k mid;
       Some (k, t, fs) })"

definition sys_shmdt ::
  "'w fs_ops \<Rightarrow> 'w files \<Rightarrow> kmem \<Rightarrow> memory_set \<Rightarrow> shm_manager \<Rightarrow> usize \<Rightarrow> nat \<Rightarrow> usize
     \<Rightarrow> ((sys_err_no + nat) \<times> kmem \<times> memory_set \<times> shm_manager \<times> 'w files) option" where
  "sys_shmdt V fs k ms m shmaddr pid now = do {
     ms \<leftarrow> guard_deref (mutex_lock ms);
     let v = va_floor shmaddr;
     (case vt_find_area (areatree ms) v of
        None \<Rightarrow> Some (Err EINVAL, k, ms, m, fs)
      | Some area_start \<Rightarrow> do {
          a \<leftarrow> bt_get (areatree ms) area_start;
          (case area_type a of
             Shm shmid \<Rightarrow> do {
               segment \<leftarrow> bt_get (id_to_segment m) shmid;
               s \<leftarrow> guard_deref (guard_await (mutex_lock segment));
               let e = v + page_count s;
               (if page_count s = 0 then Some (Ok 0, k, ms, m, fs)
                else if \<not> (start_vpn a \<le> v \<and> e \<le> end_vpn a) then Some (Err EFAULT, k, ms, m, fs)
                else do {
                  (k, t, fs) \<leftarrow> shmdt_unmap V fs k (areatree ms) a v e;
                  s \<leftarrow> guard_deref (mutex_lock segment);
                  (k, m) \<leftarrow> shm_reap k m shmid (shm_detach s (of_nat pid) now);
                  Some (Ok 0, k, ms\<lparr> areatree := t \<rparr>, m, fs) }) }
           | _ \<Rightarrow> Some (Err EINVAL, k, ms, m, fs)) }) }"

end
