(* ===== verification/Memory_Props.thy ===== *)
theory Memory_Props
  imports Mm_Syscalls
begin

text \<open>
  Correctness of the address space: page faults, unmapping and mapping (\<open>Memory_Set\<close>, \<open>Mm_Syscalls\<close>).
\<close>

subsection \<open>Allocating and mapping one page\<close>

lemma frame_alloc_free:
  assumes "kmem_inv k" "1 \<le> card (fa_frames (allocator k) - fa_used (allocator k))"
  obtains p k' where "frame_alloc k = Some (Some p, k')" "p \<in> fa_frames (allocator k)"
      "p \<notin> fa_used (allocator k)" "fa_used (allocator k') = insert p (fa_used (allocator k))"
      "fa_frames (allocator k') = fa_frames (allocator k)" "kmem_inv k'"
      "mem k' = (mem k)(p := (\<lambda>_. 0))" "arcs k' = (arcs k)(p := 1)" "frame_vec k' = frame_vec k"
proof -
  have "fa_used (allocator k) \<noteq> fa_frames (allocator k)" using assms(2) by auto
  then show thesis using frame_alloc_ok [OF assms(1)] that by metis
qed

lemma card_free_alloc:
  assumes "p \<in> fa_frames fa" "p \<notin> fa_used fa"
  shows "card (fa_frames fa - insert p (fa_used fa)) = card (fa_frames fa - fa_used fa) - 1"
proof -
  have "fa_frames fa - insert p (fa_used fa) = (fa_frames fa - fa_used fa) - {p}" by auto
  then show ?thesis using assms finite_fa_frames [of fa] by simp
qed

text \<open>Mapping a page that is not mapped: a fresh frame, zeroed, and no other leaf or page is touched.\<close>

lemma ma_map_one_ok:
  assumes wf: "pt_wf k pt T" and free: "3 \<le> card (fa_frames (allocator k) - fa_used (allocator k))"
    and a: "ma_type a = Framed" "bt_get (data_frames a) v = None" and leaf: "pt_leaf k (root_ppn pt) v = 0"
  obtains p e k' pt' T' where
    "ma_map_one k pt a v = Some (Ok (), k', pt', a\<lparr> data_frames := bt_insert v p (data_frames a) \<rparr>)"
    "pte_new p (pte_flags_of_perm (ma_perm a)) = Some e" "pt_wf k' pt' T'" "root_ppn pt' = root_ppn pt" "T \<subseteq> T'"
    "p \<in> fa_frames (allocator k)" "p \<notin> fa_used (allocator k)" "p \<notin> T'"
    "mem k' p = (\<lambda>_. 0)" "arcs k' p = 1"
    "\<And>q. q \<in> fa_used (allocator k) \<Longrightarrow> arcs k' q = arcs k q"
    "\<And>q. q \<in> fa_used (allocator k) \<Longrightarrow> q \<notin> T \<Longrightarrow> q \<notin> T' \<and> mem k' q = mem k q"
    "\<And>w. pt_leaf k' (root_ppn pt) w = (if w mod 2 ^ 27 = v mod 2 ^ 27 then e else pt_leaf k (root_ppn pt) w)"
    "frame_vec k' = frame_vec k"
    "card (fa_frames (allocator k) - fa_used (allocator k)) \<le> card (fa_frames (allocator k') - fa_used (allocator k')) + 3"
proof -
  have free1: "1 \<le> card (fa_frames (allocator k) - fa_used (allocator k))" using free by simp
  obtain p k1 where p: "frame_alloc k = Some (Some p, k1)" "p \<in> fa_frames (allocator k)"
      "p \<notin> fa_used (allocator k)" "fa_used (allocator k1) = insert p (fa_used (allocator k))"
      "fa_frames (allocator k1) = fa_frames (allocator k)" "kmem_inv k1"
      "mem k1 = (mem k)(p := (\<lambda>_. 0))" "arcs k1 = (arcs k)(p := 1)" "frame_vec k1 = frame_vec k"
    using frame_alloc_free [OF pt_wfD(1) [OF wf] free1] by blast
  have pT: "p \<notin> T" using pt_wfD(2) [OF wf] p(3) by blast
  have m1: "mem k1 q = mem k q" if "q \<in> T" for q using that pT by (auto simp: p(7))
  have T1: "T \<subseteq> fa_used (allocator k1)" using pt_wfD(2) [OF wf] by (auto simp: p(4))
  have wf1: "pt_wf k1 pt T" by (rule pt_wf_transfer [OF wf m1 T1 p(6)])
  have leaf1: "pt_leaf k1 (root_ppn pt) w = pt_leaf k (root_ppn pt) w" for w by (rule pt_leaf_same [OF wf m1])
  have free2: "2 \<le> card (fa_frames (allocator k1) - fa_used (allocator k1))"
    using free card_free_alloc [OF p(2,3)] by (simp add: p(4,5))
  have p36: "p < 2 ^ 36" using p(2) pt_wfD(1) [OF wf] by (auto simp: kmem_inv_def)
  obtain e k' pt' T' where m: "pt_map k1 pt v p (pte_flags_of_perm (ma_perm a)) = Some (k', pt')"
    "pte_new p (pte_flags_of_perm (ma_perm a)) = Some e"
    "pt_wf k' pt' T'" "T \<subseteq> T'" "T' - T \<subseteq> fa_frames (allocator k1) - fa_used (allocator k1)"
    "root_ppn pt' = root_ppn pt" "\<And>q. q \<notin> T' \<Longrightarrow> mem k' q = mem k1 q"
    "\<And>w. pt_leaf k' (root_ppn pt) w = (if w mod 2 ^ 27 = v mod 2 ^ 27 then e else pt_leaf k1 (root_ppn pt) w)"
    "\<And>q. q \<notin> T' - T \<Longrightarrow> arcs k' q = arcs k1 q" "frame_vec k' = frame_vec k1"
    "fa_used (allocator k') = fa_used (allocator k1) \<union> (T' - T)" "fa_frames (allocator k') = fa_frames (allocator k1)"
    "card (T' - T) \<le> 2"
    by (rule pt_map_ok [OF wf1 free2 leaf1 [of v, unfolded leaf] p36, of "pte_flags_of_perm (ma_perm a)"]) blast
  have pT': "p \<notin> T'" using m(5) pT by (auto simp: p(4))
  have old: "q \<notin> T'" if "q \<in> fa_used (allocator k)" "q \<notin> T" for q using that m(5) by (auto simp: p(4))
  have new: "q \<notin> T' - T" if "q \<in> fa_used (allocator k)" for q using that m(5) by (auto simp: p(4))
  have ne: "q \<noteq> p" if "q \<in> fa_used (allocator k)" for q using that p(3) by blast
  show thesis
  proof (rule that [OF _ m(2,3,6,4) p(2,3) pT'])
    show "ma_map_one k pt a v = Some (Ok (), k', pt', a\<lparr> data_frames := bt_insert v p (data_frames a) \<rparr>)"
      by (simp add: ma_map_one_def a p(1) ma_insert_frame_def opt_drop_def m(1))
    show "mem k' p = (\<lambda>_. 0)" using m(7) [OF pT'] by (simp add: p(7))
    show "arcs k' p = 1" using m(9) [of p] pT' by (simp add: p(8))
    show "arcs k' q = arcs k q" if "q \<in> fa_used (allocator k)" for q
      using m(9) [OF new [OF that]] ne [OF that] by (simp add: p(8))
    show "q \<notin> T' \<and> mem k' q = mem k q" if "q \<in> fa_used (allocator k)" "q \<notin> T" for q
      using m(7) [OF old [OF that]] old [OF that] ne [OF that(1)] by (simp add: p(7))
    show "pt_leaf k' (root_ppn pt) w = (if w mod 2 ^ 27 = v mod 2 ^ 27 then e else pt_leaf k (root_ppn pt) w)" for w
      using m(8) [of w] by (simp add: leaf1)
    show "frame_vec k' = frame_vec k" by (simp add: m(10) p(9))
    have fin: "finite (T' - T)" using m(5) finite_fa_frames [of "allocator k1"] by (meson finite_Diff finite_subset)
    have "fa_frames (allocator k') - fa_used (allocator k') = (fa_frames (allocator k) - insert p (fa_used (allocator k))) - (T' - T)"
      by (auto simp: m(11,12) p(4,5))
    then show "card (fa_frames (allocator k) - fa_used (allocator k)) \<le> card (fa_frames (allocator k') - fa_used (allocator k')) + 3"
      using diff_card_le_card_Diff [OF fin, of "fa_frames (allocator k) - insert p (fa_used (allocator k))"] m(13)
        card_free_alloc [OF p(2,3)] by simp
  qed
qed

lemma pte_flags_of_perm_ok: "pte_flags_ok (pte_flags_of_perm m)"
  by (auto simp: pte_flags_ok_bits pte_flags_of_perm_def Let_def bit_or_iff PTE_const_bits split: if_splits)

lemma pte_new_perm:
  assumes "p < 2 ^ 36" "pte_new p (pte_flags_of_perm m) = Some e"
  shows "pte_ppn e = Some p \<and> pte_flags_of e = Some (pte_flags_of_perm m)"
  using la64.codec [OF assms(1) pte_flags_of_perm_ok [of m]] assms(2) by auto

lemma vt_find_area_contains:
  assumes "areas_ok t" "vt_find_area t v = Some s" "bt_get t s = Some a"
  shows "ma_contains a v" "(s, a) \<in> set t"
proof -
  obtain b where b: "(s, b) \<in> set t" "s \<le> v" "v \<le> end_vpn b"
    using vt_find_area_Some [OF assms(1)] assms(2) by blast
  then have "bt_get t s = Some b" using bt_get_Some [OF areas_ok_inv [OF assms(1)]] by blast
  then have ab: "b = a" using assms(3) by simp
  then show "(s, a) \<in> set t" using b by simp
  show "ma_contains a v" using b areas_ok_D(1) [OF assms(1) b(1)] by (simp add: ab ma_contains_def range_contains_def)
qed

subsection \<open>Page faults\<close>

lemma lazy_fault_ok:
  assumes "pt_wf k (ms_pt ms) T" "3 \<le> card (fa_frames (allocator k) - fa_used (allocator k))" "areas_ok (areatree ms)"
    "vt_find_area (areatree ms) (va_floor va) = Some s" "bt_get (areatree ms) s = Some a"
    "area_type a = Mmap \<or> area_type a = Stack" "ma_type a = Framed" "ma_fd a = None" "start_vpn a \<noteq> end_vpn a"
    "bt_get (data_frames a) (va_floor va) = None" "pt_leaf k (root_ppn (ms_pt ms)) (va_floor va) = 0"
  shows "\<exists>p e k' pt' T'.
    handle_page_fault V fs k ms va is_write = Some (Ok True, k', \<lparr> ms_pt = pt',
      areatree = bt_insert s (a\<lparr> data_frames := bt_insert (va_floor va) p (data_frames a) \<rparr>) (areatree ms) \<rparr>, fs)
    \<and> pt_wf k' pt' T' \<and> root_ppn pt' = root_ppn (ms_pt ms)
    \<and> p \<notin> fa_used (allocator k) \<and> p \<notin> T' \<and> mem k' p = (\<lambda>_. 0) \<and> arcs k' p = 1
    \<and> pte_ppn e = Some p \<and> pte_flags_of e = Some (pte_flags_of_perm (ma_perm a))
    \<and> (\<forall>w. pt_leaf k' (root_ppn pt') w =
         (if w mod 2 ^ 27 = va_floor va mod 2 ^ 27 then e else pt_leaf k (root_ppn (ms_pt ms)) w))
    \<and> (\<forall>q\<in>fa_used (allocator k) - T. mem k' q = mem k q)"
proof -
  note c = vt_find_area_contains [OF assms(3-5)]
  obtain p e k' pt' T' where m:
    "ma_map_one k (ms_pt ms) a (va_floor va) = Some (Ok (), k', pt', a\<lparr> data_frames := bt_insert (va_floor va) p (data_frames a) \<rparr>)"
    "pte_new p (pte_flags_of_perm (ma_perm a)) = Some e" "pt_wf k' pt' T'" "root_ppn pt' = root_ppn (ms_pt ms)" "T \<subseteq> T'"
    "p \<in> fa_frames (allocator k)" "p \<notin> fa_used (allocator k)" "p \<notin> T'"
    "mem k' p = (\<lambda>_. 0)" "arcs k' p = 1"
    "\<And>q. q \<in> fa_used (allocator k) \<Longrightarrow> arcs k' q = arcs k q"
    "\<And>q. q \<in> fa_used (allocator k) \<Longrightarrow> q \<notin> T \<Longrightarrow> q \<notin> T' \<and> mem k' q = mem k q"
    "\<And>w. pt_leaf k' (root_ppn (ms_pt ms)) w =
       (if w mod 2 ^ 27 = va_floor va mod 2 ^ 27 then e else pt_leaf k (root_ppn (ms_pt ms)) w)"
    "frame_vec k' = frame_vec k"
    by (rule ma_map_one_ok [OF assms(1,2,7,10,11)]) blast
  have "p < 2 ^ 36" using m(6) pt_wfD(1) [OF assms(1)] by (auto simp: kmem_inv_def)
  note e = pte_new_perm [OF this m(2)]
  have "lazy_fault V fs k (ms_pt ms) a s (va_floor va)
      = Some (k', pt', a\<lparr> data_frames := bt_insert (va_floor va) p (data_frames a) \<rparr>, fs)"
    by (simp add: lazy_fault_def c(1) m(1) assms(8))
  then have "handle_page_fault V fs k ms va is_write = Some (Ok True, k', \<lparr> ms_pt = pt',
      areatree = bt_insert s (a\<lparr> data_frames := bt_insert (va_floor va) p (data_frames a) \<rparr>) (areatree ms) \<rparr>, fs)"
    using assms(4-6,9,10) by (auto simp: handle_page_fault_def ma_allocated_def range_empty_def Let_def)
  then show ?thesis using m(3,4,7-10,12,13) e by (intro exI [of _ p] exI [of _ e] exI [of _ k'] exI [of _ pt'] exI [of _ T']) auto
qed

text \<open>
  C7: lazy allocation.  A fault at a page of an anonymous area (a mapping or a stack) that has no frame yet succeeds when three
  frames are free.  The page is mapped to a frame that was not in use, that reads as zeros, with the permissions of
  the area; no other page of the address space changes its mapping, and no frame in use outside the page table
  changes its contents.
\<close>

theorem lazy_fault_zeroed:
  assumes "pt_wf k (ms_pt ms) T" "3 \<le> card (fa_frames (allocator k) - fa_used (allocator k))" "areas_ok (areatree ms)"
    "vt_find_area (areatree ms) (va_floor va) = Some s" "bt_get (areatree ms) s = Some a"
    "area_type a = Mmap \<or> area_type a = Stack" "ma_type a = Framed" "ma_fd a = None" "start_vpn a \<noteq> end_vpn a"
    "bt_get (data_frames a) (va_floor va) = None" "pt_leaf k (root_ppn (ms_pt ms)) (va_floor va) = 0"
  shows "\<exists>p e k' pt' T'.
    handle_page_fault V fs k ms va is_write = Some (Ok True, k', \<lparr> ms_pt = pt',
      areatree = bt_insert s (a\<lparr> data_frames := bt_insert (va_floor va) p (data_frames a) \<rparr>) (areatree ms) \<rparr>, fs)
    \<and> pt_wf k' pt' T' \<and> root_ppn pt' = root_ppn (ms_pt ms)
    \<and> p \<notin> fa_used (allocator k) \<and> p \<notin> T' \<and> mem k' p = (\<lambda>_. 0) \<and> arcs k' p = 1
    \<and> pte_ppn e = Some p \<and> pte_flags_of e = Some (pte_flags_of_perm (ma_perm a))
    \<and> (\<forall>w. pt_leaf k' (root_ppn pt') w =
         (if w mod 2 ^ 27 = va_floor va mod 2 ^ 27 then e else pt_leaf k (root_ppn (ms_pt ms)) w))
    \<and> (\<forall>q\<in>fa_used (allocator k) - T. mem k' q = mem k q)"
  using assms by (rule lazy_fault_ok)

theorem lazy_fault_zeroed_witness:
  "\<exists>p k' ms'. handle_page_fault flat_fs flat_files (snd booted) \<lparr> ms_pt = fst booted, areatree = [(10, demo_area)] \<rparr> 0xb123 True
     = Some (Ok True, k', ms', flat_files) \<and> mem k' p = (\<lambda>_. 0) \<and> bt_get (areatree ms') 10 = Some (demo_area\<lparr> data_frames := [(11, p)] \<rparr>)"
proof -
  let ?ms = "\<lparr> ms_pt = fst booted, areatree = [(10, demo_area)] \<rparr>"
  obtain T where wf: "pt_wf (snd booted) (ms_pt ?ms) T" using booted_facts(1) by auto
  have v: "va_floor 0xb123 = 11" by code_simp
  have free: "3 \<le> card (fa_frames (allocator (snd booted)) - fa_used (allocator (snd booted)))" by (simp add: booted_facts(3))
  have ok: "areas_ok (areatree ?ms)" using demo_area_ok by simp
  have "vt_find_area [(10, demo_area)] 11 = Some 10" by code_simp
  then have f: "vt_find_area (areatree ?ms) (va_floor 0xb123) = Some 10" by (simp add: v)
  have g: "bt_get (areatree ?ms) 10 = Some demo_area" by (simp add: bt_get_def)
  have d: "area_type demo_area = Mmap \<or> area_type demo_area = Stack" "ma_type demo_area = Framed" "ma_fd demo_area = None"
    "start_vpn demo_area \<noteq> end_vpn demo_area" "bt_get (data_frames demo_area) (va_floor 0xb123) = None"
    by (simp_all add: demo_area_def bt_get_def)
  have l: "pt_leaf (snd booted) (root_ppn (ms_pt ?ms)) (va_floor 0xb123) = 0" by (simp add: booted_facts(2))
  obtain p k' pt' where h: "handle_page_fault flat_fs flat_files (snd booted) ?ms 0xb123 True = Some (Ok True, k', \<lparr> ms_pt = pt',
      areatree = bt_insert 10 (demo_area\<lparr> data_frames := bt_insert (va_floor 0xb123) p (data_frames demo_area) \<rparr>) (areatree ?ms) \<rparr>,
      flat_files)" "mem k' p = (\<lambda>_. 0)"
    using lazy_fault_zeroed [OF wf free ok f g d l, of flat_fs flat_files True] by blast
  have "bt_insert (va_floor 0xb123) p (data_frames demo_area) = [(11, p)]" by (simp add: v demo_area_def)
  then show ?thesis using h by (intro exI [of _ p] exI [of _ k'] exI) (auto simp: bt_get_def)
qed

text \<open>
  The page after an area.  The lookup of the area of a fault accepts the end of its range, so a fault at the page just after an
  anonymous area, which no area covers, is not refused: it maps a fresh frame there, with the permissions of the area.
\<close>

lemma fault_past_end:
  assumes "pt_wf k (ms_pt ms) T" "3 \<le> card (fa_frames (allocator k) - fa_used (allocator k))" "areas_ok (areatree ms)"
    "(s, a) \<in> set (areatree ms)" "va_floor va = end_vpn a" "bt_get (areatree ms) (end_vpn a) = None"
    "area_type a = Mmap \<or> area_type a = Stack" "ma_type a = Framed" "ma_fd a = None" "start_vpn a \<noteq> end_vpn a"
    "bt_get (data_frames a) (end_vpn a) = None" "pt_leaf k (root_ppn (ms_pt ms)) (end_vpn a) = 0"
  shows "\<not> covered (areatree ms) (va_floor va)
    \<and> (\<exists>k' ms' e p. handle_page_fault V fs k ms va is_write = Some (Ok True, k', ms', fs)
         \<and> pt_leaf k' (root_ppn (ms_pt ms')) (va_floor va) = e \<and> pte_ppn e = Some p
         \<and> pte_flags_of e = Some (pte_flags_of_perm (ma_perm a)))"
proof -
  let ?t = "areatree ms"
  note inv = areas_ok_inv [OF assms(3)] and st = areas_ok_D [OF assms(3,4)]
  have g: "bt_get ?t s = Some a" using assms(4) bt_get_Some [OF inv] by blast
  have up: "fst x \<le> s \<and> end_vpn (snd x) \<le> end_vpn a" if x: "x \<in> set ?t" "fst x \<le> end_vpn a" for x
  proof (cases "fst x \<le> s")
    case True
    show ?thesis
    proof (cases "fst x = s")
      case True
      then have "x = (s, snd x)" by (cases x) simp
      then have "bt_get ?t s = Some (snd x)" using x(1) bt_get_Some [OF inv] by metis
      then show ?thesis using True g by simp
    next
      case False
      then have "end_vpn (snd x) \<le> s"
        using True x(1) areas_ok_disjoint [OF assms(3) _ assms(4), of "fst x" "snd x"] by simp
      then show ?thesis using True st by simp
    qed
  next
    case False
    then have "end_vpn a \<le> fst x" using areas_ok_disjoint [OF assms(3,4), of "fst x" "snd x"] x(1) by simp
    then have "(end_vpn a, snd x) \<in> set ?t" using x by (metis le_antisym prod.collapse)
    then have "bt_get ?t (end_vpn a) = Some (snd x)" using bt_get_Some [OF inv] by blast
    then show ?thesis using assms(6) by simp
  qed
  have f: "vt_find_area ?t (va_floor va) = Some s"
    unfolding vt_find_area_Some [OF assms(3)] assms(5) using assms(4) st up by (intro exI [of _ a]) auto
  have nc: "\<not> covered ?t (va_floor va)" using up by (force simp: covered_def assms(5))
  obtain p e k' pt' T' where "handle_page_fault V fs k ms va is_write = Some (Ok True, k', \<lparr> ms_pt = pt',
      areatree = bt_insert s (a\<lparr> data_frames := bt_insert (va_floor va) p (data_frames a) \<rparr>) (areatree ms) \<rparr>, fs)"
    "pte_ppn e = Some p" "pte_flags_of e = Some (pte_flags_of_perm (ma_perm a))"
    "\<forall>w. pt_leaf k' (root_ppn pt') w =
         (if w mod 2 ^ 27 = va_floor va mod 2 ^ 27 then e else pt_leaf k (root_ppn (ms_pt ms)) w)"
    using lazy_fault_ok [OF assms(1-3) f g assms(7-10) assms(11,12) [folded assms(5)], of V fs is_write] by blast
  then show ?thesis using nc by (intro conjI exI [of _ k'] exI [of _ p] exI [of _ e]) auto
qed

lemma fault_past_end_witness:
  "\<exists>k' ms'. handle_page_fault flat_fs flat_files (snd booted) \<lparr> ms_pt = fst booted, areatree = [(10, demo_area)] \<rparr> 0x14000 False
     = Some (Ok True, k', ms', flat_files) \<and> \<not> covered [(10, demo_area)] 20"
proof -
  let ?ms = "\<lparr> ms_pt = fst booted, areatree = [(10, demo_area)] \<rparr>"
  obtain T where wf: "pt_wf (snd booted) (ms_pt ?ms) T" using booted_facts(1) by auto
  have v: "va_floor 0x14000 = 20" by code_simp
  have free: "3 \<le> card (fa_frames (allocator (snd booted)) - fa_used (allocator (snd booted)))" by (simp add: booted_facts(3))
  have ok: "areas_ok (areatree ?ms)" using demo_area_ok by simp
  have m: "(10, demo_area) \<in> set (areatree ?ms)" "va_floor 0x14000 = end_vpn demo_area"
    "bt_get (areatree ?ms) (end_vpn demo_area) = None"
    by (simp_all add: v demo_area_def bt_get_def)
  have d: "area_type demo_area = Mmap \<or> area_type demo_area = Stack" "ma_type demo_area = Framed" "ma_fd demo_area = None"
    "start_vpn demo_area \<noteq> end_vpn demo_area" "bt_get (data_frames demo_area) (end_vpn demo_area) = None"
    by (simp_all add: demo_area_def bt_get_def)
  have l: "pt_leaf (snd booted) (root_ppn (ms_pt ?ms)) (end_vpn demo_area) = 0" by (simp add: booted_facts(2))
  show ?thesis
    using fault_past_end [OF wf free ok m d l, of flat_fs flat_files False] by (auto simp: v)
qed

subsection \<open>Copy on write\<close>

lemma pt_translate_leaf:
  assumes "pt_wf k pt T" "v < KERNEL_PGNUM_OFFSET" "pt_leaf k (root_ppn pt) v = e" "e \<noteq> 0"
  shows "pt_translate k pt v = Some (Some e)"
    "\<exists>a. pt_walk k (root_ppn pt) v = Some a \<and> read_pte k a = e"
  using assms(2-4) find_pte_walk [OF assms(1), of v]
  by (auto simp: pt_translate_def pt_leaf_def split: option.splits)

lemma used_range:
  assumes "kmem_inv k" "0 < arcs k p"
  shows "p \<in> fa_used (allocator k)" "0 < p" "p < 2 ^ 36" "get_bytes_array p = Some p"
proof -
  show u: "p \<in> fa_used (allocator k)" using assms by (simp add: kmem_inv_def)
  have "p \<in> {0<..<2 ^ 36}" using u fa_used_frames [of "allocator k"] assms(1) unfolding kmem_inv_def by blast
  then show "0 < p" "p < 2 ^ 36" "get_bytes_array p = Some p" by (auto intro!: get_bytes_array_ok)
qed

lemma arc_drop_shared:
  assumes "kmem_inv k" "1 < arcs k p"
  obtains k' where "arc_drop k p = Some k'" "kmem_inv k'" "mem k' = mem k" "arcs k' = (arcs k)(p := arcs k p - 1)"
    "allocator k' = allocator k" "frame_vec k' = frame_vec k"
proof (rule that)
  let ?k = "k\<lparr> arcs := (arcs k)(p := arcs k p - 1) \<rparr>"
  show "arc_drop k p = Some ?k" using assms(2) by (simp add: arc_drop_def)
  have "{x. 0 < arcs ?k x} = {x. 0 < arcs k x}" using assms(2) by auto
  then show "kmem_inv ?k" using assms(1) unfolding kmem_inv_def by (elim conjE) simp
qed simp_all

lemma cow_copy_ok:
  assumes wf: "pt_wf k pt T" and free: "3 \<le> card (fa_frames (allocator k) - fa_used (allocator k))"
    and a: "ma_type a = Framed" "bt_inv (data_frames a)" "bt_get (data_frames a) v = Some p"
    and p: "1 < arcs k p" "p \<notin> T" and v: "v < KERNEL_PGNUM_OFFSET"
    and leaf: "pt_leaf k (root_ppn pt) v = e0" "e0 \<noteq> 0" "pte_ppn e0 = Some p"
  obtains q e k' pt' T' where
    "cow_copy k pt a v = Some (k', pt', a\<lparr> data_frames := bt_insert v q (bt_remove v (data_frames a)) \<rparr>)"
    "pte_ppn e = Some q" "pte_flags_of e = Some (pte_flags_of_perm (ma_perm a))" "pt_wf k' pt' T'" "root_ppn pt' = root_ppn pt"
    "q \<notin> fa_used (allocator k)" "q \<notin> T'" "mem k' q = mem k p" "arcs k' q = 1" "arcs k' p = arcs k p - 1"
    "\<And>x. x \<in> fa_used (allocator k) \<Longrightarrow> x \<notin> T \<Longrightarrow> mem k' x = mem k x"
    "\<And>w. pt_leaf k' (root_ppn pt) w = (if w mod 2 ^ 27 = v mod 2 ^ 27 then e else pt_leaf k (root_ppn pt) w)"
proof -
  have inv: "kmem_inv k" by (rule pt_wfD(1) [OF wf])
  have p0: "0 < arcs k p" using p(1) by simp
  note pr = used_range [OF inv p0]
  obtain k1 where k1: "arc_drop k p = Some k1" "kmem_inv k1" "mem k1 = mem k" "arcs k1 = (arcs k)(p := arcs k p - 1)"
    "allocator k1 = allocator k"
    using arc_drop_shared [OF inv p(1)] by metis
  have wf1: "pt_wf k1 pt T" by (rule pt_wf_same [OF wf _ k1(5,2)]) (simp add: k1(3))
  have l1: "pt_leaf k1 (root_ppn pt) w = pt_leaf k (root_ppn pt) w" for w
    by (rule pt_leaf_same [OF wf]) (simp add: k1(3))
  have n1: "pt_leaf k1 (root_ppn pt) v \<noteq> 0" using l1 [of v] leaf by simp
  obtain k2 where k2: "pt_unmap k1 pt v = Some k2" "pt_wf k2 pt T" "\<And>x. x \<notin> T \<Longrightarrow> mem k2 x = mem k1 x"
    "allocator k2 = allocator k1" "arcs k2 = arcs k1"
    "\<And>w. pt_leaf k2 (root_ppn pt) w = (if w mod 2 ^ 27 = v mod 2 ^ 27 then 0 else pt_leaf k1 (root_ppn pt) w)"
    by (rule pt_unmap_ok [OF wf1 n1]) blast
  let ?a = "a\<lparr> data_frames := bt_remove v (data_frames a) \<rparr>"
  have um: "ma_unmap_one k pt a v = Some (k2, ?a)"
    by (simp add: ma_unmap_one_def a(1,3) ma_remove_frame_def opt_drop_def k1(1) k2(1))
  have alloc: "allocator k2 = allocator k" by (simp add: k2(4) k1(5))
  have fr: "3 \<le> card (fa_frames (allocator k2) - fa_used (allocator k2))" using free by (simp add: alloc)
  have ty: "ma_type ?a = Framed" by (simp add: a(1))
  have un: "bt_get (data_frames ?a) v = None" using bt_get_remove [OF a(2)] by simp
  have l2: "pt_leaf k2 (root_ppn pt) v = 0" by (simp add: k2(6))
  obtain q e k3 pt3 T3 where m:
    "ma_map_one k2 pt ?a v = Some (Ok (), k3, pt3, ?a\<lparr> data_frames := bt_insert v q (data_frames ?a) \<rparr>)"
    "pte_new q (pte_flags_of_perm (ma_perm ?a)) = Some e" "pt_wf k3 pt3 T3" "root_ppn pt3 = root_ppn pt"
    "q \<in> fa_frames (allocator k2)" "q \<notin> fa_used (allocator k2)" "q \<notin> T3" "arcs k3 q = 1"
    "\<And>x. x \<in> fa_used (allocator k2) \<Longrightarrow> arcs k3 x = arcs k2 x"
    "\<And>x. x \<in> fa_used (allocator k2) \<Longrightarrow> x \<notin> T \<Longrightarrow> x \<notin> T3 \<and> mem k3 x = mem k2 x"
    "\<And>w. pt_leaf k3 (root_ppn pt) w = (if w mod 2 ^ 27 = v mod 2 ^ 27 then e else pt_leaf k2 (root_ppn pt) w)"
    by (rule ma_map_one_ok [OF k2(2) fr ty un l2]) blast
  have inv3: "kmem_inv k3" by (rule pt_wfD(1) [OF m(3)])
  have q0: "0 < arcs k3 q" by (simp add: m(8))
  note qr = used_range [OF inv3 q0]
  have "pte_new q (pte_flags_of_perm (ma_perm a)) = Some e" using m(2) by simp
  note e = pte_new_perm [OF qr(3) this]
  have "pte_ppn 0 = Some 0" by code_simp
  then have e0: "e \<noteq> 0" using e qr(2) by auto
  let ?k = "k3\<lparr> mem := (mem k3)(q := mem k3 p) \<rparr>"
  have same: "mem ?k x = mem k3 x" if "x \<in> T3" for x using that m(7) by auto
  have wf': "pt_wf ?k pt3 T3" by (rule pt_wf_same [OF m(3) same]) (use inv3 in simp_all)
  have l3: "pt_leaf ?k (root_ppn pt) w = pt_leaf k3 (root_ppn pt) w" for w
    using pt_leaf_same [OF m(3) same, of w] by (simp add: m(4))
  have le: "pt_leaf k3 (root_ppn pt3) v = e" "pt_leaf ?k (root_ppn pt3) v = e" using m(11) [of v] l3 [of v] by (simp_all add: m(4))
  obtain e' where uc: "pte_un_cow e = Some e'" using pte_un_cow_flags e by blast
  have c: "cow_copy k pt a v = Some (?k, pt3, a\<lparr> data_frames := bt_insert v q (bt_remove v (data_frames a)) \<rparr>)"
    using m(1) by (simp add: cow_copy_def pt_translate_leaf(1) [OF wf v leaf(1,2)] leaf(3) pr(4) um
        pt_translate_leaf(1) [OF m(3) v le(1) e0] e qr(4) pt_translate_leaf(1) [OF wf' v le(2) e0] uc)
  have old: "mem k3 x = mem k x" if "x \<in> fa_used (allocator k)" "x \<notin> T" for x
    using m(10) [of x] that k2(3) [OF that(2)] by (simp add: alloc k1(3))
  have qu: "q \<notin> fa_used (allocator k)" using m(6) by (simp add: alloc)
  show thesis
  proof (rule that [OF c conjunct1 [OF e] conjunct2 [OF e] wf' m(4) qu m(7)])
    show "mem ?k q = mem k p" using old [OF pr(1) p(2)] by simp
    show "arcs ?k q = 1" by (simp add: m(8))
    show "arcs ?k p = arcs k p - 1" using m(9) [of p] pr(1) by (simp add: alloc k2(5) k1(4))
    show "mem ?k x = mem k x" if "x \<in> fa_used (allocator k)" "x \<notin> T" for x
      using old [OF that] that(1) qu by auto
    show "pt_leaf ?k (root_ppn pt) w = (if w mod 2 ^ 27 = v mod 2 ^ 27 then e else pt_leaf k (root_ppn pt) w)" for w
      using l3 [of w] m(11) [of w] k2(6) [of w] l1 [of w] by simp
  qed
qed

text \<open>A page with a single reference: only its entry changes.\<close>

lemma un_cow_in_place:
  assumes wf: "pt_wf k pt T" and a: "bt_get (data_frames a) v = Some p" "arcs k p = 1" and v: "v < KERNEL_PGNUM_OFFSET"
    and leaf: "pt_leaf k (root_ppn pt) v = e0" "e0 \<noteq> 0" "pte_flags_of e0 = Some f"
  obtains e k' where "present_fault k pt a v True = Some (True, k', pt, a)" "pte_un_cow e0 = Some e" "pt_wf k' pt T"
    "\<And>w. pt_leaf k' (root_ppn pt) w = (if w mod 2 ^ 27 = v mod 2 ^ 27 then e else pt_leaf k (root_ppn pt) w)"
    "\<And>x. x \<notin> T \<Longrightarrow> mem k' x = mem k x" "arcs k' = arcs k"
proof -
  obtain x where x: "pt_walk k (root_ppn pt) v = Some x" "read_pte k x = e0"
    using pt_translate_leaf(2) [OF wf v leaf(1,2)] by blast
  obtain e where e: "pte_un_cow e0 = Some e" using pte_un_cow_flags [OF leaf(3)] by blast
  note wl = write_leaf(1) [OF wf x(1), of e] write_leaf(2) [OF wf x(1)] write_leaf(3,4) [OF wf x(1), where e = e]
  have "present_fault k pt a v True = Some (True, write_pte k x e, pt, a)"
    by (simp add: present_fault_def find_pte_walk [OF wf] x pte_is_cow_bit [OF leaf(3)] a e)
  then show thesis
    by (rule that [OF _ e wl(1)]) (use wl(2-4) in \<open>auto simp: write_pte_def\<close>)
qed

text \<open>
  C6: copy on write.  A write fault at a page whose frame is present succeeds.  If the frame is shared (another area or address
  space holds a reference), the page is mapped to a frame that was not in use, with the contents of the shared
  frame and the permissions of the area; the shared frame loses one reference and keeps its contents, and so do
  all other frames in use outside the page table.  If the frame is not shared, the entry is made writable in place.  In both cases no
  other page changes its mapping.
\<close>

theorem cow_fault:
  assumes "pt_wf k (ms_pt ms) T" "3 \<le> card (fa_frames (allocator k) - fa_used (allocator k))"
    "vt_find_area (areatree ms) (va_floor va) = Some s" "bt_get (areatree ms) s = Some a"
    "area_type a = Mmap \<or> area_type a = Stack" "ma_type a = Framed" "start_vpn a \<noteq> end_vpn a" "bt_inv (data_frames a)"
    "bt_get (data_frames a) (va_floor va) = Some p" "0 < arcs k p" "p \<notin> T" "va_floor va < KERNEL_PGNUM_OFFSET"
    "pt_leaf k (root_ppn (ms_pt ms)) (va_floor va) = e0" "e0 \<noteq> 0" "pte_ppn e0 = Some p" "pte_flags_of e0 = Some f"
  shows "\<exists>k' ms' T' e q. handle_page_fault V fs k ms va True = Some (Ok True, k', ms', fs)
    \<and> pt_wf k' (ms_pt ms') T' \<and> root_ppn (ms_pt ms') = root_ppn (ms_pt ms)
    \<and> (\<forall>w. pt_leaf k' (root_ppn (ms_pt ms')) w =
         (if w mod 2 ^ 27 = va_floor va mod 2 ^ 27 then e else pt_leaf k (root_ppn (ms_pt ms)) w))
    \<and> (\<forall>x\<in>fa_used (allocator k) - T. mem k' x = mem k x)
    \<and> mem k' q = mem k p \<and> pte_ppn e = Some q
    \<and> (if 1 < arcs k p then q \<notin> fa_used (allocator k) \<and> arcs k' q = 1 \<and> arcs k' p = arcs k p - 1
          \<and> pte_flags_of e = Some (pte_flags_of_perm (ma_perm a))
        else q = p \<and> pte_un_cow e0 = Some e \<and> arcs k' = arcs k)"
proof (cases "1 < arcs k p")
  case True
  obtain q e k' pt' T' where c:
    "cow_copy k (ms_pt ms) a (va_floor va)
       = Some (k', pt', a\<lparr> data_frames := bt_insert (va_floor va) q (bt_remove (va_floor va) (data_frames a)) \<rparr>)"
    "pte_ppn e = Some q" "pte_flags_of e = Some (pte_flags_of_perm (ma_perm a))" "pt_wf k' pt' T'" "root_ppn pt' = root_ppn (ms_pt ms)"
    "q \<notin> fa_used (allocator k)" "q \<notin> T'" "mem k' q = mem k p" "arcs k' q = 1" "arcs k' p = arcs k p - 1"
    "\<And>x. x \<in> fa_used (allocator k) \<Longrightarrow> x \<notin> T \<Longrightarrow> mem k' x = mem k x"
    "\<And>w. pt_leaf k' (root_ppn (ms_pt ms)) w =
       (if w mod 2 ^ 27 = va_floor va mod 2 ^ 27 then e else pt_leaf k (root_ppn (ms_pt ms)) w)"
    by (rule cow_copy_ok [OF assms(1,2,6,8,9) True assms(11-15)]) blast
  let ?ms = "\<lparr> ms_pt = pt', areatree = bt_insert s
    (a\<lparr> data_frames := bt_insert (va_floor va) q (bt_remove (va_floor va) (data_frames a)) \<rparr>) (areatree ms) \<rparr>"
  obtain x where x: "pt_walk k (root_ppn (ms_pt ms)) (va_floor va) = Some x" "read_pte k x = e0"
    using pt_translate_leaf(2) [OF assms(1,12-14)] by blast
  have "present_fault k (ms_pt ms) a (va_floor va) True
      = Some (True, k', pt', a\<lparr> data_frames := bt_insert (va_floor va) q (bt_remove (va_floor va) (data_frames a)) \<rparr>)"
    using True by (simp add: present_fault_def find_pte_walk [OF assms(1)] x pte_is_cow_bit [OF assms(16)] assms(9) c(1))
  then have "handle_page_fault V fs k ms va True = Some (Ok True, k', ?ms, fs)"
    using assms(3-5,7,9) by (auto simp: handle_page_fault_def ma_allocated_def range_empty_def Let_def)
  then show ?thesis
    using c True by (intro exI [of _ k'] exI [of _ ?ms] exI [of _ T'] exI [of _ e] exI [of _ q]) auto
next
  case False
  then have one: "arcs k p = 1" using assms(10) by simp
  obtain e k' where c: "present_fault k (ms_pt ms) a (va_floor va) True = Some (True, k', ms_pt ms, a)" "pte_un_cow e0 = Some e"
    "pt_wf k' (ms_pt ms) T"
    "\<And>w. pt_leaf k' (root_ppn (ms_pt ms)) w =
       (if w mod 2 ^ 27 = va_floor va mod 2 ^ 27 then e else pt_leaf k (root_ppn (ms_pt ms)) w)"
    "\<And>x. x \<notin> T \<Longrightarrow> mem k' x = mem k x" "arcs k' = arcs k"
    by (rule un_cow_in_place [OF assms(1,9) one assms(12-14,16)]) blast
  obtain e1 f1 where "pte_un_cow e0 = Some e1" "pte_ppn e1 = pte_ppn e0" using pte_un_cow_flags [OF assms(16)] by blast
  then have pe: "pte_ppn e = Some p" using c(2) assms(15) by simp
  let ?ms = "\<lparr> ms_pt = ms_pt ms, areatree = bt_insert s a (areatree ms) \<rparr>"
  have "handle_page_fault V fs k ms va True = Some (Ok True, k', ?ms, fs)"
    using assms(3-5,7,9) c(1) by (auto simp: handle_page_fault_def ma_allocated_def range_empty_def Let_def)
  then show ?thesis
    using c(2-6) pe one assms(11) by (intro exI [of _ k'] exI [of _ ?ms] exI [of _ T] exI [of _ e] exI [of _ p]) auto
qed

lemma demo_mapped:
  obtains p e k pt T where "pt_wf k pt T" "4 \<le> card (fa_frames (allocator k) - fa_used (allocator k))" "p \<notin> T" "arcs k p = 1"
    "pt_leaf k (root_ppn pt) 11 = e" "e \<noteq> 0" "pte_ppn e = Some p" "pte_flags_of e = Some (pte_flags_of_perm (ma_perm demo_area))"
    "mem k p = (\<lambda>_. 0)" "p \<notin> set (frame_vec k)"
    "\<And>w. w mod 2 ^ 27 \<noteq> 11 \<Longrightarrow> pt_leaf k (root_ppn pt) w = 0"
proof -
  obtain T0 where wf0: "pt_wf (snd booted) (fst booted) T0" using booted_facts(1) by blast
  have free: "3 \<le> card (fa_frames (allocator (snd booted)) - fa_used (allocator (snd booted)))" by (simp add: booted_facts(3))
  have a: "ma_type demo_area = Framed" "bt_get (data_frames demo_area) 11 = None" by (simp_all add: demo_area_def bt_get_def)
  obtain p e k pt T where m: "pte_new p (pte_flags_of_perm (ma_perm demo_area)) = Some e" "pt_wf k pt T" "root_ppn pt = root_ppn (fst booted)"
    "p \<notin> T" "mem k p = (\<lambda>_. 0)" "arcs k p = 1"
    "\<And>w. pt_leaf k (root_ppn (fst booted)) w = (if w mod 2 ^ 27 = 11 mod 2 ^ 27 then e else pt_leaf (snd booted) (root_ppn (fst booted)) w)"
    "frame_vec k = frame_vec (snd booted)"
    "card (fa_frames (allocator (snd booted)) - fa_used (allocator (snd booted))) \<le> card (fa_frames (allocator k) - fa_used (allocator k)) + 3"
    "p \<notin> fa_used (allocator (snd booted))"
    by (rule ma_map_one_ok [OF wf0 free a booted_facts(2)]) blast
  have fv: "p \<notin> set (frame_vec k)" using m(10) pt_wfD(1) [OF wf0] by (auto simp: m(8) kmem_inv_def)
  have "0 < arcs k p" by (simp add: m(6))
  note r = used_range [OF pt_wfD(1) [OF m(2)] this]
  note e = pte_new_perm [OF r(3) m(1)]
  have "pte_ppn 0 = Some 0" by code_simp
  then have e0: "e \<noteq> 0" using e r(2) by auto
  have l: "pt_leaf k (root_ppn pt) 11 = e" using m(7) [of 11] by (simp add: m(3))
  have f4: "4 \<le> card (fa_frames (allocator k) - fa_used (allocator k))" using m(9) by (simp add: booted_facts(3))
  have z: "pt_leaf k (root_ppn pt) w = 0" if "w mod 2 ^ 27 \<noteq> 11" for w
    using m(7) [of w] that by (simp add: m(3) booted_facts(2))
  show thesis
    by (rule that [OF m(2) f4 m(4,6) l e0 conjunct1 [OF e] conjunct2 [OF e] m(5) fv z])
qed

theorem cow_fault_witness:
  "\<exists>k ms p k' ms' q. arcs k p = 2 \<and> handle_page_fault flat_fs flat_files k ms 0xb123 True = Some (Ok True, k', ms', flat_files)
     \<and> q \<noteq> p \<and> mem k' q = mem k p \<and> arcs k' p = 1 \<and> arcs k' q = 1"
proof -
  obtain p e k pt T where m: "pt_wf k pt T" "4 \<le> card (fa_frames (allocator k) - fa_used (allocator k))" "p \<notin> T" "arcs k p = 1"
    "pt_leaf k (root_ppn pt) 11 = e" "e \<noteq> 0" "pte_ppn e = Some p" "pte_flags_of e = Some (pte_flags_of_perm (ma_perm demo_area))"
    by (rule demo_mapped) blast
  let ?a = "demo_area\<lparr> data_frames := [(11, p)] \<rparr>" and ?k = "arc_clone k p"
  let ?ms = "\<lparr> ms_pt = pt, areatree = [(10, ?a)] \<rparr>"
  have p0: "0 < arcs k p" by (simp add: m(4))
  have ik: "kmem_inv ?k" by (rule arc_clone_inv [OF pt_wfD(1) [OF m(1)] p0])
  have wf: "pt_wf ?k (ms_pt ?ms) T" using pt_wf_same [OF m(1), of ?k] ik by (simp add: arc_clone_def)
  have fr: "3 \<le> card (fa_frames (allocator ?k) - fa_used (allocator ?k))" using m(2) by (simp add: arc_clone_def)
  have v: "va_floor 0xb123 = 11" by code_simp
  have f: "vt_find_area (areatree ?ms) (va_floor 0xb123) = Some 10"
    by (simp add: v vt_find_area_def bt_upto_def bt_last_def demo_area_def ma_contains_def range_contains_def)
  have g: "bt_get (areatree ?ms) 10 = Some ?a" by (simp add: bt_get_def)
  have d: "area_type ?a = Mmap \<or> area_type ?a = Stack" "ma_type ?a = Framed" "start_vpn ?a \<noteq> end_vpn ?a" "bt_inv (data_frames ?a)"
    "bt_get (data_frames ?a) (va_floor 0xb123) = Some p"
    by (simp_all add: demo_area_def bt_get_def v)
  have c: "arcs ?k p = 2" by (simp add: arc_clone_def m(4))
  have c0: "0 < arcs ?k p" and c1: "1 < arcs ?k p" by (simp_all add: c)
  have vk: "va_floor 0xb123 < KERNEL_PGNUM_OFFSET" 
    by (simp add: v KERNEL_PGNUM_OFFSET_def KERNEL_DIRECT_OFFSET_def PAGE_SIZE_BITS_def drop_bit_eq_div)
  have l: "pt_leaf ?k (root_ppn (ms_pt ?ms)) (va_floor 0xb123) = e"
    using pt_leaf_same [OF m(1), of ?k 11] m(5) by (simp add: v arc_clone_def)
  obtain k' ms' q where "handle_page_fault flat_fs flat_files ?k ?ms 0xb123 True = Some (Ok True, k', ms', flat_files)"
    "mem k' q = mem ?k p" "q \<notin> fa_used (allocator ?k)" "arcs k' q = 1" "arcs k' p = arcs ?k p - 1"
    using cow_fault [OF wf fr f g d c0 m(3) vk l m(6-8), of flat_fs flat_files, unfolded if_P [OF c1]] by blast
  moreover from this have "q \<noteq> p" using used_range(1) [OF ik c0] by blast
  ultimately show ?thesis using c by (intro exI [of _ ?k] exI [of _ ?ms] exI [of _ p] exI [of _ k'] exI [of _ ms'] exI [of _ q]) simp
qed

end
