(* ===== verification/Munmap_Props.thy ===== *)
theory Munmap_Props
  imports Memory_Props
begin

text \<open>
  Unmapping a range of an address space: \<open>munmap\<close> of \<open>Memory_Set\<close>, on well-formed address spaces.
\<close>

subsection \<open>Trees as sets\<close>

lemma bt_set_insert:
  fixes m :: "('k :: linorder, 'v) btree"
  assumes i: "bt_inv m"
  shows "set (bt_insert k v m) = insert (k, v) {x \<in> set m. fst x \<noteq> k}"
proof (rule set_eqI)
  fix x :: "'k \<times> 'v"
  obtain a b where x: "x = (a, b)" by (cases x)
  have "(a, b) \<in> set (bt_insert k v m) \<longleftrightarrow> bt_get (bt_insert k v m) a = Some b"
    using bt_get_Some [OF bt_inv_insert [OF i]] by blast
  also have "\<dots> \<longleftrightarrow> (a = k \<and> b = v) \<or> (a \<noteq> k \<and> (a, b) \<in> set m)"
    using bt_get_Some [OF i] by (auto simp: bt_get_insert [OF i])
  finally show "x \<in> set (bt_insert k v m) \<longleftrightarrow> x \<in> insert (k, v) {x \<in> set m. fst x \<noteq> k}" by (auto simp: x)
qed

lemma bt_set_remove:
  fixes m :: "('k :: linorder, 'v) btree"
  assumes i: "bt_inv m"
  shows "set (bt_remove k m) = {x \<in> set m. fst x \<noteq> k}"
proof (rule set_eqI)
  fix x :: "'k \<times> 'v"
  obtain a b where x: "x = (a, b)" by (cases x)
  have "(a, b) \<in> set (bt_remove k m) \<longleftrightarrow> bt_get (bt_remove k m) a = Some b"
    using bt_get_Some [OF bt_inv_remove [OF i]] by blast
  also have "\<dots> \<longleftrightarrow> a \<noteq> k \<and> (a, b) \<in> set m"
    using bt_get_Some [OF i] by (auto simp: bt_get_remove [OF i])
  finally show "x \<in> set (bt_remove k m) \<longleftrightarrow> x \<in> {x \<in> set m. fst x \<noteq> k}" by (auto simp: x)
qed

lemma sorted_wrt_pairs:
  "bt_inv t \<Longrightarrow> sorted_wrt P t \<longleftrightarrow> (\<forall>x\<in>set t. \<forall>y\<in>set t. fst x < fst y \<longrightarrow> P x y)"
proof (induction t)
  case (Cons z t)
  have z: "\<forall>y\<in>set t. fst z < fst y" and t: "bt_inv t" using Cons.prems by (cases z, simp)+
  have "(\<forall>x\<in>set (z # t). \<forall>y\<in>set (z # t). fst x < fst y \<longrightarrow> P x y)
      \<longleftrightarrow> (\<forall>y\<in>set t. P z y) \<and> (\<forall>x\<in>set t. \<forall>y\<in>set t. fst x < fst y \<longrightarrow> P x y)"
    using z by (auto dest: less_asym)
  then show ?case using Cons.IH [OF t] by simp
qed simp

lemma areas_ok_set:
  "areas_ok t \<longleftrightarrow> bt_inv t \<and> (\<forall>x\<in>set t. start_vpn (snd x) = fst x \<and> fst x \<le> end_vpn (snd x))
     \<and> (\<forall>x\<in>set t. \<forall>y\<in>set t. fst x < fst y \<longrightarrow> end_vpn (snd x) \<le> fst y)"
  unfolding areas_ok_def using sorted_wrt_pairs [of t "\<lambda>x y. end_vpn (snd x) \<le> fst y"] by blast

lemma areas_ok_remove: "areas_ok t \<Longrightarrow> areas_ok (bt_remove s t)"
  unfolding areas_ok_set by (auto simp: bt_inv_remove bt_set_remove)

lemma areas_ok_insert:
  assumes "areas_ok t" "start_vpn a = s" "s \<le> end_vpn a"
    "\<forall>x\<in>set t. fst x \<noteq> s \<and> (fst x < s \<longrightarrow> end_vpn (snd x) \<le> s) \<and> (s < fst x \<longrightarrow> end_vpn a \<le> fst x)"
  shows "areas_ok (bt_insert s a t)"
proof -
  have inv: "bt_inv t" using assms(1) by (rule areas_ok_inv)
  have "\<forall>x\<in>insert (s, a) (set t). \<forall>y\<in>insert (s, a) (set t). fst x < fst y \<longrightarrow> end_vpn (snd x) \<le> fst y"
    using assms(1,4) unfolding areas_ok_set by auto
  moreover have "{x \<in> set t. fst x \<noteq> s} = set t" using assms(4) by auto
  ultimately show ?thesis
    using assms(1-3) bt_inv_insert [OF inv] unfolding areas_ok_set bt_set_insert [OF inv] by simp
qed

subsection \<open>References of the areas\<close>

definition refs :: "area_tree \<Rightarrow> ppn list" where
  "refs t = concat (map (\<lambda>x. map snd (data_frames (snd x))) t)"

lemma refs_simps [simp]: "refs [] = []" "refs (x # t) = map snd (data_frames (snd x)) @ refs t"
  by (simp_all add: refs_def)

lemma refs_insert_empty:
  "data_frames a = [] \<Longrightarrow> s \<notin> fst ` set t \<Longrightarrow> refs (bt_insert s a t) = refs t"
  by (induction t) auto

lemma refs_remove:
  "bt_inv t \<Longrightarrow> (s, a) \<in> set t \<Longrightarrow>
     count_list (refs t) p = count_list (map snd (data_frames a)) p + count_list (refs (bt_remove s t)) p"
proof (induction t)
  case (Cons z t)
  obtain s' b where z: "z = (s', b)" by (cases z)
  have lt: "\<forall>x\<in>set t. s' < fst x" and t: "bt_inv t" using Cons.prems(1) by (simp_all add: z)
  show ?case
  proof (cases "s' = s")
    case True
    then have "b = a" using Cons.prems(2) lt by (auto simp: z)
    then show ?thesis using True by (simp add: z count_list_append)
  next
    case False
    then have "(s, a) \<in> set t" using Cons.prems(2) by (simp add: z)
    from Cons.IH [OF t this] show ?thesis using False by (simp add: z count_list_append)
  qed
qed simp

lemma frames_drop_ok:
  assumes "kmem_inv k" "\<forall>p. count_list ps p + (if p \<in> set (frame_vec k) then 1 else 0) \<le> arcs k p"
  shows "\<exists>k'. frames_drop k ps = Some k' \<and> kmem_inv k' \<and> mem k' = mem k \<and> frame_vec k' = frame_vec k
    \<and> arcs k' = (\<lambda>p. arcs k p - count_list ps p) \<and> fa_frames (allocator k') = fa_frames (allocator k)"
  using assms
proof (induction ps arbitrary: k)
  case (Cons q ps)
  have q: "0 < arcs k q" "q \<notin> set (frame_vec k) \<or> 1 < arcs k q" using Cons.prems(2) [THEN spec, of q] by auto
  obtain k1 where k1: "arc_drop k q = Some k1" "kmem_inv k1" "mem k1 = mem k" "arcs k1 = (arcs k)(q := arcs k q - 1)"
    "fa_frames (allocator k1) = fa_frames (allocator k)" "frame_vec k1 = frame_vec k"
    using arc_drop_ok [OF Cons.prems(1) q] by blast
  have "\<forall>p. count_list ps p + (if p \<in> set (frame_vec k1) then 1 else 0) \<le> arcs k1 p"
  proof
    fix p show "count_list ps p + (if p \<in> set (frame_vec k1) then 1 else 0) \<le> arcs k1 p"
      using Cons.prems(2) [THEN spec, of p] by (auto simp: k1(4,6) split: if_splits)
  qed
  from Cons.IH [OF k1(2) this] show ?case by (auto simp: k1 fun_eq_iff)
qed simp

subsection \<open>Well-formed address spaces\<close>

text \<open>
  The frames of an area belong to pages of the area that are mapped, and are not tables of the page table; every frame has at
  least as many references as the areas and the list of persistent frames hold.
\<close>

definition frames_ok :: "kmem \<Rightarrow> page_table \<Rightarrow> ppn set \<Rightarrow> map_area \<Rightarrow> bool" where
  "frames_ok k pt T a \<longleftrightarrow> bt_inv (data_frames a) \<and> (\<forall>x\<in>set (data_frames a). start_vpn a \<le> fst x \<and> fst x < end_vpn a
     \<and> fst x < 2 ^ 27 \<and> pt_leaf k (root_ppn pt) (fst x) \<noteq> 0 \<and> snd x \<notin> T)"

definition refs_ok :: "kmem \<Rightarrow> area_tree \<Rightarrow> bool" where
  "refs_ok k t \<longleftrightarrow> (\<forall>p. count_list (refs t) p + (if p \<in> set (frame_vec k) then 1 else 0) \<le> arcs k p)"

definition space_ok :: "kmem \<Rightarrow> memory_set \<Rightarrow> ppn set \<Rightarrow> bool" where
  "space_ok k ms T \<longleftrightarrow> pt_wf k (ms_pt ms) T \<and> areas_ok (areatree ms)
     \<and> (\<forall>x\<in>set (areatree ms). frames_ok k (ms_pt ms) T (snd x)) \<and> refs_ok k (areatree ms)"

lemma allocated_mem: "bt_inv (data_frames a) \<Longrightarrow> ma_allocated a v \<longleftrightarrow> (\<exists>p. (v, p) \<in> set (data_frames a))"
  using bt_get_Some [of "data_frames a" v] by (auto simp: ma_allocated_def)

lemma unmap_allocated_ok:
  assumes "pt_wf k pt T" "distinct vs" "\<forall>v. ma_allocated a v \<longrightarrow> v < 2 ^ 27 \<and> pt_leaf k (root_ppn pt) v \<noteq> 0"
  shows "\<exists>k'. unmap_allocated k pt a vs = Some k' \<and> pt_wf k' pt T \<and> allocator k' = allocator k \<and> arcs k' = arcs k
    \<and> frame_vec k' = frame_vec k \<and> (\<forall>q. q \<notin> T \<longrightarrow> mem k' q = mem k q)
    \<and> (\<forall>w<2 ^ 27. pt_leaf k' (root_ppn pt) w = (if w \<in> set vs \<and> ma_allocated a w then 0 else pt_leaf k (root_ppn pt) w))"
proof -
  have "\<exists>k'. unmap_allocated k pt a vs = Some k' \<and> pt_wf k' pt T \<and> allocator k' = allocator k \<and> arcs k' = arcs k
    \<and> frame_vec k' = frame_vec k \<and> (\<forall>q. q \<notin> T \<longrightarrow> mem k' q = mem k q)
    \<and> (\<forall>w<2 ^ 27. pt_leaf k' (root_ppn pt) w = (if w \<in> set vs \<and> ma_allocated a w then 0 else pt_leaf k (root_ppn pt) w))"
    if "pt_wf k pt T" "distinct vs" "\<forall>v\<in>set vs. ma_allocated a v \<longrightarrow> v < 2 ^ 27 \<and> pt_leaf k (root_ppn pt) v \<noteq> 0" for k
    using that
  proof (induction vs arbitrary: k)
    case (Cons v vs)
    show ?case
    proof (cases "ma_allocated a v")
      case False
      then show ?thesis using Cons.IH [of k] Cons.prems by auto
    next
      case True
      then have v: "v < 2 ^ 27" "pt_leaf k (root_ppn pt) v \<noteq> 0" using Cons.prems(3) by auto
      obtain k1 where k1: "pt_unmap k pt v = Some k1" "pt_wf k1 pt T" "\<And>q. q \<notin> T \<Longrightarrow> mem k1 q = mem k q"
        "allocator k1 = allocator k" "arcs k1 = arcs k"
        "\<And>w. pt_leaf k1 (root_ppn pt) w = (if w mod 2 ^ 27 = v mod 2 ^ 27 then 0 else pt_leaf k (root_ppn pt) w)"
        "frame_vec k1 = frame_vec k"
        by (rule pt_unmap_ok [OF Cons.prems(1) v(2)]) blast
      have l: "pt_leaf k1 (root_ppn pt) w = (if w = v then 0 else pt_leaf k (root_ppn pt) w)" if "w < 2 ^ 27" for w
        using k1(6) [of w] v(1) that by simp
      have "\<forall>w\<in>set vs. ma_allocated a w \<longrightarrow> w < 2 ^ 27 \<and> pt_leaf k1 (root_ppn pt) w \<noteq> 0"
        using Cons.prems(2,3) l by auto
      from Cons.IH [OF k1(2) _ this] Cons.prems(2) obtain k2 where k2: "unmap_allocated k1 pt a vs = Some k2" "pt_wf k2 pt T"
        "allocator k2 = allocator k1" "arcs k2 = arcs k1" "frame_vec k2 = frame_vec k1" "\<forall>q. q \<notin> T \<longrightarrow> mem k2 q = mem k1 q"
        "\<forall>w<2 ^ 27. pt_leaf k2 (root_ppn pt) w = (if w \<in> set vs \<and> ma_allocated a w then 0 else pt_leaf k1 (root_ppn pt) w)"
        by auto
      have "\<forall>w<2 ^ 27. pt_leaf k2 (root_ppn pt) w = (if w \<in> set (v # vs) \<and> ma_allocated a w then 0 else pt_leaf k (root_ppn pt) w)"
        using k2(7) l True by auto
      then show ?thesis using k2 k1 True by (intro exI [of _ k2]) simp
    qed
  qed auto
  then show ?thesis using assms by blast
qed

text \<open>The tree without the part of an area that lies in \<open>[r0, r1)\<close>; the pieces that remain hold no frames.\<close>

definition piece :: "map_area \<Rightarrow> vpn \<Rightarrow> vpn \<Rightarrow> map_area" where
  "piece a s e = \<lparr> ma_range = \<lparr> get_start = s, get_end = e \<rparr>, data_frames = [], ma_type = ma_type a, ma_perm = ma_perm a,
     area_type = area_type a, ma_fd = None, mmap_flags = 0 \<rparr>"

definition cut_left :: "vpn \<Rightarrow> map_area \<Rightarrow> vpn \<Rightarrow> area_tree \<Rightarrow> area_tree" where
  "cut_left s a r0 t = (if s < r0 then bt_insert s (piece a s r0) (bt_remove s t) else bt_remove s t)"

definition cut_area :: "vpn \<Rightarrow> map_area \<Rightarrow> vpn \<Rightarrow> vpn \<Rightarrow> area_tree \<Rightarrow> area_tree" where
  "cut_area s a r0 r1 t = (if r1 < end_vpn a then bt_insert r1 (piece a r1 (end_vpn a)) (cut_left s a r0 t) else cut_left s a r0 t)"

lemma piece_simps [simp]:
  "start_vpn (piece a s e) = s" "end_vpn (piece a s e) = e" "data_frames (piece a s e) = []"
  by (simp_all add: piece_def)

lemma from_another_piece: "s \<le> e \<Longrightarrow> ma_from_another_with_range a s e = Some (piece a s e)"
  by (simp add: ma_from_another_with_range_def range_new_def piece_def)

lemma others_apart:
  assumes "areas_ok t" "(s, a) \<in> set t" "x \<in> set t" "fst x \<noteq> s"
  shows "end_vpn (snd x) \<le> s \<and> fst x < s \<or> end_vpn a \<le> fst x \<and> s < fst x"
  using assms areas_ok_disjoint [OF assms(1,2), of "fst x" "snd x"] areas_ok_disjoint [OF assms(1) _ assms(2), of "fst x" "snd x"]
  by (cases "fst x < s") auto

lemma cut_left_ok:
  assumes ok: "areas_ok t" and m: "(s, a) \<in> set t" and r: "r0 < end_vpn a"
  shows "areas_ok (cut_left s a r0 t)"
    "set (cut_left s a r0 t) = {x \<in> set t. fst x \<noteq> s} \<union> (if s < r0 then {(s, piece a s r0)} else {})"
proof -
  note inv = areas_ok_inv [OF ok] and rm = areas_ok_remove [OF ok, of s]
  note inv' = areas_ok_inv [OF rm]
  have "areas_ok (bt_insert s (piece a s r0) (bt_remove s t))" if "s < r0"
  proof (intro areas_ok_insert [OF rm] ballI)
    fix x assume "x \<in> set (bt_remove s t)"
    then have "x \<in> set t" "fst x \<noteq> s" by (simp_all add: bt_set_remove [OF inv])
    from others_apart [OF ok m this]
    show "fst x \<noteq> s \<and> (fst x < s \<longrightarrow> end_vpn (snd x) \<le> s) \<and> (s < fst x \<longrightarrow> end_vpn (piece a s r0) \<le> fst x)"
      using r that by auto
  qed (use that in simp_all)
  then show "areas_ok (cut_left s a r0 t)" using rm by (simp add: cut_left_def)
  show "set (cut_left s a r0 t) = {x \<in> set t. fst x \<noteq> s} \<union> (if s < r0 then {(s, piece a s r0)} else {})"
    by (auto simp: cut_left_def bt_set_insert [OF inv'] bt_set_remove [OF inv])
qed

lemma cut_ok:
  assumes ok: "areas_ok t" and m: "(s, a) \<in> set t" and r: "r0 < end_vpn a" "s < r1" "r0 \<le> r1"
  shows "areas_ok (cut_area s a r0 r1 t)"
    "set (cut_area s a r0 r1 t) = {x \<in> set t. fst x \<noteq> s} \<union> (if s < r0 then {(s, piece a s r0)} else {})
       \<union> (if r1 < end_vpn a then {(r1, piece a r1 (end_vpn a))} else {})"
    "r1 < end_vpn a \<Longrightarrow> r1 \<notin> fst ` set (cut_left s a r0 t)"
proof -
  note l = cut_left_ok [OF ok m r(1)]
  note inv = areas_ok_inv [OF l(1)]
  show new: "r1 \<notin> fst ` set (cut_left s a r0 t)" if "r1 < end_vpn a"
  proof
    assume "r1 \<in> fst ` set (cut_left s a r0 t)"
    then obtain x where x: "x \<in> set (cut_left s a r0 t)" "fst x = r1" by blast
    then have "x \<in> set t" "fst x \<noteq> s" unfolding l(2) using r(2) by (auto split: if_splits)
    from others_apart [OF ok m this] show False using x(2) r(2) that by auto
  qed
  have "areas_ok (bt_insert r1 (piece a r1 (end_vpn a)) (cut_left s a r0 t))" if r1: "r1 < end_vpn a"
  proof (intro areas_ok_insert [OF l(1)] ballI)
    fix x assume x: "x \<in> set (cut_left s a r0 t)"
    show "fst x \<noteq> r1 \<and> (fst x < r1 \<longrightarrow> end_vpn (snd x) \<le> r1) \<and> (r1 < fst x \<longrightarrow> end_vpn (piece a r1 (end_vpn a)) \<le> fst x)"
    proof (cases "x \<in> set t \<and> fst x \<noteq> s")
      case True
      then show ?thesis using others_apart [OF ok m, of x] r1 r by auto
    next
      case False
      then have "x = (s, piece a s r0)" using x unfolding l(2) by (auto split: if_splits)
      then show ?thesis using r by simp
    qed
  qed (use r1 in simp_all)
  then show "areas_ok (cut_area s a r0 r1 t)" using l(1) by (simp add: cut_area_def)
  show "set (cut_area s a r0 r1 t) = {x \<in> set t. fst x \<noteq> s} \<union> (if s < r0 then {(s, piece a s r0)} else {})
       \<union> (if r1 < end_vpn a then {(r1, piece a r1 (end_vpn a))} else {})"
  proof (cases "r1 < end_vpn a")
    case True
    then have "{x \<in> set (cut_left s a r0 t). fst x \<noteq> r1} = set (cut_left s a r0 t)" using new by force
    then show ?thesis using True by (simp add: cut_area_def bt_set_insert [OF inv] l(2))
  qed (simp add: cut_area_def l(2))
qed

lemma covered_cut:
  assumes "areas_ok t" "(s, a) \<in> set t" "r0 < end_vpn a" "s < r1" "r0 \<le> r1"
  shows "covered (cut_area s a r0 r1 t) v \<longleftrightarrow> covered t v \<and> \<not> (s \<le> v \<and> v < end_vpn a \<and> r0 \<le> v \<and> v < r1)"
proof -
  have t: "covered t v \<longleftrightarrow> (\<exists>x\<in>{x \<in> set t. fst x \<noteq> s}. fst x \<le> v \<and> v < end_vpn (snd x)) \<or> s \<le> v \<and> v < end_vpn a"
    (is "_ \<longleftrightarrow> ?o \<or> _")
  proof -
    have u: "snd x = a" if "x \<in> set t" "fst x = s" for x
    proof -
      have "(s, snd x) \<in> set t" using that by (metis prod.collapse)
      then have "bt_get t s = Some (snd x)" using bt_get_Some [OF areas_ok_inv [OF assms(1)]] by blast
      moreover have "bt_get t s = Some a" using assms(2) bt_get_Some [OF areas_ok_inv [OF assms(1)]] by blast
      ultimately show ?thesis by simp
    qed
    have split: "set t = {x \<in> set t. fst x \<noteq> s} \<union> {(s, a)}"
    proof (rule set_eqI)
      fix x show "x \<in> set t \<longleftrightarrow> x \<in> {x \<in> set t. fst x \<noteq> s} \<union> {(s, a)}"
        using u [of x] assms(2) by (cases x) auto
    qed
    show ?thesis unfolding covered_def by (subst split) auto
  qed
  have o: "\<not> (s \<le> v \<and> v < end_vpn a)" if oo: ?o
  proof -
    obtain x where x: "x \<in> set t" "fst x \<noteq> s" "fst x \<le> v" "v < end_vpn (snd x)" using oo by blast
    from others_apart [OF assms(1,2) x(1,2)] show ?thesis using x(3,4) by auto
  qed
  have "covered (cut_area s a r0 r1 t) v \<longleftrightarrow> ?o \<or> s < r0 \<and> s \<le> v \<and> v < r0 \<or> r1 < end_vpn a \<and> r1 \<le> v \<and> v < end_vpn a"
    unfolding covered_def cut_ok(2) [OF assms] by auto
  then show ?thesis using t o assms(3-5) by auto
qed

lemma refs_cut:
  assumes "areas_ok t" "(s, a) \<in> set t" "r0 < end_vpn a" "s < r1" "r0 \<le> r1"
  shows "count_list (refs t) p = count_list (map snd (data_frames a)) p + count_list (refs (cut_area s a r0 r1 t)) p"
proof -
  have "s \<notin> fst ` set (bt_remove s t)" by (auto simp: bt_set_remove [OF areas_ok_inv [OF assms(1)]])
  then have "refs (cut_left s a r0 t) = refs (bt_remove s t)" by (simp add: cut_left_def refs_insert_empty)
  then have "refs (cut_area s a r0 r1 t) = refs (bt_remove s t)"
    using cut_ok(3) [OF assms] by (simp add: cut_area_def refs_insert_empty)
  then show ?thesis using refs_remove [OF areas_ok_inv [OF assms(1)] assms(2)] by simp
qed

subsection \<open>One area\<close>

text \<open>What one round of the loop does to the areas, the references and the mappings.\<close>

definition munmap_round ::
  "kmem \<Rightarrow> memory_set \<Rightarrow> ppn set \<Rightarrow> vpn \<Rightarrow> vpn \<Rightarrow> area_tree \<Rightarrow> kmem \<Rightarrow> memory_set \<Rightarrow> bool" where
  "munmap_round k ms T r0 r1 xs k' ms' \<longleftrightarrow> space_ok k' ms' T \<and> ms_pt ms' = ms_pt ms
     \<and> (\<forall>v. covered (areatree ms') v \<longleftrightarrow>
          covered (areatree ms) v \<and> \<not> (r0 \<le> v \<and> v < r1 \<and> (\<exists>x\<in>set xs. fst x \<le> v \<and> v < end_vpn (snd x))))
     \<and> (\<forall>w<2 ^ 27. pt_leaf k' (root_ppn (ms_pt ms)) w =
          (if r0 \<le> w \<and> w < r1 \<and> (\<exists>x\<in>set xs. ma_allocated (snd x) w) then 0 else pt_leaf k (root_ppn (ms_pt ms)) w))
     \<and> (\<forall>p. arcs k' p = arcs k p - count_list (refs xs) p) \<and> frame_vec k' = frame_vec k
     \<and> (\<forall>q. q \<notin> T \<longrightarrow> mem k' q = mem k q)
     \<and> (\<forall>y\<in>set (areatree ms'). y \<in> set (areatree ms) \<and> fst y \<notin> fst ` set xs \<or> \<not> (r0 < end_vpn (snd y) \<and> fst y < r1))"

lemma frames_ok_other:
  assumes "frames_ok k pt T b" "\<forall>w<2 ^ 27. pt_leaf k' (root_ppn pt) w = (if P w then 0 else pt_leaf k (root_ppn pt) w)"
    "\<forall>w. start_vpn b \<le> w \<and> w < end_vpn b \<longrightarrow> \<not> P w"
  shows "frames_ok k' pt T b"
  using assms unfolding frames_ok_def by simp

lemma vt_push_new: "bt_get t (start_vpn a) = None \<Longrightarrow> vt_push k t a = Some (k, bt_insert (start_vpn a) a t)"
  by (simp add: vt_push_def)

lemma munmap_step:
  assumes sp: "space_ok k ms T" and m: "(s, a) \<in> set (areatree ms)" and r: "r0 < end_vpn a" "s < r1" "r0 \<le> r1"
  obtains k' where "munmap_loop k (ms_pt ms) (areatree ms) r0 r1 (s # ss) = munmap_loop k' (ms_pt ms) (cut_area s a r0 r1 (areatree ms)) r0 r1 ss"
    "munmap_round k ms T r0 r1 [(s, a)] k' (ms\<lparr> areatree := cut_area s a r0 r1 (areatree ms) \<rparr>)"
proof -
  let ?t = "areatree ms" and ?pt = "ms_pt ms"
  have wf: "pt_wf k ?pt T" and ok: "areas_ok ?t" and fo: "\<forall>x\<in>set ?t. frames_ok k ?pt T (snd x)" and ro: "refs_ok k ?t"
    using sp by (auto simp: space_ok_def)
  have fa: "frames_ok k ?pt T a" using fo m by force
  then have fi: "bt_inv (data_frames a)" by (simp add: frames_ok_def)
  note al = allocated_mem [OF fi]
  have in_a: "ma_allocated a v \<Longrightarrow> start_vpn a \<le> v \<and> v < end_vpn a \<and> v < 2 ^ 27 \<and> pt_leaf k (root_ppn ?pt) v \<noteq> 0" for v
    using fa unfolding al frames_ok_def by force
  have "\<forall>v. ma_allocated a v \<longrightarrow> v < 2 ^ 27 \<and> pt_leaf k (root_ppn ?pt) v \<noteq> 0" using in_a by blast
  from unmap_allocated_ok [OF wf distinct_upt this] obtain k1 where k1: "unmap_allocated k ?pt a [r0..<r1] = Some k1" "pt_wf k1 ?pt T"
    "allocator k1 = allocator k" "arcs k1 = arcs k" "frame_vec k1 = frame_vec k" "\<forall>q. q \<notin> T \<longrightarrow> mem k1 q = mem k q"
    "\<forall>w<2 ^ 27. pt_leaf k1 (root_ppn ?pt) w = (if w \<in> set [r0..<r1] \<and> ma_allocated a w then 0 else pt_leaf k (root_ppn ?pt) w)"
    by blast
  let ?fs = "map snd (data_frames a)"
  note rc = refs_cut [OF ok m r]
  have cnt: "\<forall>p. count_list ?fs p + (if p \<in> set (frame_vec k1) then 1 else 0) \<le> arcs k1 p"
  proof
    fix p show "count_list ?fs p + (if p \<in> set (frame_vec k1) then 1 else 0) \<le> arcs k1 p"
      using ro [unfolded refs_ok_def, THEN spec, of p] rc [of p] by (simp add: k1(4,5))
  qed
  from frames_drop_ok [OF pt_wfD(1) [OF k1(2)] cnt] obtain k2 where k2: "frames_drop k1 ?fs = Some k2" "kmem_inv k2" "mem k2 = mem k1"
    "frame_vec k2 = frame_vec k1" "arcs k2 = (\<lambda>p. arcs k1 p - count_list ?fs p)"
    by blast
  have T2: "T \<subseteq> fa_used (allocator k2)"
  proof
    fix p assume p: "p \<in> T"
    then have "0 < arcs k1 p" using pt_wfD(1,2) [OF k1(2)] by (auto simp: kmem_inv_def)
    moreover have "p \<notin> set ?fs" using fa p by (auto simp: frames_ok_def)
    ultimately have "0 < arcs k2 p" by (simp add: k2(5) count_list_0_iff)
    then show "p \<in> fa_used (allocator k2)" using k2(2) by (simp add: kmem_inv_def)
  qed
  have wf2: "pt_wf k2 ?pt T" by (rule pt_wf_transfer [OF k1(2) _ T2 k2(2)]) (simp add: k2(3))
  have l2: "pt_leaf k2 (root_ppn ?pt) w = pt_leaf k1 (root_ppn ?pt) w" for w
    by (rule pt_leaf_same [OF k1(2)]) (simp add: k2(3))
  have leaf: "\<forall>w<2 ^ 27. pt_leaf k2 (root_ppn ?pt) w
      = (if r0 \<le> w \<and> w < r1 \<and> ma_allocated a w then 0 else pt_leaf k (root_ppn ?pt) w)"
    using k1(7) l2 by simp
  note c = cut_ok [OF ok m r] and st = areas_ok_D [OF ok m]
  have fo': "\<forall>x\<in>set (cut_area s a r0 r1 ?t). frames_ok k2 ?pt T (snd x)"
  proof
    fix x assume "x \<in> set (cut_area s a r0 r1 ?t)"
    then consider "x \<in> set ?t" "fst x \<noteq> s" | "data_frames (snd x) = []" unfolding c(2) by (auto split: if_splits)
    then show "frames_ok k2 ?pt T (snd x)"
    proof cases
      case 1
      have sx: "start_vpn (snd x) = fst x" using areas_ok_D(1) [OF ok, of "fst x" "snd x"] 1(1) by simp
      have "\<not> (r0 \<le> w \<and> w < r1 \<and> ma_allocated a w)" if w: "start_vpn (snd x) \<le> w \<and> w < end_vpn (snd x)" for w
        using others_apart [OF ok m 1] in_a [of w] w sx st by auto
      then show ?thesis using frames_ok_other [OF bspec [OF fo 1(1)] leaf] by blast
    qed (simp add: frames_ok_def)
  qed
  have ro': "refs_ok k2 (cut_area s a r0 r1 ?t)"
    unfolding refs_ok_def
  proof
    fix p show "count_list (refs (cut_area s a r0 r1 ?t)) p + (if p \<in> set (frame_vec k2) then 1 else 0) \<le> arcs k2 p"
      using ro [unfolded refs_ok_def, THEN spec, of p] rc [of p] by (simp add: k2(4,5) k1(4,5))
  qed
  have sp': "space_ok k2 (ms\<lparr> areatree := cut_area s a r0 r1 ?t \<rparr>) T" using wf2 c(1) fo' ro' by (simp add: space_ok_def)
  have g: "bt_get ?t s = Some a" using m bt_get_Some [OF areas_ok_inv [OF ok]] by blast
  have n1: "bt_get (bt_remove s ?t) s = None" using bt_get_remove [OF areas_ok_inv [OF ok]] by simp
  have p1: "(if s < r0 then do { l \<leftarrow> ma_from_another_with_range a s r0; vt_push k (bt_remove s ?t) l } else Some (k, bt_remove s ?t))
      = Some (k, cut_left s a r0 ?t)"
    using n1 by (simp add: from_another_piece vt_push_new cut_left_def)
  have p2: "(if end_vpn a > r1 then do { x \<leftarrow> ma_from_another_with_range a r1 (end_vpn a); vt_push k (cut_left s a r0 ?t) x }
        else Some (k, cut_left s a r0 ?t)) = Some (k, cut_area s a r0 r1 ?t)"
    using c(3) by (auto simp: from_another_piece vt_push_new cut_area_def bt_get_absent)
  have "munmap_loop k ?pt ?t r0 r1 (s # ss) = munmap_loop k2 ?pt (cut_area s a r0 r1 ?t) r0 r1 ss"
    by (simp only: munmap_loop.simps g bind.bind_lunit Let_def st(1) p1 p2 prod.case k1(1) ma_drop_def k2(1))
  moreover have "\<forall>y\<in>set (cut_area s a r0 r1 ?t). y \<in> set ?t \<and> fst y \<noteq> s \<or> \<not> (r0 < end_vpn (snd y) \<and> fst y < r1)"
    unfolding c(2) by (auto split: if_splits)
  then have "munmap_round k ms T r0 r1 [(s, a)] k2 (ms\<lparr> areatree := cut_area s a r0 r1 ?t \<rparr>)"
    using sp' leaf k1(6) by (simp add: munmap_round_def covered_cut [OF ok m r] k2(3-5) k1(4,5)) blast
  ultimately show thesis by (rule that)
qed

subsection \<open>The whole range\<close>

lemma munmap_round_Nil: "space_ok k ms T \<Longrightarrow> munmap_round k ms T r0 r1 [] k ms"
  by (simp add: munmap_round_def)

lemma munmap_round_Cons:
  assumes "munmap_round k ms T r0 r1 [x] k1 ms1" "munmap_round k1 ms1 T r0 r1 xs k2 ms2"
  shows "munmap_round k ms T r0 r1 (x # xs) k2 ms2"
proof -
  note a = assms(1) [unfolded munmap_round_def] and b = assms(2) [unfolded munmap_round_def]
  have pt: "ms_pt ms1 = ms_pt ms" using a by blast
  have "pt_leaf k2 (root_ppn (ms_pt ms)) w
      = (if r0 \<le> w \<and> w < r1 \<and> (\<exists>y\<in>set (x # xs). ma_allocated (snd y) w) then 0 else pt_leaf k (root_ppn (ms_pt ms)) w)"
    if w: "w < 2 ^ 27" for w
  proof -
    have "pt_leaf k2 (root_ppn (ms_pt ms)) w
      = (if r0 \<le> w \<and> w < r1 \<and> (\<exists>y\<in>set xs. ma_allocated (snd y) w) then 0 else pt_leaf k1 (root_ppn (ms_pt ms)) w)"
      using b [unfolded pt] w by blast
    moreover have "pt_leaf k1 (root_ppn (ms_pt ms)) w
      = (if r0 \<le> w \<and> w < r1 \<and> ma_allocated (snd x) w then 0 else pt_leaf k (root_ppn (ms_pt ms)) w)"
      using a w by simp
    ultimately show ?thesis by auto
  qed
  moreover have "arcs k2 p = arcs k p - count_list (refs (x # xs)) p" for p
    using a b by (simp add: count_list_append)
  moreover have "covered (areatree ms2) v \<longleftrightarrow> covered (areatree ms) v
      \<and> \<not> (r0 \<le> v \<and> v < r1 \<and> (\<exists>y\<in>set (x # xs). fst y \<le> v \<and> v < end_vpn (snd y)))" for v
    using a b by auto
  moreover have "\<forall>y\<in>set (areatree ms2). y \<in> set (areatree ms) \<and> fst y \<notin> fst ` set (x # xs) \<or> \<not> (r0 < end_vpn (snd y) \<and> fst y < r1)"
    using a b by auto
  ultimately show ?thesis using a b unfolding munmap_round_def by simp
qed

lemma munmap_loop_ok:
  assumes "space_ok k ms T" "set xs \<subseteq> set (areatree ms)" "distinct (map fst xs)"
    "\<forall>x\<in>set xs. r0 < end_vpn (snd x) \<and> fst x < r1" "r0 \<le> r1"
  shows "\<exists>k' t'. munmap_loop k (ms_pt ms) (areatree ms) r0 r1 (map fst xs) = Some (k', t')
    \<and> munmap_round k ms T r0 r1 xs k' (ms\<lparr> areatree := t' \<rparr>)"
  using assms(1-4)
proof (induction xs arbitrary: k ms)
  case Nil
  then show ?case using munmap_round_Nil by simp
next
  case (Cons x xs)
  obtain s a where x: "x = (s, a)" by (cases x)
  have m: "(s, a) \<in> set (areatree ms)" and r: "r0 < end_vpn a" "s < r1" using Cons.prems(2,4) by (simp_all add: x)
  obtain k1 where k1: "munmap_loop k (ms_pt ms) (areatree ms) r0 r1 (s # map fst xs)
      = munmap_loop k1 (ms_pt ms) (cut_area s a r0 r1 (areatree ms)) r0 r1 (map fst xs)"
    "munmap_round k ms T r0 r1 [(s, a)] k1 (ms\<lparr> areatree := cut_area s a r0 r1 (areatree ms) \<rparr>)"
    by (rule munmap_step [OF Cons.prems(1) m r assms(5)])
  let ?ms = "ms\<lparr> areatree := cut_area s a r0 r1 (areatree ms) \<rparr>"
  have ok: "areas_ok (areatree ms)" using Cons.prems(1) by (simp add: space_ok_def)
  have sp: "space_ok k1 ?ms T" using k1(2) by (simp add: munmap_round_def)
  have "\<forall>y\<in>set xs. fst y \<noteq> s" using Cons.prems(3) by (auto simp: x)
  then have sub: "set xs \<subseteq> set (areatree ?ms)" using Cons.prems(2) by (auto simp: cut_ok(2) [OF ok m r assms(5)])
  obtain k' t' where k': "munmap_loop k1 (ms_pt ?ms) (areatree ?ms) r0 r1 (map fst xs) = Some (k', t')"
    "munmap_round k1 ?ms T r0 r1 xs k' (?ms\<lparr> areatree := t' \<rparr>)"
    using Cons.IH [OF sp sub] Cons.prems(3,4) by auto
  have "munmap_round k ms T r0 r1 (x # xs) k' (ms\<lparr> areatree := t' \<rparr>)"
    using munmap_round_Cons [OF k1(2) k'(2)] by (simp add: x)
  then show ?case using k1(1) k'(1) by (simp add: x)
qed

definition overlapped :: "vpn \<Rightarrow> vpn \<Rightarrow> area_tree \<Rightarrow> area_tree" where
  "overlapped r0 r1 t = filter (\<lambda>x. end_vpn (snd x) > r0) (bt_below r1 t)"

lemma munmap_ok:
  assumes "space_ok k ms T" "r0 \<le> r1"
  obtains k' ms' where "munmap k ms r0 r1 = Some (k', ms')" "munmap_round k ms T r0 r1 (overlapped r0 r1 (areatree ms)) k' ms'"
    "ms' = ms\<lparr> areatree := areatree ms' \<rparr>"
proof -
  let ?xs = "overlapped r0 r1 (areatree ms)"
  have inv: "bt_inv (areatree ms)" using assms(1) by (simp add: space_ok_def areas_ok_inv)
  note sb = bt_set_below [OF inv, of r1]
  have sub: "set ?xs \<subseteq> set (areatree ms)" by (auto simp: overlapped_def sb)
  have "bt_inv (bt_below r1 (areatree ms))" unfolding bt_below_def by (rule bt_inv_takeWhile [OF inv])
  then have di: "distinct (map fst ?xs)" unfolding overlapped_def by (intro distinct_map_filter bt_inv_distinct)
  have "\<forall>x\<in>set ?xs. r0 < end_vpn (snd x) \<and> fst x < r1" by (auto simp: overlapped_def sb)
  from munmap_loop_ok [OF assms(1) sub di this assms(2)] obtain k' t' where l:
    "munmap_loop k (ms_pt ms) (areatree ms) r0 r1 (map fst ?xs) = Some (k', t')"
    "munmap_round k ms T r0 r1 ?xs k' (ms\<lparr> areatree := t' \<rparr>)"
    by blast
  have "map fst (filter (\<lambda>(_, a). end_vpn a > r0) (bt_below r1 (areatree ms))) = map fst ?xs"
    by (simp add: overlapped_def case_prod_unfold)
  then have "munmap k ms r0 r1 = Some (k', ms\<lparr> areatree := t' \<rparr>)" using l(1) by (simp add: munmap_def)
  then show thesis using l(2) by (rule that) simp
qed

text \<open>Every page of the range that an area covers or holds a frame for belongs to an overlapped area.\<close>

lemma overlapped_covers:
  assumes "areas_ok t" "r0 \<le> v" "v < r1"
  shows "(\<exists>x\<in>set (overlapped r0 r1 t). fst x \<le> v \<and> v < end_vpn (snd x)) \<longleftrightarrow> covered t v"
proof -
  have "set (overlapped r0 r1 t) = {x \<in> set t. fst x < r1 \<and> r0 < end_vpn (snd x)}"
    by (auto simp: overlapped_def bt_set_below [OF areas_ok_inv [OF assms(1)]])
  then have "x \<in> set (overlapped r0 r1 t) \<longleftrightarrow> x \<in> set t" if "fst x \<le> v" "v < end_vpn (snd x)" for x
    using that assms(2,3) by simp
  then show ?thesis unfolding covered_def by blast
qed

lemma overlapped_allocated:
  assumes "space_ok k ms T" "r0 \<le> v" "v < r1"
  shows "(\<exists>x\<in>set (overlapped r0 r1 (areatree ms)). ma_allocated (snd x) v) \<longleftrightarrow> (\<exists>x\<in>set (areatree ms). ma_allocated (snd x) v)"
proof -
  have ok: "areas_ok (areatree ms)" and fo: "\<forall>x\<in>set (areatree ms). frames_ok k (ms_pt ms) T (snd x)"
    using assms(1) by (simp_all add: space_ok_def)
  have "x \<in> set (overlapped r0 r1 (areatree ms))" if x: "x \<in> set (areatree ms)" "ma_allocated (snd x) v" for x
  proof -
    have f: "frames_ok k (ms_pt ms) T (snd x)" using fo x(1) by blast
    then have "bt_inv (data_frames (snd x))" by (simp add: frames_ok_def)
    from allocated_mem [OF this] x(2) obtain p where "(v, p) \<in> set (data_frames (snd x))" by blast
    then have "start_vpn (snd x) \<le> v" "v < end_vpn (snd x)" using f by (auto simp: frames_ok_def)
    moreover have "start_vpn (snd x) = fst x" using areas_ok_D(1) [OF ok, of "fst x" "snd x"] x(1) by simp
    ultimately show ?thesis using x(1) assms(2,3) by (simp add: overlapped_def bt_set_below [OF areas_ok_inv [OF ok]])
  qed
  moreover have "set (overlapped r0 r1 (areatree ms)) \<subseteq> set (areatree ms)"
    by (auto simp: overlapped_def bt_set_below [OF areas_ok_inv [OF ok]])
  ultimately show ?thesis by blast
qed

text \<open>
  C4: munmap of a range in a well-formed address space returns, leaves a well-formed address space with the same page table, removes exactly
  the pages of the range from the areas, and clears exactly the entries of the pages of the range that have frames.  No
  memory outside the page table is written.
\<close>

theorem munmap_exact:
  assumes "space_ok k ms T" "r0 \<le> r1"
  shows "\<exists>k' ms'. munmap k ms r0 r1 = Some (k', ms') \<and> space_ok k' ms' T \<and> ms_pt ms' = ms_pt ms
    \<and> (\<forall>v. covered (areatree ms') v \<longleftrightarrow> covered (areatree ms) v \<and> \<not> (r0 \<le> v \<and> v < r1))
    \<and> (\<forall>w<2 ^ 27. pt_leaf k' (root_ppn (ms_pt ms)) w =
         (if r0 \<le> w \<and> w < r1 \<and> (\<exists>x\<in>set (areatree ms). ma_allocated (snd x) w) then 0 else pt_leaf k (root_ppn (ms_pt ms)) w))
    \<and> (\<forall>q. q \<notin> T \<longrightarrow> mem k' q = mem k q)"
proof -
  have ok: "areas_ok (areatree ms)" using assms(1) by (simp add: space_ok_def)
  obtain k' ms' where m: "munmap k ms r0 r1 = Some (k', ms')"
    "munmap_round k ms T r0 r1 (overlapped r0 r1 (areatree ms)) k' ms'"
    by (rule munmap_ok [OF assms])
  note r = m(2) [unfolded munmap_round_def]
  have "covered (areatree ms') v \<longleftrightarrow> covered (areatree ms) v \<and> \<not> (r0 \<le> v \<and> v < r1)" for v
    using r overlapped_covers [OF ok, of r0 v r1] by auto
  moreover have "pt_leaf k' (root_ppn (ms_pt ms)) w =
      (if r0 \<le> w \<and> w < r1 \<and> (\<exists>x\<in>set (areatree ms). ma_allocated (snd x) w) then 0 else pt_leaf k (root_ppn (ms_pt ms)) w)"
    if w: "w < 2 ^ 27" for w
  proof -
    have "pt_leaf k' (root_ppn (ms_pt ms)) w =
      (if r0 \<le> w \<and> w < r1 \<and> (\<exists>x\<in>set (overlapped r0 r1 (areatree ms)). ma_allocated (snd x) w) then 0
       else pt_leaf k (root_ppn (ms_pt ms)) w)"
      using r w by blast
    then show ?thesis using overlapped_allocated [OF assms(1), of r0 w r1] by (cases "r0 \<le> w \<and> w < r1") auto
  qed
  ultimately show ?thesis using m(1) r by (intro exI [of _ k'] exI [of _ ms'] conjI) blast+
qed

lemma demo_space:
  obtains p e k pt T where "space_ok k \<lparr> ms_pt = pt, areatree = [(10, demo_area\<lparr> data_frames := [(11, p)] \<rparr>)] \<rparr> T"
    "arcs k p = 1" "pt_leaf k (root_ppn pt) 11 = e" "e \<noteq> 0" "pte_ppn e = Some p"
proof -
  obtain p e k pt T where m: "pt_wf k pt T" "p \<notin> T" "arcs k p = 1" "pt_leaf k (root_ppn pt) 11 = e" "e \<noteq> 0" "pte_ppn e = Some p"
    "p \<notin> set (frame_vec k)"
    by (rule demo_mapped) blast
  let ?a = "demo_area\<lparr> data_frames := [(11, p)] \<rparr>"
  have "0 < arcs k q" if "q \<in> set (frame_vec k)" for q using that pt_wfD(1) [OF m(1)] by (auto simp: kmem_inv_def)
  then have "refs_ok k [(10, ?a)]" using m(3,7) by (auto simp: refs_ok_def Suc_leI)
  moreover have "frames_ok k pt T ?a" using m(2,4,5) by (simp add: frames_ok_def demo_area_def)
  moreover have "areas_ok [(10, ?a)]" by (simp add: areas_ok_def demo_area_def)
  ultimately have "space_ok k \<lparr> ms_pt = pt, areatree = [(10, ?a)] \<rparr> T" using m(1) by (simp add: space_ok_def)
  then show thesis using that m(3-6) by blast
qed

theorem munmap_exact_witness:
  "\<exists>k ms k' ms'. munmap k ms 11 12 = Some (k', ms') \<and> covered (areatree ms) 11 \<and> \<not> covered (areatree ms') 11 \<and> covered (areatree ms') 12
     \<and> pt_leaf k (root_ppn (ms_pt ms)) 11 \<noteq> 0 \<and> pt_leaf k' (root_ppn (ms_pt ms)) 11 = 0"
proof -
  obtain p e k pt T where m: "space_ok k \<lparr> ms_pt = pt, areatree = [(10, demo_area\<lparr> data_frames := [(11, p)] \<rparr>)] \<rparr> T"
    "pt_leaf k (root_ppn pt) 11 = e" "e \<noteq> 0"
    by (rule demo_space) blast
  let ?ms = "\<lparr> ms_pt = pt, areatree = [(10, demo_area\<lparr> data_frames := [(11, p)] \<rparr>)] \<rparr>"
  have c: "covered (areatree ?ms) 11" "covered (areatree ?ms) 12" by (simp_all add: covered_def demo_area_def)
  have al: "\<exists>x\<in>set (areatree ?ms). ma_allocated (snd x) 11" by (simp add: ma_allocated_def bt_get_def)
  have le: "(11 :: nat) \<le> 12" by simp
  obtain k' ms' where u: "munmap k ?ms 11 12 = Some (k', ms')"
    "\<forall>v. covered (areatree ms') v \<longleftrightarrow> covered (areatree ?ms) v \<and> \<not> (11 \<le> v \<and> v < 12)"
    "\<forall>w<2 ^ 27. pt_leaf k' (root_ppn (ms_pt ?ms)) w = (if 11 \<le> w \<and> w < 12 \<and> (\<exists>x\<in>set (areatree ?ms). ma_allocated (snd x) w) then 0
       else pt_leaf k (root_ppn (ms_pt ?ms)) w)"
    using munmap_exact [OF m(1) le] by blast
  have "pt_leaf k' (root_ppn (ms_pt ?ms)) 11 = 0" using u(3) [THEN spec, of 11] al by simp
  then show ?thesis using u(1,2) c m(2,3) by (intro exI [of _ k] exI [of _ ?ms] exI [of _ k'] exI [of _ ms']) simp
qed

text \<open>
  C26: the frames of kept pages.  When a range overlaps an area only in part, munmap replaces the area by its remaining pieces without its
  frames, and drops all its frames.  A page of the area outside the range stays covered and stays mapped to its
  frame, but a frame that only this area held is free and can be allocated again.
\<close>

theorem munmap_frees_kept_pages:
  assumes "space_ok k ms T" "r0 \<le> r1" "(s, a) \<in> set (areatree ms)" "s < r1" "r0 < end_vpn a"
    "(w, p) \<in> set (data_frames a)" "\<not> (r0 \<le> w \<and> w < r1)" "arcs k p = 1"
    "pte_ppn (pt_leaf k (root_ppn (ms_pt ms)) w) = Some p"
  shows "\<exists>k' ms'. munmap k ms r0 r1 = Some (k', ms') \<and> covered (areatree ms') w
    \<and> pt_leaf k' (root_ppn (ms_pt ms')) w \<noteq> 0 \<and> pte_ppn (pt_leaf k' (root_ppn (ms_pt ms')) w) = Some p
    \<and> p \<notin> fa_used (allocator k')"
proof -
  have ok: "areas_ok (areatree ms)" and fo: "\<forall>x\<in>set (areatree ms). frames_ok k (ms_pt ms) T (snd x)"
    using assms(1) by (simp_all add: space_ok_def)
  have "frames_ok k (ms_pt ms) T a" using fo assms(3) by force
  then have f: "start_vpn a \<le> w" "w < end_vpn a" "w < 2 ^ 27" "pt_leaf k (root_ppn (ms_pt ms)) w \<noteq> 0"
    using assms(6) by (auto simp: frames_ok_def)
  have c: "covered (areatree ms) w"
    using assms(3) f areas_ok_D(1) [OF ok assms(3)] by (force simp: covered_def)
  obtain k' ms' where m: "munmap k ms r0 r1 = Some (k', ms')"
    "munmap_round k ms T r0 r1 (overlapped r0 r1 (areatree ms)) k' ms'"
    by (rule munmap_ok [OF assms(1,2)])
  note r = m(2) [unfolded munmap_round_def]
  have "(s, a) \<in> set (overlapped r0 r1 (areatree ms))"
    using assms(3-5) by (simp add: overlapped_def bt_set_below [OF areas_ok_inv [OF ok]])
  then have "p \<in> set (refs (overlapped r0 r1 (areatree ms)))" using assms(6) by (force simp: refs_def)
  then have "count_list (refs (overlapped r0 r1 (areatree ms))) p \<noteq> 0" by (simp add: count_list_0_iff)
  moreover have "arcs k' p = arcs k p - count_list (refs (overlapped r0 r1 (areatree ms))) p" using r by blast
  ultimately have "arcs k' p = 0" using assms(8) by simp
  moreover have "kmem_inv k'" using r by (auto simp: space_ok_def dest: pt_wfD(1))
  ultimately have free: "p \<notin> fa_used (allocator k')" by (simp add: kmem_inv_def)
  have "pt_leaf k' (root_ppn (ms_pt ms')) w = pt_leaf k (root_ppn (ms_pt ms)) w" using r f(3) assms(7) by auto
  moreover have "covered (areatree ms') w" using r c assms(7) by auto
  ultimately show ?thesis using m(1) free f(4) assms(9) by (intro exI [of _ k'] exI [of _ ms']) simp
qed

theorem munmap_frees_kept_pages_witness:
  "\<exists>k ms k' ms' p. munmap k ms 12 13 = Some (k', ms') \<and> covered (areatree ms') 11
     \<and> pte_ppn (pt_leaf k' (root_ppn (ms_pt ms')) 11) = Some p \<and> p \<notin> fa_used (allocator k')"
proof -
  obtain p e k pt T where m: "space_ok k \<lparr> ms_pt = pt, areatree = [(10, demo_area\<lparr> data_frames := [(11, p)] \<rparr>)] \<rparr> T"
    "arcs k p = 1" "pt_leaf k (root_ppn pt) 11 = e" "pte_ppn e = Some p"
    by (rule demo_space) blast
  let ?a = "demo_area\<lparr> data_frames := [(11, p)] \<rparr>" and ?ms = "\<lparr> ms_pt = pt, areatree = [(10, demo_area\<lparr> data_frames := [(11, p)] \<rparr>)] \<rparr>"
  have h: "(12 :: nat) \<le> 13" "(10, ?a) \<in> set (areatree ?ms)" "(10 :: nat) < 13" "12 < end_vpn ?a" "(11, p) \<in> set (data_frames ?a)"
    "\<not> ((12 :: nat) \<le> 11 \<and> (11 :: nat) < 13)"
    by (simp_all add: demo_area_def)
  have q: "pte_ppn (pt_leaf k (root_ppn (ms_pt ?ms)) 11) = Some p" by (simp add: m(3,4))
  show ?thesis using munmap_frees_kept_pages [OF m(1) h m(2) q] by blast
qed

end
