(* ===== verification/Mmap_Props.thy ===== *)
theory Mmap_Props
  imports Munmap_Props
begin

text \<open>
  The mapping system calls on well-formed address spaces: what \<open>sys_mmap\<close> and \<open>sys_munmap\<close> do to the areas.
\<close>

subsection \<open>Addresses and lengths\<close>

lemma ceil_pages:
  "((x :: nat) + 4095) div 4096 * 4096 = (if x mod 4096 = 0 then x else x - x mod 4096 + 4096)"
proof -
  define q r where "q = x div 4096" and "r = x mod 4096"
  have x: "x = q * 4096 + r" and r: "r < 4096" by (simp_all add: q_def r_def)
  have "(r + 4095) div 4096 = (if r = 0 then 0 else 1)" using r by (cases r) simp_all
  then have "(x + 4095) div 4096 = q + (if r = 0 then 0 else 1)" by (simp add: x add.assoc)
  then show ?thesis using r by (simp add: x)
qed

lemma page_round_up_eq:
  assumes "unat len + 4096 < 2 ^ 64"
  shows "unat (page_round_up len) = (unat len + 4095) div 4096 * 4096"
proof -
  have m: "unat (len mod 4096) = unat len mod 4096" by (simp add: unat_mod)
  show ?thesis
  proof (cases "len mod 4096 = 0")
    case True
    then have "unat len mod 4096 = 0" using m by simp
    then show ?thesis using True by (simp add: ceil_pages page_round_up_def PAGE_SIZE_def)
  next
    case False
    then have nz: "unat len mod 4096 \<noteq> 0" using m unat_eq_0 [of "len mod 4096"] by simp
    have le: "len mod 4096 \<le> len" by (simp add: word_le_nat_alt m)
    have s: "unat (len - len mod 4096) = unat len - unat len mod 4096" using unat_sub [OF le] by (simp add: m)
    have "unat len - unat len mod 4096 + 4096 < 2 ^ 64" using assms by simp
    then have "unat (len - len mod 4096 + 4096) = unat len - unat len mod 4096 + 4096"
      by (simp add: unat_word_ariths s)
    then show ?thesis using False nz by (simp add: ceil_pages page_round_up_def PAGE_SIZE_def)
  qed
qed

lemma MMAP_TOP_value: "MMAP_TOP < 2 ^ 40"
  by (simp add: MMAP_TOP_def USER_TRAP_CONTEXT_TOP_def USER_SPACE_SIZE_def PAGE_SIZE_def THREAD_MAX_NUM_def USER_STACK_SIZE_def)

lemma below_top:
  assumes "\<not> of_nat MMAP_TOP \<le> (b :: usize)"
  shows "unat b < 2 ^ 40"
proof -
  have "unat (of_nat MMAP_TOP :: usize) = MMAP_TOP" using MMAP_TOP_value by (simp add: unat_of_nat)
  then show ?thesis using assms MMAP_TOP_value by (simp add: word_le_nat_alt)
qed

lemma va_ceil_aligned: "va_page_offset v = 0 \<Longrightarrow> v \<noteq> 0 \<Longrightarrow> va_ceil v = Some (va_floor v)"
proof -
  assume a: "va_page_offset v = 0" "v \<noteq> 0"
  have u: "unat v = va_floor v * 4096" using va_split [of v] a(1) by simp
  moreover have "va_floor v < 2 ^ 52" by (rule va_floor_less)
  ultimately have "unat v \<le> 2 ^ 64 - 4096" by simp
  from va_ceil_eq [OF a(2) this] show ?thesis by (simp add: u)
qed

lemma va_of_floor: "va_page_offset v = 0 \<Longrightarrow> va_of_vpn (va_floor v) = v"
  by (rule va_of_vpn_round_trip) (simp add: vpn_of_va_def)

subsection \<open>Bounds of the search\<close>

lemma top_scan_bound:
  assumes "\<forall>a\<in>set as. start_vpn a \<le> B" "p \<le> B"
  shows "top_scan n p as = Inl v \<Longrightarrow> v \<le> B" "top_scan n p as = Inr v \<Longrightarrow> v \<le> B"
  using assms by (induction n p as rule: top_scan.induct) (auto split: if_splits)

lemma hint_scan_bound: "hint_scan n l t = Inl v \<Longrightarrow> v + n \<le> MMAP_TOP div PAGE_SIZE"
  by (induction n l t rule: hint_scan.induct) (auto split: if_splits)

lemma hint_bound:
  assumes "\<forall>x\<in>set t. start_vpn (snd x) \<le> B" "MMAP_TOP div PAGE_SIZE \<le> B" "vt_alloc_pages_from_hint t n h = Some s"
  shows "s \<le> B"
proof -
  have t: "\<forall>a\<in>set (rev (map snd t)). start_vpn a \<le> B" using assms(1) by auto
  note tb = top_scan_bound [OF t assms(2), of n]
  let ?h = "max h (drop_bit PAGE_SIZE_BITS MMAP_BASE)"
  show ?thesis
  proof (cases "hint_scan n ?h (bt_from ?h t)")
    case (Inl v)
    then show ?thesis using assms hint_scan_bound [OF Inl] by (simp add: vt_alloc_pages_from_hint_def Let_def)
  next
    case (Inr l)
    show ?thesis
    proof (cases "MMAP_TOP div PAGE_SIZE > l \<and> MMAP_TOP div PAGE_SIZE - l \<ge> n")
      case True
      then have "s = l" using assms(3) Inr by (simp add: vt_alloc_pages_from_hint_def Let_def)
      then show ?thesis using True assms(2) by simp
    next
      case False
      note eq = assms(3) [unfolded vt_alloc_pages_from_hint_def Let_def Inr sum.case if_not_P [OF False]]
      show ?thesis
      proof (cases "top_scan n (MMAP_TOP div PAGE_SIZE) (rev (map snd t))")
        case (Inl v)
        then show ?thesis using eq tb(1) [OF Inl] by simp
      next
        case (Inr v)
        then show ?thesis using eq tb(2) [OF Inr] by (simp split: if_splits)
      qed
    qed
  qed
qed

lemma not_overlap_covered: "areas_ok t \<Longrightarrow> \<not> vt_is_overlap t s e \<Longrightarrow> s \<le> v \<Longrightarrow> v < e \<Longrightarrow> \<not> covered t v"
  unfolding covered_def vt_is_overlap_iff areas_ok_set by fastforce

lemma munmap_clears:
  assumes "space_ok k ms T" "r0 \<le> r1"
  obtains k' ms' where "munmap k ms r0 r1 = Some (k', ms')" "space_ok k' ms' T" "\<not> vt_is_overlap (areatree ms') r0 r1"
    "\<And>v. covered (areatree ms') v \<longleftrightarrow> covered (areatree ms) v \<and> \<not> (r0 \<le> v \<and> v < r1)"
proof -
  have ok: "areas_ok (areatree ms)" using assms(1) by (simp add: space_ok_def)
  obtain k' ms' where m: "munmap k ms r0 r1 = Some (k', ms')"
    "munmap_round k ms T r0 r1 (overlapped r0 r1 (areatree ms)) k' ms'"
    by (rule munmap_ok [OF assms])
  note r = m(2) [unfolded munmap_round_def]
  have sp: "space_ok k' ms' T" using r by blast
  have c: "covered (areatree ms') v \<longleftrightarrow> covered (areatree ms) v \<and> \<not> (r0 \<le> v \<and> v < r1)" for v
    using r overlapped_covers [OF ok, of r0 v r1] by auto
  have "\<not> (r0 < end_vpn (snd y) \<and> start_vpn (snd y) < r1)" if y: "y \<in> set (areatree ms')" for y
  proof -
    have st: "start_vpn (snd y) = fst y" using sp y by (auto simp: space_ok_def areas_ok_set)
    from r y consider "y \<in> set (areatree ms)" "fst y \<notin> fst ` set (overlapped r0 r1 (areatree ms))"
      | "\<not> (r0 < end_vpn (snd y) \<and> fst y < r1)" by blast
    then show ?thesis
    proof cases
      case 1
      then have "y \<notin> set (overlapped r0 r1 (areatree ms))" by blast
      then show ?thesis using 1(1) by (auto simp: overlapped_def bt_set_below [OF areas_ok_inv [OF ok]] st)
    qed (simp add: st)
  qed
  then have "\<not> vt_is_overlap (areatree ms') r0 r1" by (fastforce simp: vt_is_overlap_iff)
  then show thesis using that m(1) sp c by blast
qed

subsection \<open>Choosing the base\<close>

text \<open>What the choice of a base promises: an aligned base and a range that no area of the space left behind overlaps.\<close>

definition base_ok :: "u32 \<Rightarrow> nat \<Rightarrow> kmem \<Rightarrow> memory_set \<Rightarrow> sys_err_no + virt_addr \<Rightarrow> kmem \<Rightarrow> memory_set \<Rightarrow> bool" where
  "base_ok flags n k ms r k1 ms1 \<longleftrightarrow> (fl_contains flags MAP_FIXED \<or> k1 = k \<and> ms1 = ms)
     \<and> (\<forall>b. r = Inr b \<longrightarrow> (\<exists>s<2 ^ 52. b = va_of_vpn s \<and> \<not> vt_is_overlap (areatree ms1) s (s + n)
          \<and> (\<forall>v. covered (areatree ms1) v \<longleftrightarrow> covered (areatree ms) v \<and> \<not> (s \<le> v \<and> v < s + n))))"

lemma base_ok_free:
  assumes "areas_ok (areatree ms)" "s < 2 ^ 52" "\<not> vt_is_overlap (areatree ms) s (s + n)"
  shows "base_ok flags n k ms (Inr (va_of_vpn s)) k ms"
  unfolding base_ok_def using assms not_overlap_covered [OF assms(1,3)] by blast

lemma mmap_base_ok:
  assumes sp: "space_ok k ms T" and al: "va_page_offset addr = 0"
    and st: "no_straddle (areatree ms) (max (va_floor addr) (drop_bit PAGE_SIZE_BITS MMAP_BASE))"
    and bd: "\<forall>x\<in>set (areatree ms). start_vpn (snd x) < 2 ^ 52"
  obtains r k1 ms1 where "mmap_base k ms flags addr n = Some (r, k1, ms1)" "space_ok k1 ms1 T" "base_ok flags n k ms r k1 ms1"
proof -
  let ?v = "va_floor addr" and ?t = "areatree ms"
  have ok: "areas_ok ?t" using sp by (simp add: space_ok_def)
  have v52: "?v < 2 ^ 52" by (rule va_floor_less)
  have ad: "addr = va_of_vpn ?v" using va_of_floor [OF al] by simp
  consider (fixed) "fl_contains flags MAP_FIXED" "vt_is_overlap ?t ?v (?v + n)"
    | (free) "fl_contains flags MAP_FIXED \<or> fl_contains flags MAP_FIXED_NOREPLACE" "\<not> vt_is_overlap ?t ?v (?v + n)"
    | (exists) "\<not> fl_contains flags MAP_FIXED" "fl_contains flags MAP_FIXED_NOREPLACE" "vt_is_overlap ?t ?v (?v + n)"
    | (hint) "\<not> fl_contains flags MAP_FIXED" "\<not> fl_contains flags MAP_FIXED_NOREPLACE" by blast
  then show thesis
  proof cases
    case fixed
    have le: "?v \<le> ?v + n" by simp
    obtain k1 ms1 where m: "munmap k ms ?v (?v + n) = Some (k1, ms1)" "space_ok k1 ms1 T" "\<not> vt_is_overlap (areatree ms1) ?v (?v + n)"
      "\<And>v. covered (areatree ms1) v \<longleftrightarrow> covered ?t v \<and> \<not> (?v \<le> v \<and> v < ?v + n)"
      by (rule munmap_clears [OF sp le]) blast
    have "base_ok flags n k ms (Inr addr) k1 ms1" unfolding base_ok_def using fixed(1) v52 ad m(3,4) by blast
    moreover have "mmap_base k ms flags addr n = Some (Ok addr, k1, ms1)" using fixed m(1) by (simp add: mmap_base_def Let_def)
    ultimately show thesis using that m(2) by blast
  next
    case free
    then have "mmap_base k ms flags addr n = Some (Ok addr, k, ms)" by (auto simp: mmap_base_def Let_def)
    moreover have "base_ok flags n k ms (Inr addr) k ms" using base_ok_free [OF ok v52 free(2)] ad by simp
    ultimately show thesis using that sp by blast
  next
    case exists
    then have "mmap_base k ms flags addr n = Some (Err EEXIST, k, ms)" by (simp add: mmap_base_def Let_def)
    then show thesis by (rule that [OF _ sp]) (simp add: base_ok_def)
  next
    case hint
    define h where "h = (if addr = 0 then drop_bit PAGE_SIZE_BITS MMAP_BASE else ?v)"
    have h: "(if addr = 0 then Some (drop_bit PAGE_SIZE_BITS MMAP_BASE) else va_ceil addr) = Some h"
      using va_ceil_aligned [OF al] by (simp add: h_def)
    have b: "mmap_base k ms flags addr n = Some (case vt_alloc_pages_from_hint ?t n h of None \<Rightarrow> Err ENOMEM | Some v \<Rightarrow> Ok (va_of_vpn v), k, ms)"
      using hint h by (simp add: mmap_base_def Let_def)
    show thesis
    proof (cases "vt_alloc_pages_from_hint ?t n h")
      case None
      show thesis by (rule that [OF _ sp, of "Err ENOMEM"]) (simp_all add: b None base_ok_def)
    next
      case (Some s)
      have mx: "max h (drop_bit PAGE_SIZE_BITS MMAP_BASE) = max ?v (drop_bit PAGE_SIZE_BITS MMAP_BASE)"
        by (simp add: h_def va_floor_def)
      have fr: "\<not> vt_is_overlap ?t s (s + n)" by (rule vt_alloc_pages_from_hint_free [OF ok _ Some]) (simp only: mx st)
      have "\<forall>x\<in>set ?t. start_vpn (snd x) \<le> 2 ^ 52 - 1" using bd by auto
      moreover have "MMAP_TOP div PAGE_SIZE \<le> 2 ^ 52 - 1" using MMAP_TOP_value by (simp add: PAGE_SIZE_def)
      ultimately have "s \<le> 2 ^ 52 - 1" using hint_bound Some by blast
      then have "s < 2 ^ 52" by simp
      from base_ok_free [OF ok this fr] show thesis by (rule that [OF _ sp, rotated]) (simp add: b Some)
    qed
  qed
qed

subsection \<open>Installing the area\<close>

lemma bt_remove_absent: "s \<notin> fst ` set t \<Longrightarrow> bt_remove s t = t"
  by (induction t) auto

lemma bt_insert_remove: "bt_inv t \<Longrightarrow> bt_insert s a (bt_remove s t) = bt_insert s a t"
proof (induction t)
  case (Cons z t)
  obtain s' b where z: "z = (s', b)" by (cases z)
  show ?case
  proof (cases "s' = s")
    case True
    then have "\<forall>x\<in>set t. s < fst x" using Cons.prems by (simp add: z)
    then show ?thesis using True by (cases t) (auto simp: z)
  next
    case False
    have lt: "\<forall>x\<in>set t. s' < fst x" and t: "bt_inv t" using Cons.prems by (simp_all add: z)
    have "bt_remove s t = t" if "s < s'" using that lt by (intro bt_remove_absent) auto
    then show ?thesis using False Cons.IH [OF t] by (simp add: z)
  qed
qed simp

definition mmap_area :: "vpn \<Rightarrow> nat \<Rightarrow> map_permission \<Rightarrow> u32 \<Rightarrow> mmap_file option \<Rightarrow> map_area" where
  "mmap_area s n perm flags file = \<lparr> ma_range = \<lparr> get_start = s, get_end = s + n \<rparr>, data_frames = [], ma_type = Framed, ma_perm = perm,
     area_type = Mmap, ma_fd = file, mmap_flags = flags \<rparr>"

lemma mmap_area_simps [simp]:
  "start_vpn (mmap_area s n perm flags file) = s" "end_vpn (mmap_area s n perm flags file) = s + n"
  "data_frames (mmap_area s n perm flags file) = []"
  by (simp_all add: mmap_area_def)

text \<open>Adding an area without frames in a free range; an empty area at its start is replaced.\<close>

lemma push_free:
  assumes sp: "space_ok k ms T" and fr: "\<not> vt_is_overlap (areatree ms) s (s + n)" "0 < n"
    and a: "start_vpn a = s" "end_vpn a = s + n" "data_frames a = []"
  shows "vt_push k (areatree ms) a = Some (k, bt_insert s a (areatree ms))"
    "space_ok k (ms\<lparr> areatree := bt_insert s a (areatree ms) \<rparr>) T"
    "covered (bt_insert s a (areatree ms)) v \<longleftrightarrow> covered (areatree ms) v \<or> s \<le> v \<and> v < s + n"
proof -
  let ?t = "areatree ms"
  have ok: "areas_ok ?t" and fo: "\<forall>x\<in>set ?t. frames_ok k (ms_pt ms) T (snd x)" and wf: "pt_wf k (ms_pt ms) T" and ro: "refs_ok k ?t"
    using sp by (simp_all add: space_ok_def)
  note inv = areas_ok_inv [OF ok]
  have st: "start_vpn (snd x) = fst x" "fst x \<le> end_vpn (snd x)" if "x \<in> set ?t" for x using ok that by (auto simp: areas_ok_set)
  have ap: "\<not> (s < end_vpn (snd x) \<and> fst x < s + n)" if "x \<in> set ?t" for x
    using fr(1) that st(1) [OF that] by (force simp: vt_is_overlap_iff)
  have empty: "data_frames b = []" "end_vpn b = s" if b: "(s, b) \<in> set ?t" for b
  proof -
    show e: "end_vpn b = s" using ap [OF b] st [OF b] fr(2) by simp
    have "frames_ok k (ms_pt ms) T b" using fo b by force
    then have "\<forall>x\<in>set (data_frames b). s \<le> fst x \<and> fst x < s" using st(1) [OF b] e by (auto simp: frames_ok_def)
    then show "data_frames b = []" by (cases "data_frames b") auto
  qed
  show "vt_push k ?t a = Some (k, bt_insert s a ?t)"
  proof (cases "bt_get ?t s")
    case (Some b)
    then have "(s, b) \<in> set ?t" using bt_get_Some [OF inv] by blast
    then show ?thesis using Some empty(1) [of b] by (simp add: vt_push_def a(1) ma_drop_def)
  qed (simp add: vt_push_def a(1))
  have set: "set (bt_insert s a ?t) = insert (s, a) {x \<in> set ?t. fst x \<noteq> s}" by (rule bt_set_insert [OF inv])
  have "areas_ok (bt_insert s a (bt_remove s ?t))"
  proof (intro areas_ok_insert [OF areas_ok_remove [OF ok] a(1)] ballI)
    fix x assume "x \<in> set (bt_remove s ?t)"
    then have x: "x \<in> set ?t" "fst x \<noteq> s" by (simp_all add: bt_set_remove [OF inv])
    then show "fst x \<noteq> s \<and> (fst x < s \<longrightarrow> end_vpn (snd x) \<le> s) \<and> (s < fst x \<longrightarrow> end_vpn a \<le> fst x)"
      using ap [OF x(1)] st [OF x(1)] a(2) by auto
  qed (simp add: a(2))
  then have ok': "areas_ok (bt_insert s a ?t)" by (simp add: bt_insert_remove [OF inv])
  have "s \<notin> fst ` set (bt_remove s ?t)" by (auto simp: bt_set_remove [OF inv])
  from refs_insert_empty [OF a(3) this] have ri: "refs (bt_insert s a ?t) = refs (bt_remove s ?t)" by (simp add: bt_insert_remove [OF inv])
  have "count_list (refs (bt_remove s ?t)) p = count_list (refs ?t) p" for p
  proof (cases "bt_get ?t s")
    case None
    then have "s \<notin> fst ` set ?t" using bt_get_Some [OF inv, of s] by auto
    then show ?thesis by (simp add: bt_remove_absent)
  next
    case (Some b)
    then have b: "(s, b) \<in> set ?t" using bt_get_Some [OF inv] by blast
    then show ?thesis using refs_remove [OF inv b, of p] empty(1) [OF b] by simp
  qed
  then have "refs_ok k (bt_insert s a ?t)" using ro by (simp add: refs_ok_def ri)
  moreover have "\<forall>x\<in>set (bt_insert s a ?t). frames_ok k (ms_pt ms) T (snd x)"
  proof -
    have "frames_ok k (ms_pt ms) T a" by (simp add: frames_ok_def a(3))
    then show ?thesis unfolding set using fo by simp
  qed
  ultimately show "space_ok k (ms\<lparr> areatree := bt_insert s a ?t \<rparr>) T" using wf ok' by (simp add: space_ok_def)
  have "(\<exists>x\<in>{x \<in> set ?t. fst x \<noteq> s}. fst x \<le> v \<and> v < end_vpn (snd x)) \<longleftrightarrow> covered ?t v"
  proof -
    have "fst x \<noteq> s" if "x \<in> set ?t" "fst x \<le> v" "v < end_vpn (snd x)" for x
    proof
      assume "fst x = s"
      then have "(s, snd x) \<in> set ?t" using that(1) by (metis prod.collapse)
      from empty(2) [OF this] show False using that(2,3) \<open>fst x = s\<close> by simp
    qed
    then show ?thesis unfolding covered_def by blast
  qed
  then show "covered (bt_insert s a ?t) v \<longleftrightarrow> covered ?t v \<or> s \<le> v \<and> v < s + n"
    unfolding covered_def [of "bt_insert s a ?t"] set by (auto simp: a(2))
qed

lemma mmap_install_ok:
  assumes "\<not> fl_contains flags MAP_POPULATE" "s < 2 ^ 52" "unat (va_of_vpn s) < 2 ^ 40" "unat len = n * 4096" "0 < n" "n < 2 ^ 50"
    "space_ok k ms T" "\<not> vt_is_overlap (areatree ms) s (s + n)"
  shows "mmap_install k ms (va_of_vpn s) len perm flags file
    = Some (Ok (va_of_vpn s), k, ms\<lparr> areatree := bt_insert s (mmap_area s n perm flags file) (areatree ms) \<rparr>)"
proof -
  let ?b = "va_of_vpn s" and ?a = "mmap_area s n perm flags file"
  have ub: "unat ?b = s * 4096" by (rule unat_va_of_vpn [OF assms(2)])
  have "s * 4096 + n * 4096 < 2 ^ 64" using assms(3,6) ub by simp
  then have sum: "unat (?b + len) = (s + n) * 4096"
    by (simp add: unat_word_ariths(1) [of ?b len] ub assms(4) distrib_right)
  have "?b + len \<noteq> 0" using sum assms(5) unat_eq_0 [of "?b + len"] by simp
  moreover have "unat (?b + len) \<le> 2 ^ 64 - 4096" using assms(3,6) ub by (simp add: sum)
  ultimately have c: "va_ceil (?b + len) = Some (s + n)" using va_ceil_eq [of "?b + len"] by (simp add: sum)
  have "ma_new ?b (?b + len) Framed perm Mmap = Some (mmap_area s n perm 0 None)"
    by (simp add: ma_new_def c va_floor_of_vpn [OF assms(2)] ma_new_by_vpn_def range_new_def mmap_area_def)
  moreover have "(mmap_area s n perm 0 None)\<lparr> mmap_flags := flags, ma_fd := file \<rparr> = ?a" by (simp add: mmap_area_def)
  moreover have "vt_push k (areatree ms) ?a = Some (k, bt_insert s ?a (areatree ms))"
    by (rule push_free(1) [OF assms(7,8,5)]) simp_all
  ultimately show ?thesis using assms(1) by (simp add: mmap_install_def)
qed

text \<open>
  C5: anonymous mappings.  On a well-formed address space, mmap of a page-aligned address and a length of at most \<open>2 ^ 60\<close> bytes, without
  \<open>MAP_POPULATE\<close>, returns.  The address space stays well formed.  On success the base is page aligned and exactly the pages of the
  new mapping are added to the pages that areas cover; unless \<open>MAP_FIXED\<close> was given, none of them was covered before.  On
  failure without \<open>MAP_FIXED\<close> nothing changes.  The search from a hint needs that no area reaches over the hint.
\<close>

theorem mmap_anonymous:
  assumes "space_ok k ms T" "va_page_offset addr = 0" "fl_contains flags MAP_ANONYMOUS" "\<not> fl_contains flags MAP_POPULATE"
    "fl_from_bits MmapProt_all prot \<noteq> None" "fl_from_bits MmapFlags_all flags \<noteq> None" "flags \<noteq> 0"
    "len \<noteq> 0" "unat len \<le> 2 ^ 60" "n = (unat len + 4095) div 4096"
    "no_straddle (areatree ms) (max (va_floor addr) (drop_bit PAGE_SIZE_BITS MMAP_BASE))"
    "\<forall>x\<in>set (areatree ms). start_vpn (snd x) < 2 ^ 52"
  shows "\<exists>r k' ms'. sys_mmap V fs k ms t addr len prot flags (- 1) 0 = Some (r, k', ms') \<and> space_ok k' ms' T
    \<and> (case r of
        Inl e \<Rightarrow> fl_contains flags MAP_FIXED \<or> k' = k \<and> ms' = ms
      | Inr base \<Rightarrow> \<exists>s. base = va_of_vpn s
          \<and> (\<forall>v. covered (areatree ms') v \<longleftrightarrow> covered (areatree ms) v \<or> s \<le> v \<and> v < s + n)
          \<and> (fl_contains flags MAP_FIXED \<or> (\<forall>v. s \<le> v \<and> v < s + n \<longrightarrow> \<not> covered (areatree ms) v)))"
proof -
  have lp: "0 < unat len" using assms(8) unat_gt_0 by blast
  have n0: "0 < n" and n50: "n < 2 ^ 50" using lp assms(9) unfolding assms(10) by simp_all
  have "unat len + 4096 < 2 ^ 64" using assms(9) by simp
  from page_round_up_eq [OF this] have pr: "unat (page_round_up len) = n * 4096" by (simp add: assms(10))
  have pg: "unat (page_round_up len div of_nat PAGE_SIZE) = n" by (simp add: PAGE_SIZE_def unat_div pr)
  show ?thesis
  proof (cases "unat (drop_bit PAGE_SIZE_BITS len) > fa_remaining_frames (allocator k) \<or> fl_contains flags MAP_FIXED \<and> addr = 0")
    case True
    then have "\<exists>e. sys_mmap V fs k ms t addr len prot flags (- 1) 0 = Some (Err e, k, ms)"
      using assms(3,5-8) by (auto simp: sys_mmap_def Let_def)
    then show ?thesis using assms(1) by auto
  next
    case False
    then have f1: "\<not> unat (drop_bit PAGE_SIZE_BITS len) > fa_remaining_frames (allocator k)"
      and f2: "\<not> (fl_contains flags MAP_FIXED \<and> addr = 0)" by blast+
    obtain y1 y2 where y: "fl_from_bits MmapProt_all prot = Some y1" "fl_from_bits MmapFlags_all flags = Some y2" using assms(5,6) by blast
    obtain r k1 ms1 where b: "mmap_base k ms flags addr n = Some (r, k1, ms1)" "space_ok k1 ms1 T" "base_ok flags n k ms r k1 ms1"
      by (rule mmap_base_ok [OF assms(1,2,11,12)])
    have eq: "sys_mmap V fs k ms t addr len prot flags (- 1) 0 =
        (case r of Inl e \<Rightarrow> Some (Err e, k1, ms1)
         | Inr base \<Rightarrow> if base \<ge> of_nat MMAP_TOP then Some (Err ENOMEM, k1, ms1)
             else mmap_install k1 ms1 base (page_round_up len) (perm_of_prot prot) flags None)"
      using assms(3,7,8) b(1) f1 f2 by (cases r) (auto simp: sys_mmap_def Let_def pg y)
    show ?thesis
    proof (cases r)
      case (Inl e)
      then show ?thesis using eq b(2,3) by (auto simp: base_ok_def)
    next
      case (Inr base)
      then obtain s where s: "s < 2 ^ 52" "base = va_of_vpn s" "\<not> vt_is_overlap (areatree ms1) s (s + n)"
        "\<forall>v. covered (areatree ms1) v \<longleftrightarrow> covered (areatree ms) v \<and> \<not> (s \<le> v \<and> v < s + n)"
        and same: "fl_contains flags MAP_FIXED \<or> k1 = k \<and> ms1 = ms"
        using b(3) unfolding base_ok_def by blast
      show ?thesis
      proof (cases "base \<ge> of_nat MMAP_TOP")
        case True
        then have "sys_mmap V fs k ms t addr len prot flags (- 1) 0 = Some (Err ENOMEM, k1, ms1)" by (simp add: eq Inr)
        then show ?thesis using b(2) same by auto
      next
        case lt: False
        let ?a = "mmap_area s n (perm_of_prot prot) flags None"
        note p = push_free [OF b(2) s(3) n0, of ?a]
        have i: "sys_mmap V fs k ms t addr len prot flags (- 1) 0
            = Some (Ok base, k1, ms1\<lparr> areatree := bt_insert s ?a (areatree ms1) \<rparr>)"
          using mmap_install_ok [OF assms(4) s(1) _ pr n0 n50 b(2) s(3)] below_top [OF lt] lt by (simp add: eq Inr s(2))
        have c: "covered (bt_insert s ?a (areatree ms1)) v \<longleftrightarrow> covered (areatree ms) v \<or> s \<le> v \<and> v < s + n" for v
          using p(3) [of v] s(4) by auto
        have f: "fl_contains flags MAP_FIXED \<or> (\<forall>v. s \<le> v \<and> v < s + n \<longrightarrow> \<not> covered (areatree ms) v)"
          using same s(4) by auto
        show ?thesis using i p(2) c f s(2)
          by (intro exI [of _ "Ok base"] exI [of _ k1] exI [of _ "ms1\<lparr> areatree := bt_insert s ?a (areatree ms1) \<rparr>"]) auto
      qed
    qed
  qed
qed

theorem mmap_anonymous_witness:
  "\<exists>k ms T r k' ms'. space_ok k ms T \<and> covered (areatree ms) 11
     \<and> sys_mmap flat_fs flat_files k ms (fdm_new 128 256 []) 0 0x1234 3 0x22 (- 1) 0 = Some (r, k', ms') \<and> space_ok k' ms' T"
proof -
  obtain p k pt T where m: "space_ok k \<lparr> ms_pt = pt, areatree = [(10, demo_area\<lparr> data_frames := [(11, p)] \<rparr>)] \<rparr> T"
    by (rule demo_space) blast
  let ?ms = "\<lparr> ms_pt = pt, areatree = [(10, demo_area\<lparr> data_frames := [(11, p)] \<rparr>)] \<rparr>"
  have f: "va_page_offset 0 = 0" "fl_contains 0x22 MAP_ANONYMOUS" "\<not> fl_contains 0x22 MAP_POPULATE"
    "fl_from_bits MmapProt_all 3 \<noteq> None" "fl_from_bits MmapFlags_all 0x22 \<noteq> None" "(0x22 :: u32) \<noteq> 0" "(0x1234 :: usize) \<noteq> 0"
    by code_simp+
  have len: "unat (0x1234 :: usize) \<le> 2 ^ 60" "2 = (unat (0x1234 :: usize) + 4095) div 4096" by simp_all
  have s: "no_straddle (areatree ?ms) (max (va_floor 0) (drop_bit PAGE_SIZE_BITS MMAP_BASE))"
    by (simp add: va_floor_def no_straddle_def demo_area_def drop_bit_eq_div PAGE_SIZE_BITS_def MMAP_BASE_def MMAP_TOP_def USER_TRAP_CONTEXT_TOP_def
        USER_SPACE_SIZE_def PAGE_SIZE_def THREAD_MAX_NUM_def USER_STACK_SIZE_def)
  have b: "\<forall>x\<in>set (areatree ?ms). start_vpn (snd x) < 2 ^ 52" by (simp add: demo_area_def)
  have "covered (areatree ?ms) 11" by (simp add: covered_def demo_area_def)
  then show ?thesis using mmap_anonymous [OF m f len s b, of flat_fs flat_files "fdm_new 128 256 []"] m by blast
qed

end
