(* ===== verification/Signals.thy ===== *)
theory Signals
  imports Fd_Syscalls Mm_Syscalls
begin

text \<open>
  Signals: numbers and sets (\<open>os/src/signal/signal.rs\<close>, \<open>os/src/signal/sigact.rs\<close>), the signal state of tasks and processes, the
  saved registers of a trap (\<open>os/src/trap/context.rs\<close>, in the loongarch64 configuration) and the context that a handler
  finds on its stack (\<open>os/src/trap/ucontext.rs\<close>).

  A signal is its number; a set of signals is the word of the source.  Structures that cross the boundary to user memory are
  written out byte by byte; the bytes of padding are not initialised, so their values are an argument.
\<close>

subsection \<open>Numbers and sets\<close>

type_synonym signal = nat
type_synonym sig_set = u64

definition NSIG :: nat where "NSIG = 64"

abbreviation (input) SIGNONE :: signal where "SIGNONE \<equiv> 0"
abbreviation (input) SIGKILL :: signal where "SIGKILL \<equiv> 9"
abbreviation (input) SIGCONT :: signal where "SIGCONT \<equiv> 18"
abbreviation (input) SIGSTOP :: signal where "SIGSTOP \<equiv> 19"
abbreviation (input) SIGRT2 :: signal where "SIGRT2 \<equiv> 33"

definition signal_from_usize :: "usize \<Rightarrow> signal option" where
  "signal_from_usize signum = (if unat signum \<ge> NSIG then None else if unat signum \<le> 64 then Some (unat signum) else None)"

datatype signal_default_action = Terminate | Ignore | CoreDump | Stop | Continue | ForceTerminateOrStop

definition default_action :: "signal \<Rightarrow> signal_default_action" where
  "default_action sig =
     (if sig \<in> {1, 2, 3, 4, 5, 6, 7, 8, 11, 13, 14, 15, 24, 25, 26, 27, 31} then Terminate
      else if sig = SIGKILL \<or> sig = SIGSTOP then ForceTerminateOrStop
      else if sig = 17 \<or> sig = 23 \<or> sig = 28 \<or> sig = SIGCONT then Ignore
      else if sig = 20 \<or> sig = 21 \<or> sig = 22 then Stop
      else Terminate)"

text \<open>The shift amount \<open>sig as usize - 1\<close> is reduced modulo the width, which matters for \<open>SIGNONE\<close> only.\<close>

definition sig_bit :: "signal \<Rightarrow> nat" where
  "sig_bit sig = (sig + 63) mod 64"

definition ss_add :: "sig_set \<Rightarrow> signal \<Rightarrow> sig_set" where
  "ss_add s sig = s OR push_bit (sig_bit sig) 1"

definition ss_remove :: "sig_set \<Rightarrow> signal \<Rightarrow> sig_set" where
  "ss_remove s sig = s AND NOT (push_bit (sig_bit sig) 1)"

definition ss_contains :: "sig_set \<Rightarrow> signal \<Rightarrow> bool" where
  "ss_contains s sig = (drop_bit (sig_bit sig) s AND 1 \<noteq> 0)"

definition ss_union_with :: "sig_set \<Rightarrow> sig_set \<Rightarrow> sig_set" where
  "ss_union_with s t = s OR t"

subsection \<open>Actions\<close>

definition SIG_DFL :: usize where "SIG_DFL = 0"
definition SIG_IGN :: usize where "SIG_IGN = 1"

definition SA_SIGINFO :: u32 where "SA_SIGINFO = 4"
definition SA_ONSTACK :: u32 where "SA_ONSTACK = 0x08000000"
definition SA_RESTART :: u32 where "SA_RESTART = 0x10000000"
definition SA_NODEFER :: u32 where "SA_NODEFER = 0x40000000"
definition SA_RESETHAND :: u32 where "SA_RESETHAND = 0x80000000"

record sig_action =
  sa_handler :: usize
  sa_flags :: u32
  sa_restorer :: usize
  sa_mask :: sig_set

definition sig_action_default :: sig_action where
  "sig_action_default = \<lparr> sa_handler = SIG_DFL, sa_flags = 0, sa_restorer = 0, sa_mask = 0 \<rparr>"

text \<open>\<open>SigAction\<close> in memory: handler, flags, four bytes of padding, restorer, mask.\<close>

definition sig_action_bytes :: "u8 list \<Rightarrow> sig_action \<Rightarrow> u8 list" where
  "sig_action_bytes pad a = le_bytes 8 (sa_handler a) @ le_bytes 4 (ucast (sa_flags a)) @ take 4 pad
     @ le_bytes 8 (sa_restorer a) @ le_bytes 8 (sa_mask a)"

definition sig_action_of_bytes :: "u8 list \<Rightarrow> sig_action" where
  "sig_action_of_bytes bs = \<lparr> sa_handler = le_usize (take 8 bs), sa_flags = ucast (le_usize (take 4 (drop 8 bs))),
     sa_restorer = le_usize (take 8 (drop 16 bs)), sa_mask = le_usize (take 8 (drop 24 bs)) \<rparr>"

subsection \<open>Saved registers\<close>

record general_registers =
  r_ra :: usize
  r_tp :: usize
  r_sp :: usize
  r_a0 :: usize
  r_a1 :: usize
  r_a2 :: usize
  r_a3 :: usize
  r_a4 :: usize
  r_a5 :: usize
  r_a6 :: usize
  r_a7 :: usize
  r_t0 :: usize
  r_t1 :: usize
  r_t2 :: usize
  r_t3 :: usize
  r_t4 :: usize
  r_t5 :: usize
  r_t6 :: usize
  r_t7 :: usize
  r_t8 :: usize
  r_gp :: usize
  r_fp :: usize
  r_s0 :: usize
  r_s1 :: usize
  r_s2 :: usize
  r_s3 :: usize
  r_s4 :: usize
  r_s5 :: usize
  r_s6 :: usize
  r_s7 :: usize
  r_s8 :: usize

datatype trap_status = TrapDone | TrapBlocked | TrapUnknown

record trap_context =
  regs :: general_registers
  sstatus :: usize
  sepc :: usize
  kernel_sp :: usize
  kernel_ra :: usize
  kernel_s :: "usize list"
  kernel_fp :: usize
  kernel_tp :: usize
  origin_a0 :: usize
  fp_regs :: "usize list"
  fcsr :: usize
  scause :: usize
  stval :: usize
  cx_status :: trap_status

text \<open>The registers in the order of the structure.\<close>

definition regs_list :: "general_registers \<Rightarrow> usize list" where
  "regs_list r = [r_ra r, r_tp r, r_sp r, r_a0 r, r_a1 r, r_a2 r, r_a3 r, r_a4 r, r_a5 r, r_a6 r, r_a7 r, r_t0 r, r_t1 r, r_t2 r, r_t3 r, r_t4 r, r_t5 r, r_t6 r,
     r_t7 r, r_t8 r, r_gp r, r_fp r, r_s0 r, r_s1 r, r_s2 r, r_s3 r, r_s4 r, r_s5 r, r_s6 r, r_s7 r, r_s8 r]"

definition regs_of_list :: "usize list \<Rightarrow> general_registers" where
  "regs_of_list l = \<lparr> r_ra = l ! 0, r_tp = l ! 1, r_sp = l ! 2, r_a0 = l ! 3, r_a1 = l ! 4, r_a2 = l ! 5, r_a3 = l ! 6, r_a4 = l ! 7,
     r_a5 = l ! 8, r_a6 = l ! 9, r_a7 = l ! 10, r_t0 = l ! 11, r_t1 = l ! 12, r_t2 = l ! 13, r_t3 = l ! 14, r_t4 = l ! 15, r_t5 = l ! 16,
     r_t6 = l ! 17, r_t7 = l ! 18, r_t8 = l ! 19, r_gp = l ! 20, r_fp = l ! 21, r_s0 = l ! 22, r_s1 = l ! 23, r_s2 = l ! 24, r_s3 = l ! 25,
     r_s4 = l ! 26, r_s5 = l ! 27, r_s6 = l ! 28, r_s7 = l ! 29, r_s8 = l ! 30 \<rparr>"

definition set_arg0 :: "usize \<Rightarrow> trap_context \<Rightarrow> trap_context" where
  "set_arg0 v cx = cx\<lparr> regs := (regs cx)\<lparr> r_a0 := v \<rparr> \<rparr>"

definition set_arg1 :: "usize \<Rightarrow> trap_context \<Rightarrow> trap_context" where
  "set_arg1 v cx = cx\<lparr> regs := (regs cx)\<lparr> r_a1 := v \<rparr> \<rparr>"

definition set_arg2 :: "usize \<Rightarrow> trap_context \<Rightarrow> trap_context" where
  "set_arg2 v cx = cx\<lparr> regs := (regs cx)\<lparr> r_a2 := v \<rparr> \<rparr>"

definition set_ra :: "usize \<Rightarrow> trap_context \<Rightarrow> trap_context" where
  "set_ra v cx = cx\<lparr> regs := (regs cx)\<lparr> r_ra := v \<rparr> \<rparr>"

definition set_sp :: "usize \<Rightarrow> trap_context \<Rightarrow> trap_context" where
  "set_sp v cx = cx\<lparr> regs := (regs cx)\<lparr> r_sp := v \<rparr> \<rparr>"

definition set_tls :: "usize \<Rightarrow> trap_context \<Rightarrow> trap_context" where
  "set_tls v cx = cx\<lparr> regs := (regs cx)\<lparr> r_tp := v \<rparr> \<rparr>"

subsection \<open>Signal state\<close>

definition USER_SIGNAL_PROTECT :: usize where "USER_SIGNAL_PROTECT = 512"

record signal_stack =
  ss_sp :: usize
  ss_flags :: u32
  ss_size :: usize

definition signal_stack_default :: signal_stack where
  "signal_stack_default = \<lparr> ss_sp = 0, ss_flags = SS_DISABLE, ss_size = 0 \<rparr>"

record task_signal_state =
  sig_info :: bool
  sigpending :: sig_set
  sigmask :: sig_set
  last_context :: "trap_context option"
  is_restart :: bool
  alternate_stack :: signal_stack

definition task_signal_state_init :: "sig_set \<Rightarrow> task_signal_state" where
  "task_signal_state_init m = \<lparr> sig_info = False, sigpending = 0, sigmask = m, last_context = None, is_restart = False,
     alternate_stack = signal_stack_default \<rparr>"

record process_signal_shared_state =
  sigactions :: "sig_action list"
  shared_sigpending :: sig_set

definition shared_state_default :: process_signal_shared_state where
  "shared_state_default = \<lparr> sigactions = replicate NSIG sig_action_default, shared_sigpending = 0 \<rparr>"

definition shared_state_clone :: "process_signal_shared_state \<Rightarrow> process_signal_shared_state" where
  "shared_state_clone s = \<lparr> sigactions = sigactions s, shared_sigpending = 0 \<rparr>"

subsection \<open>The context on the stack of a handler\<close>

record ucontext =
  uc_flags :: usize
  uc_link :: usize
  uc_stack :: signal_stack
  uc_sigmask :: sig_set
  mc_pc :: usize
  mc_regs :: general_registers

definition ucontext_new :: "trap_context \<Rightarrow> sig_set \<Rightarrow> ucontext" where
  "ucontext_new tf m = \<lparr> uc_flags = 0, uc_link = 0, uc_stack = signal_stack_default, uc_sigmask = m, mc_pc = sepc tf, mc_regs = regs tf \<rparr>"

definition mcontext_restore :: "ucontext \<Rightarrow> trap_context \<Rightarrow> trap_context" where
  "mcontext_restore u tf = tf\<lparr> sepc := mc_pc u, regs := mc_regs u \<rparr>"

text \<open>
  The layout: flags, link, the stack (24 bytes, padding after its flags), the mask, 120 unused bytes, 8 bytes of padding up to
  the machine context, which is aligned to 16, then the program counter, 31 registers and 66 zero words.
\<close>

definition ucontext_size :: nat where "ucontext_size = 960"

definition ucontext_bytes :: "u8 list \<Rightarrow> ucontext \<Rightarrow> u8 list" where
  "ucontext_bytes pad u = le_bytes 8 (uc_flags u) @ le_bytes 8 (uc_link u)
     @ le_bytes 8 (ss_sp (uc_stack u)) @ le_bytes 4 (ucast (ss_flags (uc_stack u))) @ take 4 pad @ le_bytes 8 (ss_size (uc_stack u))
     @ le_bytes 8 (uc_sigmask u) @ replicate 120 0 @ take 8 (drop 4 pad)
     @ le_bytes 8 (mc_pc u) @ concat (map (le_bytes 8) (regs_list (mc_regs u))) @ replicate 528 0"

text \<open>Reading the structure back through a reference to its bytes.\<close>

definition le_usize_at :: "u8 list \<Rightarrow> nat \<Rightarrow> usize" where
  "le_usize_at bs off = le_usize (take 8 (drop off bs))"

definition ucontext_of_bytes :: "u8 list \<Rightarrow> ucontext" where
  "ucontext_of_bytes bs = \<lparr> uc_flags = le_usize_at bs 0, uc_link = le_usize_at bs 8,
     uc_stack = \<lparr> ss_sp = le_usize_at bs 16, ss_flags = ucast (le_usize (take 4 (drop 24 bs))), ss_size = le_usize_at bs 32 \<rparr>,
     uc_sigmask = le_usize_at bs 40, mc_pc = le_usize_at bs 176,
     mc_regs = regs_of_list (map (\<lambda>i. le_usize_at bs (184 + 8 * i)) [0..<31]) \<rparr>"

definition sig_info_size :: nat where "sig_info_size = 128"

text \<open>\<open>SigInfo\<close> for a signal sent by \<open>tkill\<close>: number, error, code, four zero bytes, then sender and user in the union.\<close>

definition SI_TKILL :: u32 where "SI_TKILL = - 6"

definition sig_info_bytes :: "signal \<Rightarrow> nat \<Rightarrow> u8 list" where
  "sig_info_bytes sig pid = le_bytes 4 (of_nat sig) @ le_bytes 4 0 @ le_bytes 4 (ucast SI_TKILL) @ replicate 4 0
     @ le_bytes 4 (of_nat pid) @ le_bytes 4 0 @ replicate 104 0"

end
