(* ===== verification/Process.thy ===== *)
theory Process
  imports Signals Futex Id_Alloc
begin

text \<open>
  Processes and their threads (\<open>ProcessControlBlock\<close> and \<open>TaskControlBlock\<close> in \<open>os/src/task/task.rs\<close>, \<open>os/src/task/mod.rs\<close> and the process calls of
  \<open>os/src/syscall/process.rs\<close>): creation by clone, exit of a thread and of a process with the clearing of thread ids, robust
  futex lists and the handing over of children, and the reaping of children by wait4.

  The state \<open>sys\<close> puts the components together: physical memory, files, the executor, the futex queues and the segments of shared
  memory, the control blocks of tasks and processes, and the two global tables.  Address spaces and signal actions can be
  shared between processes, so they live in stores indexed by the identity of their \<open>Arc\<close>.  The current task is the argument \<open>cur\<close>.
  Task ids come from a counter that is never reused; it is a \<open>usize\<close> in the source and a natural number here, as the other identities.
  Names (working directory, executable), interval timers and the effects of dropping the last reference to an open file are not
  part of the state.
\<close>

subsection \<open>State\<close>

record tcb =
  tc_pid :: nat
  tc_token :: usize
  tc_leader :: bool
  tc_is_init :: bool
  tc_exit_code :: usize
  tc_cx :: trap_context
  tc_sig :: task_signal_state
  tc_child_tid :: "usize option"
  tc_clear_child_tid :: bool
  robust_head :: usize
  robust_len :: usize

record pcb =
  main_task :: nat
  pc_tasks :: "nat list"
  pc_children :: "nat list"
  pc_space :: nat
  user_stack_top :: usize
  pc_base_size :: usize
  pc_parent :: nat
  pc_exit_code :: i32
  heap_bottom :: usize
  program_brk :: usize
  pc_fds :: fd_manage
  pc_sig :: nat
  pc_state :: task_status
  pc_wakers :: "(nat, nat) btree"

record 'w sys =
  sy_mem :: kmem
  sy_files :: "'w files"
  sy_exec :: exec
  sy_futex :: futex_system
  sy_shm :: shm_manager
  sy_tcbs :: "nat \<Rightarrow> tcb option"
  sy_pcbs :: "nat \<Rightarrow> pcb option"
  sy_spaces :: "nat \<Rightarrow> memory_set"
  sy_sigs :: "nat \<Rightarrow> process_signal_shared_state"
  pid2pc :: "nat set"
  tid2tc :: "nat set"
  sy_pids :: recycle_allocator
  next_tid :: nat
  next_space :: nat
  next_sig :: nat
  init_pid :: nat
  kernel_root :: ppn

definition upd_tcb :: "nat \<Rightarrow> (tcb \<Rightarrow> tcb) \<Rightarrow> 'w sys \<Rightarrow> 'w sys" where
  "upd_tcb t f s = s\<lparr> sy_tcbs := (sy_tcbs s)(t := map_option f (sy_tcbs s t)) \<rparr>"

definition upd_pcb :: "nat \<Rightarrow> (pcb \<Rightarrow> pcb) \<Rightarrow> 'w sys \<Rightarrow> 'w sys" where
  "upd_pcb p f s = s\<lparr> sy_pcbs := (sy_pcbs s)(p := map_option f (sy_pcbs s p)) \<rparr>"

definition set_space :: "nat \<Rightarrow> memory_set \<Rightarrow> 'w sys \<Rightarrow> 'w sys" where
  "set_space a ms s = s\<lparr> sy_spaces := (sy_spaces s)(a := ms) \<rparr>"

text \<open>\<open>get_process\<close> of a task looks its pid up in the global table; \<open>current_process\<close> unwraps the result.\<close>

definition get_process :: "'w sys \<Rightarrow> nat \<Rightarrow> (nat \<times> pcb) option" where
  "get_process s t = do {
     b \<leftarrow> sy_tcbs s t;
     (if tc_pid b \<in> pid2pc s then do { c \<leftarrow> sy_pcbs s (tc_pid b); Some (tc_pid b, c) } else None) }"

definition get_user_token :: "'w sys \<Rightarrow> pcb \<Rightarrow> usize" where
  "get_user_token s c = ms_token (sy_spaces s (pc_space c))"

definition proc_alloc_type_for_lazy ::
  "'w fs_ops \<Rightarrow> 'w sys \<Rightarrow> pcb \<Rightarrow> usize \<Rightarrow> nat \<Rightarrow> ((sys_err_no + unit) \<times> 'w sys) option" where
  "proc_alloc_type_for_lazy V s c obj size_t = do {
     (r, k, ms, fs) \<leftarrow> manual_alloc_type_for_lazy V (sy_files s) (sy_mem s) (sy_spaces s (pc_space c)) obj size_t;
     Some (r, set_space (pc_space c) ms s\<lparr> sy_mem := k, sy_files := fs \<rparr>) }"

subsection \<open>Clone\<close>

definition CLONE_VM :: usize where "CLONE_VM = 2 ^ 8"
definition CLONE_SIGHAND :: usize where "CLONE_SIGHAND = 2 ^ 11"
definition CLONE_PIDFD :: usize where "CLONE_PIDFD = 2 ^ 12"
definition CLONE_VFORK :: usize where "CLONE_VFORK = 2 ^ 14"
definition CLONE_PARENT :: usize where "CLONE_PARENT = 2 ^ 15"
definition CLONE_THREAD :: usize where "CLONE_THREAD = 2 ^ 16"
definition CLONE_SETTLS :: usize where "CLONE_SETTLS = 2 ^ 19"
definition CLONE_PARENT_SETTID :: usize where "CLONE_PARENT_SETTID = 2 ^ 20"
definition CLONE_CHILD_CLEARTID :: usize where "CLONE_CHILD_CLEARTID = 2 ^ 21"
definition CLONE_CHILD_SETTID :: usize where "CLONE_CHILD_SETTID = 2 ^ 24"

text \<open>The declared bits are 7 to 24 and 29.\<close>

definition CloneFlags_all :: usize where
  "CloneFlags_all = 0x21FFFF80"

definition tcb_new :: "nat \<Rightarrow> usize \<Rightarrow> trap_context \<Rightarrow> task_signal_state \<Rightarrow> usize option \<Rightarrow> bool \<Rightarrow> tcb" where
  "tcb_new pid token cx sig child_tid clear = \<lparr> tc_pid = pid, tc_token = token, tc_leader = False, tc_is_init = False, tc_exit_code = 0,
     tc_cx = cx, tc_sig = sig, tc_child_tid = child_tid, tc_clear_child_tid = clear, robust_head = 0, robust_len = 24 \<rparr>"

definition pcb_clone :: "pcb \<Rightarrow> nat \<Rightarrow> nat \<Rightarrow> nat \<Rightarrow> nat \<Rightarrow> pcb" where
  "pcb_clone c tid space sig par = \<lparr> main_task = tid, pc_tasks = [], pc_children = [], pc_space = space,
     user_stack_top = of_nat USER_STACK_TOP, pc_base_size = pc_base_size c, pc_parent = par, pc_exit_code = 0,
     heap_bottom = heap_bottom c, program_brk = program_brk c, pc_fds = fdm_from_another (pc_fds c), pc_sig = sig,
     pc_state = Runnable, pc_wakers = [(tid, tid)] \<rparr>"

text \<open>The address space of the new task, and its token; \<open>None\<close> in the first component for a thread.\<close>

definition clone_space ::
  "'w sys \<Rightarrow> pcb \<Rightarrow> nat \<Rightarrow> usize \<Rightarrow> usize \<Rightarrow> (nat option \<times> usize \<times> 'w sys) option" where
  "clone_space s c pid now flags =
     (if fl_contains flags CLONE_THREAD then Some (None, get_user_token s c, s)
      else if fl_contains flags CLONE_VM then Some (Some (pc_space c), get_user_token s c, s)
      else do {
        (ms, k, m) \<leftarrow> from_existed_user (sy_mem s) (sy_shm s) (kernel_root s) (sy_spaces s (pc_space c)) pid now;
        let a = next_space s;
        Some (Some a, ms_token ms, set_space a ms s\<lparr> sy_mem := k, sy_shm := m, next_space := a + 1 \<rparr>) })"

text \<open>
  An error before the new task is registered drops the blocks made so far: the pid goes back to the allocator, and an address
  space that was made for the child is freed.
\<close>

definition clone_abort :: "'w sys \<Rightarrow> usize \<Rightarrow> nat option \<Rightarrow> nat \<Rightarrow> 'w sys option" where
  "clone_abort s flags space pid =
     (if fl_contains flags CLONE_THREAD then Some s
      else do {
        ps \<leftarrow> pid_drop (sy_pids s) pid;
        (if fl_contains flags CLONE_VM then Some (s\<lparr> sy_pids := ps \<rparr>)
         else do {
           a \<leftarrow> space;
           k \<leftarrow> areas_drop (sy_mem s) (map snd (areatree (sy_spaces s a)));
           k \<leftarrow> frames_drop k (pt_frames (ms_pt (sy_spaces s a)));
           Some (s\<lparr> sy_pids := ps, sy_mem := k \<rparr>) }) })"

text \<open>The thread id is written where the parent asked for it, through the parent's page table.\<close>

definition clone_parent_settid ::
  "'w fs_ops \<Rightarrow> 'w sys \<Rightarrow> pcb \<Rightarrow> usize \<Rightarrow> usize \<Rightarrow> nat \<Rightarrow> ((sys_err_no + unit) \<times> 'w sys) option" where
  "clone_parent_settid V s c flags ptid tid =
     (if \<not> fl_contains flags CLONE_PARENT_SETTID then Some (Ok (), s)
      else do {
        (r, s) \<leftarrow> proc_alloc_type_for_lazy V s c ptid 4;
        (case r of
           Inl e \<Rightarrow> Some (Err e, s)
         | Inr _ \<Rightarrow> do {
             r \<leftarrow> translated_refmut (sy_mem s) (get_user_token s c) ptid;
             (case r of
                Inl e \<Rightarrow> Some (Err e, s)
              | Inr pa \<Rightarrow> Some (Ok (), s\<lparr> sy_mem := pm_write (sy_mem s) pa (le_bytes 4 (of_nat tid)) \<rparr>)) }) })"

text \<open>Registration of a thread in its process, and of a process with its main thread in the tables.\<close>

definition clone_thread :: "'w sys \<Rightarrow> nat \<Rightarrow> nat \<Rightarrow> 'w sys" where
  "clone_thread s p tid =
     upd_pcb p (\<lambda>c. c\<lparr> pc_tasks := pc_tasks c @ [tid], pc_wakers := bt_insert tid tid (pc_wakers c) \<rparr>) s"

definition clone_process ::
  "'w sys \<Rightarrow> nat \<Rightarrow> pcb \<Rightarrow> usize \<Rightarrow> usize \<Rightarrow> nat \<Rightarrow> nat \<Rightarrow> nat \<Rightarrow> nat \<Rightarrow> 'w sys option" where
  "clone_process s p c flags user_stack pid tid space par = do {
     let (sig, s) = (if fl_contains flags CLONE_SIGHAND then (pc_sig c, s)
       else (next_sig s, s\<lparr> sy_sigs := (sy_sigs s)(next_sig s := shared_state_clone (sy_sigs s (pc_sig c))), next_sig := next_sig s + 1 \<rparr>));
     let new = pcb_clone c tid space sig par;
     let s = upd_tcb tid (\<lambda>b. b\<lparr> tc_leader := True \<rparr>) s;
     (new, s) \<leftarrow>
       (if user_stack = 0 \<and> \<not> fl_contains flags CLONE_VM then do {
          (top, k, ms) \<leftarrow> clone_user_res (sy_mem s) (sy_spaces s space) (sy_spaces s (pc_space c)) (user_stack_top c);
          Some (new\<lparr> user_stack_top := top \<rparr>, set_space space ms s\<lparr> sy_mem := k \<rparr>) }
        else Some (new, s));
     let s = s\<lparr> sy_pcbs := (sy_pcbs s)(pid \<mapsto> new\<lparr> pc_tasks := [tid] \<rparr>) \<rparr>;
     let s = upd_pcb p (\<lambda>c. c\<lparr> pc_children := pc_children c @ [pid] \<rparr>) s;
     Some (s\<lparr> pid2pc := insert pid (pid2pc s) \<rparr>) }"

definition clone_context :: "usize \<Rightarrow> usize \<Rightarrow> usize \<Rightarrow> trap_context \<Rightarrow> trap_context" where
  "clone_context flags user_stack tls cx = (
     let cx = set_arg0 0 (cx\<lparr> cx_status := TrapDone \<rparr>);
         cx = (if fl_contains flags CLONE_SETTLS then set_tls tls cx else cx)
     in if user_stack \<noteq> 0 then set_sp user_stack cx else cx)"

text \<open>
  The rest, once the new task \<open>b\<close> is made: it joins its process or its new process is registered, its context is set, its thread id is
  written for it, and it is queued.  An error at that point leaves what was registered.
\<close>

definition clone_finish ::
  "'w sys \<Rightarrow> nat \<Rightarrow> pcb \<Rightarrow> usize \<Rightarrow> usize \<Rightarrow> usize \<Rightarrow> usize \<Rightarrow> usize \<Rightarrow> nat \<Rightarrow> nat \<Rightarrow> nat option \<Rightarrow> nat \<Rightarrow> tcb \<Rightarrow> ((sys_err_no + nat) \<times> 'w sys) option" where
  "clone_finish s p c flags user_stack tls ctid token pid tid space par b = do {
     let s = s\<lparr> sy_tcbs := (sy_tcbs s)(tid \<mapsto> b),
       sy_exec := create_task (sy_exec s) tid \<rparr>;
     s \<leftarrow> (case space of
        None \<Rightarrow> Some (clone_thread s p tid)
      | Some a \<Rightarrow> clone_process s p c flags user_stack pid tid a par);
     let s = upd_tcb tid (\<lambda>b. b\<lparr> tc_cx := clone_context flags user_stack tls (tc_cx b) \<rparr>) s;
     r \<leftarrow> (if fl_contains flags CLONE_CHILD_SETTID then translated_refmut (sy_mem s) token ctid else Some (Ok 0));
     (case r of
        Inl e \<Rightarrow> Some (Err e, s)
      | Inr pa \<Rightarrow> do {
          let s = (if fl_contains flags CLONE_CHILD_SETTID
            then s\<lparr> sy_mem := pm_write (sy_mem s) pa (le_bytes 4 (of_nat tid)) \<rparr> else s);
          Some (Ok (if fl_contains flags CLONE_THREAD then tid else pid),
            s\<lparr> sy_exec := queue_task (sy_exec s) tid, tid2tc := insert tid (tid2tc s) \<rparr>) }) }"

definition clone_task ::
  "'w fs_ops \<Rightarrow> 'w sys \<Rightarrow> nat \<Rightarrow> usize \<Rightarrow> usize \<Rightarrow> usize \<Rightarrow> usize \<Rightarrow> usize \<Rightarrow> usize \<Rightarrow> ((sys_err_no + nat) \<times> 'w sys) option" where
  "clone_task V s cur now flags user_stack ptid tls ctid = do {
     (p, c) \<leftarrow> get_process s cur;
     me \<leftarrow> sy_tcbs s cur;
     (space, token, s) \<leftarrow> clone_space s c p now flags;
     let par = (if fl_contains flags CLONE_PARENT then pc_parent c else p);
     (pid, s) \<leftarrow> (if fl_contains flags CLONE_THREAD then Some (p, s)
       else do { (pid, ps) \<leftarrow> pid_alloc (sy_pids s); Some (pid, s\<lparr> sy_pids := ps \<rparr>) });
     let tid = next_tid s;
     let child_tid = (if fl_contains flags CLONE_CHILD_SETTID \<or> fl_contains flags CLONE_CHILD_CLEARTID then Some ctid else None);
     let b = tcb_new pid token (tc_cx me) (task_signal_state_init (sigmask (tc_sig me))) child_tid (fl_contains flags CLONE_CHILD_CLEARTID);
     (r, s) \<leftarrow> clone_parent_settid V (s\<lparr> next_tid := tid + 1 \<rparr>) c flags ptid tid;
     (case r of
        Inl e \<Rightarrow> do { s \<leftarrow> clone_abort s flags space pid; Some (Err e, s) }
      | Inr _ \<Rightarrow> clone_finish s p c flags user_stack tls ctid token pid tid space par b) }"

definition sys_clone ::
  "'w fs_ops \<Rightarrow> 'w sys \<Rightarrow> nat \<Rightarrow> usize \<Rightarrow> usize \<Rightarrow> usize \<Rightarrow> usize \<Rightarrow> usize \<Rightarrow> usize \<Rightarrow> ((sys_err_no + nat) \<times> 'w sys) option" where
  "sys_clone V s cur now args0 user_stack ptid tls ctid = do {
     _ \<leftarrow> get_process s cur;
     flags \<leftarrow> fl_from_bits CloneFlags_all (args0 AND NOT 0x3f);
     (if (fl_contains flags CLONE_VM \<and> user_stack = 0)
       \<or> (fl_contains flags CLONE_SETTLS \<and> \<not> fl_contains flags CLONE_VM)
       \<or> (fl_contains flags CLONE_THREAD \<and> \<not> fl_contains flags CLONE_SIGHAND)
       \<or> (fl_contains flags CLONE_THREAD \<and> \<not> fl_contains flags CLONE_VM)
       \<or> (fl_contains flags CLONE_PARENT_SETTID \<and> \<not> fl_contains flags CLONE_VM)
       \<or> (fl_contains flags CLONE_PIDFD \<and> \<not> fl_contains flags CLONE_PARENT_SETTID)
       \<or> (fl_contains flags CLONE_VFORK \<and> fl_contains flags CLONE_THREAD)
      then Some (Err EINVAL, s)
      else clone_task V s cur now flags user_stack ptid tls ctid) }"

end
