(* ===== verification/Process_Exit.thy ===== *)
theory Process_Exit
  imports Process
begin

text \<open>
  The end of threads and processes (\<open>exit_proc\<close>, \<open>exit_current\<close> and the robust futex list in \<open>os/src/task/mod.rs\<close>, \<open>clear_child_tid\<close> in
  \<open>os/src/task/task.rs\<close>), waiting for children (\<open>sys_wait4\<close> in \<open>os/src/syscall/process.rs\<close>, the futures of \<open>os/src/task/future.rs\<close>) and the calls that set what
  exit uses.
\<close>

subsection \<open>Thread ids and robust futexes\<close>

definition sys_futex_wake_one :: "'w sys \<Rightarrow> futex_key \<Rightarrow> 'w sys option" where
  "sys_futex_wake_one s key = do {
     (_, e, fs) \<leftarrow> futex_wake 1 (- 1) key (sy_exec s) (sy_futex s);
     Some (s\<lparr> sy_exec := e, sy_futex := fs \<rparr>) }"

definition clear_child_tid :: "'w sys \<Rightarrow> nat \<Rightarrow> ((sys_err_no + unit) \<times> 'w sys) option" where
  "clear_child_tid s t = do {
     b \<leftarrow> sy_tcbs s t;
     (case tc_child_tid b of
        None \<Rightarrow> Some (Ok (), s)
      | Some ctid \<Rightarrow>
          if ctid = 0 then Some (Ok (), s)
          else do {
            r \<leftarrow> translated_refmut (sy_mem s) (tc_token b) ctid;
            (case r of
               Inl e \<Rightarrow> Some (Err e, s)
             | Inr pa \<Rightarrow> do {
                 s \<leftarrow> sys_futex_wake_one (s\<lparr> sy_mem := pm_write (sy_mem s) pa (le_bytes 4 0) \<rparr>) (tc_token b, ctid);
                 Some (Ok (), s) }) }) }"

definition sys_settidaddress :: "'w sys \<Rightarrow> nat \<Rightarrow> usize \<Rightarrow> (sys_err_no + nat) \<times> 'w sys" where
  "sys_settidaddress s cur tid_ptr = (Ok cur, upd_tcb cur (\<lambda>b. b\<lparr> tc_child_tid := map_option (\<lambda>_. tid_ptr) (tc_child_tid b) \<rparr>) s)"

definition sys_set_robust_list :: "'w sys \<Rightarrow> nat \<Rightarrow> usize \<Rightarrow> usize \<Rightarrow> (sys_err_no + nat) \<times> 'w sys" where
  "sys_set_robust_list s cur list_head len =
     (if len \<noteq> 24 then (Err EINVAL, s) else (Ok 0, upd_tcb cur (\<lambda>b. b\<lparr> robust_head := list_head, robust_len := len \<rparr>) s))"

definition FUTEX_TID_MASK :: u32 where "FUTEX_TID_MASK = 1073741823"
definition FUTEX_OWNER_DIED :: u32 where "FUTEX_OWNER_DIED = 1073741824"
definition FUTEX_WAITERS :: u32 where "FUTEX_WAITERS = 2147483648"

text \<open>A lock word that names the thread as owner is marked, and a waiter woken; errors of the accesses are ignored.\<close>

definition release_robust_lock :: "'w sys \<Rightarrow> usize \<Rightarrow> nat \<Rightarrow> usize \<Rightarrow> (u32 \<Rightarrow> u32) \<Rightarrow> 'w sys option" where
  "release_robust_lock s token tid addr newval = do {
     r \<leftarrow> get_target_ref (sy_mem s) token addr 4;
     (case r of
        Inl _ \<Rightarrow> Some s
      | Inr a \<Rightarrow> do {
          pa \<leftarrow> a;
          let v = (ucast (le_usize (pm_read (sy_mem s) pa 4)) :: u32);
          (if v AND FUTEX_TID_MASK = of_nat tid then do {
             (r, k) \<leftarrow> put_data (sy_mem s) token addr (le_bytes 4 (ucast (newval v)));
             let s = s\<lparr> sy_mem := k \<rparr>;
             (case r of
                Inl _ \<Rightarrow> Some s
              | Inr _ \<Rightarrow> if v AND FUTEX_WAITERS \<noteq> 0 then sys_futex_wake_one s (token, addr) else Some s) }
           else Some s) }) }"

text \<open>The list is followed until it returns to its head; nothing bounds it.\<close>

partial_function (option) robust_list_loop :: "'w sys \<Rightarrow> usize \<Rightarrow> nat \<Rightarrow> usize \<Rightarrow> usize \<Rightarrow> usize \<Rightarrow> 'w sys option" where
  "robust_list_loop s token tid list_head off node =
     (if node = list_head \<or> node = 0 then Some s
      else do {
        r \<leftarrow> get_target_ref (sy_mem s) token node 8;
        (case r of
           Inl _ \<Rightarrow> Some s
         | Inr a \<Rightarrow> do {
             pa \<leftarrow> a;
             let next_node = le_usize (pm_read (sy_mem s) pa 8);
             s \<leftarrow> release_robust_lock s token tid (node + off) (\<lambda>v. (v AND NOT FUTEX_TID_MASK) OR FUTEX_OWNER_DIED);
             robust_list_loop s token tid list_head off next_node }) })"

definition exit_robust_list_cleanup :: "'w sys \<Rightarrow> nat \<Rightarrow> usize \<Rightarrow> 'w sys option" where
  "exit_robust_list_cleanup s cur list_head = do {
     (_, c) \<leftarrow> get_process s cur;
     let token = get_user_token s c;
     (if list_head = 0 then Some s
      else do {
        r \<leftarrow> get_target_ref (sy_mem s) token list_head 24;
        (case r of
           Inl _ \<Rightarrow> Some s
         | Inr a \<Rightarrow> do {
             pa \<leftarrow> a;
             let bs = pm_read (sy_mem s) pa 24;
             let pending = le_usize_at bs 16;
             s \<leftarrow> (if pending \<noteq> 0
               then release_robust_lock s token cur pending (\<lambda>v. (v AND FUTEX_WAITERS) OR FUTEX_OWNER_DIED) else Some s);
             robust_list_loop s token cur list_head (le_usize_at bs 8) (le_usize_at bs 0) }) }) }"

subsection \<open>Exit\<close>

definition proc_wake_all_waiters :: "'w sys \<Rightarrow> nat \<Rightarrow> 'w sys option" where
  "proc_wake_all_waiters s p = do {
     c \<leftarrow> sy_pcbs s p;
     e \<leftarrow> wake_list (sy_exec s) (map snd (pc_wakers c));
     Some (upd_pcb p (\<lambda>c. c\<lparr> pc_wakers := [] \<rparr>) s\<lparr> sy_exec := e \<rparr>) }"

fun exit_clear_tids :: "'w fs_ops \<Rightarrow> 'w sys \<Rightarrow> pcb \<Rightarrow> nat list \<Rightarrow> 'w sys option" where
  "exit_clear_tids V s c [] = Some s"
| "exit_clear_tids V s c (t # ts) = do {
     b \<leftarrow> sy_tcbs s t;
     s \<leftarrow> (case tc_child_tid b of
        None \<Rightarrow> Some s
      | Some ptr \<Rightarrow> do {
          (r, s) \<leftarrow> proc_alloc_type_for_lazy V s c ptr 4;
          (case r of
             Inl _ \<Rightarrow> Some s
           | Inr _ \<Rightarrow> do { (_, s) \<leftarrow> clear_child_tid s t; Some s }) });
     exit_clear_tids V s c ts }"

definition reparent_children :: "'w sys \<Rightarrow> nat \<Rightarrow> 'w sys option" where
  "reparent_children s p =
     (if p = init_pid s then Some s
      else do {
        c \<leftarrow> sy_pcbs s p;
        let s = upd_pcb p (\<lambda>c. c\<lparr> pc_children := [] \<rparr>) s;
        Some (fold (\<lambda>ch s. upd_pcb (init_pid s) (\<lambda>i. i\<lparr> pc_children := pc_children i @ [ch] \<rparr>)
          (upd_pcb ch (\<lambda>d. d\<lparr> pc_parent := init_pid s \<rparr>) s)) (pc_children c) s) })"

definition exit_proc :: "'w fs_ops \<Rightarrow> 'w sys \<Rightarrow> nat \<Rightarrow> i32 \<Rightarrow> 'w sys option" where
  "exit_proc V s cur code = do {
     (p, c) \<leftarrow> get_process s cur;
     let s = upd_pcb p (\<lambda>c. c\<lparr> pc_exit_code := code, pc_state := Zombie \<rparr>) s;
     s \<leftarrow> proc_wake_all_waiters s p;
     s \<leftarrow> exit_clear_tids V s c (pc_tasks c);
     s \<leftarrow> reparent_children s p;
     (r, k, ms, fs) \<leftarrow> recycle_data_pages V (sy_files s) (sy_mem s) (sy_spaces s (pc_space c));
     (case r of
        Inl _ \<Rightarrow> None
      | Inr _ \<Rightarrow> do {
          let s = set_space (pc_space c) ms s\<lparr> sy_mem := k, sy_files := fs \<rparr>;
          d \<leftarrow> sy_pcbs s p;
          Some (upd_pcb p (\<lambda>c. c\<lparr> pc_fds := (pc_fds c)\<lparr> fds := [] \<rparr>, pc_tasks := [] \<rparr>)
            s\<lparr> tid2tc := tid2tc s - set (pc_tasks d) \<rparr>) }) }"

definition exit_current :: "'w fs_ops \<Rightarrow> 'w sys \<Rightarrow> nat \<Rightarrow> i32 \<Rightarrow> 'w sys option" where
  "exit_current V s cur code = do {
     (p, c) \<leftarrow> get_process s cur;
     b \<leftarrow> sy_tcbs s cur;
     (if tc_leader b then exit_proc V s cur code
      else do {
        let s = upd_tcb cur (\<lambda>b. b\<lparr> tc_exit_code := scast code \<rparr>) s\<lparr> sy_exec := set_state (sy_exec s) cur Zombie \<rparr>;
        (_, s) \<leftarrow> clear_child_tid s cur;
        s \<leftarrow> exit_robust_list_cleanup s cur (robust_head b);
        let s = upd_pcb p (\<lambda>c. c\<lparr> pc_tasks := filter (\<lambda>t. t \<noteq> cur) (pc_tasks c), pc_wakers := bt_remove cur (pc_wakers c) \<rparr>) s;
        Some (s\<lparr> tid2tc := tid2tc s - {cur} \<rparr>) }) }"

definition sys_exit :: "'w fs_ops \<Rightarrow> 'w sys \<Rightarrow> nat \<Rightarrow> i32 \<Rightarrow> ((sys_err_no + nat) \<times> 'w sys) option" where
  "sys_exit V s cur code = do { s \<leftarrow> exit_current V s cur code; Some (Ok (usize_of_i32 code), s) }"

definition sys_exitgroup :: "'w fs_ops \<Rightarrow> 'w sys \<Rightarrow> nat \<Rightarrow> i32 \<Rightarrow> ((sys_err_no + nat) \<times> 'w sys) option" where
  "sys_exitgroup V s cur code = do { s \<leftarrow> exit_proc V s cur code; Some (Ok 0, s) }"

subsection \<open>Waiting for children\<close>

definition WNOHANG :: u32 where "WNOHANG = 1"
definition WaitFlags_all :: u32 where "WaitFlags_all = 0xC000000B"

text \<open>One turn of the loop of \<open>sys_wait4\<close>: it returns, or waits for the end of the main task of one child or of any child.\<close>

datatype wait_outcome = Wret "sys_err_no + nat" | Wjoin nat | Wany "nat list"

definition proc_is_zombie :: "'w sys \<Rightarrow> nat \<Rightarrow> bool" where
  "proc_is_zombie s p = (case sy_pcbs s p of None \<Rightarrow> False | Some c \<Rightarrow> status (sy_exec s) (main_task c) = Some Zombie)"

definition wait_matches :: "usize \<Rightarrow> nat \<Rightarrow> bool" where
  "wait_matches pid ch \<longleftrightarrow> pid = - 1 \<or> unat pid = ch"

definition wait_put_status ::
  "'w fs_ops \<Rightarrow> 'w sys \<Rightarrow> pcb \<Rightarrow> pcb \<Rightarrow> usize \<Rightarrow> ((put_data_error + unit) \<times> 'w sys) option" where
  "wait_put_status V s c d wstatus =
     (if wstatus = 0 then Some (Ok (), s)
      else do {
        (r, k, ms, fs) \<leftarrow> safe_put_data V (sy_files s) (sy_mem s) (sy_spaces s (pc_space c)) wstatus
          (le_bytes 4 (ucast (push_bit 8 (pc_exit_code d))));
        Some (r, set_space (pc_space c) ms s\<lparr> sy_mem := k, sy_files := fs \<rparr>) })"

text \<open>
  The child leaves the list of its parent and the table of processes; when the parent's reference was the last one (\<open>last_ref\<close>),
  the control block is dropped and its pid returned.  Its address space and descriptors were emptied when it exited.
\<close>

definition wait_reap ::
  "'w fs_ops \<Rightarrow> 'w sys \<Rightarrow> nat \<Rightarrow> pcb \<Rightarrow> nat \<Rightarrow> nat list \<Rightarrow> usize \<Rightarrow> bool \<Rightarrow> ((sys_err_no + nat) \<times> 'w sys) option" where
  "wait_reap V s p c ch rest wstatus last_ref = do {
     d \<leftarrow> sy_pcbs s ch;
     let s = upd_pcb p (\<lambda>c. c\<lparr> pc_children := rest \<rparr>) s\<lparr> pid2pc := pid2pc s - {ch} \<rparr>;
     (r, s) \<leftarrow> wait_put_status V s c d wstatus;
     s \<leftarrow> (if last_ref then do { ps \<leftarrow> pid_drop (sy_pids s) ch; Some (s\<lparr> sy_pcbs := (sy_pcbs s)(ch := None), sy_pids := ps \<rparr>) }
       else Some s);
     Some (case r of Inl e \<Rightarrow> Err (errno_of_put_data_error e) | Inr _ \<Rightarrow> Ok ch, s) }"

definition sys_wait4 ::
  "'w fs_ops \<Rightarrow> 'w sys \<Rightarrow> nat \<Rightarrow> usize \<Rightarrow> usize \<Rightarrow> u32 \<Rightarrow> bool \<Rightarrow> (wait_outcome \<times> 'w sys) option" where
  "sys_wait4 V s cur pid wstatus options last_ref = do {
     (p, c) \<leftarrow> get_process s cur;
     (if pid = 0 \<or> (ucast pid :: i32) = 0x80000000 then Some (Wret (Err ESRCH), s)
      else case fl_from_bits WaitFlags_all options of
        None \<Rightarrow> Some (Wret (Err EINVAL), s)
      | Some flags \<Rightarrow>
          if \<not> list_ex (wait_matches pid) (pc_children c) \<and> sint pid > 0 then Some (Wret (Err ECHILD), s)
          else (case dropWhile (\<lambda>ch. \<not> (proc_is_zombie s ch \<and> wait_matches pid ch)) (pc_children c) of
            ch # after \<Rightarrow> do {
              (r, s) \<leftarrow> wait_reap V s p c ch
                (takeWhile (\<lambda>ch. \<not> (proc_is_zombie s ch \<and> wait_matches pid ch)) (pc_children c) @ after) wstatus last_ref;
              Some (Wret r, s) }
          | [] \<Rightarrow>
              if fl_contains flags WNOHANG then Some (Wret (Ok 0), s)
              else if pid = - 1 then
                (if pc_children c = [] then Some (Wret (Err ECHILD), s)
                 else Some (Wany (map (\<lambda>ch. case sy_pcbs s ch of Some d \<Rightarrow> main_task d | None \<Rightarrow> 0) (pc_children c)), s))
              else if unat pid \<in> pid2pc s then do { d \<leftarrow> sy_pcbs s (unat pid); Some (Wjoin (main_task d), s) }
              else Some (Wret (Err ECHILD), s))) }"

text \<open>The futures that wait: the waker of the current task is left with every task that has not ended.\<close>

definition task_join :: "exec \<Rightarrow> nat \<Rightarrow> nat \<Rightarrow> exec" where
  "task_join e cur t = (set_state e cur Blocking)\<lparr> wait_wakers := (wait_wakers e)(t := wait_wakers e t @ [cur]) \<rparr>"

definition join_poll :: "exec \<Rightarrow> nat \<Rightarrow> nat \<Rightarrow> bool \<times> exec" where
  "join_poll e cur t =
     (if status e t = Some Zombie then (True, e)
      else let e = task_join e cur t in (status e t = Some Zombie, e))"

fun wait_any_poll :: "exec \<Rightarrow> nat \<Rightarrow> nat list \<Rightarrow> bool \<times> exec" where
  "wait_any_poll e cur [] = (False, e)"
| "wait_any_poll e cur (t # ts) = (case join_poll e cur t of (True, e) \<Rightarrow> (True, e) | (False, e) \<Rightarrow> wait_any_poll e cur ts)"

end
