(* ===== verification/Signal_Delivery.thy ===== *)
theory Signal_Delivery
  imports Process_Exit
begin

text \<open>
  Sending, blocking and delivering signals (\<open>os/src/signal/mod.rs\<close>, \<open>os/src/syscall/signal.rs\<close>).  Delivery runs when a task is about to return to
  user mode: it takes the pending signals that are not blocked, one at a time, until none is left, the process is ended, or a
  handler is entered; \<open>sigreturn\<close> brings the interrupted context back.

  The address of the trampoline that calls \<open>sigreturn\<close> is the argument \<open>restorer\<close>; \<open>pad\<close> are the uninitialised bytes between the fields of the
  structures that are copied to user memory.
\<close>

subsection \<open>Sending\<close>

datatype signal_error = InvalidSignal | NoSuchProcess | NoSuchThread | SigPermissionDenied

fun errno_of_signal_error :: "signal_error \<Rightarrow> sys_err_no" where
  "errno_of_signal_error InvalidSignal = EINVAL"
| "errno_of_signal_error NoSuchProcess = ESRCH"
| "errno_of_signal_error NoSuchThread = ESRCH"
| "errno_of_signal_error SigPermissionDenied = EPERM"

definition upd_sig :: "nat \<Rightarrow> (task_signal_state \<Rightarrow> task_signal_state) \<Rightarrow> 'w sys \<Rightarrow> 'w sys" where
  "upd_sig t f = upd_tcb t (\<lambda>b. b\<lparr> tc_sig := f (tc_sig b) \<rparr>)"

definition send_signal_to_task :: "'w sys \<Rightarrow> nat \<Rightarrow> signal \<Rightarrow> ((signal_error + unit) \<times> 'w sys) option" where
  "send_signal_to_task s t sig =
     (if sig = 0 \<or> sig \<ge> NSIG then Some (Err InvalidSignal, s)
      else do {
        (_, c) \<leftarrow> get_process s t;
        (if sa_handler (sigactions (sy_sigs s (pc_sig c)) ! sig) = SIG_IGN \<and> sig \<noteq> SIGKILL \<and> sig \<noteq> SIGSTOP then Some (Ok (), s)
         else do {
           let s = upd_sig t (\<lambda>ts. ts\<lparr> sigpending := ss_add (sigpending ts) sig \<rparr>) s;
           e \<leftarrow> wakeup_task (sy_exec s) t;
           Some (Ok (), s\<lparr> sy_exec := e \<rparr>) }) })"

text \<open>
  \<open>send_signal\<close>, which the timers call, does not await the guards of the signal actions and of the list of threads before it
  dereferences them.
\<close>

definition send_signal :: "'w sys \<Rightarrow> nat \<Rightarrow> nat option \<Rightarrow> signal \<Rightarrow> ((signal_error + unit) \<times> 'w sys) option" where
  "send_signal s target_pid target_tid sig =
     (if sig = 0 \<or> sig \<ge> NSIG then Some (Err InvalidSignal, s)
      else if target_pid \<notin> pid2pc s then Some (Err NoSuchProcess, s)
      else do {
        c \<leftarrow> sy_pcbs s target_pid;
        (case target_tid of
           Some tid \<Rightarrow>
             if tid \<notin> set (pc_tasks c) then Some (Err NoSuchThread, s)
             else do {
               ps \<leftarrow> guard_deref (mutex_lock (sy_sigs s (pc_sig c)));
               (if sa_handler (sigactions ps ! sig) = SIG_IGN \<and> sig \<noteq> SIGKILL \<and> sig \<noteq> SIGSTOP then Some (Ok (), s)
                else do {
                  let s = upd_sig tid (\<lambda>ts. ts\<lparr> sigpending := ss_add (sigpending ts) sig \<rparr>) s;
                  e \<leftarrow> wakeup_task (sy_exec s) tid;
                  Some (Ok (), s\<lparr> sy_exec := e \<rparr>) }) }
         | None \<Rightarrow> do {
             ps \<leftarrow> guard_deref (mutex_lock (sy_sigs s (pc_sig c)));
             (if sa_handler (sigactions ps ! sig) = SIG_IGN \<and> sig \<noteq> SIGKILL \<and> sig \<noteq> SIGSTOP then Some (Ok (), s)
              else do {
                let s = s\<lparr> sy_sigs := (sy_sigs s)(pc_sig c := ps\<lparr> shared_sigpending := ss_add (shared_sigpending ps) sig \<rparr>) \<rparr>;
                ts \<leftarrow> guard_deref (mutex_lock (pc_tasks c));
                (case ts of
                   [] \<Rightarrow> Some (Ok (), s)
                 | t # _ \<Rightarrow> do { e \<leftarrow> wakeup_task (sy_exec s) t; Some (Ok (), s\<lparr> sy_exec := e \<rparr>) }) }) }) })"

definition sys_tkill :: "'w sys \<Rightarrow> nat \<Rightarrow> usize \<Rightarrow> (syscall_ret \<times> 'w sys) option" where
  "sys_tkill s target_tid signum =
     (case signal_from_usize signum of
        None \<Rightarrow> Some (Err EINVAL, s)
      | Some sig \<Rightarrow>
          if signum = 0 then Some (if target_tid \<in> tid2tc s then Ok 0 else Err ESRCH, s)
          else if target_tid \<notin> tid2tc s then Some (Err ESRCH, s)
          else do {
            (r, s) \<leftarrow> send_signal_to_task s target_tid sig;
            Some (case r of Inl e \<Rightarrow> Err (errno_of_signal_error e) | Inr _ \<Rightarrow> Ok 0, s) })"

definition sys_tgkill :: "'w sys \<Rightarrow> nat \<Rightarrow> nat \<Rightarrow> usize \<Rightarrow> (syscall_ret \<times> 'w sys) option" where
  "sys_tgkill s target_pid target_tid signum =
     (if target_pid \<notin> pid2pc s then Some (Err ESRCH, s)
      else do {
        c \<leftarrow> sy_pcbs s target_pid;
        (if target_tid \<notin> set (pc_tasks c) then Some (Err ESRCH, s) else sys_tkill s target_tid signum) })"

fun kill_tasks :: "'w sys \<Rightarrow> usize \<Rightarrow> nat list \<Rightarrow> 'w sys option" where
  "kill_tasks s signum [] = Some s"
| "kill_tasks s signum (t # ts) = do { (_, s) \<leftarrow> sys_tkill s t signum; kill_tasks s signum ts }"

definition sys_kill :: "'w sys \<Rightarrow> nat \<Rightarrow> nat \<Rightarrow> usize \<Rightarrow> (syscall_ret \<times> 'w sys) option" where
  "sys_kill s cur target_pid signum =
     (case signal_from_usize signum of
        None \<Rightarrow> Some (Err EINVAL, s)
      | Some sig \<Rightarrow> do {
          pid \<leftarrow> (if target_pid = 0 then map_option fst (get_process s cur) else Some target_pid);
          (if signum = 0 then Some (if pid \<in> pid2pc s then Ok 0 else Err ESRCH, s)
           else if pid \<notin> pid2pc s then Some (Err ESRCH, s)
           else do {
             c \<leftarrow> sy_pcbs s pid;
             (if pc_tasks c = [] then Some (Err ESRCH, s)
              else do { s \<leftarrow> kill_tasks s signum (pc_tasks c); Some (Ok 0, s) }) }) })"

subsection \<open>Actions and masks\<close>

definition sys_sigaction ::
  "'w fs_ops \<Rightarrow> 'w sys \<Rightarrow> nat \<Rightarrow> u8 list \<Rightarrow> usize \<Rightarrow> usize \<Rightarrow> usize \<Rightarrow> (syscall_ret \<times> 'w sys) option" where
  "sys_sigaction V s cur pad signum act oldact =
     (case signal_from_usize signum of
        None \<Rightarrow> Some (Err EINVAL, s)
      | Some sig \<Rightarrow> do {
          (_, c) \<leftarrow> get_process s cur;
          let token = get_user_token s c;
          let st = sy_sigs s (pc_sig c);
          (if sig = SIGKILL \<or> sig = SIGSTOP then Some (Err EINVAL, s)
           else do {
             (r, s) \<leftarrow> (if oldact = 0 then Some (Ok (), s)
               else do {
                 (r, k, ms, fs) \<leftarrow> safe_put_data V (sy_files s) (sy_mem s) (sy_spaces s (pc_space c)) oldact
                   (sig_action_bytes pad (sigactions st ! sig));
                 Some (r, set_space (pc_space c) ms s\<lparr> sy_mem := k, sy_files := fs \<rparr>) });
             (case r of
                Inl e \<Rightarrow> Some (Err (errno_of_put_data_error e), s)
              | Inr _ \<Rightarrow>
                  if act = 0 then Some (Ok 0, s)
                  else do {
                    r \<leftarrow> get_target_ref (sy_mem s) token act 32;
                    (case r of
                       Inl e \<Rightarrow> Some (Err (errno_of_translate_error e), s)
                     | Inr a \<Rightarrow> do {
                         pa \<leftarrow> a;
                         let new = sig_action_of_bytes (pm_read (sy_mem s) pa 32);
                         Some (Ok 0, s\<lparr> sy_sigs := (sy_sigs s)(pc_sig c := st\<lparr> sigactions := (sigactions st)[sig := new] \<rparr>) \<rparr>) }) }) }) })"

datatype sig_mask_how = SIG_BLOCK | SIG_UNBLOCK | SIG_SETMASK

definition sig_mask_how_of :: "i32 \<Rightarrow> sig_mask_how option" where
  "sig_mask_how_of how = (if how = 0 then Some SIG_BLOCK else if how = 1 then Some SIG_UNBLOCK
     else if how = 2 then Some SIG_SETMASK else None)"

fun apply_mask :: "sig_mask_how \<Rightarrow> sig_set \<Rightarrow> sig_set \<Rightarrow> sig_set" where
  "apply_mask SIG_BLOCK new m = ss_union_with m new"
| "apply_mask SIG_UNBLOCK new m = fold (\<lambda>i m. if ss_contains new i then ss_remove m i else m) [1..<NSIG] m"
| "apply_mask SIG_SETMASK new m = ss_remove (ss_remove new SIGKILL) SIGSTOP"

definition sys_sigprocmask ::
  "'w fs_ops \<Rightarrow> 'w sys \<Rightarrow> nat \<Rightarrow> i32 \<Rightarrow> usize \<Rightarrow> usize \<Rightarrow> (syscall_ret \<times> 'w sys) option" where
  "sys_sigprocmask V s cur how set_ptr oldset = do {
     b \<leftarrow> sy_tcbs s cur;
     let old_mask = sigmask (tc_sig b);
     (_, c) \<leftarrow> get_process s cur;
     let token = get_user_token s c;
     (r, s) \<leftarrow> (if set_ptr = 0 then Some (Ok (), s)
       else do {
         (r, s) \<leftarrow> proc_alloc_type_for_lazy V s c set_ptr 8;
         (case r of
            Inl e \<Rightarrow> Some (Err e, s)
          | Inr _ \<Rightarrow> do {
              r \<leftarrow> get_target_ref (sy_mem s) token set_ptr 8;
              (case r of
                 Inl e \<Rightarrow> Some (Err (errno_of_translate_error e), s)
               | Inr a \<Rightarrow> do {
                   pa \<leftarrow> a;
                   let new = le_usize (pm_read (sy_mem s) pa 8);
                   (case sig_mask_how_of how of
                      None \<Rightarrow> Some (Err EINVAL, s)
                    | Some h \<Rightarrow> Some (Ok (), upd_sig cur (\<lambda>ts. ts\<lparr> sigmask := apply_mask h new (sigmask ts) \<rparr>) s)) }) }) });
     (case r of
        Inl e \<Rightarrow> Some (Err e, s)
      | Inr _ \<Rightarrow>
          if oldset = 0 then Some (Ok 0, s)
          else do {
            (r, s) \<leftarrow> proc_alloc_type_for_lazy V s c oldset 8;
            (case r of
               Inl e \<Rightarrow> Some (Err e, s)
             | Inr _ \<Rightarrow> do {
                 r \<leftarrow> translated_refmut (sy_mem s) token oldset;
                 (case r of
                    Inl e \<Rightarrow> Some (Err e, s)
                  | Inr pa \<Rightarrow> Some (Ok 0, s\<lparr> sy_mem := pm_write (sy_mem s) pa (le_bytes 8 old_mask) \<rparr>)) }) }) }"

subsection \<open>Delivery\<close>

text \<open>The signal to deliver: the lowest pending one that is not blocked, those of the thread before those of the process.\<close>

definition next_signal :: "task_signal_state \<Rightarrow> process_signal_shared_state \<Rightarrow> (signal \<times> bool) option" where
  "next_signal ts ps =
     (case List.find (\<lambda>i. ss_contains (sigpending ts) i \<and> \<not> ss_contains (sigmask ts) i) [1..<NSIG] of
        Some sig \<Rightarrow> Some (sig, True)
      | None \<Rightarrow> map_option (\<lambda>sig. (sig, False))
          (List.find (\<lambda>i. ss_contains (shared_sigpending ps) i \<and> \<not> ss_contains (sigmask ts) i) [1..<NSIG]))"

definition take_signal :: "'w sys \<Rightarrow> nat \<Rightarrow> nat \<Rightarrow> signal \<Rightarrow> bool \<Rightarrow> 'w sys" where
  "take_signal s cur a sig from_thread =
     (if from_thread then upd_sig cur (\<lambda>ts. ts\<lparr> sigpending := ss_remove (sigpending ts) sig \<rparr>) s
      else s\<lparr> sy_sigs := (sy_sigs s)(a := (sy_sigs s a)\<lparr> shared_sigpending := ss_remove (shared_sigpending (sy_sigs s a)) sig \<rparr>) \<rparr>)"

definition mask_during_handler :: "sig_set \<Rightarrow> sig_action \<Rightarrow> signal \<Rightarrow> sig_set" where
  "mask_during_handler m act sig =
     ss_union_with (if fl_contains (sa_flags act) SA_NODEFER then m else ss_add m sig) (sa_mask act)"

definition perform_default_action :: "'w fs_ops \<Rightarrow> 'w sys \<Rightarrow> nat \<Rightarrow> signal \<Rightarrow> 'w sys option" where
  "perform_default_action V s cur sig =
     (case default_action sig of
        Terminate \<Rightarrow> exit_proc V s cur (of_nat (128 + sig))
      | CoreDump \<Rightarrow> exit_proc V s cur (of_nat (128 + sig))
      | Ignore \<Rightarrow> Some s
      | Stop \<Rightarrow> None
      | Continue \<Rightarrow> None
      | ForceTerminateOrStop \<Rightarrow> None)"

abbreviation EINTR_USIZE :: usize where "EINTR_USIZE \<equiv> - of_nat (errno EINTR)"
abbreviation ERESTART_USIZE :: usize where "ERESTART_USIZE \<equiv> - of_nat (errno ERESTART)"

text \<open>An interrupted system call is marked to be restarted, or returns \<open>EINTR\<close>; \<open>res\<close> is \<open>None\<close> when the trap was not a system call.\<close>

definition interrupt_syscall ::
  "usize option \<Rightarrow> sig_action \<Rightarrow> signal \<Rightarrow> trap_context \<Rightarrow> task_signal_state \<Rightarrow> trap_context \<times> task_signal_state" where
  "interrupt_syscall res act sig tf ts =
     (case res of
        None \<Rightarrow> (tf, ts)
      | Some _ \<Rightarrow>
          if fl_contains (sa_flags act) SA_RESTART \<and> r_a0 (regs tf) = ERESTART_USIZE \<and> sig \<noteq> SIGRT2
          then (set_arg0 (origin_a0 tf) (tf\<lparr> cx_status := TrapBlocked \<rparr>)\<lparr> origin_a0 := EINTR_USIZE \<rparr>, ts\<lparr> is_restart := True \<rparr>)
          else (set_arg0 EINTR_USIZE tf, ts))"

definition handler_stack :: "sig_action \<Rightarrow> trap_context \<Rightarrow> task_signal_state \<Rightarrow> usize" where
  "handler_stack act tf ts =
     (if fl_contains (sa_flags act) SA_ONSTACK \<and> ss_flags (alternate_stack ts) \<noteq> SS_DISABLE
      then (ss_sp (alternate_stack ts) + ss_size (alternate_stack ts) - 1) AND NOT 0xf
      else r_sp (regs tf) - USER_SIGNAL_PROTECT)"

text \<open>With \<open>SA_SIGINFO\<close> the handler finds the description of the signal and the interrupted context on its stack.\<close>

definition info_sp :: "usize \<Rightarrow> usize" where
  "info_sp sp0 = (sp0 - of_nat sig_info_size) AND NOT 0xf"

definition ucontext_sp :: "usize \<Rightarrow> usize" where
  "ucontext_sp sp0 = (info_sp sp0 - of_nat ucontext_size) AND NOT 0xf"

definition push_frame :: "kmem \<Rightarrow> usize \<Rightarrow> u8 list \<Rightarrow> usize \<Rightarrow> signal \<Rightarrow> nat \<Rightarrow> ucontext \<Rightarrow> kmem option" where
  "push_frame k token pad sp0 sig pid u = do {
     r \<leftarrow> translated_refmut k token (info_sp sp0);
     (case r of
        Inl _ \<Rightarrow> None
      | Inr pa \<Rightarrow> do {
          (r, k) \<leftarrow> put_data (pm_write k pa (sig_info_bytes sig pid)) token (ucontext_sp sp0) (ucontext_bytes pad u);
          (case r of Inl _ \<Rightarrow> None | Inr _ \<Rightarrow> Some k) }) }"

definition enter_handler :: "usize \<Rightarrow> sig_action \<Rightarrow> signal \<Rightarrow> usize \<Rightarrow> trap_context \<Rightarrow> trap_context" where
  "enter_handler restorer act sig stack tf =
     set_sp stack (set_arg0 (of_nat sig) ((set_ra restorer tf)\<lparr> sepc := sa_handler act \<rparr>))"

definition deliver_handler ::
  "'w sys \<Rightarrow> nat \<Rightarrow> nat \<Rightarrow> nat \<Rightarrow> usize \<Rightarrow> u8 list \<Rightarrow> usize option \<Rightarrow> sig_action \<Rightarrow> signal \<Rightarrow> sig_set \<Rightarrow> 'w sys option" where
  "deliver_handler s cur p a restorer pad res act sig original_mask = do {
     b \<leftarrow> sy_tcbs s cur;
     ensure (r_a7 (regs (tc_cx b)) \<noteq> 139);
     let (tf, ts) = interrupt_syscall res act sig (tc_cx b) (tc_sig b);
     let sp0 = handler_stack act tf ts;
     let info = fl_contains (sa_flags act) SA_SIGINFO;
     k \<leftarrow> (if info then push_frame (sy_mem s) (tc_token b) pad sp0 sig p (ucontext_new tf original_mask) else Some (sy_mem s));
     let cx = (if info then enter_handler restorer act sig (ucontext_sp sp0) (set_arg1 (info_sp sp0) (set_arg2 (ucontext_sp sp0) tf))
       else enter_handler restorer act sig sp0 tf);
     let s = upd_tcb cur (\<lambda>b. b\<lparr> tc_cx := cx, tc_sig := ts\<lparr> last_context := Some tf, sig_info := info \<rparr> \<rparr>) s\<lparr> sy_mem := k \<rparr>;
     Some (if fl_contains (sa_flags act) SA_RESETHAND
       then s\<lparr> sy_sigs := (sy_sigs s)(a := (sy_sigs s a)\<lparr> sigactions :=
         (sigactions (sy_sigs s a))[sig := (sigactions (sy_sigs s a) ! sig)\<lparr> sa_handler := SIG_DFL \<rparr>] \<rparr>) \<rparr>
       else s) }"

partial_function (option) handle_signals_loop ::
  "'w fs_ops \<Rightarrow> 'w sys \<Rightarrow> nat \<Rightarrow> nat \<Rightarrow> nat \<Rightarrow> usize \<Rightarrow> u8 list \<Rightarrow> usize option \<Rightarrow> 'w sys option" where
  "handle_signals_loop V s cur p a restorer pad res = do {
     b \<leftarrow> sy_tcbs s cur;
     let m = sigmask (tc_sig b);
     (case next_signal (tc_sig b) (sy_sigs s a) of
        None \<Rightarrow> Some s
      | Some (sig, from_thread) \<Rightarrow> do {
          let act = sigactions (sy_sigs s a) ! sig;
          let s = take_signal s cur a sig from_thread;
          (if sig = SIGKILL then exit_proc V s cur (of_nat (128 + sig))
           else if sig = SIGSTOP \<or> sig = SIGCONT then None
           else do {
             let s = upd_sig cur (\<lambda>ts. ts\<lparr> sigmask := mask_during_handler m act sig \<rparr>) s;
             (if sa_handler act = SIG_DFL then do {
                s \<leftarrow> perform_default_action V s cur sig;
                handle_signals_loop V (upd_sig cur (\<lambda>ts. ts\<lparr> sigmask := m \<rparr>) s) cur p a restorer pad res }
              else if sa_handler act = SIG_IGN then
                handle_signals_loop V (upd_sig cur (\<lambda>ts. ts\<lparr> sigmask := m \<rparr>) s) cur p a restorer pad res
              else deliver_handler s cur p a restorer pad res act sig m) }) }) }"

definition handle_pending_signals ::
  "'w fs_ops \<Rightarrow> 'w sys \<Rightarrow> nat \<Rightarrow> usize \<Rightarrow> u8 list \<Rightarrow> usize option \<Rightarrow> 'w sys option" where
  "handle_pending_signals V s cur restorer pad res =
     (case get_process s cur of
        None \<Rightarrow> Some s
      | Some (p, c) \<Rightarrow>
          if status (sy_exec s) (main_task c) = Some Zombie \<or> status (sy_exec s) cur = Some Zombie then Some s
          else handle_signals_loop V s cur p (pc_sig c) restorer pad res)"

subsection \<open>Return from a handler\<close>

definition resume_context :: "trap_context \<Rightarrow> task_signal_state \<Rightarrow> trap_context" where
  "resume_context cx ts = (if is_restart ts then cx\<lparr> sepc := sepc cx - 4 \<rparr> else cx)"

definition load_trap_for_signal :: "'w sys \<Rightarrow> nat \<Rightarrow> (bool \<times> 'w sys) option" where
  "load_trap_for_signal s cur = do {
     b \<leftarrow> sy_tcbs s cur;
     (case last_context (tc_sig b) of
        None \<Rightarrow> Some (False, s)
      | Some old \<Rightarrow> do {
          let ts = (tc_sig b)\<lparr> last_context := None \<rparr>;
          (if sig_info ts then do {
             (_, c) \<leftarrow> get_process s cur;
             r \<leftarrow> get_target_ref (sy_mem s) (get_user_token s c) (r_sp (regs (tc_cx b))) ucontext_size;
             (case r of
                Inl _ \<Rightarrow> Some (False, upd_tcb cur (\<lambda>b. b\<lparr> tc_cx := old, tc_sig := ts \<rparr>) s)
              | Inr a \<Rightarrow> do {
                  pa \<leftarrow> a;
                  let u = ucontext_of_bytes (pm_read (sy_mem s) pa ucontext_size);
                  let ts = ts\<lparr> sigmask := uc_sigmask u \<rparr>;
                  Some (True, upd_tcb cur (\<lambda>b. b\<lparr> tc_cx := resume_context (mcontext_restore u old) ts, tc_sig := ts \<rparr>) s) }) }
           else Some (True, upd_tcb cur (\<lambda>b. b\<lparr> tc_cx := resume_context old ts, tc_sig := ts \<rparr>) s)) }) }"

definition sys_sigreturn :: "'w sys \<Rightarrow> nat \<Rightarrow> ((sys_err_no + usize) \<times> 'w sys) option" where
  "sys_sigreturn s cur = do {
     (r, s) \<leftarrow> load_trap_for_signal s cur;
     b \<leftarrow> sy_tcbs s cur;
     Some (if r then Ok (r_a0 (regs (tc_cx b))) else Err EPERM, s) }"

end
