(* ===== verification/Process_Lib.thy ===== *)
theory Process_Lib
  imports Signal_Delivery
begin

text \<open>
  Facts on the state of processes that the properties share: what the updates of a control block leave unchanged, and the state of a
  machine with one process, on which the properties are exercised.
\<close>

subsection \<open>Blocks\<close>

lemma case_sum_Some_conv:
  "(case r of Inl x \<Rightarrow> f x | Inr y \<Rightarrow> g y) = Some z \<longleftrightarrow> (\<exists>x. r = Inl x \<and> f x = Some z) \<or> (\<exists>y. r = Inr y \<and> g y = Some z)"
  by (cases r) auto

lemma upd_tcb_same [simp]: "sy_tcbs (upd_tcb t f s) t = map_option f (sy_tcbs s t)"
  by (simp add: upd_tcb_def)

lemma upd_tcb_fields [simp]:
  "sy_mem (upd_tcb t f s) = sy_mem s" "sy_exec (upd_tcb t f s) = sy_exec s" "sy_spaces (upd_tcb t f s) = sy_spaces s"
  "sy_pcbs (upd_tcb t f s) = sy_pcbs s" "pid2pc (upd_tcb t f s) = pid2pc s" "tid2tc (upd_tcb t f s) = tid2tc s"
  "sy_sigs (upd_tcb t f s) = sy_sigs s" "sy_files (upd_tcb t f s) = sy_files s" "init_pid (upd_tcb t f s) = init_pid s"
  "sy_pids (upd_tcb t f s) = sy_pids s" "next_tid (upd_tcb t f s) = next_tid s"
  by (simp_all add: upd_tcb_def)

lemma get_process_upd_tcb:
  assumes "\<And>b. tc_pid (f b) = tc_pid b"
  shows "get_process (upd_tcb t f s) u = get_process s u"
  using assms by (cases "sy_tcbs s t") (simp_all add: get_process_def upd_tcb_def cong: if_cong)

lemma get_process_cong:
  "sy_tcbs s' = sy_tcbs s \<Longrightarrow> sy_pcbs s' = sy_pcbs s \<Longrightarrow> pid2pc s' = pid2pc s \<Longrightarrow> get_process s' u = get_process s u"
  by (simp add: get_process_def cong: if_cong)

lemma upd_pcb_at [simp]: "sy_pcbs (upd_pcb p f s) q = (if q = p then map_option f (sy_pcbs s p) else sy_pcbs s q)"
  by (simp add: upd_pcb_def)

lemma upd_pcb_fields [simp]:
  "sy_mem (upd_pcb p f s) = sy_mem s" "sy_exec (upd_pcb p f s) = sy_exec s" "sy_spaces (upd_pcb p f s) = sy_spaces s"
  "sy_tcbs (upd_pcb p f s) = sy_tcbs s" "pid2pc (upd_pcb p f s) = pid2pc s" "tid2tc (upd_pcb p f s) = tid2tc s"
  "sy_sigs (upd_pcb p f s) = sy_sigs s" "sy_files (upd_pcb p f s) = sy_files s" "init_pid (upd_pcb p f s) = init_pid s"
  "sy_futex (upd_pcb p f s) = sy_futex s" "sy_pids (upd_pcb p f s) = sy_pids s" "next_tid (upd_pcb p f s) = next_tid s"
  by (simp_all add: upd_pcb_def)

lemma set_space_fields [simp]:
  "sy_mem (set_space a ms s) = sy_mem s" "sy_exec (set_space a ms s) = sy_exec s" "sy_spaces (set_space a ms s) = (sy_spaces s)(a := ms)"
  "sy_tcbs (set_space a ms s) = sy_tcbs s" "pid2pc (set_space a ms s) = pid2pc s" "tid2tc (set_space a ms s) = tid2tc s"
  "sy_sigs (set_space a ms s) = sy_sigs s" "sy_files (set_space a ms s) = sy_files s" "init_pid (set_space a ms s) = init_pid s"
  "sy_pcbs (set_space a ms s) = sy_pcbs s" "sy_pids (set_space a ms s) = sy_pids s" "next_tid (set_space a ms s) = next_tid s"
  "sy_futex (set_space a ms s) = sy_futex s"
  by (simp_all add: set_space_def)

lemma get_process_Some:
  "get_process s t = Some (p, c) \<longleftrightarrow> (\<exists>b. sy_tcbs s t = Some b \<and> tc_pid b = p \<and> p \<in> pid2pc s \<and> sy_pcbs s p = Some c)"
  by (auto simp: get_process_def bind_eq_Some_conv)

subsection \<open>A machine with one process\<close>

definition demo_cx :: "usize \<Rightarrow> trap_context" where
  "demo_cx stack = \<lparr> regs = (regs_of_list (replicate 31 0))\<lparr> r_sp := stack \<rparr>, sstatus = 0, sepc = 0x10000, kernel_sp = 0, kernel_ra = 0,
     kernel_s = replicate 12 0, kernel_fp = 0, kernel_tp = 0, origin_a0 = 0, fp_regs = replicate 32 0, fcsr = 0, scause = 0, stval = 0,
     cx_status = TrapBlocked \<rparr>"

definition demo_tcb :: "usize \<Rightarrow> usize \<Rightarrow> tcb" where
  "demo_tcb token stack = (tcb_new 1 token (demo_cx stack) (task_signal_state_init 0) None False)\<lparr> tc_leader := True \<rparr>"

definition demo_pcb :: pcb where
  "demo_pcb = \<lparr> main_task = 1, pc_tasks = [1], pc_children = [], pc_space = 0, user_stack_top = 0, pc_base_size = 0, pc_parent = 0,
     pc_exit_code = 0, heap_bottom = 0, program_brk = 0, pc_fds = new_with_stdio 0 1 2, pc_sig = 0, pc_state = Runnable, pc_wakers = [(1, 1)] \<rparr>"

definition demo_sys :: "kmem \<Rightarrow> memory_set \<Rightarrow> usize \<Rightarrow> (nat \<Rightarrow> u8 list) sys" where
  "demo_sys k ms stack = \<lparr> sy_mem = k, sy_files = flat_files, sy_exec = executor_pick (exec_start 1), sy_futex = [], sy_shm = shm_manager_new,
     sy_tcbs = [1 \<mapsto> demo_tcb (ms_token ms) stack], sy_pcbs = [1 \<mapsto> demo_pcb], sy_spaces = (\<lambda>_. ms), sy_sigs = (\<lambda>_. shared_state_default),
     pid2pc = {1}, tid2tc = {1}, sy_pids = PID_ALLOCATOR\<lparr> current := 2 \<rparr>, next_tid = 2, next_space = 1, next_sig = 1, init_pid = 1, kernel_root = 0 \<rparr>"

lemma demo_process: "get_process (demo_sys k ms stack) 1 = Some (1, demo_pcb)"
  by (simp add: get_process_def demo_sys_def demo_tcb_def tcb_new_def)

text \<open>The same machine with one signal pending for its task, and one action for all signals.\<close>

definition demo_pending :: "kmem \<Rightarrow> memory_set \<Rightarrow> signal \<Rightarrow> sig_action \<Rightarrow> (nat \<Rightarrow> u8 list) sys" where
  "demo_pending k ms sig act = upd_sig 1 (\<lambda>ts. ts\<lparr> sigpending := ss_add (sigpending ts) sig \<rparr>)
     (demo_sys k ms 0x5700)\<lparr> sy_sigs := (\<lambda>_. shared_state_default\<lparr> sigactions := replicate NSIG act \<rparr>) \<rparr>"

lemma demo_status: "status (sy_exec (demo_sys k ms stack)) 1 = Some Running"
  unfolding demo_sys_def by (simp add: demo_sys_def) code_simp

lemma demo_pending_facts:
  "get_process (demo_pending k ms sig act) 1 = Some (1, demo_pcb)"
  "status (sy_exec (demo_pending k ms sig act)) 1 = Some Running"
  "sy_tcbs (demo_pending k ms sig act) 1 = Some ((demo_tcb (ms_token ms) 0x5700)\<lparr> tc_sig := (task_signal_state_init 0)\<lparr> sigpending := ss_add 0 sig \<rparr> \<rparr>)"
  "sig < NSIG \<Longrightarrow> sigactions (sy_sigs (demo_pending k ms sig act) 0) ! sig = act"
  "shared_sigpending (sy_sigs (demo_pending k ms sig act) 0) = 0"
proof -
  have "get_process (demo_pending k ms sig act) 1
      = get_process (upd_sig 1 (\<lambda>ts. ts\<lparr> sigpending := ss_add (sigpending ts) sig \<rparr>) (demo_sys k ms 0x5700)) 1"
    by (rule get_process_cong) (simp_all add: demo_pending_def)
  then show "get_process (demo_pending k ms sig act) 1 = Some (1, demo_pcb)"
    using demo_process [where k = k and ms = ms] by (simp add: upd_sig_def get_process_upd_tcb)
  show "status (sy_exec (demo_pending k ms sig act)) 1 = Some Running"
    using demo_status [where k = k and ms = ms] by (simp add: demo_pending_def upd_sig_def)
qed (simp_all add: demo_pending_def upd_sig_def demo_sys_def demo_tcb_def tcb_new_def task_signal_state_init_def shared_state_default_def)

end
