(* ===== verification/Signal_Props.thy ===== *)
theory Signal_Props
  imports Process_Lib Memory_Props User_Copy_Props
begin

text \<open>
  Properties of signal delivery.  Sets of signals are read as bits, and structures as the bytes they are stored as: reading back
  what was written gives the structure.
\<close>

subsection \<open>Sets\<close>

lemma sig_bit_less: "sig_bit sig < 64"
  by (simp add: sig_bit_def)

lemma sig_bit_eq: "0 < sig \<Longrightarrow> sig \<le> 64 \<Longrightarrow> sig_bit sig = sig - 1"
  by (simp add: sig_bit_def mod_if)

lemma ss_contains_bit: "ss_contains s sig \<longleftrightarrow> bit s (sig_bit sig)"
  by (simp add: ss_contains_def drop_bit_eq_div bit_iff_odd and_one_eq odd_iff_mod_2_eq_one)

lemma ss_add_bit: "bit (ss_add s sig) n \<longleftrightarrow> bit s n \<or> n = sig_bit sig"
  using sig_bit_less [of sig] by (auto simp: ss_add_def bit_simps)

lemma ss_remove_bit: "bit (ss_remove s sig) n \<longleftrightarrow> bit s n \<and> n \<noteq> sig_bit sig"
  by (auto simp: ss_remove_def bit_simps dest: bit_usize_less)

lemma ss_union_bit: "bit (ss_union_with s t) n \<longleftrightarrow> bit s n \<or> bit t n"
  by (simp add: ss_union_with_def bit_simps)

lemmas ss_bits = ss_contains_bit ss_add_bit ss_remove_bit ss_union_bit

subsection \<open>Bytes\<close>

lemma length_le_bytes [simp]: "length (le_bytes n w) = n"
  by (simp add: le_bytes_def)

lemma le_usize_bit: "bit (le_usize bs) n \<longleftrightarrow> n < 64 \<and> n div 8 < length bs \<and> bit (bs ! (n div 8)) (n mod 8)"
proof (induction bs arbitrary: n)
  case (Cons b bs)
  show ?case
  proof (cases "n < 8")
    case True
    then show ?thesis by (simp add: le_usize_def bit_simps)
  next
    case False
    then have n: "n div 8 = Suc ((n - 8) div 8)" "(n - 8) mod 8 = n mod 8"
      by (simp_all add: le_div_geq le_mod_geq)
    have "\<not> bit b n" using False by (auto dest: bit_imp_le_length)
    then have "bit (le_usize (b # bs)) n \<longleftrightarrow> n < 64 \<and> bit (le_usize bs) (n - 8)"
      using False by (auto simp: le_usize_def bit_simps)
    then show ?thesis using n Cons.IH [of "n - 8"] by auto
  qed
qed (simp add: le_usize_def)

lemma le_usize_le_bytes [simp]: "le_usize (le_bytes 8 w) = w"
proof (rule bit_word_eqI)
  fix n assume "n < LENGTH(64)"
  then have n: "n div 8 < 8" "n < 64" by simp_all
  have "8 * (n div 8) + n mod 8 = n" by simp
  with n show "bit (le_usize (le_bytes 8 w)) n = bit w n"
    by (auto simp: le_usize_bit le_bytes_def bit_simps)
qed

lemma le_usize_le_bytes_4 [simp]: "ucast (le_usize (le_bytes 4 (ucast (w :: u32)))) = w"
proof (rule bit_word_eqI)
  fix n assume "n < LENGTH(32)"
  then have n: "n div 8 < 4" "n < 32" by simp_all
  have "8 * (n div 8) + n mod 8 = n" by simp
  with n show "bit (ucast (le_usize (le_bytes 4 (ucast w))) :: u32) n = bit w n"
    by (auto simp: le_usize_bit le_bytes_def bit_simps)
qed

lemma regs_round_trip [simp]: "regs_of_list (regs_list r) = r"
  by (simp add: regs_list_def regs_of_list_def)

lemma length_regs_list [simp]: "length (regs_list r) = 31"
  by (simp add: regs_list_def)

lemma length_concat_le_bytes [simp]: "length (concat (map (le_bytes 8) ws)) = 8 * length ws"
  by (induction ws) simp_all

lemma take_drop_concat_le_bytes:
  "i < length ws \<Longrightarrow> take 8 (drop (8 * i) (concat (map (le_bytes 8) ws))) = le_bytes 8 (ws ! i)"
proof (induction ws arbitrary: i)
  case (Cons w ws)
  then show ?case by (cases i) simp_all
qed simp

lemma length_ucontext_bytes: "12 \<le> length pad \<Longrightarrow> length (ucontext_bytes pad u) = ucontext_size"
  by (simp add: ucontext_bytes_def ucontext_size_def)

lemma ucontext_regs:
  assumes "12 \<le> length pad" "i < 31"
  shows "le_usize_at (ucontext_bytes pad u) (184 + 8 * i) = regs_list (mc_regs u) ! i"
proof -
  define pre where "pre = le_bytes 8 (uc_flags u) @ le_bytes 8 (uc_link u)
     @ le_bytes 8 (ss_sp (uc_stack u)) @ le_bytes 4 (ucast (ss_flags (uc_stack u))) @ take 4 pad @ le_bytes 8 (ss_size (uc_stack u))
     @ le_bytes 8 (uc_sigmask u) @ replicate 120 0 @ take 8 (drop 4 pad) @ le_bytes 8 (mc_pc u)"
  let ?R = "concat (map (le_bytes 8) (regs_list (mc_regs u)))"
  have "length pre = 184" using assms(1) by (simp add: pre_def)
  moreover have "ucontext_bytes pad u = pre @ ?R @ replicate 528 0" by (simp add: ucontext_bytes_def pre_def)
  ultimately have "take 8 (drop (184 + 8 * i) (ucontext_bytes pad u)) = take 8 (drop (8 * i) ?R)"
    using assms(2) by simp
  then show ?thesis using take_drop_concat_le_bytes [of i "regs_list (mc_regs u)"] assms(2) by (simp add: le_usize_at_def)
qed

lemma ucontext_round_trip:
  assumes "12 \<le> length pad"
  shows "ucontext_of_bytes (ucontext_bytes pad u) = u"
proof -
  have "map (\<lambda>i. le_usize_at (ucontext_bytes pad u) (184 + 8 * i)) [0..<31] = regs_list (mc_regs u)"
    by (rule nth_equalityI) (simp_all add: ucontext_regs [OF assms])
  moreover have "le_usize_at (ucontext_bytes pad u) 0 = uc_flags u" "le_usize_at (ucontext_bytes pad u) 8 = uc_link u"
    "le_usize_at (ucontext_bytes pad u) 16 = ss_sp (uc_stack u)" "le_usize_at (ucontext_bytes pad u) 32 = ss_size (uc_stack u)"
    "ucast (le_usize (take 4 (drop 24 (ucontext_bytes pad u)))) = ss_flags (uc_stack u)"
    "le_usize_at (ucontext_bytes pad u) 40 = uc_sigmask u" "le_usize_at (ucontext_bytes pad u) 176 = mc_pc u"
    using assms by (simp_all add: le_usize_at_def ucontext_bytes_def)
  ultimately show ?thesis unfolding ucontext_of_bytes_def by simp
qed

lemma length_sig_info_bytes [simp]: "length (sig_info_bytes sig pid) = sig_info_size"
  by (simp add: sig_info_bytes_def sig_info_size_def)

subsection \<open>Frames on the user stack\<close>

text \<open>
  The two structures that delivery pushes can be stored: their addresses are mapped writable, and neither crosses a page.  The
  second condition is not checked by the code, which reads and writes each of them through one reference.
\<close>

definition frame_room :: "kmem \<Rightarrow> usize \<Rightarrow> ppn set \<Rightarrow> usize \<Rightarrow> bool" where
  "frame_room k token T sp0 \<longleftrightarrow> pt_wf k (pt_from_token token) T
     \<and> user_room k (root_ppn (pt_from_token token)) T (info_sp sp0) sig_info_size
     \<and> va_page_offset (info_sp sp0) + sig_info_size \<le> 4096
     \<and> user_room k (root_ppn (pt_from_token token)) T (ucontext_sp sp0) ucontext_size
     \<and> va_page_offset (ucontext_sp sp0) + ucontext_size \<le> 4096"

lemma user_room_refmut:
  assumes "pt_wf k (pt_from_token token) T" "user_room k (root_ppn (pt_from_token token)) T va n" "0 < n"
  obtains pa where "user_pa k (root_ppn (pt_from_token token)) va = Some pa" "translated_refmut k token va = Some (Ok pa)"
    "get_target_ref k token va n = Some (Ok (Some pa))"
proof -
  obtain pa where pa: "user_pa k (root_ppn (pt_from_token token)) va = Some pa"
    using user_room_mapped(2) [OF assms(2,3)] by auto
  have "pt_translate_va k (pt_from_token token) va = Some (Some pa)"
    using pt_translate_va_user [OF assms(1) _ assms(3), of va] assms(2) pa by (simp add: user_room_def)
  moreover have "pa_get_mut pa = Some pa" by (rule no_null_get_mut [OF user_room_mapped(1) [OF assms(2)] assms(3) pa])
  ultimately show thesis using assms(3) pa by (intro that [of pa]) (simp_all add: translated_refmut_def get_target_ref_def)
qed

lemma push_frame_ok:
  assumes "frame_room k token T sp0" "12 \<le> length pad"
  obtains k' pa where "push_frame k token pad sp0 sig pid u = Some k'"
    "get_target_ref k' token (ucontext_sp sp0) ucontext_size = Some (Ok (Some pa))"
    "ucontext_of_bytes (pm_read k' pa ucontext_size) = u"
proof -
  let ?r = "root_ppn (pt_from_token token)"
  note f = assms(1) [unfolded frame_room_def]
  have n: "0 < sig_info_size" "0 < ucontext_size" by (simp_all add: sig_info_size_def ucontext_size_def)
  obtain pi where pi: "user_pa k ?r (info_sp sp0) = Some pi" "translated_refmut k token (info_sp sp0) = Some (Ok pi)"
    using user_room_refmut [of k token T "info_sp sp0" sig_info_size] f n by blast
  define k1 where "k1 = user_put k ?r (info_sp sp0) (sig_info_bytes sig pid)"
  have w: "pm_write k pi (sig_info_bytes sig pid) = k1"
    unfolding k1_def using f by (intro pm_write_user [OF pi(1)]) simp
  have rm: "user_room k ?r T (info_sp sp0) (length (sig_info_bytes sig pid))" using f by simp
  have wf: "pt_wf k (pt_from_token token) T" using f by blast
  have wf1: "pt_wf k1 (pt_from_token token) T" by (rule user_room_put(1) [OF wf refl rm k1_def])
  have rm1: "user_room k1 ?r T (ucontext_sp sp0) (length (ucontext_bytes pad u))"
    using f unfolding user_room_same [OF wf refl rm k1_def] length_ucontext_bytes [OF assms(2)] by blast
  define k2 where "k2 = user_put k1 ?r (ucontext_sp sp0) (ucontext_bytes pad u)"
  note p = user_room_put [OF wf1 refl rm1 k2_def, unfolded length_ucontext_bytes [OF assms(2)]]
  obtain pa where pa: "user_pa k2 ?r (ucontext_sp sp0) = Some pa"
    "get_target_ref k2 token (ucontext_sp sp0) ucontext_size = Some (Ok (Some pa))"
    using user_room_refmut [OF p(1,2) n(2)] by blast
  have "pm_read k2 pa ucontext_size = ucontext_bytes pad u"
    using pm_read_user_bytes [OF pa(1), of ucontext_size] f p(3) by simp
  moreover have "push_frame k token pad sp0 sig pid u = Some k2"
    using put_data_room [OF wf1 refl rm1] by (simp add: push_frame_def pi(2) w k2_def)
  ultimately show thesis using that pa(2) ucontext_round_trip [OF assms(2)] by simp
qed

subsection \<open>Return\<close>

lemma restore_new [simp]: "mcontext_restore (ucontext_new tf m) tf = tf"
  by (simp add: mcontext_restore_def ucontext_new_def)

lemma sigreturn_info:
  assumes "sy_tcbs s cur = Some b" "last_context (tc_sig b) = Some old" "sig_info (tc_sig b)" "get_process s cur = Some (p, c)"
    "get_target_ref (sy_mem s) (get_user_token s c) (r_sp (regs (tc_cx b))) ucontext_size = Some (Ok (Some pa))"
    "u = ucontext_of_bytes (pm_read (sy_mem s) pa ucontext_size)" "ts = (tc_sig b)\<lparr> last_context := None, sigmask := uc_sigmask u \<rparr>"
    "cx = resume_context (mcontext_restore u old) ts"
  shows "sys_sigreturn s cur = Some (Ok (r_a0 (regs cx)), upd_tcb cur (\<lambda>b. b\<lparr> tc_cx := cx, tc_sig := ts \<rparr>) s)"
  using assms by (simp add: sys_sigreturn_def load_trap_for_signal_def Let_def)

lemma sigreturn_plain:
  assumes "sy_tcbs s cur = Some b" "last_context (tc_sig b) = Some old" "\<not> sig_info (tc_sig b)"
    "ts = (tc_sig b)\<lparr> last_context := None \<rparr>" "cx = resume_context old ts"
  shows "sys_sigreturn s cur = Some (Ok (r_a0 (regs cx)), upd_tcb cur (\<lambda>b. b\<lparr> tc_cx := cx, tc_sig := ts \<rparr>) s)"
  using assms by (simp add: sys_sigreturn_def load_trap_for_signal_def Let_def)

text \<open>The structures on the stack are still there: the context at \<open>usp\<close> is translated as before and has the same bytes.\<close>

definition frame_kept :: "kmem \<Rightarrow> kmem \<Rightarrow> usize \<Rightarrow> usize \<Rightarrow> bool" where
  "frame_kept k k2 token usp \<longleftrightarrow> get_target_ref k2 token usp ucontext_size = get_target_ref k token usp ucontext_size
     \<and> (\<forall>pa. get_target_ref k token usp ucontext_size = Some (Ok (Some pa)) \<longrightarrow> pm_read k2 pa ucontext_size = pm_read k pa ucontext_size)"

text \<open>The entry of a handler with \<open>SA_SIGINFO\<close> that saves the mask \<open>m\<close>, and the return from it.\<close>

lemma deliver_round_trip:
  assumes "sy_tcbs s cur = Some b" "get_process s cur = Some (p, c)" "tc_token b = get_user_token s c"
    "r_a7 (regs (tc_cx b)) \<noteq> 139" "fl_contains (sa_flags act) SA_SIGINFO" "12 \<le> length pad"
    "interrupt_syscall res act sig (tc_cx b) (tc_sig b) = (tf, ts)" "sp0 = handler_stack act tf ts"
    "frame_room (sy_mem s) (tc_token b) T sp0"
  shows "\<exists>s' b'. deliver_handler s cur p a restorer pad res act sig m = Some s' \<and> sy_tcbs s' cur = Some b'
    \<and> sepc (tc_cx b') = sa_handler act \<and> r_ra (regs (tc_cx b')) = restorer \<and> r_a0 (regs (tc_cx b')) = of_nat sig
    \<and> r_a1 (regs (tc_cx b')) = info_sp sp0 \<and> r_a2 (regs (tc_cx b')) = ucontext_sp sp0 \<and> r_sp (regs (tc_cx b')) = ucontext_sp sp0
    \<and> tc_sig b' = ts\<lparr> last_context := Some tf, sig_info := True \<rparr>
    \<and> (\<forall>cx k2. r_sp (regs cx) = ucontext_sp sp0 \<and> frame_kept (sy_mem s') k2 (tc_token b) (ucontext_sp sp0) \<longrightarrow>
         (\<exists>s2 b2. sys_sigreturn (upd_tcb cur (\<lambda>b. b\<lparr> tc_cx := cx \<rparr>) s'\<lparr> sy_mem := k2 \<rparr>) cur = Some (Ok (r_a0 (regs tf)), s2)
           \<and> sy_tcbs s2 cur = Some b2 \<and> tc_cx b2 = (if is_restart ts then tf\<lparr> sepc := sepc tf - 4 \<rparr> else tf)
           \<and> tc_sig b2 = ts\<lparr> sig_info := True, sigmask := m, last_context := None \<rparr>))"
proof -
  obtain k' pa where k': "push_frame (sy_mem s) (tc_token b) pad sp0 sig p (ucontext_new tf m) = Some k'"
    "get_target_ref k' (tc_token b) (ucontext_sp sp0) ucontext_size = Some (Ok (Some pa))"
    "ucontext_of_bytes (pm_read k' pa ucontext_size) = ucontext_new tf m"
    by (rule push_frame_ok [OF assms(9,6)])
  define cx' where "cx' = enter_handler restorer act sig (ucontext_sp sp0) (set_arg1 (info_sp sp0) (set_arg2 (ucontext_sp sp0) tf))"
  define s1 where "s1 = upd_tcb cur (\<lambda>b. b\<lparr> tc_cx := cx', tc_sig := ts\<lparr> last_context := Some tf, sig_info := True \<rparr> \<rparr>) s\<lparr> sy_mem := k' \<rparr>"
  define s' where "s' = (if fl_contains (sa_flags act) SA_RESETHAND
       then s1\<lparr> sy_sigs := (sy_sigs s1)(a := (sy_sigs s1 a)\<lparr> sigactions :=
         (sigactions (sy_sigs s1 a))[sig := (sigactions (sy_sigs s1 a) ! sig)\<lparr> sa_handler := SIG_DFL \<rparr>] \<rparr>) \<rparr>
       else s1)"
  have d: "deliver_handler s cur p a restorer pad res act sig m = Some s'"
    using assms(1,4,5,7) k'(1) unfolding assms(8) by (simp add: deliver_handler_def Let_def s'_def s1_def cx'_def assms(8))
  have sy: "sy_mem s' = k'" "sy_tcbs s' = sy_tcbs s1" "sy_pcbs s' = sy_pcbs s" "pid2pc s' = pid2pc s" "sy_spaces s' = sy_spaces s"
    by (simp_all add: s'_def s1_def)
  have b': "sy_tcbs s' cur = Some (b\<lparr> tc_cx := cx', tc_sig := ts\<lparr> last_context := Some tf, sig_info := True \<rparr> \<rparr>)"
    using assms(1) by (simp add: sy s1_def)
  have g1: "get_process s1 cur = Some (p, c)"
  proof -
    have "get_process s1 cur = get_process (upd_tcb cur (\<lambda>b. b\<lparr> tc_cx := cx', tc_sig := ts\<lparr> last_context := Some tf, sig_info := True \<rparr> \<rparr>) s) cur"
      by (rule get_process_cong) (simp_all add: s1_def)
    then show ?thesis using assms(2) by (simp add: get_process_upd_tcb)
  qed
  have g: "get_process s' cur = Some (p, c)"
    using g1 get_process_cong [of s' s1 cur] by (simp add: sy, simp add: s1_def)
  have "\<exists>s2 b2. sys_sigreturn (upd_tcb cur (\<lambda>b. b\<lparr> tc_cx := cx \<rparr>) s'\<lparr> sy_mem := k2 \<rparr>) cur = Some (Ok (r_a0 (regs tf)), s2)
      \<and> sy_tcbs s2 cur = Some b2 \<and> tc_cx b2 = (if is_restart ts then tf\<lparr> sepc := sepc tf - 4 \<rparr> else tf)
      \<and> tc_sig b2 = ts\<lparr> sig_info := True, sigmask := m, last_context := None \<rparr>"
    if sp: "r_sp (regs cx) = ucontext_sp sp0" and kept: "frame_kept (sy_mem s') k2 (tc_token b) (ucontext_sp sp0)" for cx k2
  proof -
    let ?s = "upd_tcb cur (\<lambda>b. b\<lparr> tc_cx := cx \<rparr>) s'\<lparr> sy_mem := k2 \<rparr>"
    let ?b = "b\<lparr> tc_cx := cx, tc_sig := ts\<lparr> last_context := Some tf, sig_info := True \<rparr> \<rparr>"
    have "get_process ?s cur = get_process (upd_tcb cur (\<lambda>b. b\<lparr> tc_cx := cx \<rparr>) s') cur" by (rule get_process_cong) simp_all
    then have g2: "get_process ?s cur = Some (p, c)" using g by (simp add: get_process_upd_tcb)
    have tok: "get_user_token ?s c = tc_token b" by (simp add: get_user_token_def sy assms(3))
    have mm: "sy_mem ?s = k2" by simp
    have t: "sy_tcbs ?s cur = Some ?b" using b' by simp
    have kp: "get_target_ref k2 (tc_token b) (ucontext_sp sp0) ucontext_size = Some (Ok (Some pa))" "pm_read k2 pa ucontext_size = pm_read k' pa ucontext_size"
      using kept k'(2) by (simp_all add: frame_kept_def sy)
    have r: "get_target_ref (sy_mem ?s) (get_user_token ?s c) (r_sp (regs (tc_cx ?b))) ucontext_size = Some (Ok (Some pa))"
      unfolding mm tok using kp(1) sp by simp
    have u: "ucontext_new tf m = ucontext_of_bytes (pm_read (sy_mem ?s) pa ucontext_size)" unfolding mm by (simp add: kp(2) k'(3))
    have "sys_sigreturn ?s cur = Some (Ok (r_a0 (regs (resume_context tf ts))), upd_tcb cur (\<lambda>b. b\<lparr> tc_cx := resume_context tf ts,
        tc_sig := ts\<lparr> last_context := None, sig_info := True, sigmask := m \<rparr> \<rparr>) ?s)"
      by (rule sigreturn_info [OF t _ _ g2 r u, where old = tf]) (simp_all add: resume_context_def, simp_all add: ucontext_new_def)
    then show ?thesis using b' by (simp add: resume_context_def)
  qed
  then show ?thesis using d b'
    by (simp add: cx'_def enter_handler_def set_arg0_def set_arg1_def set_arg2_def set_ra_def set_sp_def)
qed

text \<open>The booted machine with one process whose stack page is mapped, interrupted with its stack pointer at \<open>0x5700\<close>.\<close>

definition demo_action :: "u32 \<Rightarrow> sig_action" where
  "demo_action flags = \<lparr> sa_handler = 0x8000, sa_flags = flags, sa_restorer = 0, sa_mask = 0 \<rparr>"

lemma demo_frame:
  obtains k ms T where "frame_room k (ms_token ms) T 0x5500"
proof -
  obtain k pt T where d: "pt_wf k pt T" "\<And>n. n \<le> 4080 \<Longrightarrow> user_room k (root_ppn pt) T 0x5010 n" by (rule demo_page) blast
  have sp: "info_sp 0x5500 = 0x5480" "ucontext_sp 0x5500 = 0x50c0" by code_simp+
  have "user_room k (root_ppn pt) T (0x5010 + of_nat 0x470) (4000 - 0x470)" by (rule user_room_drop [OF d(2)]) simp_all
  then have "user_room k (root_ppn pt) T 0x5480 (4000 - 0x470)" by simp
  from user_room_take [OF this, of sig_info_size] have i: "user_room k (root_ppn pt) T 0x5480 sig_info_size" by (simp add: sig_info_size_def)
  have "user_room k (root_ppn pt) T (0x5010 + of_nat 0xb0) (4000 - 0xb0)" by (rule user_room_drop [OF d(2)]) simp_all
  then have "user_room k (root_ppn pt) T 0x50c0 (4000 - 0xb0)" by simp
  from user_room_take [OF this, of ucontext_size] have u: "user_room k (root_ppn pt) T 0x50c0 ucontext_size" by (simp add: ucontext_size_def)
  have "frame_room k (ms_token \<lparr> ms_pt = pt, areatree = [] \<rparr>) T 0x5500"
    unfolding frame_room_def sp ms_token_def using i u pt_wf_token [OF d(1)]
    by (simp add: va_page_offset_eq sig_info_size_def ucontext_size_def)
  then show thesis by (rule that)
qed

subsection \<open>Delivery\<close>

lemma handle_enters_handler:
  assumes "get_process s cur = Some (p, c)" "status (sy_exec s) (main_task c) \<noteq> Some Zombie" "status (sy_exec s) cur \<noteq> Some Zombie"
    "sy_tcbs s cur = Some b" "next_signal (tc_sig b) (sy_sigs s (pc_sig c)) = Some (sig, th)"
    "act = sigactions (sy_sigs s (pc_sig c)) ! sig" "sa_handler act \<noteq> SIG_DFL" "sa_handler act \<noteq> SIG_IGN" "sig \<notin> {SIGKILL, SIGSTOP, SIGCONT}"
  shows "handle_pending_signals V s cur restorer pad res =
    deliver_handler (upd_sig cur (\<lambda>ts. ts\<lparr> sigmask := mask_during_handler (sigmask (tc_sig b)) act sig \<rparr>)
      (take_signal s cur (pc_sig c) sig th)) cur p (pc_sig c) restorer pad res act sig (sigmask (tc_sig b))"
  using assms by (simp add: handle_pending_signals_def handle_signals_loop.simps Let_def)

lemma take_signal_tcb:
  assumes "sy_tcbs s cur = Some b"
  obtains b' where "sy_tcbs (take_signal s cur a sig th) cur = Some b'" "tc_cx b' = tc_cx b" "sigmask (tc_sig b') = sigmask (tc_sig b)"
    "is_restart (tc_sig b') = is_restart (tc_sig b)" "alternate_stack (tc_sig b') = alternate_stack (tc_sig b)"
  using assms that by (cases th) (simp_all add: take_signal_def upd_sig_def)

lemma next_signal_unblocked: "next_signal ts ps = Some (sig, th) \<Longrightarrow> \<not> ss_contains (sigmask ts) sig"
  by (auto simp: next_signal_def find_upt_Some split: option.splits)

lemma mask_during_handler_self:
  "\<not> fl_contains (sa_flags act) SA_NODEFER \<Longrightarrow> ss_contains (mask_during_handler m act sig) sig"
  by (simp add: mask_during_handler_def ss_bits)

lemma interrupt_syscall_upd:
  "interrupt_syscall res act sig tf (ts\<lparr> sigpending := x, sigmask := m \<rparr>) =
     (fst (interrupt_syscall res act sig tf ts), (snd (interrupt_syscall res act sig tf ts))\<lparr> sigpending := x, sigmask := m \<rparr>)"
  "sigmask (snd (interrupt_syscall res act sig tf ts)) = sigmask ts" "interrupt_syscall None act sig tf ts = (tf, ts)"
  "alternate_stack (snd (interrupt_syscall res act sig tf ts)) = alternate_stack ts"
  by (cases res; simp add: interrupt_syscall_def)+



text \<open>
  C29: a handler without \<open>SA_SIGINFO\<close> and without \<open>SA_NODEFER\<close> leaves its signal blocked.  Delivery enters the handler with the signal and the mask of the action blocked,
  and sigreturn restores the interrupted context, but not the mask: the signal stays blocked and is never delivered again
  until the program unblocks it.  A task once marked for a restart stays marked: the program counter is moved back by four
  bytes on every return.
\<close>

theorem plain_handler_stays_blocked:
  assumes "get_process s cur = Some (p, c)" "status (sy_exec s) (main_task c) \<noteq> Some Zombie" "status (sy_exec s) cur \<noteq> Some Zombie"
    "sy_tcbs s cur = Some b" "next_signal (tc_sig b) (sy_sigs s (pc_sig c)) = Some (sig, th)"
    "act = sigactions (sy_sigs s (pc_sig c)) ! sig" "sa_handler act \<noteq> SIG_DFL" "sa_handler act \<noteq> SIG_IGN" "sig \<notin> {SIGKILL, SIGSTOP, SIGCONT}"
    "r_a7 (regs (tc_cx b)) \<noteq> 139" "\<not> fl_contains (sa_flags act) SA_SIGINFO" "\<not> fl_contains (sa_flags act) SA_NODEFER"
  shows "\<exists>s'. handle_pending_signals V s cur restorer pad res = Some s'
    \<and> (\<forall>cx. \<exists>r s2 b2. sys_sigreturn (upd_tcb cur (\<lambda>b. b\<lparr> tc_cx := cx \<rparr>) s') cur = Some (Ok r, s2) \<and> sy_tcbs s2 cur = Some b2
         \<and> (let tf = fst (interrupt_syscall res act sig (tc_cx b) (tc_sig b))
            in tc_cx b2 = (if is_restart (tc_sig b2) then tf\<lparr> sepc := sepc tf - 4 \<rparr> else tf))
         \<and> (is_restart (tc_sig b) \<longrightarrow> is_restart (tc_sig b2))
         \<and> sigmask (tc_sig b2) = mask_during_handler (sigmask (tc_sig b)) act sig
         \<and> (\<forall>ps. next_signal (tc_sig b2) ps \<noteq> Some (sig, True) \<and> next_signal (tc_sig b2) ps \<noteq> Some (sig, False)))"
proof -
  let ?m = "mask_during_handler (sigmask (tc_sig b)) act sig"
  let ?s1 = "upd_sig cur (\<lambda>ts. ts\<lparr> sigmask := ?m \<rparr>) (take_signal s cur (pc_sig c) sig th)"
  obtain b1 where b1: "sy_tcbs (take_signal s cur (pc_sig c) sig th) cur = Some b1" "tc_cx b1 = tc_cx b"
    "is_restart (tc_sig b1) = is_restart (tc_sig b)"
    by (rule take_signal_tcb [OF assms(4), of "pc_sig c" sig th])
  define ts1 where "ts1 = (tc_sig b1)\<lparr> sigmask := ?m \<rparr>"
  have t1: "sy_tcbs ?s1 cur = Some (b1\<lparr> tc_sig := ts1 \<rparr>)" using b1(1) by (simp add: upd_sig_def ts1_def)
  obtain tf ts where i: "interrupt_syscall res act sig (tc_cx b) ts1 = (tf, ts)" by (cases "interrupt_syscall res act sig (tc_cx b) ts1")
  have tf: "fst (interrupt_syscall res act sig (tc_cx b) (tc_sig b)) = tf"
    using i by (auto simp: interrupt_syscall_def split: option.splits if_splits)
  have ts: "sigmask ts = ?m" "is_restart (tc_sig b) \<longrightarrow> is_restart ts"
    using i b1(3) by (auto simp: interrupt_syscall_def ts1_def split: option.splits if_splits)
  obtain s' b' where s': "deliver_handler ?s1 cur p (pc_sig c) restorer pad res act sig (sigmask (tc_sig b)) = Some s'"
    "sy_tcbs s' cur = Some b'" "tc_sig b' = ts\<lparr> last_context := Some tf, sig_info := False \<rparr>"
    using t1 i assms(10,11) b1(2) by (simp add: deliver_handler_def Let_def)
  have "handle_pending_signals V s cur restorer pad res = Some s'"
    using handle_enters_handler [OF assms(1-9), of V restorer pad res] s'(1) by simp
  moreover have "\<exists>r s2 b2. sys_sigreturn (upd_tcb cur (\<lambda>b. b\<lparr> tc_cx := cx \<rparr>) s') cur = Some (Ok r, s2) \<and> sy_tcbs s2 cur = Some b2
         \<and> tc_cx b2 = (if is_restart (tc_sig b2) then tf\<lparr> sepc := sepc tf - 4 \<rparr> else tf)
         \<and> (is_restart (tc_sig b) \<longrightarrow> is_restart (tc_sig b2)) \<and> sigmask (tc_sig b2) = ?m" for cx
  proof -
    let ?s = "upd_tcb cur (\<lambda>b. b\<lparr> tc_cx := cx \<rparr>) s'"
    have "sy_tcbs ?s cur = Some (b'\<lparr> tc_cx := cx \<rparr>)" using s'(2) by simp
    from sigreturn_plain [OF this, of tf] s'(2,3) ts show ?thesis by (simp add: resume_context_def)
  qed
  moreover have "next_signal ts2 ps \<noteq> Some (sig, th')" if "sigmask ts2 = ?m" for ts2 ps th'
    using next_signal_unblocked [of ts2 ps sig th'] mask_during_handler_self [OF assms(12)] that by auto
  ultimately show ?thesis unfolding tf Let_def by metis
qed

theorem plain_handler_stays_blocked_witness:
  "\<forall>k ms. \<exists>s'. handle_pending_signals flat_fs (demo_pending k ms 10 (demo_action 0)) 1 0x7000 [] None = Some s'
     \<and> (\<exists>r s2 b2. sys_sigreturn (upd_tcb 1 (\<lambda>b. b\<lparr> tc_cx := demo_cx 0 \<rparr>) s') 1 = Some (Ok r, s2) \<and> sy_tcbs s2 1 = Some b2
          \<and> sigmask (tc_sig b2) = mask_during_handler 0 (demo_action 0) 10)"
proof (intro allI)
  fix k ms
  let ?s = "demo_pending k ms 10 (demo_action 0)"
  let ?b = "(demo_tcb (ms_token ms) 0x5700)\<lparr> tc_sig := (task_signal_state_init 0)\<lparr> sigpending := ss_add 0 10 \<rparr> \<rparr>"
  note d = demo_pending_facts [where k = k and ms = ms and sig = 10 and act = "demo_action 0"]
  have pc: "main_task demo_pcb = 1" "pc_sig demo_pcb = 0" by (simp_all add: demo_pcb_def)
  have n: "next_signal (tc_sig ?b) (sy_sigs ?s (pc_sig demo_pcb)) = Some (10, True)"
  proof -
    have "List.find (\<lambda>i. ss_contains (ss_add 0 10) i \<and> \<not> ss_contains 0 i) [1..<NSIG] = Some 10"
      unfolding NSIG_def by code_simp
    then show ?thesis by (simp add: next_signal_def task_signal_state_init_def)
  qed
  have a: "demo_action 0 = sigactions (sy_sigs ?s (pc_sig demo_pcb)) ! 10" using d(4) by (simp add: pc NSIG_def)
  have h: "sa_handler (demo_action 0) \<noteq> SIG_DFL" "sa_handler (demo_action 0) \<noteq> SIG_IGN" "r_a7 (regs (tc_cx ?b)) \<noteq> 139"
    "\<not> fl_contains (sa_flags (demo_action 0)) SA_SIGINFO" "\<not> fl_contains (sa_flags (demo_action 0)) SA_NODEFER"
    by (simp_all add: demo_action_def SIG_DFL_def SIG_IGN_def fl_contains_def SA_SIGINFO_def SA_NODEFER_def demo_tcb_def tcb_new_def demo_cx_def
        regs_of_list_def)
  have z: "status (sy_exec ?s) (main_task demo_pcb) \<noteq> Some Zombie" "status (sy_exec ?s) 1 \<noteq> Some Zombie" using d(2) by (simp_all add: pc)
  have "sigmask (tc_sig ?b) = 0" by (simp add: task_signal_state_init_def)
  with plain_handler_stays_blocked [OF d(1) z d(3) n a h(1,2) _ h(3-5), where V = flat_fs and restorer = "0x7000" and pad = "[]" and res = None]
  show "\<exists>s'. handle_pending_signals flat_fs ?s 1 0x7000 [] None = Some s'
     \<and> (\<exists>r s2 b2. sys_sigreturn (upd_tcb 1 (\<lambda>b. b\<lparr> tc_cx := demo_cx 0 \<rparr>) s') 1 = Some (Ok r, s2) \<and> sy_tcbs s2 1 = Some b2
          \<and> sigmask (tc_sig b2) = mask_during_handler 0 (demo_action 0) 10)"
    by fastforce
qed

subsection \<open>Ignored signals\<close>

text \<open>The pending signals that are not blocked, as positions of bits; the bit of number 64 is never looked at.\<close>

definition unblocked :: "sig_set \<Rightarrow> sig_set \<Rightarrow> nat set" where
  "unblocked m pend = {n. n < 63 \<and> bit pend n \<and> \<not> bit m n}"

definition sig_ignored :: "process_signal_shared_state \<Rightarrow> signal \<Rightarrow> bool" where
  "sig_ignored ps sig \<longleftrightarrow> sig \<notin> {SIGKILL, SIGSTOP, SIGCONT}
     \<and> (sa_handler (sigactions ps ! sig) = SIG_IGN \<or> sa_handler (sigactions ps ! sig) = SIG_DFL \<and> default_action sig = Ignore)"

definition blocked_only :: "sig_set \<Rightarrow> sig_set \<Rightarrow> sig_set" where
  "blocked_only m pend = pend AND ss_add m 64"

definition settled :: "sig_set \<Rightarrow> 'w sys \<Rightarrow> nat \<Rightarrow> nat \<Rightarrow> 'w sys" where
  "settled m s cur a = (upd_sig cur (\<lambda>ts. ts\<lparr> sigpending := blocked_only m (sigpending ts) \<rparr>) s)\<lparr>
     sy_sigs := (sy_sigs s)(a := (sy_sigs s a)\<lparr> shared_sigpending := blocked_only m (shared_sigpending (sy_sigs s a)) \<rparr>) \<rparr>"

lemma blocked_only_bit: "bit (blocked_only m p) n \<longleftrightarrow> bit p n \<and> (bit m n \<or> n = 63)"
  by (auto simp: blocked_only_def bit_and_iff ss_add_bit sig_bit_def)

lemma blocked_only_same: "unblocked m p = {} \<Longrightarrow> blocked_only m p = p"
  by (rule bit_word_eqI) (auto simp: blocked_only_bit unblocked_def)

lemma blocked_only_remove: "sig_bit sig \<in> unblocked m p \<Longrightarrow> blocked_only m (ss_remove p sig) = blocked_only m p"
  by (rule bit_word_eqI) (auto simp: blocked_only_bit ss_remove_bit unblocked_def)

lemma unblocked_remove: "unblocked m (ss_remove p sig) = unblocked m p - {sig_bit sig}"
  by (auto simp: unblocked_def ss_remove_bit)

lemma finite_unblocked [simp]: "finite (unblocked m p)"
  by (simp add: unblocked_def)

lemma find_unblocked:
  "List.find (\<lambda>i. ss_contains p i \<and> \<not> ss_contains m i) [1..<NSIG] = Some sig \<Longrightarrow> 0 < sig \<and> sig < 64 \<and> sig_bit sig \<in> unblocked m p"
  "List.find (\<lambda>i. ss_contains p i \<and> \<not> ss_contains m i) [1..<NSIG] = None \<longleftrightarrow> unblocked m p = {}"
proof -
  show "0 < sig \<and> sig < 64 \<and> sig_bit sig \<in> unblocked m p"
    if "List.find (\<lambda>i. ss_contains p i \<and> \<not> ss_contains m i) [1..<NSIG] = Some sig"
    using that sig_bit_eq [of sig] by (auto simp: find_upt_Some NSIG_def ss_contains_bit unblocked_def)
  have "n \<notin> unblocked m p" if "\<forall>i. 1 \<le> i \<and> i < NSIG \<longrightarrow> \<not> (ss_contains p i \<and> \<not> ss_contains m i)" for n
    using that [rule_format, of "Suc n"] sig_bit_eq [of "Suc n"] by (auto simp: NSIG_def ss_contains_bit unblocked_def)
  moreover have "sig_bit i \<in> unblocked m p" if "1 \<le> i" "i < NSIG" "ss_contains p i" "\<not> ss_contains m i" for i
    using that sig_bit_eq [of i] by (auto simp: NSIG_def ss_contains_bit unblocked_def)
  ultimately show "List.find (\<lambda>i. ss_contains p i \<and> \<not> ss_contains m i) [1..<NSIG] = None \<longleftrightarrow> unblocked m p = {}"
    unfolding find_upt_None by blast
qed

lemma next_signal_None:
  "next_signal ts ps = None \<longleftrightarrow> unblocked (sigmask ts) (sigpending ts) = {} \<and> unblocked (sigmask ts) (shared_sigpending ps) = {}"
  unfolding find_unblocked(2) [symmetric] by (auto simp: next_signal_def split: option.splits)

lemma next_signal_Some:
  assumes "next_signal ts ps = Some (sig, th)"
  shows "0 < sig" "sig < 64" "sig_bit sig \<in> unblocked (sigmask ts) (if th then sigpending ts else shared_sigpending ps)"
  using assms find_unblocked(1) by (auto simp: next_signal_def split: option.splits)

lemma upd_sig_compose: "upd_sig t f (upd_sig t g s) = upd_sig t (\<lambda>ts. f (g ts)) s"
  by (simp add: upd_sig_def upd_tcb_def option.map_comp comp_def)

lemma upd_sig_id: "(\<And>b. sy_tcbs s t = Some b \<Longrightarrow> f (tc_sig b) = tc_sig b) \<Longrightarrow> upd_sig t f s = s"
  by (cases "sy_tcbs s t") (auto simp: upd_sig_def upd_tcb_def fun_upd_idem)

lemma take_signal_fields [simp]:
  "sy_tcbs (take_signal s cur a sig True) = sy_tcbs (upd_sig cur (\<lambda>ts. ts\<lparr> sigpending := ss_remove (sigpending ts) sig \<rparr>) s)"
  "sy_tcbs (take_signal s cur a sig False) = sy_tcbs s"
  "sigactions (sy_sigs (take_signal s cur a sig th) a) = sigactions (sy_sigs s a)"
  "shared_sigpending (sy_sigs (take_signal s cur a sig th) a) =
     (if th then shared_sigpending (sy_sigs s a) else ss_remove (shared_sigpending (sy_sigs s a)) sig)"
  by (simp_all add: take_signal_def upd_sig_def)

lemma settled_take_signal:
  assumes "sy_tcbs s cur = Some b" "sig_bit sig \<in> unblocked m (if th then sigpending (tc_sig b) else shared_sigpending (sy_sigs s a))"
  shows "settled m (take_signal s cur a sig th) cur a = settled m s cur a"
proof (cases th)
  case True
  then have "blocked_only m (ss_remove (sigpending (tc_sig b)) sig) = blocked_only m (sigpending (tc_sig b))"
    using blocked_only_remove assms(2) by simp
  then show ?thesis
    using True assms(1) by (simp add: settled_def take_signal_def upd_sig_def upd_tcb_def)
next
  case False
  then have "blocked_only m (ss_remove (shared_sigpending (sy_sigs s a)) sig) = blocked_only m (shared_sigpending (sy_sigs s a))"
    using blocked_only_remove assms(2) by simp
  then show ?thesis
    using False by (simp add: settled_def take_signal_def upd_sig_def upd_tcb_def)
qed

lemma settled_None:
  assumes "sy_tcbs s cur = Some b" "unblocked m (sigpending (tc_sig b)) = {}" "unblocked m (shared_sigpending (sy_sigs s a)) = {}"
  shows "settled m s cur a = s"
proof -
  have "upd_sig cur (\<lambda>ts. ts\<lparr> sigpending := blocked_only m (sigpending ts) \<rparr>) s = s"
    by (rule upd_sig_id) (simp add: assms(1) blocked_only_same [OF assms(2)])
  then show ?thesis by (simp add: settled_def blocked_only_same [OF assms(3)])
qed

text \<open>One turn of the loop on an ignored signal only takes it out of its set.\<close>

lemma handle_loop_ignored:
  assumes "sy_tcbs s cur = Some b" "next_signal (tc_sig b) (sy_sigs s a) = Some (sig, th)" "sig_ignored (sy_sigs s a) sig"
  shows "handle_signals_loop V s cur p a restorer pad res = handle_signals_loop V (take_signal s cur a sig th) cur p a restorer pad res"
proof -
  let ?s = "take_signal s cur a sig th" and ?act = "sigactions (sy_sigs s a) ! sig"
  let ?s1 = "upd_sig cur (\<lambda>ts. ts\<lparr> sigmask := mask_during_handler (sigmask (tc_sig b)) ?act sig \<rparr>) ?s"
  have r: "upd_sig cur (\<lambda>ts. ts\<lparr> sigmask := sigmask (tc_sig b) \<rparr>) ?s1 = ?s"
    unfolding upd_sig_compose using assms(1) by (intro upd_sig_id) (cases th; auto simp: upd_sig_def)
  have "perform_default_action V ?s1 cur sig = Some ?s1" if "sa_handler ?act \<noteq> SIG_IGN"
    using assms(3) that by (simp add: sig_ignored_def perform_default_action_def)
  moreover have "sig \<noteq> SIGKILL" "sig \<noteq> SIGSTOP" "sig \<noteq> SIGCONT" "sa_handler ?act = SIG_IGN \<or> sa_handler ?act = SIG_DFL" "SIG_IGN \<noteq> SIG_DFL"
    using assms(3) by (auto simp: sig_ignored_def SIG_IGN_def SIG_DFL_def)
  ultimately show ?thesis
    using assms(1,2) r by (subst handle_signals_loop.simps) (auto simp: Let_def)
qed

lemma handle_loop_settles:
  assumes "sy_tcbs s cur = Some b" "m = sigmask (tc_sig b)"
    "\<And>sig. 0 < sig \<Longrightarrow> sig < 64 \<Longrightarrow> sig_bit sig \<in> unblocked m (sigpending (tc_sig b)) \<union> unblocked m (shared_sigpending (sy_sigs s a))
      \<Longrightarrow> sig_ignored (sy_sigs s a) sig"
  shows "handle_signals_loop V s cur p a restorer pad res = Some (settled m s cur a)"
  using assms
proof (induction "card (unblocked m (sigpending (tc_sig b))) + card (unblocked m (shared_sigpending (sy_sigs s a)))" arbitrary: s b rule: less_induct)
  case less
  show ?case
  proof (cases "next_signal (tc_sig b) (sy_sigs s a)")
    case None
    then have "settled m s cur a = s"
      using settled_None [OF less.prems(1), of m a] less.prems(2) by (simp add: next_signal_None)
    then show ?thesis using None less.prems(1) by (subst handle_signals_loop.simps) simp
  next
    case (Some x)
    obtain sig th where x: "next_signal (tc_sig b) (sy_sigs s a) = Some (sig, th)" using Some by (cases x) auto
    note n = next_signal_Some [OF x, folded less.prems(2)]
    let ?s = "take_signal s cur a sig th"
    obtain b' where b': "sy_tcbs ?s cur = Some b'" "sigmask (tc_sig b') = m"
      "sigpending (tc_sig b') = (if th then ss_remove (sigpending (tc_sig b)) sig else sigpending (tc_sig b))"
      using less.prems(1,2) by (cases th) (auto simp: upd_sig_def)
    have c: "card (unblocked m (sigpending (tc_sig b'))) + card (unblocked m (shared_sigpending (sy_sigs ?s a)))
        < card (unblocked m (sigpending (tc_sig b))) + card (unblocked m (shared_sigpending (sy_sigs s a)))"
      using n(3) b'(3) by (cases th) (simp_all add: unblocked_remove card_Diff1_less del: card_Diff_insert)
    have "sig_ignored (sy_sigs ?s a) g" if "0 < g" "g < 64"
      "sig_bit g \<in> unblocked m (sigpending (tc_sig b')) \<union> unblocked m (shared_sigpending (sy_sigs ?s a))" for g
    proof -
      have "sig_bit g \<in> unblocked m (sigpending (tc_sig b)) \<union> unblocked m (shared_sigpending (sy_sigs s a))"
        using that(3) b'(3) by (cases th) (auto simp: unblocked_remove)
      then show ?thesis using less.prems(3) [OF that(1,2)] by (simp add: sig_ignored_def)
    qed
    then have "handle_signals_loop V ?s cur p a restorer pad res = Some (settled m ?s cur a)"
      using less.hyps [OF c b'(1)] b'(2) by blast
    moreover have "sig_ignored (sy_sigs s a) sig" using less.prems(3) [OF n(1,2)] n(3) by (cases th) auto
    ultimately show ?thesis
      using handle_loop_ignored [OF less.prems(1) x] settled_take_signal [OF less.prems(1), of sig m th a] n(3) by simp
  qed
qed

text \<open>
  C14: pending signals are used up.  When every pending signal that is not blocked is ignored, by its action or by default, delivery ends: it
  takes all of them out of the sets of the thread and of the process, leaves the blocked ones pending, and changes
  nothing else.
\<close>

theorem ignored_signals_consumed:
  assumes "get_process s cur = Some (p, c)" "status (sy_exec s) (main_task c) \<noteq> Some Zombie" "status (sy_exec s) cur \<noteq> Some Zombie"
    "sy_tcbs s cur = Some b"
    "\<forall>sig. 0 < sig \<and> sig < 64 \<and> (ss_contains (sigpending (tc_sig b)) sig \<or> ss_contains (shared_sigpending (sy_sigs s (pc_sig c))) sig)
       \<and> \<not> ss_contains (sigmask (tc_sig b)) sig \<longrightarrow> sig_ignored (sy_sigs s (pc_sig c)) sig"
  shows "handle_pending_signals V s cur restorer pad res = Some (settled (sigmask (tc_sig b)) s cur (pc_sig c))"
proof -
  have "handle_signals_loop V s cur p (pc_sig c) restorer pad res = Some (settled (sigmask (tc_sig b)) s cur (pc_sig c))"
    by (rule handle_loop_settles [OF assms(4) refl]) (use assms(5) in \<open>auto simp: unblocked_def ss_contains_bit\<close>)
  then show ?thesis using assms(1-3) by (simp add: handle_pending_signals_def)
qed

lemma add_only: "ss_contains (ss_add 0 n) i \<Longrightarrow> 0 < i \<Longrightarrow> i < 64 \<Longrightarrow> 0 < n \<Longrightarrow> n < 64 \<Longrightarrow> i = n"
  by (simp add: ss_bits sig_bit_eq)

theorem ignored_signals_consumed_witness:
  "\<forall>k ms. handle_pending_signals flat_fs (demo_pending k ms 17 sig_action_default) 1 0 [] None
     = Some (settled 0 (demo_pending k ms 17 sig_action_default) 1 0)"
proof (intro allI)
  fix k ms
  let ?s = "demo_pending k ms 17 sig_action_default"
  let ?b = "(demo_tcb (ms_token ms) 0x5700)\<lparr> tc_sig := (task_signal_state_init 0)\<lparr> sigpending := ss_add 0 17 \<rparr> \<rparr>"
  note d = demo_pending_facts [where k = k and ms = ms and sig = 17 and act = sig_action_default]
  have pc: "main_task demo_pcb = 1" "pc_sig demo_pcb = 0" by (simp_all add: demo_pcb_def)
  have z: "status (sy_exec ?s) (main_task demo_pcb) \<noteq> Some Zombie" "status (sy_exec ?s) 1 \<noteq> Some Zombie" using d(2) by (simp_all add: pc)
  have m: "sigmask (tc_sig ?b) = 0" "sigpending (tc_sig ?b) = ss_add 0 17" by (simp_all add: task_signal_state_init_def)
  have "sig_ignored (sy_sigs ?s 0) 17"
    using d(4) by (simp add: NSIG_def sig_ignored_def default_action_def sig_action_default_def)
  moreover have "\<not> ss_contains 0 i" for i by (simp add: ss_contains_bit)
  ultimately have "\<forall>sig. 0 < sig \<and> sig < 64 \<and> (ss_contains (sigpending (tc_sig ?b)) sig \<or> ss_contains (shared_sigpending (sy_sigs ?s (pc_sig demo_pcb))) sig)
       \<and> \<not> ss_contains (sigmask (tc_sig ?b)) sig \<longrightarrow> sig_ignored (sy_sigs ?s (pc_sig demo_pcb)) sig"
    unfolding pc m d(5) using add_only [of 17] by auto
  from ignored_signals_consumed [OF d(1) z d(3) this]
  show "handle_pending_signals flat_fs ?s 1 0 [] None = Some (settled 0 ?s 1 0)" by (simp only: pc m)
qed

subsection \<open>Signals sent to a running task\<close>

lemma next_signal_only:
  assumes "0 < sig" "sig < 64" "\<not> ss_contains (sigmask ts) sig" "sigpending ts = ss_add 0 sig"
  shows "next_signal ts ps = Some (sig, True)"
proof -
  have "\<not> ss_contains (ss_add 0 sig) j" if "1 \<le> j" "j < sig" for j
    using add_only [of sig j] that assms(2) by auto
  then have "List.find (\<lambda>i. ss_contains (sigpending ts) i \<and> \<not> ss_contains (sigmask ts) i) [1..<NSIG] = Some sig"
    unfolding find_upt_Some assms(4) using assms(1-3) by (simp add: NSIG_def) (simp add: ss_bits)
  then show ?thesis by (simp add: next_signal_def)
qed

text \<open>A signal sent to the running task by itself is the next one to be delivered.\<close>

lemma tkill_self:
  assumes "get_process s cur = Some (p, c)" "cur \<in> tid2tc s" "status (sy_exec s) cur = Some Running" "sy_tcbs s cur = Some b"
    "sigpending (tc_sig b) = 0" "0 < sig" "sig < 64" "\<not> ss_contains (sigmask (tc_sig b)) sig"
    "sa_handler (sigactions (sy_sigs s (pc_sig c)) ! sig) \<noteq> SIG_IGN \<or> sig = SIGKILL \<or> sig = SIGSTOP"
    "s' = upd_sig cur (\<lambda>ts. ts\<lparr> sigpending := ss_add (sigpending ts) sig \<rparr>) s"
  shows "sys_tkill s cur (of_nat sig) = Some (Ok 0, s')" "get_process s' cur = Some (p, c)"
    "\<exists>b'. sy_tcbs s' cur = Some b' \<and> tc_cx b' = tc_cx b \<and> sigmask (tc_sig b') = sigmask (tc_sig b)
      \<and> next_signal (tc_sig b') (sy_sigs s' (pc_sig c)) = Some (sig, True)"
proof -
  have u: "unat (of_nat sig :: usize) = sig" using assms(7) by (simp add: unat_of_nat)
  have "(of_nat sig :: usize) \<noteq> 0" using u assms(6) by auto
  moreover have "signal_from_usize (of_nat sig) = Some sig" using assms(7) by (simp add: signal_from_usize_def u NSIG_def)
  moreover have "send_signal_to_task s cur sig = Some (Ok (), s')"
    using assms(1,3,6,7,9,10) by (auto simp: send_signal_to_task_def NSIG_def Let_def wakeup_task_def upd_sig_def)
  ultimately show "sys_tkill s cur (of_nat sig) = Some (Ok 0, s')" using assms(2) by (simp add: sys_tkill_def)
  show "get_process s' cur = Some (p, c)" using assms(1,10) by (simp add: upd_sig_def get_process_upd_tcb)
  show "\<exists>b'. sy_tcbs s' cur = Some b' \<and> tc_cx b' = tc_cx b \<and> sigmask (tc_sig b') = sigmask (tc_sig b)
      \<and> next_signal (tc_sig b') (sy_sigs s' (pc_sig c)) = Some (sig, True)"
    using next_signal_only [OF assms(6,7), of "(tc_sig b)\<lparr> sigpending := ss_add 0 sig \<rparr>" "sy_sigs s (pc_sig c)"] assms(4,5,8,10)
    by (simp add: upd_sig_def)
qed

text \<open>
  A program can bring the kernel down with a signal to itself.  A running task without pending signals that sends itself \<open>SIGCONT\<close> or \<open>SIGSTOP\<close>,
  or one of \<open>SIGTSTP\<close>, \<open>SIGTTIN\<close>, \<open>SIGTTOU\<close> with the default action, succeeds, and the delivery that follows panics.
\<close>

lemma self_signal_panics:
  assumes "get_process s cur = Some (p, c)" "cur \<in> tid2tc s" "status (sy_exec s) cur = Some Running"
    "status (sy_exec s) (main_task c) \<noteq> Some Zombie" "sy_tcbs s cur = Some b"
    "sigpending (tc_sig b) = 0" "\<not> ss_contains (sigmask (tc_sig b)) sig"
    "sig \<in> {SIGCONT, SIGSTOP, 20, 21, 22}" "sa_handler (sigactions (sy_sigs s (pc_sig c)) ! sig) = SIG_DFL"
  shows "\<exists>s'. sys_tkill s cur (of_nat sig) = Some (Ok 0, s') \<and> handle_pending_signals V s' cur restorer pad res = None"
proof -
  have sig: "0 < sig" "sig < 64" "sig \<noteq> SIGKILL" using assms(8) by auto
  have ni: "sa_handler (sigactions (sy_sigs s (pc_sig c)) ! sig) \<noteq> SIG_IGN \<or> sig = SIGKILL \<or> sig = SIGSTOP"
    using assms(9) by (simp add: SIG_DFL_def SIG_IGN_def)
  define s' where "s' = upd_sig cur (\<lambda>ts. ts\<lparr> sigpending := ss_add (sigpending ts) sig \<rparr>) s"
  note t = tkill_self [OF assms(1-3,5,6) sig(1,2) assms(7) ni s'_def]
  have sy: "sy_sigs s' = sy_sigs s" "sy_exec s' = sy_exec s" by (simp_all add: s'_def upd_sig_def)
  obtain b' where b': "sy_tcbs s' cur = Some b'" "next_signal (tc_sig b') (sy_sigs s' (pc_sig c)) = Some (sig, True)" using t(3) by blast
  have "sig = SIGCONT \<or> sig = SIGSTOP \<or> default_action sig = Stop" using assms(8) by (auto simp: default_action_def)
  then have "handle_signals_loop V s' cur p (pc_sig c) restorer pad res = None"
    using b' assms(9) sig(3) by (subst handle_signals_loop.simps) (auto simp: sy Let_def perform_default_action_def)
  then have "handle_pending_signals V s' cur restorer pad res = None"
    using t(2) assms(3,4) by (simp add: handle_pending_signals_def sy)
  then show ?thesis using t(1) by blast
qed

lemma next_signal_lowest:
  assumes "0 < sig" "sig < 64" "ss_contains (sigpending ts) sig" "\<not> ss_contains (sigmask ts) sig"
    "\<And>i. 0 < i \<Longrightarrow> i < sig \<Longrightarrow> ss_contains (sigpending ts) i \<Longrightarrow> ss_contains (sigmask ts) i"
  shows "next_signal ts ps = Some (sig, True)"
proof -
  have "List.find (\<lambda>i. ss_contains (sigpending ts) i \<and> \<not> ss_contains (sigmask ts) i) [1..<NSIG] = Some sig"
    unfolding find_upt_Some using assms by (auto simp: NSIG_def)
  then show ?thesis by (simp add: next_signal_def)
qed

text \<open>A \<open>SIGKILL\<close> is never ignored when it is sent; it is next when it is not blocked and no signal with a smaller number is deliverable.\<close>

lemma tkill_kill:
  assumes "t \<in> tid2tc s" "get_process s t = Some (p, c)" "sy_tcbs s t = Some b" "wakeup_task (sy_exec s) t = Some e"
  obtains s' where "sys_tkill s t 9 = Some (Ok 0, s')" "sy_exec s' = e" "get_process s' t = Some (p, c)" "sy_sigs s' = sy_sigs s"
    "sy_tcbs s' t = Some (b\<lparr> tc_sig := (tc_sig b)\<lparr> sigpending := ss_add (sigpending (tc_sig b)) SIGKILL \<rparr> \<rparr>)"
proof -
  let ?u = "upd_sig t (\<lambda>ts. ts\<lparr> sigpending := ss_add (sigpending ts) SIGKILL \<rparr>) s"
  have ex: "sy_exec ?u = sy_exec s" by (simp add: upd_sig_def)
  have "send_signal_to_task s t SIGKILL = Some (Ok (), ?u\<lparr> sy_exec := e \<rparr>)"
    using assms(2,4) by (simp add: send_signal_to_task_def NSIG_def Let_def ex)
  then have 1: "sys_tkill s t 9 = Some (Ok 0, ?u\<lparr> sy_exec := e \<rparr>)" using assms(1) by (simp add: sys_tkill_def signal_from_usize_def NSIG_def)
  have "get_process (?u\<lparr> sy_exec := e \<rparr>) t = get_process ?u t" by (rule get_process_cong) simp_all
  then have "get_process (?u\<lparr> sy_exec := e \<rparr>) t = Some (p, c)" using assms(2) by (simp add: upd_sig_def get_process_upd_tcb)
  then show thesis using that [OF 1] assms(3) by (simp add: upd_sig_def)
qed

lemma deliver_kill:
  assumes "get_process s cur = Some (p, c)" "status (sy_exec s) (main_task c) \<noteq> Some Zombie" "status (sy_exec s) cur \<noteq> Some Zombie"
    "sy_tcbs s cur = Some b" "next_signal (tc_sig b) (sy_sigs s (pc_sig c)) = Some (SIGKILL, th)"
  shows "handle_pending_signals V s cur restorer pad res = exit_proc V (take_signal s cur (pc_sig c) SIGKILL th) cur 137"
  using assms by (simp add: handle_pending_signals_def handle_signals_loop.simps Let_def)

lemma fold_remove_bit:
  "bit (fold (\<lambda>i m. if ss_contains new i then ss_remove m i else m) is m) n \<longleftrightarrow> bit m n \<and> (\<forall>i\<in>set is. ss_contains new i \<longrightarrow> n \<noteq> sig_bit i)"
  by (induction "is" arbitrary: m) (auto simp: ss_remove_bit)

lemma unblock_kill: "ss_contains (apply_mask SIG_UNBLOCK new m) SIGKILL \<longleftrightarrow> ss_contains m SIGKILL \<and> \<not> ss_contains new SIGKILL"
proof -
  have "sig_bit i = i - 1" if "i \<in> set [1..<NSIG]" for i
    using that sig_bit_eq [of i] unfolding NSIG_def set_upt by simp
  moreover have k: "SIGKILL \<in> set [1..<NSIG]" unfolding NSIG_def set_upt by simp
  ultimately have "sig_bit SIGKILL \<noteq> sig_bit i \<longleftrightarrow> i \<noteq> SIGKILL" if "i \<in> set [1..<NSIG]" for i
    using that by (simp del: set_upt) (simp add: NSIG_def, arith)
  then have "(\<forall>i\<in>set [1..<NSIG]. ss_contains new i \<longrightarrow> sig_bit SIGKILL \<noteq> sig_bit i) \<longleftrightarrow> \<not> ss_contains new SIGKILL"
    using k by blast
  then have "bit (apply_mask SIG_UNBLOCK new m) (sig_bit SIGKILL) \<longleftrightarrow> bit m (sig_bit SIGKILL) \<and> \<not> ss_contains new SIGKILL"
    by (simp only: apply_mask.simps fold_remove_bit)
  then show ?thesis by (simp only: ss_contains_bit)
qed

lemma wakeup_not_zombie:
  assumes "wakeup_task e t = Some e'"
  shows "status e' t \<noteq> Some Zombie"
  using assms by (auto simp: wakeup_task_def Let_def split: option.splits task_status.splits)

text \<open>
  C15: the effect of \<open>SIGKILL\<close>.  When \<open>SIGKILL\<close> is the next signal of a task whose process has not ended, of its own or of its process, delivery
  ends the process with exit code 137, whatever its action.  \<open>tkill\<close> of a registered task that can be woken
  (it is not \<open>Waked\<close> or \<open>Zombie\<close>) makes \<open>SIGKILL\<close> pending, whatever its action; it is the next signal if it is not blocked and no pending signal
  with a smaller number is unblocked, so that the task's next delivery ends the process.  A task that blocks \<open>SIGKILL\<close> is never given it,
  and it can be blocked: \<open>SIG_SETMASK\<close> removes it from the new mask, but \<open>SIG_BLOCK\<close> blocks it when it is in the given set,
  \<open>SIG_UNBLOCK\<close> unblocks it exactly when it is in the given set, the mask of an action blocks it during the handler,
  and sigreturn takes the mask from the context in user memory as it is.
\<close>

theorem sigkill_effect:
  "(get_process s cur = Some (p, c) \<and> status (sy_exec s) (main_task c) \<noteq> Some Zombie \<and> status (sy_exec s) cur \<noteq> Some Zombie
      \<and> sy_tcbs s cur = Some b \<and> next_signal (tc_sig b) (sy_sigs s (pc_sig c)) = Some (SIGKILL, th) \<longrightarrow>
      handle_pending_signals V s cur restorer pad res = exit_proc V (take_signal s cur (pc_sig c) SIGKILL th) cur 137)
   \<and> (t \<in> tid2tc s \<and> get_process s t = Some (p, c) \<and> sy_tcbs s t = Some b \<and> wakeup_task (sy_exec s) t = Some e \<longrightarrow>
      (\<exists>s' b'. sys_tkill s t 9 = Some (Ok 0, s') \<and> sy_exec s' = e \<and> sy_tcbs s' t = Some b' \<and> ss_contains (sigpending (tc_sig b')) SIGKILL
         \<and> (\<not> ss_contains (sigmask (tc_sig b)) SIGKILL \<and> status e (main_task c) \<noteq> Some Zombie
             \<and> (\<forall>i. 0 < i \<and> i < SIGKILL \<and> ss_contains (sigpending (tc_sig b)) i \<longrightarrow> ss_contains (sigmask (tc_sig b)) i) \<longrightarrow>
               handle_pending_signals V s' t restorer pad res = exit_proc V (take_signal s' t (pc_sig c) SIGKILL True) t 137)))
   \<and> (ss_contains (sigmask ts) SIGKILL \<longrightarrow> (\<forall>th. next_signal ts ps \<noteq> Some (SIGKILL, th)))
   \<and> \<not> ss_contains (apply_mask SIG_SETMASK new m) SIGKILL
   \<and> (ss_contains (apply_mask SIG_BLOCK new m) SIGKILL \<longleftrightarrow> ss_contains new SIGKILL \<or> ss_contains m SIGKILL)
   \<and> (ss_contains (apply_mask SIG_UNBLOCK new m) SIGKILL \<longleftrightarrow> ss_contains m SIGKILL \<and> \<not> ss_contains new SIGKILL)
   \<and> (0 < sig \<and> sig \<le> 64 \<and> sig \<noteq> SIGKILL \<longrightarrow>
      (ss_contains (mask_during_handler m act sig) SIGKILL \<longleftrightarrow> ss_contains m SIGKILL \<or> ss_contains (sa_mask act) SIGKILL))
   \<and> (sy_tcbs s cur = Some b \<and> last_context (tc_sig b) = Some old \<and> sig_info (tc_sig b) \<and> get_process s cur = Some (p, c)
        \<and> get_target_ref (sy_mem s) (get_user_token s c) (r_sp (regs (tc_cx b))) ucontext_size = Some (Ok (Some pa)) \<longrightarrow>
      (\<exists>r s2 b2. sys_sigreturn s cur = Some (Ok r, s2) \<and> sy_tcbs s2 cur = Some b2
         \<and> sigmask (tc_sig b2) = uc_sigmask (ucontext_of_bytes (pm_read (sy_mem s) pa ucontext_size))))"
proof (intro conjI)
  show "get_process s cur = Some (p, c) \<and> status (sy_exec s) (main_task c) \<noteq> Some Zombie \<and> status (sy_exec s) cur \<noteq> Some Zombie
      \<and> sy_tcbs s cur = Some b \<and> next_signal (tc_sig b) (sy_sigs s (pc_sig c)) = Some (SIGKILL, th) \<longrightarrow>
      handle_pending_signals V s cur restorer pad res = exit_proc V (take_signal s cur (pc_sig c) SIGKILL th) cur 137"
    using deliver_kill by blast
  show "ss_contains (sigmask ts) SIGKILL \<longrightarrow> (\<forall>th. next_signal ts ps \<noteq> Some (SIGKILL, th))" using next_signal_unblocked by blast
  show "\<not> ss_contains (apply_mask SIG_SETMASK new m) SIGKILL"
    "ss_contains (apply_mask SIG_BLOCK new m) SIGKILL \<longleftrightarrow> ss_contains new SIGKILL \<or> ss_contains m SIGKILL"
    by (auto simp: ss_bits)
  show "ss_contains (apply_mask SIG_UNBLOCK new m) SIGKILL \<longleftrightarrow> ss_contains m SIGKILL \<and> \<not> ss_contains new SIGKILL" by (rule unblock_kill)
  show "0 < sig \<and> sig \<le> 64 \<and> sig \<noteq> SIGKILL \<longrightarrow>
      (ss_contains (mask_during_handler m act sig) SIGKILL \<longleftrightarrow> ss_contains m SIGKILL \<or> ss_contains (sa_mask act) SIGKILL)"
    by (auto simp: mask_during_handler_def ss_bits sig_bit_eq)
  show "sy_tcbs s cur = Some b \<and> last_context (tc_sig b) = Some old \<and> sig_info (tc_sig b) \<and> get_process s cur = Some (p, c)
        \<and> get_target_ref (sy_mem s) (get_user_token s c) (r_sp (regs (tc_cx b))) ucontext_size = Some (Ok (Some pa)) \<longrightarrow>
      (\<exists>r s2 b2. sys_sigreturn s cur = Some (Ok r, s2) \<and> sy_tcbs s2 cur = Some b2
         \<and> sigmask (tc_sig b2) = uc_sigmask (ucontext_of_bytes (pm_read (sy_mem s) pa ucontext_size)))"
    using sigreturn_info [of s cur b old p c pa] by auto
  show "t \<in> tid2tc s \<and> get_process s t = Some (p, c) \<and> sy_tcbs s t = Some b \<and> wakeup_task (sy_exec s) t = Some e \<longrightarrow>
      (\<exists>s' b'. sys_tkill s t 9 = Some (Ok 0, s') \<and> sy_exec s' = e \<and> sy_tcbs s' t = Some b' \<and> ss_contains (sigpending (tc_sig b')) SIGKILL
         \<and> (\<not> ss_contains (sigmask (tc_sig b)) SIGKILL \<and> status e (main_task c) \<noteq> Some Zombie
             \<and> (\<forall>i. 0 < i \<and> i < SIGKILL \<and> ss_contains (sigpending (tc_sig b)) i \<longrightarrow> ss_contains (sigmask (tc_sig b)) i) \<longrightarrow>
               handle_pending_signals V s' t restorer pad res = exit_proc V (take_signal s' t (pc_sig c) SIGKILL True) t 137))"
  proof
    assume a: "t \<in> tid2tc s \<and> get_process s t = Some (p, c) \<and> sy_tcbs s t = Some b \<and> wakeup_task (sy_exec s) t = Some e"
    let ?b = "b\<lparr> tc_sig := (tc_sig b)\<lparr> sigpending := ss_add (sigpending (tc_sig b)) SIGKILL \<rparr> \<rparr>"
    obtain s' where k: "sys_tkill s t 9 = Some (Ok 0, s')" "sy_exec s' = e" "get_process s' t = Some (p, c)" "sy_sigs s' = sy_sigs s"
      "sy_tcbs s' t = Some ?b"
      using tkill_kill [of t s p c b e] a by blast
    have "handle_pending_signals V s' t restorer pad res = exit_proc V (take_signal s' t (pc_sig c) SIGKILL True) t 137"
      if h: "\<not> ss_contains (sigmask (tc_sig b)) SIGKILL \<and> status e (main_task c) \<noteq> Some Zombie
        \<and> (\<forall>i. 0 < i \<and> i < SIGKILL \<and> ss_contains (sigpending (tc_sig b)) i \<longrightarrow> ss_contains (sigmask (tc_sig b)) i)"
    proof (rule deliver_kill [OF k(3) _ _ k(5)])
      show "status (sy_exec s') (main_task c) \<noteq> Some Zombie" "status (sy_exec s') t \<noteq> Some Zombie"
        using h a wakeup_not_zombie by (auto simp: k(2))
      show "next_signal (tc_sig ?b) (sy_sigs s' (pc_sig c)) = Some (SIGKILL, True)"
      proof (rule next_signal_lowest)
        show "ss_contains (sigmask (tc_sig ?b)) i" if "0 < i" "i < SIGKILL" "ss_contains (sigpending (tc_sig ?b)) i" for i
          using h that by (auto simp: ss_bits sig_bit_eq)
      qed (use h in \<open>auto simp: ss_bits\<close>)
    qed
    moreover have "ss_contains (sigpending (tc_sig ?b)) SIGKILL" by (simp add: ss_bits)
    ultimately show "\<exists>s' b'. sys_tkill s t 9 = Some (Ok 0, s') \<and> sy_exec s' = e \<and> sy_tcbs s' t = Some b' \<and> ss_contains (sigpending (tc_sig b')) SIGKILL
         \<and> (\<not> ss_contains (sigmask (tc_sig b)) SIGKILL \<and> status e (main_task c) \<noteq> Some Zombie
             \<and> (\<forall>i. 0 < i \<and> i < SIGKILL \<and> ss_contains (sigpending (tc_sig b)) i \<longrightarrow> ss_contains (sigmask (tc_sig b)) i) \<longrightarrow>
               handle_pending_signals V s' t restorer pad res = exit_proc V (take_signal s' t (pc_sig c) SIGKILL True) t 137)"
      using k(1,2,5) by blast
  qed
qed

lemma demo_ready:
  "get_process (demo_sys k ms stack) 1 = Some (1, demo_pcb)" "1 \<in> tid2tc (demo_sys k ms stack)"
  "status (sy_exec (demo_sys k ms stack)) 1 = Some Running" "status (sy_exec (demo_sys k ms stack)) (main_task demo_pcb) \<noteq> Some Zombie"
  "sy_tcbs (demo_sys k ms stack) 1 = Some (demo_tcb (ms_token ms) stack)"
  "sigpending (tc_sig (demo_tcb (ms_token ms) stack)) = 0" "\<not> ss_contains (sigmask (tc_sig (demo_tcb (ms_token ms) stack))) sig"
proof -
  show "get_process (demo_sys k ms stack) 1 = Some (1, demo_pcb)" by (rule demo_process)
  show "status (sy_exec (demo_sys k ms stack)) 1 = Some Running" by (rule demo_status)
  then show "status (sy_exec (demo_sys k ms stack)) (main_task demo_pcb) \<noteq> Some Zombie" by (simp add: demo_pcb_def)
qed (simp_all add: demo_sys_def demo_tcb_def tcb_new_def task_signal_state_init_def ss_contains_bit)

lemma self_signal_panics_witness:
  "\<forall>k ms. \<exists>s'. sys_tkill (demo_sys k ms 0) 1 18 = Some (Ok 0, s') \<and> handle_pending_signals flat_fs s' 1 0 [] None = None"
proof (intro allI)
  fix k ms
  have "sa_handler (sigactions (sy_sigs (demo_sys k ms 0) (pc_sig demo_pcb)) ! SIGCONT) = SIG_DFL"
    by (simp add: demo_sys_def shared_state_default_def NSIG_def sig_action_default_def)
  from self_signal_panics [OF demo_ready _ this, where V = flat_fs and restorer = 0 and pad = "[]" and res = None]
  show "\<exists>s'. sys_tkill (demo_sys k ms 0) 1 18 = Some (Ok 0, s') \<and> handle_pending_signals flat_fs s' 1 0 [] None = None" by simp
qed

theorem sigkill_effect_witness:
  "\<forall>k ms. \<exists>s'. sys_tkill (demo_sys k ms 0) 1 9 = Some (Ok 0, s')
     \<and> handle_pending_signals flat_fs s' 1 0 [] None = exit_proc flat_fs (take_signal s' 1 (pc_sig demo_pcb) SIGKILL True) 1 137"
proof (intro allI)
  fix k ms
  let ?s = "demo_sys k ms 0" and ?b = "demo_tcb (ms_token ms) 0"
  have w: "wakeup_task (sy_exec ?s) 1 = Some (sy_exec ?s)" unfolding wakeup_task_def demo_ready(3) by simp
  have p: "\<not> ss_contains (sigpending (tc_sig ?b)) i" for i by (simp add: demo_ready(6) ss_contains_bit)
  have u: "1 \<in> tid2tc ?s \<and> get_process ?s 1 = Some (1, demo_pcb) \<and> sy_tcbs ?s 1 = Some ?b \<and> wakeup_task (sy_exec ?s) 1 = Some (sy_exec ?s)"
    using demo_ready(2) demo_ready(1) demo_ready(5) w by blast
  note k = mp [OF conjunct1 [OF conjunct2 [OF sigkill_effect [where V = flat_fs and restorer = 0 and pad = "[]" and res = None]]] u]
  show "\<exists>s'. sys_tkill ?s 1 9 = Some (Ok 0, s')
     \<and> handle_pending_signals flat_fs s' 1 0 [] None = exit_proc flat_fs (take_signal s' 1 (pc_sig demo_pcb) SIGKILL True) 1 137"
    using k p demo_ready(4,7) by blast
qed

end
