(* ===== verification/Process_Props.thy ===== *)
theory Process_Props
  imports Signal_Props
begin

text \<open>
  Properties of processes.  The process tree, every process with its parent and its children, is read off the control blocks;
  clone, exit and wait4 act on it by adding a child, by giving the children to the initial process and by removing a child.
\<close>

subsection \<open>The process tree\<close>

type_synonym ptree = "nat \<Rightarrow> (nat \<times> nat list) option"

definition ptree :: "'w sys \<Rightarrow> ptree" where
  "ptree s p = map_option (\<lambda>c. (pc_parent c, pc_children c)) (sy_pcbs s p)"

definition t_children :: "ptree \<Rightarrow> nat \<Rightarrow> nat list" where
  "t_children t p = (case t p of None \<Rightarrow> [] | Some (_, cs) \<Rightarrow> cs)"

definition t_set_children :: "nat \<Rightarrow> nat list \<Rightarrow> ptree \<Rightarrow> ptree" where
  "t_set_children p cs t = t(p := map_option (\<lambda>(q, _). (q, cs)) (t p))"

definition t_set_parent :: "nat \<Rightarrow> nat \<Rightarrow> ptree \<Rightarrow> ptree" where
  "t_set_parent p q t = t(p := map_option (\<lambda>(_, cs). (q, cs)) (t p))"

definition t_fork :: "nat \<Rightarrow> nat \<Rightarrow> nat \<Rightarrow> ptree \<Rightarrow> ptree" where
  "t_fork p par ch t = (let t = t(ch \<mapsto> (par, [])) in t_set_children p (t_children t p @ [ch]) t)"

definition t_reap :: "nat \<Rightarrow> nat \<Rightarrow> bool \<Rightarrow> ptree \<Rightarrow> ptree" where
  "t_reap p ch gone t = (let t = t_set_children p (remove1 ch (t_children t p)) t in if gone then t(ch := None) else t)"

fun t_adopt :: "nat \<Rightarrow> nat list \<Rightarrow> ptree \<Rightarrow> ptree" where
  "t_adopt i [] t = t"
| "t_adopt i (ch # cs) t = t_adopt i cs (let t = t_set_parent ch i t in t_set_children i (t_children t i @ [ch]) t)"

definition t_exit :: "nat \<Rightarrow> nat \<Rightarrow> ptree \<Rightarrow> ptree" where
  "t_exit i p t = (if p = i then t else t_adopt i (t_children t p) (t_set_children p [] t))"

text \<open>Every child has a control block that names its parent, no child is listed twice, and the initial process is nobody's child; no process is its own child.\<close>

definition tree_ok :: "nat \<Rightarrow> ptree \<Rightarrow> bool" where
  "tree_ok i t \<longleftrightarrow> t i \<noteq> None \<and> (\<forall>p q cs. t p = Some (q, cs) \<longrightarrow> distinct cs \<and> i \<notin> set cs \<and> p \<notin> set cs
     \<and> (\<forall>ch\<in>set cs. \<exists>ds. t ch = Some (p, ds)))"

lemma t_children_Some [simp]: "t p = Some (q, cs) \<Longrightarrow> t_children t p = cs"
  by (simp add: t_children_def)

lemma tree_okD:
  assumes "tree_ok i t" "t p = Some (q, cs)"
  shows "distinct cs" "i \<notin> set cs" "p \<notin> set cs" "ch \<in> set cs \<Longrightarrow> \<exists>ds. t ch = Some (p, ds)"
  using assms by (auto simp: tree_ok_def)

lemma tree_ok_children:
  assumes "tree_ok i t"
  shows "distinct (t_children t p)" "i \<notin> set (t_children t p)" "p \<notin> set (t_children t p)" "ch \<in> set (t_children t p) \<Longrightarrow> \<exists>ds. t ch = Some (p, ds)"
  using tree_okD [OF assms, of p] by (cases "t p"; auto simp: t_children_def)+

lemma tree_ok_fork:
  assumes "tree_ok i t" "t ch = None" "t p \<noteq> None"
  shows "tree_ok i (t_fork p p ch t)"
proof -
  obtain q cs where p: "t p = Some (q, cs)" using assms(3) by auto
  note c = tree_okD [OF assms(1) p]
  have pc: "p \<noteq> ch" using assms(2,3) by auto
  have i: "ch \<noteq> i" using assms(1,2) by (auto simp: tree_ok_def)
  have new: "ch \<notin> set ds" if "t r = Some (q', ds)" for r q' ds using tree_okD(4) [OF assms(1) that, of ch] assms(2) by auto
  have f: "t_fork p p ch t = t(ch \<mapsto> (p, []), p \<mapsto> (q, cs @ [ch]))"
    using p pc by (simp add: t_fork_def t_set_children_def t_children_def)
  show ?thesis
    unfolding f tree_ok_def
  proof (intro conjI allI impI)
    show "(t(ch \<mapsto> (p, []), p \<mapsto> (q, cs @ [ch]))) i \<noteq> None" using assms(1) by (auto simp: tree_ok_def)
    fix r q' ds assume r: "(t(ch \<mapsto> (p, []), p \<mapsto> (q, cs @ [ch]))) r = Some (q', ds)"
    consider "r = p" "ds = cs @ [ch]" | "r = ch" "ds = []" "r \<noteq> p" | "r \<noteq> p" "r \<noteq> ch" "t r = Some (q', ds)"
      using r by (auto split: if_splits)
    then show "distinct ds" "i \<notin> set ds" "r \<notin> set ds" "\<forall>x\<in>set ds. \<exists>es. (t(ch \<mapsto> (p, []), p \<mapsto> (q, cs @ [ch]))) x = Some (r, es)"
      using c new [OF p] new i pc tree_okD [OF assms(1)] p by (cases; fastforce)+
  qed
qed

lemma tree_ok_reap:
  assumes "tree_ok i t" "ch \<in> set (t_children t p)"
  shows "tree_ok i (t_reap p ch gone t)"
proof -
  obtain q cs where p: "t p = Some (q, cs)" using assms(2) by (cases "t p") (auto simp: t_children_def)
  note c = tree_okD [OF assms(1) p]
  have ch: "ch \<in> set cs" using assms(2) p by simp
  have f: "t_reap p ch gone t = (let u = t(p \<mapsto> (q, remove1 ch cs)) in if gone then u(ch := None) else u)"
    using p by (simp add: t_reap_def t_set_children_def)
  have only: "r = p" if "t r = Some (q', ds)" "ch \<in> set ds" for r q' ds
    using tree_okD(4) [OF assms(1) that] c(4) [OF ch] by auto
  have rem: "set (remove1 ch cs) = set cs - {ch}" using c(1) by simp
  have kept: "\<exists>es. (t_reap p ch gone t) x = Some (r, es)" if "t r = Some (q', ds)" "x \<in> set ds" "x \<noteq> ch" for r q' ds x
    using tree_okD(4) [OF assms(1) that(1,2)] that(3) p by (auto simp: f Let_def)
  show ?thesis
    unfolding tree_ok_def
  proof (intro conjI allI impI)
    have "i \<noteq> ch" using c(2) ch by auto
    then show "t_reap p ch gone t i \<noteq> None" using assms(1) by (auto simp: f Let_def tree_ok_def)
    fix r q' ds assume r: "t_reap p ch gone t r = Some (q', ds)"
    consider "r = p" "ds = remove1 ch cs" | "r \<noteq> p" "t r = Some (q', ds)" "ch \<notin> set ds"
      using r only by (auto simp: f Let_def split: if_splits)
    then show "distinct ds" "i \<notin> set ds" "r \<notin> set ds" "\<forall>x\<in>set ds. \<exists>es. t_reap p ch gone t x = Some (r, es)"
      using c p rem tree_okD [OF assms(1)] kept by (cases; fastforce)+
  qed
qed

lemma t_adopt_at:
  assumes "t i = Some (q, js)" "distinct cs" "i \<notin> set cs"
  shows "t_adopt i cs t x = (if x = i then Some (q, js @ cs) else if x \<in> set cs then map_option (\<lambda>(_, ds). (i, ds)) (t x) else t x)"
  using assms
proof (induction cs arbitrary: t js)
  case (Cons ch cs)
  let ?u = "let t = t_set_parent ch i t in t_set_children i (t_children t i @ [ch]) t"
  have u: "?u = (t(ch := map_option (\<lambda>(_, ds). (i, ds)) (t ch)))(i \<mapsto> (q, js @ [ch]))"
    using Cons.prems by (simp add: t_set_parent_def t_set_children_def t_children_def)
  have "t_adopt i cs ?u x = (if x = i then Some (q, (js @ [ch]) @ cs) else if x \<in> set cs then map_option (\<lambda>(_, ds). (i, ds)) (?u x) else ?u x)"
    by (rule Cons.IH) (use Cons.prems u in simp_all)
  then show ?case using Cons.prems unfolding t_adopt.simps u by auto
qed auto

lemma t_exit_at:
  assumes "tree_ok i t" "t p = Some (q, cs)" "p \<noteq> i" "t i = Some (qi, js)"
  shows "t_exit i p t x = (if x = i then Some (qi, js @ cs) else if x = p then Some (q, [])
    else if x \<in> set cs then map_option (\<lambda>(_, ds). (i, ds)) (t x) else t x)"
proof -
  have "(t_set_children p [] t) i = Some (qi, js)" using assms by (simp add: t_set_children_def)
  from t_adopt_at [where t = "t_set_children p [] t", OF this tree_okD(1,2) [OF assms(1,2)]] show ?thesis
    using assms tree_okD(3) [OF assms(1,2)] by (simp add: t_exit_def t_set_children_def)
qed

lemma tree_ok_exit:
  assumes "tree_ok i t" "t p = Some (q, cs)"
  shows "tree_ok i (t_exit i p t)"
proof (cases "p = i")
  case False
  obtain qi js where i: "t i = Some (qi, js)" using assms(1) by (auto simp: tree_ok_def)
  note at = t_exit_at [OF assms(1,2) False i]
  note c = tree_okD [OF assms(1,2)] and ci = tree_okD [OF assms(1) i]
  have disj: "set js \<inter> set cs = {}" using c(4) ci(4) False by fastforce
  have other: "x \<notin> set cs" if "t r = Some (q', ds)" "x \<in> set ds" "r \<noteq> p" for r q' ds x
    using tree_okD(4) [OF assms(1) that(1,2)] c(4) [of x] that(3) by auto
  show ?thesis
    unfolding tree_ok_def
  proof (intro conjI allI impI)
    show "t_exit i p t i \<noteq> None" by (simp add: at)
    fix r q' ds assume r: "t_exit i p t r = Some (q', ds)"
    have pi: "\<exists>es. t_exit i p t x = Some (i, es)" if "x \<in> set (js @ cs)" for x
      using that c ci(2,4) False by (cases "x = p") (fastforce simp: at assms(2))+
    have po: "\<exists>es. t_exit i p t x = Some (r, es)" if "t r = Some (q'', ds)" "x \<in> set ds" "r \<noteq> p" "r \<noteq> i" for q'' x
      using tree_okD(2,4) [OF assms(1) that(1)] that other [OF that(1,2,3)] assms(2) by (cases "x = p") (fastforce simp: at)+
    consider "r = i" "ds = js @ cs" | "r = p" "ds = []" | q'' where "r \<noteq> p" "r \<noteq> i" "t r = Some (q'', ds)"
      using r by (auto simp: at split: if_splits)
    then show "distinct ds" "i \<notin> set ds" "r \<notin> set ds" "\<forall>x\<in>set ds. \<exists>es. t_exit i p t x = Some (r, es)"
      using c ci disj pi po tree_okD(1,2,3) [OF assms(1)] by (cases; fastforce)+
  qed
qed (use assms in \<open>simp add: t_exit_def\<close>)

subsection \<open>The operations on the tree\<close>

text \<open>What the memory accesses of these operations leave alone: the blocks, the tables and the allocator of pids.\<close>

definition same_blocks :: "'w sys \<Rightarrow> 'w sys \<Rightarrow> bool" where
  "same_blocks s s' \<longleftrightarrow> sy_tcbs s' = sy_tcbs s \<and> sy_pcbs s' = sy_pcbs s \<and> pid2pc s' = pid2pc s \<and> tid2tc s' = tid2tc s
     \<and> sy_pids s' = sy_pids s \<and> init_pid s' = init_pid s"

lemma same_blocks_refl [simp]: "same_blocks s s"
  by (simp add: same_blocks_def)

lemma same_blocks_trans: "same_blocks s s' \<Longrightarrow> same_blocks s' s'' \<Longrightarrow> same_blocks s s''"
  by (simp add: same_blocks_def)

lemma same_blocks_alloc: "proc_alloc_type_for_lazy V s c a n = Some (r, s') \<Longrightarrow> same_blocks s s' \<and> sy_exec s' = sy_exec s"
  by (auto simp: proc_alloc_type_for_lazy_def bind_eq_Some_conv same_blocks_def)

lemma same_blocks_wake: "sys_futex_wake_one s key = Some s' \<Longrightarrow> same_blocks s s'"
  by (auto simp: sys_futex_wake_one_def bind_eq_Some_conv same_blocks_def)

lemma same_blocks_clear:
  assumes "clear_child_tid s t = Some (r, s')"
  shows "same_blocks s s'"
proof -
  have w: "same_blocks s s''" if "sys_futex_wake_one (s\<lparr> sy_mem := k \<rparr>) key = Some s''" for k key s''
    using same_blocks_wake [OF that] by (simp add: same_blocks_def)
  obtain b where b: "sy_tcbs s t = Some b" using assms by (auto simp: clear_child_tid_def bind_eq_Some_conv)
  show ?thesis
  proof (cases "tc_child_tid b = None \<or> tc_child_tid b = Some 0")
    case False
    then obtain ctid x where x: "tc_child_tid b = Some ctid" "ctid \<noteq> 0" "translated_refmut (sy_mem s) (tc_token b) ctid = Some x"
      using assms b by (auto simp: clear_child_tid_def bind_eq_Some_conv)
    then show ?thesis using assms b w by (cases x) (auto simp: clear_child_tid_def bind_eq_Some_conv)
  qed (use assms b in \<open>auto simp: clear_child_tid_def\<close>)
qed

lemma same_blocks_clear_tids: "exit_clear_tids V s c ts = Some s' \<Longrightarrow> same_blocks s s'"
proof (induction ts arbitrary: s)
  case (Cons t ts)
  then obtain b s1 where b: "sy_tcbs s t = Some b" and r: "exit_clear_tids V s1 c ts = Some s'"
    and m: "(case tc_child_tid b of None \<Rightarrow> Some s | Some ptr \<Rightarrow> do { (r, s) \<leftarrow> proc_alloc_type_for_lazy V s c ptr 4;
          (case r of Inl _ \<Rightarrow> Some s | Inr _ \<Rightarrow> do { (_, s) \<leftarrow> clear_child_tid s t; Some s }) }) = Some s1"
    by (auto simp: bind_eq_Some_conv)
  have "same_blocks s s1"
  proof (cases "tc_child_tid b")
    case (Some ptr)
    then obtain r s2 where a: "proc_alloc_type_for_lazy V s c ptr 4 = Some (r, s2)"
      and n: "(case r of Inl _ \<Rightarrow> Some s2 | Inr _ \<Rightarrow> do { (_, s) \<leftarrow> clear_child_tid s2 t; Some s }) = Some s1"
      using m by (auto simp: bind_eq_Some_conv)
    have "same_blocks s2 s1" using n by (cases r) (auto simp: bind_eq_Some_conv dest: same_blocks_clear)
    then show ?thesis using same_blocks_alloc [OF a] same_blocks_trans by blast
  qed (use m in simp)
  then show ?case using Cons.IH [OF r] by (rule same_blocks_trans)
qed simp

lemma ptree_cong: "sy_pcbs s' = sy_pcbs s \<Longrightarrow> ptree s' = ptree s"
  by (auto simp: ptree_def)

lemma ptree_upd_other: "(\<And>c. pc_parent (f c) = pc_parent c \<and> pc_children (f c) = pc_children c) \<Longrightarrow> ptree (upd_pcb p f s) = ptree s"
  by (rule ext) (auto simp: ptree_def option.map_comp comp_def)

lemma ptree_set_children: "ptree (upd_pcb p (\<lambda>c. c\<lparr> pc_children := cs \<rparr>) s) = t_set_children p cs (ptree s)"
  by (rule ext) (simp add: ptree_def t_set_children_def option.map_comp comp_def)

lemma ptree_add_child:
  "ptree (upd_pcb p (\<lambda>c. c\<lparr> pc_children := pc_children c @ [ch] \<rparr>) s) = t_set_children p (t_children (ptree s) p @ [ch]) (ptree s)"
  by (rule ext) (cases "sy_pcbs s p"; simp add: ptree_def t_set_children_def t_children_def)

lemma ptree_set_parent: "ptree (upd_pcb p (\<lambda>c. c\<lparr> pc_parent := q \<rparr>) s) = t_set_parent p q (ptree s)"
  by (rule ext) (simp add: ptree_def t_set_parent_def option.map_comp comp_def)

lemma ptree_adopt:
  "init_pid (fold (\<lambda>ch s. upd_pcb (init_pid s) (\<lambda>i. i\<lparr> pc_children := pc_children i @ [ch] \<rparr>)
       (upd_pcb ch (\<lambda>d. d\<lparr> pc_parent := init_pid s \<rparr>) s)) cs s) = init_pid s"
  "ptree (fold (\<lambda>ch s. upd_pcb (init_pid s) (\<lambda>i. i\<lparr> pc_children := pc_children i @ [ch] \<rparr>)
       (upd_pcb ch (\<lambda>d. d\<lparr> pc_parent := init_pid s \<rparr>) s)) cs s) = t_adopt (init_pid s) cs (ptree s)"
  by (induction cs arbitrary: s) (simp_all add: ptree_add_child ptree_set_parent Let_def)

lemma reparent_ptree:
  assumes "reparent_children s p = Some s'"
  shows "ptree s' = t_exit (init_pid s) p (ptree s)"
proof (cases "p = init_pid s")
  case False
  then obtain c where c: "sy_pcbs s p = Some c"
    and s': "s' = fold (\<lambda>ch s. upd_pcb (init_pid s) (\<lambda>i. i\<lparr> pc_children := pc_children i @ [ch] \<rparr>)
      (upd_pcb ch (\<lambda>d. d\<lparr> pc_parent := init_pid s \<rparr>) s)) (pc_children c) (upd_pcb p (\<lambda>c. c\<lparr> pc_children := [] \<rparr>) s)"
    using assms by (auto simp: reparent_children_def bind_eq_Some_conv Let_def)
  have "t_children (ptree s) p = pc_children c" using c by (simp add: t_children_def ptree_def)
  then show ?thesis unfolding s' ptree_adopt ptree_set_children using False by (simp add: t_exit_def)
qed (use assms in \<open>simp add: reparent_children_def t_exit_def\<close>)

lemma adopt_keeps:
  assumes "\<And>c x. g (c\<lparr> pc_children := x \<rparr>) = g c" "\<And>c x. g (c\<lparr> pc_parent := x \<rparr>) = g c"
  shows "map_option g (sy_pcbs (fold (\<lambda>ch s. upd_pcb (init_pid s) (\<lambda>i. i\<lparr> pc_children := pc_children i @ [ch] \<rparr>)
       (upd_pcb ch (\<lambda>d. d\<lparr> pc_parent := init_pid s \<rparr>) s)) cs s) q) = map_option g (sy_pcbs s q)"
  by (induction cs arbitrary: s) (simp_all add: option.map_comp comp_def assms)

lemma adopt_fields:
  "tid2tc (fold (\<lambda>ch s. upd_pcb (init_pid s) (\<lambda>i. i\<lparr> pc_children := pc_children i @ [ch] \<rparr>)
       (upd_pcb ch (\<lambda>d. d\<lparr> pc_parent := init_pid s \<rparr>) s)) cs s) = tid2tc s"
  "pid2pc (fold (\<lambda>ch s. upd_pcb (init_pid s) (\<lambda>i. i\<lparr> pc_children := pc_children i @ [ch] \<rparr>)
       (upd_pcb ch (\<lambda>d. d\<lparr> pc_parent := init_pid s \<rparr>) s)) cs s) = pid2pc s"
  "sy_pids (fold (\<lambda>ch s. upd_pcb (init_pid s) (\<lambda>i. i\<lparr> pc_children := pc_children i @ [ch] \<rparr>)
       (upd_pcb ch (\<lambda>d. d\<lparr> pc_parent := init_pid s \<rparr>) s)) cs s) = sy_pids s"
  by (induction cs arbitrary: s) simp_all

lemma reparent_keeps:
  assumes "reparent_children s p = Some s'" "\<And>c x. g (c\<lparr> pc_children := x \<rparr>) = g c" "\<And>c x. g (c\<lparr> pc_parent := x \<rparr>) = g c"
  shows "map_option g (sy_pcbs s' q) = map_option g (sy_pcbs s q)"
  using assms(1)
  by (auto simp: reparent_children_def bind_eq_Some_conv Let_def adopt_keeps assms(2,3) option.map_comp comp_def split: if_splits)

lemma reparent_fields:
  assumes "reparent_children s p = Some s'"
  shows "tid2tc s' = tid2tc s" "pid2pc s' = pid2pc s" "sy_pids s' = sy_pids s" "init_pid s' = init_pid s"
  using assms
  by (auto simp: reparent_children_def bind_eq_Some_conv Let_def adopt_fields ptree_adopt split: if_splits)

text \<open>The steps of \<open>exit_proc\<close>, in terms of the state it starts from.\<close>

lemma exit_proc_steps:
  assumes "exit_proc V s cur code = Some s'" "get_process s cur = Some (p, c)"
  obtains d where "sy_pcbs s' p = Some d" "pc_exit_code d = code" "pc_state d = Zombie" "pc_tasks d = []" "fds (pc_fds d) = []" "pc_wakers d = []"
    "pc_space d = pc_space c" "ptree s' = t_exit (init_pid s) p (ptree s)" "tid2tc s' = tid2tc s - set (pc_tasks c)"
    "areatree (sy_spaces s' (pc_space c)) = []" "pt_frames (ms_pt (sy_spaces s' (pc_space c))) = []"
    "pid2pc s' = pid2pc s" "sy_pids s' = sy_pids s" "init_pid s' = init_pid s"
    "\<And>q. map_option pc_space (sy_pcbs s' q) = map_option pc_space (sy_pcbs s q)"
proof -
  let ?s0 = "upd_pcb p (\<lambda>c. c\<lparr> pc_exit_code := code, pc_state := Zombie \<rparr>) s"
  obtain s1 s2 s3 r k ms fs where w: "proc_wake_all_waiters ?s0 p = Some s1" and ct: "exit_clear_tids V s1 c (pc_tasks c) = Some s2"
    and rp: "reparent_children s2 p = Some s3"
    and rec: "recycle_data_pages V (sy_files s3) (sy_mem s3) (sy_spaces s3 (pc_space c)) = Some (Ok r, k, ms, fs)"
    and fin: "(do { d \<leftarrow> sy_pcbs (set_space (pc_space c) ms s3\<lparr> sy_mem := k, sy_files := fs \<rparr>) p;
       Some (upd_pcb p (\<lambda>c. c\<lparr> pc_fds := (pc_fds c)\<lparr> fds := [] \<rparr>, pc_tasks := [] \<rparr>)
         (set_space (pc_space c) ms s3\<lparr> sy_mem := k, sy_files := fs \<rparr>)\<lparr> tid2tc := tid2tc s3 - set (pc_tasks d) \<rparr>) }) = Some s'"
    using assms by (auto simp: exit_proc_def bind_eq_Some_conv case_sum_Some_conv Let_def)
  have c: "sy_pcbs s p = Some c" using assms(2) by (auto simp: get_process_Some)
  have b1: "sy_pcbs s1 = sy_pcbs (upd_pcb p (\<lambda>c. c\<lparr> pc_wakers := [] \<rparr>) ?s0)" "tid2tc s1 = tid2tc s" "pid2pc s1 = pid2pc s" "sy_pids s1 = sy_pids s"
    "init_pid s1 = init_pid s"
    using w by (auto simp: proc_wake_all_waiters_def bind_eq_Some_conv)
  have b2: "sy_pcbs s2 = sy_pcbs s1" "tid2tc s2 = tid2tc s1" "pid2pc s2 = pid2pc s1" "sy_pids s2 = sy_pids s1" "init_pid s2 = init_pid s1"
    using same_blocks_clear_tids [OF ct] by (simp_all add: same_blocks_def)
  note k3 = reparent_keeps [OF rp, where q = p]
  have t2: "ptree s2 = ptree s"
    using ptree_cong [OF b2(1)] ptree_cong [OF b1(1)] by (simp add: ptree_upd_other)
  obtain d where d: "sy_pcbs s3 p = Some d" using k3 [of main_task] c b1(1) b2(1) by auto
  have e: "pc_exit_code d = code" "pc_state d = Zombie" "pc_wakers d = []" "pc_tasks d = pc_tasks c" "pc_space d = pc_space c"
    using k3 [of pc_exit_code] k3 [of pc_state] k3 [of pc_wakers] k3 [of pc_tasks] k3 [of pc_space] c b1(1) b2(1) d by auto
  have s': "s' = upd_pcb p (\<lambda>c. c\<lparr> pc_fds := (pc_fds c)\<lparr> fds := [] \<rparr>, pc_tasks := [] \<rparr>)
         (set_space (pc_space c) ms s3\<lparr> sy_mem := k, sy_files := fs \<rparr>)\<lparr> tid2tc := tid2tc s3 - set (pc_tasks d) \<rparr>"
    using fin d by simp
  have m: "areatree ms = []" "pt_frames (ms_pt ms) = []"
    using rec by (auto simp: recycle_data_pages_def bind_eq_Some_conv case_sum_Some_conv)
  show thesis
  proof (rule that)
    show "sy_pcbs s' p = Some (d\<lparr> pc_fds := (pc_fds d)\<lparr> fds := [] \<rparr>, pc_tasks := [] \<rparr>)" using d by (simp add: s')
    have "ptree s' = ptree s3" by (rule ext) (simp add: s' ptree_def option.map_comp comp_def)
    then show "ptree s' = t_exit (init_pid s) p (ptree s)" using reparent_ptree [OF rp] t2 b1 b2 by simp
    show "map_option pc_space (sy_pcbs s' q) = map_option pc_space (sy_pcbs s q)" for q
      using reparent_keeps [OF rp, of pc_space q] by (simp add: s' b1 b2 option.map_comp comp_def split: if_splits)
  qed (use e m b1 b2 reparent_fields [OF rp] in \<open>simp_all add: s'\<close>)
qed

text \<open>Clone: the address space and the parent's thread id do not touch the blocks; registration adds one.\<close>

lemma clone_space_blocks:
  assumes "clone_space s c p now flags = Some (space, token, s')"
  shows "same_blocks s s'" "next_tid s' = next_tid s" "sy_exec s' = sy_exec s" "(space = None) = fl_contains flags CLONE_THREAD"
    "\<not> fl_contains flags CLONE_THREAD \<Longrightarrow> fl_contains flags CLONE_VM \<Longrightarrow> space = Some (pc_space c)"
  using assms by (auto simp: clone_space_def bind_eq_Some_conv same_blocks_def Let_def split: if_splits)

lemma clone_settid_blocks:
  assumes "clone_parent_settid V s c flags ptid tid = Some (r, s')"
  shows "same_blocks s s'" "sy_exec s' = sy_exec s"
proof -
  have a: "same_blocks s u" "sy_exec u = sy_exec s" if "proc_alloc_type_for_lazy V s c a n = Some (q, u)" for a n q u
    using same_blocks_alloc [OF that] by auto
  show "same_blocks s s'" "sy_exec s' = sy_exec s"
    using assms a
    by (auto simp: clone_parent_settid_def bind_eq_Some_conv case_sum_Some_conv same_blocks_def split: if_splits)
qed

lemma clone_process_effect:
  assumes "clone_process s p c flags us pid tid space par = Some s'"
  shows "ptree s' = t_fork p par pid (ptree s)" "pid2pc s' = insert pid (pid2pc s)" "tid2tc s' = tid2tc s" "sy_pids s' = sy_pids s"
    "init_pid s' = init_pid s" "sy_exec s' = sy_exec s" "\<exists>d. sy_pcbs s' pid = Some d \<and> pc_space d = space \<and> main_task d = tid \<and> pc_tasks d = [tid]"
    "map_option tc_pid (sy_tcbs s' tid) = map_option tc_pid (sy_tcbs s tid)"
    "q \<noteq> pid \<Longrightarrow> map_option pc_space (sy_pcbs s' q) = map_option pc_space (sy_pcbs s q)"
proof -
  obtain sig s1 where s1: "(if fl_contains flags CLONE_SIGHAND then (pc_sig c, s)
       else (next_sig s, s\<lparr> sy_sigs := (sy_sigs s)(next_sig s := shared_state_clone (sy_sigs s (pc_sig c))), next_sig := next_sig s + 1 \<rparr>)) = (sig, s1)"
    by (rule prod.exhaust)
  obtain new u where nu: "(if us = 0 \<and> \<not> fl_contains flags CLONE_VM then do {
          (top, k, ms) \<leftarrow> clone_user_res (sy_mem s1) (sy_spaces s1 space) (sy_spaces s1 (pc_space c)) (user_stack_top c);
          Some ((pcb_clone c tid space sig par)\<lparr> user_stack_top := top \<rparr>, set_space space ms (upd_tcb tid (\<lambda>b. b\<lparr> tc_leader := True \<rparr>) s1)\<lparr> sy_mem := k \<rparr>) }
        else Some (pcb_clone c tid space sig par, upd_tcb tid (\<lambda>b. b\<lparr> tc_leader := True \<rparr>) s1)) = Some (new, u)"
    and s': "s' = (upd_pcb p (\<lambda>c. c\<lparr> pc_children := pc_children c @ [pid] \<rparr>)
      (u\<lparr> sy_pcbs := (sy_pcbs u)(pid \<mapsto> new\<lparr> pc_tasks := [tid] \<rparr>) \<rparr>))\<lparr> pid2pc := insert pid (pid2pc u) \<rparr>"
    using assms unfolding clone_process_def s1 by (auto simp: bind_eq_Some_conv Let_def cong: if_cong)
  have new: "pc_parent new = par" "pc_children new = []" "pc_space new = space" "main_task new = tid"
    using nu by (auto simp: bind_eq_Some_conv pcb_clone_def split: if_splits)
  have "sy_pcbs u = sy_pcbs s1 \<and> pid2pc u = pid2pc s1 \<and> tid2tc u = tid2tc s1 \<and> sy_pids u = sy_pids s1 \<and> init_pid u = init_pid s1 \<and> sy_exec u = sy_exec s1
      \<and> map_option tc_pid (sy_tcbs u tid) = map_option tc_pid (sy_tcbs s1 tid)"
    using nu by (auto simp: bind_eq_Some_conv option.map_comp comp_def split: if_splits)
  then have u: "sy_pcbs u = sy_pcbs s" "pid2pc u = pid2pc s" "tid2tc u = tid2tc s" "sy_pids u = sy_pids s" "init_pid u = init_pid s" "sy_exec u = sy_exec s"
      "map_option tc_pid (sy_tcbs u tid) = map_option tc_pid (sy_tcbs s tid)"
    using s1 by (auto split: if_splits)
  let ?v = "u\<lparr> sy_pcbs := (sy_pcbs u)(pid \<mapsto> new\<lparr> pc_tasks := [tid] \<rparr>) \<rparr>"
  have "ptree ?v = (ptree s)(pid \<mapsto> (par, []))" using new u by (auto simp: ptree_def)
  moreover have "ptree s' = ptree (upd_pcb p (\<lambda>c. c\<lparr> pc_children := pc_children c @ [pid] \<rparr>) ?v)" unfolding s' by (rule ptree_cong) simp
  ultimately show "ptree s' = t_fork p par pid (ptree s)" by (simp add: ptree_add_child t_fork_def Let_def)
  show "\<exists>d. sy_pcbs s' pid = Some d \<and> pc_space d = space \<and> main_task d = tid \<and> pc_tasks d = [tid]" by (simp add: s' new)
  show "q \<noteq> pid \<Longrightarrow> map_option pc_space (sy_pcbs s' q) = map_option pc_space (sy_pcbs s q)"
    by (simp add: s' u option.map_comp comp_def)
  show "pid2pc s' = insert pid (pid2pc s)" "tid2tc s' = tid2tc s" "sy_pids s' = sy_pids s" "init_pid s' = init_pid s" "sy_exec s' = sy_exec s"
    "map_option tc_pid (sy_tcbs s' tid) = map_option tc_pid (sy_tcbs s tid)"
    by (simp_all add: s' u)
qed

lemma clone_abort_effect:
  assumes "clone_abort s flags space pid = Some s'"
  shows "sy_pcbs s' = sy_pcbs s" "pid2pc s' = pid2pc s" "init_pid s' = init_pid s"
    "if fl_contains flags CLONE_THREAD then sy_pids s' = sy_pids s else pid_drop (sy_pids s) pid = Some (sy_pids s')"
  using assms by (auto simp: clone_abort_def bind_eq_Some_conv split: if_splits)

lemma clone_finish_effect:
  assumes "clone_finish s p c flags us tls ctid token pid tid space par b = Some (r, s')"
  shows "init_pid s' = init_pid s" "sy_pids s' = sy_pids s" "\<And>n. r = Ok n \<Longrightarrow> n = (if fl_contains flags CLONE_THREAD then tid else pid)"
    "\<exists>b'. sy_tcbs s' tid = Some b' \<and> tc_pid b' = tc_pid b"
    "space = None \<Longrightarrow> ptree s' = ptree s" "space = None \<Longrightarrow> pid2pc s' = pid2pc s"
    "space = Some a \<Longrightarrow> ptree s' = t_fork p par pid (ptree s)" "space = Some a \<Longrightarrow> pid2pc s' = insert pid (pid2pc s)"
    "space = Some a \<Longrightarrow> \<exists>d. sy_pcbs s' pid = Some d \<and> main_task d = tid \<and> pc_space d = a"
    "space = Some a \<Longrightarrow> q \<noteq> pid \<Longrightarrow> map_option pc_space (sy_pcbs s' q) = map_option pc_space (sy_pcbs s q)"
    "\<And>n. r = Ok n \<Longrightarrow> sy_exec s' = spawn_task (sy_exec s) tid"
proof -
  let ?s0 = "s\<lparr> sy_tcbs := (sy_tcbs s)(tid \<mapsto> b),
       sy_exec := create_task (sy_exec s) tid \<rparr>"
  obtain s1 where s1: "(case space of None \<Rightarrow> Some (clone_thread ?s0 p tid) | Some a \<Rightarrow> clone_process ?s0 p c flags us pid tid a par) = Some s1"
    and s': "init_pid s' = init_pid s1" "sy_pids s' = sy_pids s1" "sy_pcbs s' = sy_pcbs s1" "pid2pc s' = pid2pc s1"
      "map_option tc_pid (sy_tcbs s' tid) = map_option tc_pid (sy_tcbs s1 tid)"
      "\<And>n. r = Ok n \<Longrightarrow> n = (if fl_contains flags CLONE_THREAD then tid else pid) \<and> sy_exec s' = queue_task (sy_exec s1) tid"
    using assms unfolding clone_finish_def Let_def
    by (auto simp: bind_eq_Some_conv case_sum_Some_conv option.map_comp comp_def split: if_splits)
  have t: "ptree ?s0 = ptree s" by (rule ptree_cong) simp
  note ts = ptree_cong [OF s'(3)]
  note e = clone_process_effect [where s = ?s0 and s' = s1 and p = p and c = c and flags = flags and us = us and pid = pid and tid = tid and par = par]
  have f: "init_pid s1 = init_pid s \<and> sy_pids s1 = sy_pids s \<and> sy_exec s1 = sy_exec ?s0 \<and> map_option tc_pid (sy_tcbs s1 tid) = Some (tc_pid b)"
    using s1 e(4,5,6,8) by (cases space) (auto simp: clone_thread_def)
  show "init_pid s' = init_pid s" "sy_pids s' = sy_pids s" "\<And>n. r = Ok n \<Longrightarrow> n = (if fl_contains flags CLONE_THREAD then tid else pid)"
    "\<exists>b'. sy_tcbs s' tid = Some b' \<and> tc_pid b' = tc_pid b"
    using f s' by auto
  have th: "ptree (clone_thread ?s0 p tid) = ptree ?s0" unfolding clone_thread_def by (rule ptree_upd_other) simp
  show "ptree s' = ptree s" "pid2pc s' = pid2pc s" if "space = None"
  proof -
    have "s1 = clone_thread ?s0 p tid" using that s1 by simp
    then show "ptree s' = ptree s" "pid2pc s' = pid2pc s" using ts t th s'(4) by (simp_all add: clone_thread_def)
  qed
  show "ptree s' = t_fork p par pid (ptree s)" "pid2pc s' = insert pid (pid2pc s)" "\<exists>d. sy_pcbs s' pid = Some d \<and> main_task d = tid \<and> pc_space d = a"
    if "space = Some a"
    using that s1 e(1,2,7) [where space = a] ts t s'(3,4) by auto
  show "map_option pc_space (sy_pcbs s' q) = map_option pc_space (sy_pcbs s q)" if "space = Some a" "q \<noteq> pid"
    using that s1 e(9) [where space = a and q = q] s'(3) by auto
  show "sy_exec s' = spawn_task (sy_exec s) tid" if "r = Ok n" for n
    using s'(6) [OF that] f by (simp add: spawn_task_def)
qed

text \<open>A clone fails before anything is registered, or adds a thread, or adds a process.\<close>

lemma clone_task_cases:
  assumes "clone_task V s cur now flags us ptid tls ctid = Some (r, s')" "get_process s cur = Some (p, c)"
  obtains (abort) e where "r = Err e" "sy_pcbs s' = sy_pcbs s" "pid2pc s' = pid2pc s" "init_pid s' = init_pid s"
      "sy_pids s' = sy_pids s \<or> (\<exists>pid ps. pid_alloc (sy_pids s) = Some (pid, ps) \<and> pid_drop ps pid = Some (sy_pids s'))"
  | (thread) "fl_contains flags CLONE_THREAD" "ptree s' = ptree s" "pid2pc s' = pid2pc s" "init_pid s' = init_pid s" "sy_pids s' = sy_pids s"
      "\<And>n. r = Ok n \<Longrightarrow> n = next_tid s \<and> sy_exec s' = spawn_task (sy_exec s) (next_tid s)"
  | (process) pid where "\<not> fl_contains flags CLONE_THREAD" "pid_alloc (sy_pids s) = Some (pid, sy_pids s')"
      "ptree s' = t_fork p (if fl_contains flags CLONE_PARENT then pc_parent c else p) pid (ptree s)"
      "pid2pc s' = insert pid (pid2pc s)" "init_pid s' = init_pid s"
      "\<And>n. r = Ok n \<Longrightarrow> n = pid \<and> sy_exec s' = spawn_task (sy_exec s) (next_tid s)"
      "\<exists>d. sy_pcbs s' pid = Some d \<and> main_task d = next_tid s \<and> (fl_contains flags CLONE_VM \<longrightarrow> pc_space d = pc_space c)"
      "\<exists>b. sy_tcbs s' (next_tid s) = Some b \<and> tc_pid b = pid"
      "\<And>q. q \<noteq> pid \<Longrightarrow> map_option pc_space (sy_pcbs s' q) = map_option pc_space (sy_pcbs s q)"
proof -
  let ?par = "if fl_contains flags CLONE_PARENT then pc_parent c else p"
  obtain b space token s1 pid s2 r3 s3 where sp: "clone_space s c p now flags = Some (space, token, s1)"
    and al: "(if fl_contains flags CLONE_THREAD then Some (p, s1)
       else do { (pid, ps) \<leftarrow> pid_alloc (sy_pids s1); Some (pid, s1\<lparr> sy_pids := ps \<rparr>) }) = Some (pid, s2)"
    and st: "clone_parent_settid V (s2\<lparr> next_tid := next_tid s2 + 1 \<rparr>) c flags ptid (next_tid s2) = Some (r3, s3)"
    and rest: "(case r3 of Inl e \<Rightarrow> do { s \<leftarrow> clone_abort s3 flags space pid; Some (Err e, s) }
      | Inr _ \<Rightarrow> clone_finish s3 p c flags us tls ctid token pid (next_tid s2) space ?par b) = Some (r, s')" and b: "tc_pid b = pid"
    using assms unfolding clone_task_def Let_def by (auto simp: bind_eq_Some_conv tcb_new_def)
  note c1 = clone_space_blocks [OF sp] and c3 = clone_settid_blocks [OF st]
  have s2: "sy_pcbs s2 = sy_pcbs s" "pid2pc s2 = pid2pc s" "init_pid s2 = init_pid s" "next_tid s2 = next_tid s" "sy_exec s2 = sy_exec s"
    using al c1(1-3) by (auto simp: same_blocks_def bind_eq_Some_conv split: if_splits)
  have s3: "sy_pcbs s3 = sy_pcbs s" "pid2pc s3 = pid2pc s" "init_pid s3 = init_pid s" "sy_exec s3 = sy_exec s" "sy_pids s3 = sy_pids s2"
    using c3 s2 by (auto simp: same_blocks_def)
  have pt: "fl_contains flags CLONE_THREAD \<Longrightarrow> sy_pids s2 = sy_pids s"
    and pp: "\<not> fl_contains flags CLONE_THREAD \<Longrightarrow> pid_alloc (sy_pids s) = Some (pid, sy_pids s2)"
    using al c1(1) by (auto simp: same_blocks_def bind_eq_Some_conv)
  note t3 = ptree_cong [OF s3(1)]
  show thesis
  proof (cases r3)
    case (Inl e)
    then obtain "r = Err e" "clone_abort s3 flags space pid = Some s'" using rest by (auto simp: bind_eq_Some_conv)
    then show ?thesis using clone_abort_effect [of s3 flags space pid s'] s3 pt pp by (intro abort) (auto split: if_splits)
  next
    case (Inr u)
    then have "clone_finish s3 p c flags us tls ctid token pid (next_tid s) space ?par b = Some (r, s')" using rest s2(4) by simp
    note f = clone_finish_effect [OF this, unfolded t3 s3]
    show ?thesis
    proof (cases space)
      case None
      then show ?thesis using f(1-3,5,6,11) pt c1(4) by (intro thread) auto
    next
      case (Some a)
      have v: "fl_contains flags CLONE_VM \<longrightarrow> a = pc_space c" using c1(4,5) Some by auto
      show ?thesis
      proof (rule process)
        show "\<exists>d. sy_pcbs s' pid = Some d \<and> main_task d = next_tid s \<and> (fl_contains flags CLONE_VM \<longrightarrow> pc_space d = pc_space c)"
          using f(9) [OF Some] v by auto
        show "map_option pc_space (sy_pcbs s' q) = map_option pc_space (sy_pcbs s q)" if "q \<noteq> pid" for q
          using f(10) [OF Some that] .
      qed (use f(1-4,7,8,11) Some c1(4) pp b in auto)
    qed
  qed
qed

text \<open>Waiting: the first child of the list that has ended and matches is taken.\<close>

lemma wait_reap_effect:
  assumes "wait_reap V s p c ch rest wstatus last_ref = Some (r, s')"
  shows "ptree s' = (if last_ref then (t_set_children p rest (ptree s))(ch := None) else t_set_children p rest (ptree s))"
    "pid2pc s' = pid2pc s - {ch}" "init_pid s' = init_pid s" "\<And>n. r = Ok n \<Longrightarrow> n = ch"
    "if last_ref then pid_drop (sy_pids s) ch = Some (sy_pids s') else sy_pids s' = sy_pids s"
proof -
  obtain d r1 s1 where m: "wait_put_status V (upd_pcb p (\<lambda>c. c\<lparr> pc_children := rest \<rparr>) s\<lparr> pid2pc := pid2pc s - {ch} \<rparr>) c d wstatus = Some (r1, s1)"
    and fin: "(if last_ref then do { ps \<leftarrow> pid_drop (sy_pids s1) ch; Some (s1\<lparr> sy_pcbs := (sy_pcbs s1)(ch := None), sy_pids := ps \<rparr>) }
       else Some s1) = Some s'" and r: "r = (case r1 of Inl e \<Rightarrow> Err (errno_of_put_data_error e) | Inr _ \<Rightarrow> Ok ch)"
    using assms unfolding wait_reap_def Let_def by (auto simp: bind_eq_Some_conv)
  have b1: "sy_pcbs s1 = sy_pcbs (upd_pcb p (\<lambda>c. c\<lparr> pc_children := rest \<rparr>) s)" "pid2pc s1 = pid2pc s - {ch}" "init_pid s1 = init_pid s"
      "sy_pids s1 = sy_pids s"
    using m by (auto simp: wait_put_status_def bind_eq_Some_conv split: if_splits)
  have "ptree s1 = t_set_children p rest (ptree s)" using ptree_cong [OF b1(1)] ptree_set_children by simp
  moreover have "ptree s' = (if last_ref then (ptree s1)(ch := None) else ptree s1)"
    using fin by (auto simp: bind_eq_Some_conv fun_eq_iff ptree_def split: if_splits)
  ultimately show "ptree s' = (if last_ref then (t_set_children p rest (ptree s))(ch := None) else t_set_children p rest (ptree s))" by simp
  have "pid2pc s' = pid2pc s1 \<and> init_pid s' = init_pid s1 \<and> (if last_ref then pid_drop (sy_pids s1) ch = Some (sy_pids s') else s' = s1)"
    using fin by (cases "pid_drop (sy_pids s1) ch") (auto split: if_splits)
  then show "pid2pc s' = pid2pc s - {ch}" "init_pid s' = init_pid s"
    "if last_ref then pid_drop (sy_pids s) ch = Some (sy_pids s') else sy_pids s' = sy_pids s"
    by (simp_all add: b1(2-4) split: if_splits)
  show "n = ch" if "r = Ok n" for n using that r by (auto split: sum.splits)
qed

lemma dropWhile_Cons_split:
  assumes "dropWhile P xs = x # ys"
  shows "xs = takeWhile P xs @ x # ys" "\<not> P x"
  using assms takeWhile_dropWhile_id [of P xs] hd_dropWhile [of P xs] by auto

lemma remove1_split: "distinct (as @ x # bs) \<Longrightarrow> remove1 x (as @ x # bs) = as @ bs"
  by (simp add: remove1_append)

lemma sys_wait4_cases:
  assumes "sys_wait4 V s cur pid wstatus options last_ref = Some (out, s')" "get_process s cur = Some (p, c)"
  obtains (reap) pre ch post r where "pc_children c = pre @ ch # post" "proc_is_zombie s ch" "wait_matches pid ch"
      "\<forall>x\<in>set pre. \<not> (proc_is_zombie s x \<and> wait_matches pid x)" "wait_reap V s p c ch (pre @ post) wstatus last_ref = Some (r, s')" "out = Wret r"
  | (other) "s' = s" "out = Wret (Ok 0) \<or> (\<exists>e. out = Wret (Err e)) \<or> (\<exists>t. out = Wjoin t) \<or> (\<exists>ts. out = Wany ts)"
      "(\<exists>t. out = Wjoin t) \<or> (\<exists>ts. out = Wany ts) \<or> out = Wret (Ok 0) \<Longrightarrow> \<forall>x\<in>set (pc_children c). \<not> (proc_is_zombie s x \<and> wait_matches pid x)"
proof -
  define P where "P = (\<lambda>ch. \<not> (proc_is_zombie s ch \<and> wait_matches pid ch))"
  note w = assms(1) [unfolded sys_wait4_def assms(2) Option.bind.bind_lunit prod.case, folded P_def]
  show thesis
  proof (cases "dropWhile P (pc_children c)")
    case (Cons ch post)
    note d = dropWhile_Cons_split [OF Cons]
    have "out = Wret (Err ESRCH) \<and> s' = s \<or> out = Wret (Err EINVAL) \<and> s' = s \<or> out = Wret (Err ECHILD) \<and> s' = s
      \<or> (\<exists>r. wait_reap V s p c ch (takeWhile P (pc_children c) @ post) wstatus last_ref = Some (r, s') \<and> out = Wret r)"
      using w [unfolded Cons list.case] by (auto simp: bind_eq_Some_conv split: if_splits option.splits)
    moreover have "\<forall>x\<in>set (takeWhile P (pc_children c)). P x" using set_takeWhileD by fast
    ultimately show ?thesis using reap d other unfolding P_def by blast
  next
    case Nil
    then have "\<forall>x\<in>set (pc_children c). P x" by (simp only: dropWhile_eq_Nil_conv)
    moreover have "s' = s \<and> (out = Wret (Ok 0) \<or> (\<exists>e. out = Wret (Err e)) \<or> (\<exists>t. out = Wjoin t) \<or> (\<exists>ts. out = Wany ts))"
      using w [unfolded Nil list.case] by (auto simp: bind_eq_Some_conv split: if_splits option.splits)
    ultimately show ?thesis unfolding P_def by (intro other) auto
  qed
qed

subsection \<open>The invariant\<close>

text \<open>The tree is well formed, every process in it holds its pid, and the table of processes lists only processes of the tree.\<close>

definition proc_inv :: "'w sys \<Rightarrow> bool" where
  "proc_inv s \<longleftrightarrow> tree_ok (init_pid s) (ptree s) \<and> recycle_inv (sy_pids s) \<and> dom (ptree s) \<subseteq> recycle_used (sy_pids s) \<and> pid2pc s \<subseteq> dom (ptree s)"

lemma proc_inv_blocks: "same_blocks s s' \<Longrightarrow> proc_inv s' = proc_inv s"
  using ptree_cong [of s' s] by (simp add: proc_inv_def same_blocks_def)

lemma get_process_tree: "get_process s t = Some (p, c) \<Longrightarrow> ptree s p = Some (pc_parent c, pc_children c)"
  by (auto simp: get_process_Some ptree_def)

lemma dom_t_set [simp]: "dom (t_set_children p cs t) = dom t" "dom (t_set_parent p q t) = dom t"
  by (auto simp: t_set_children_def t_set_parent_def split: if_splits)

lemma dom_t_fork: "dom (t_fork p par ch t) = insert ch (dom t)"
  by (simp add: t_fork_def Let_def)

lemma dom_t_adopt: "dom (t_adopt i cs t) = dom t"
  by (induction cs arbitrary: t) (simp_all add: Let_def)

lemma dom_t_exit: "dom (t_exit i p t) = dom t"
  by (simp add: t_exit_def dom_t_adopt)

lemma pid_alloc_drop:
  assumes "recycle_inv a" "pid_alloc a = Some (i, b)" "pid_drop b i = Some a'"
  shows "recycle_used a' = recycle_used a" "recycle_inv a'"
proof -
  note al = pids.alloc_fresh [OF assms(1,2)] pids.alloc_used [OF assms(1,2)] pids.alloc_invar [OF assms(1,2)]
  show "recycle_used a' = recycle_used a" "recycle_inv a'"
    using pids.dealloc_used [OF al(3) assms(3)] pids.dealloc_invar [OF al(3) assms(3)] al(1,2) by auto
qed

lemma clone_inv:
  assumes "clone_task V s cur now flags us ptid tls ctid = Some (r, s')" "get_process s cur = Some (p, c)" "\<not> fl_contains flags CLONE_PARENT" "proc_inv s"
  shows "proc_inv s'"
  using assms(1,2)
proof (cases rule: clone_task_cases)
  case (abort e)
  have "recycle_used (sy_pids s') = recycle_used (sy_pids s) \<and> recycle_inv (sy_pids s')"
    using abort(5) assms(4) pid_alloc_drop by (auto simp: proc_inv_def)
  then show ?thesis using abort assms(4) ptree_cong [OF abort(2)] by (simp add: proc_inv_def)
next
  case thread
  then show ?thesis using assms(4) by (simp add: proc_inv_def)
next
  case (process pid)
  note g = get_process_tree [OF assms(2)]
  have i: "tree_ok (init_pid s) (ptree s)" "recycle_inv (sy_pids s)" "dom (ptree s) \<subseteq> recycle_used (sy_pids s)" "pid2pc s \<subseteq> dom (ptree s)"
    using assms(4) by (simp_all add: proc_inv_def)
  note a = pids.alloc_fresh [OF i(2) process(2)] pids.alloc_used [OF i(2) process(2)] pids.alloc_invar [OF i(2) process(2)]
  have n: "ptree s pid = None" using a(1) i(3) domIff by blast
  have d: "dom (ptree s') = insert pid (dom (ptree s))" using process(3) by (simp add: dom_t_fork)
  have "tree_ok (init_pid s') (ptree s')" using tree_ok_fork [OF i(1) n] g process(3,5) assms(3) by simp
  then show ?thesis unfolding proc_inv_def d process(4) using a(2,3) i(3,4) by auto
qed

lemma exit_inv:
  assumes "exit_proc V s cur code = Some s'" "proc_inv s"
  shows "proc_inv s'"
proof -
  obtain p c where g: "get_process s cur = Some (p, c)" using assms(1) by (auto simp: exit_proc_def bind_eq_Some_conv)
  from exit_proc_steps [OF assms(1) g] have "ptree s' = t_exit (init_pid s) p (ptree s)" "pid2pc s' = pid2pc s" "sy_pids s' = sy_pids s" "init_pid s' = init_pid s"
    by metis+
  then show ?thesis using assms(2) tree_ok_exit [where t = "ptree s", OF _ get_process_tree [OF g]] by (simp add: proc_inv_def dom_t_exit)
qed

lemma wait_inv:
  assumes "sys_wait4 V s cur pid wstatus options last_ref = Some (out, s')" "proc_inv s"
  shows "proc_inv s'"
proof -
  obtain p c where g: "get_process s cur = Some (p, c)" using assms(1) by (auto simp: sys_wait4_def bind_eq_Some_conv)
  note t = get_process_tree [OF g]
  have i: "tree_ok (init_pid s) (ptree s)" "recycle_inv (sy_pids s)" "dom (ptree s) \<subseteq> recycle_used (sy_pids s)" "pid2pc s \<subseteq> dom (ptree s)"
    using assms(2) by (simp_all add: proc_inv_def)
  show ?thesis
    using assms(1) g
  proof (cases rule: sys_wait4_cases)
    case (reap pre ch post r)
    note e = wait_reap_effect [OF reap(5)]
    have "remove1 ch (pc_children c) = pre @ post" using remove1_split [of pre ch post] tree_okD(1) [OF i(1) t] reap(1) by simp
    then have "ptree s' = t_reap p ch last_ref (ptree s)" using e(1) t by (simp add: t_reap_def Let_def)
    then have "tree_ok (init_pid s') (ptree s')" using tree_ok_reap [OF i(1), of ch p last_ref] t reap(1) e(3) by simp
    moreover have "dom (ptree s') = (if last_ref then dom (ptree s) - {ch} else dom (ptree s))" using e(1) by simp
    moreover have "recycle_inv (sy_pids s') \<and> recycle_used (sy_pids s') = (if last_ref then recycle_used (sy_pids s) - {ch} else recycle_used (sy_pids s))"
      using e(5) i(2) pids.dealloc_used pids.dealloc_invar by (auto split: if_splits)
    ultimately show ?thesis unfolding proc_inv_def e(2) using i(3,4) by (auto split: if_splits)
  qed (use assms(2) in simp)
qed

lemma release_blocks: "release_robust_lock s token tid addr f = Some s' \<Longrightarrow> same_blocks s s'"
proof -
  assume a: "release_robust_lock s token tid addr f = Some s'"
  have w: "same_blocks s u" if "sys_futex_wake_one (s\<lparr> sy_mem := k \<rparr>) key = Some u" for k key u
    using same_blocks_wake [OF that] by (simp add: same_blocks_def)
  have m: "same_blocks s (s\<lparr> sy_mem := k \<rparr>)" for k by (simp add: same_blocks_def)
  show ?thesis using a w m unfolding release_robust_lock_def
    by (auto simp: bind_eq_Some_conv case_sum_Some_conv Let_def split: if_splits)
qed

lemma robust_loop_blocks:
  assumes "robust_list_loop s token tid h off node = Some s'"
  shows "same_blocks s s'"
proof (rule robust_list_loop.raw_induct [where P = "\<lambda>s _ _ _ _ _ s'. same_blocks s s'", OF _ assms])
  fix loop :: "'a sys \<Rightarrow> usize \<Rightarrow> nat \<Rightarrow> usize \<Rightarrow> usize \<Rightarrow> usize \<Rightarrow> 'a sys option" and s s' :: "'a sys" and token tid h off node
  assume ih: "\<And>s token tid h off node s'. loop s token tid h off node = Some s' \<Longrightarrow> same_blocks s s'"
    and b: "(if node = h \<or> node = 0 then Some s
      else do {
        r \<leftarrow> get_target_ref (sy_mem s) token node 8;
        (case r of
           Inl _ \<Rightarrow> Some s
         | Inr a \<Rightarrow> do {
             pa \<leftarrow> a;
             let next_node = le_usize (pm_read (sy_mem s) pa 8);
             s \<leftarrow> release_robust_lock s token tid (node + off) (\<lambda>v. (v AND NOT FUTEX_TID_MASK) OR FUTEX_OWNER_DIED);
             loop s token tid h off next_node }) }) = Some s'"
  have "s' = s \<or> (\<exists>u f n. release_robust_lock s token tid (node + off) f = Some u \<and> loop u token tid h off n = Some s')"
    using b by (auto simp: bind_eq_Some_conv case_sum_Some_conv Let_def split: if_splits)
  then show "same_blocks s s'" using release_blocks ih same_blocks_trans by (metis same_blocks_refl)
qed

lemma robust_cleanup_blocks:
  assumes "exit_robust_list_cleanup s cur h = Some s'"
  shows "same_blocks s s'"
proof -
  have "s' = s \<or> (\<exists>u t off n. same_blocks s u \<and> robust_list_loop u t cur h off n = Some s')"
    using assms release_blocks same_blocks_refl unfolding exit_robust_list_cleanup_def
    by (fastforce simp: bind_eq_Some_conv case_sum_Some_conv Let_def split: if_splits)
  then show ?thesis using robust_loop_blocks same_blocks_trans by (metis same_blocks_refl)
qed

lemma exit_current_inv:
  assumes "exit_current V s cur code = Some s'" "proc_inv s"
  shows "proc_inv s'"
proof -
  obtain p c b where g: "get_process s cur = Some (p, c)" "sy_tcbs s cur = Some b" using assms(1) by (auto simp: exit_current_def bind_eq_Some_conv)
  show ?thesis
  proof (cases "tc_leader b")
    case True
    then show ?thesis using assms g exit_inv by (auto simp: exit_current_def)
  next
    case False
    let ?s0 = "upd_tcb cur (\<lambda>b. b\<lparr> tc_exit_code := scast code \<rparr>) s\<lparr> sy_exec := set_state (sy_exec s) cur Zombie \<rparr>"
    obtain r s1 s2 where c: "clear_child_tid ?s0 cur = Some (r, s1)" "exit_robust_list_cleanup s1 cur (robust_head b) = Some s2"
      and s': "s' = upd_pcb p (\<lambda>c. c\<lparr> pc_tasks := filter (\<lambda>t. t \<noteq> cur) (pc_tasks c), pc_wakers := bt_remove cur (pc_wakers c) \<rparr>) s2\<lparr> tid2tc := tid2tc s2 - {cur} \<rparr>"
      using assms(1) g False by (auto simp: exit_current_def bind_eq_Some_conv)
    have "same_blocks ?s0 s2" using same_blocks_clear [OF c(1)] robust_cleanup_blocks [OF c(2)] by (rule same_blocks_trans)
    then have "proc_inv s2 = proc_inv ?s0" by (rule proc_inv_blocks)
    moreover have "proc_inv ?s0" using assms(2) ptree_cong [of ?s0 s] by (simp add: proc_inv_def)
    moreover have "ptree s' = ptree s2" unfolding s' by (rule ext) (simp add: ptree_def option.map_comp comp_def)
    ultimately show ?thesis by (simp add: proc_inv_def s')
  qed
qed

text \<open>The calls that change the tree, in any order, by any task.\<close>

inductive proc_step :: "'w fs_ops \<Rightarrow> 'w sys \<Rightarrow> 'w sys \<Rightarrow> bool" for V where
  clone: "sys_clone V s cur now args0 us ptid tls ctid = Some (r, s') \<Longrightarrow> \<not> fl_contains args0 CLONE_PARENT \<Longrightarrow> proc_step V s s'"
| exit: "sys_exit V s cur code = Some (r, s') \<Longrightarrow> proc_step V s s'"
| exitgroup: "sys_exitgroup V s cur code = Some (r, s') \<Longrightarrow> proc_step V s s'"
| wait4: "sys_wait4 V s cur pid wstatus options last_ref = Some (out, s') \<Longrightarrow> proc_step V s s'"

lemma sys_clone_task:
  assumes "sys_clone V s cur now args0 us ptid tls ctid = Some (r, s')"
  shows "s' = s \<and> r = Err EINVAL \<or> clone_task V s cur now (args0 AND NOT 0x3f) us ptid tls ctid = Some (r, s')"
  using assms by (auto simp: sys_clone_def fl_from_bits_def bind_eq_Some_conv split: if_splits)

lemma fl_contains_mask: "m AND x = x \<Longrightarrow> fl_contains (a AND m) x = fl_contains a x"
  by (simp add: fl_contains_def and.assoc)

lemma clone_flags_mask:
  "fl_contains (a AND NOT 0x3f) CLONE_PARENT = fl_contains a CLONE_PARENT" "fl_contains (a AND NOT 0x3f) CLONE_VM = fl_contains a CLONE_VM"
  "fl_contains (a AND NOT 0x3f) CLONE_THREAD = fl_contains a CLONE_THREAD"
  by (rule fl_contains_mask; simp add: CLONE_PARENT_def CLONE_VM_def CLONE_THREAD_def)+

lemma proc_step_inv: "proc_step V s s' \<Longrightarrow> proc_inv s \<Longrightarrow> proc_inv s'"
proof (induction rule: proc_step.induct)
  case (clone s cur now args0 us ptid tls ctid r s')
  obtain p c where "get_process s cur = Some (p, c)" using clone(1) by (auto simp: sys_clone_def bind_eq_Some_conv)
  then show ?case using sys_clone_task [OF clone(1)] clone_inv [where flags = "args0 AND NOT 0x3f"] clone_flags_mask [of args0] clone(2,3) by blast
next
  case (exit s cur code r s')
  then show ?case using exit_current_inv by (auto simp: sys_exit_def bind_eq_Some_conv)
next
  case (exitgroup s cur code r s')
  then show ?case using exit_inv by (auto simp: sys_exitgroup_def bind_eq_Some_conv)
qed (rule wait_inv)

text \<open>
  C10: clone, exit, exit_group and wait4, in any order, keep the process tree well formed: every process has each of its children
  once, each child has a control block that names it as its parent, the initial process is nobody's child, and the processes hold
  distinct pids that the allocator counts as used.  (A clone with \<open>CLONE_PARENT\<close> is excluded: it files the child under the caller
  while naming the caller's parent.)
\<close>

theorem process_tree:
  assumes "(proc_step V)\<^sup>*\<^sup>* s s'" "proc_inv s"
  shows "tree_ok (init_pid s') (ptree s') \<and> dom (ptree s') \<subseteq> recycle_used (sy_pids s') \<and> pid2pc s' \<subseteq> dom (ptree s')"
proof -
  have "proc_inv s'" using assms by (induction rule: rtranclp_induct) (auto intro: proc_step_inv)
  then show ?thesis by (simp add: proc_inv_def)
qed

lemma demo_inv: "proc_inv (demo_sys k ms stack)"
proof -
  have t: "ptree (demo_sys k ms stack) = [1 \<mapsto> (0, [])]" by (rule ext) (simp add: ptree_def demo_sys_def demo_pcb_def)
  show ?thesis
    unfolding proc_inv_def t
    by (auto simp: tree_ok_def demo_sys_def recycle_inv_def recycle_used_def PID_ALLOCATOR_def split: if_splits)
qed

text \<open>On the machine with one process: a child that shares its address space, made with a stack of its own.\<close>

lemmas clone_flags = CloneFlags_all_def CLONE_VM_def CLONE_SETTLS_def CLONE_THREAD_def CLONE_SIGHAND_def CLONE_PARENT_SETTID_def CLONE_PIDFD_def
  CLONE_VFORK_def CLONE_PARENT_def CLONE_CHILD_SETTID_def CLONE_CHILD_CLEARTID_def

lemma demo_clone:
  "\<exists>s' b d. sys_clone V (demo_sys k ms stack) 1 0 0x100 0x7000 0 0 0 = Some (Ok 2, s') \<and> sy_tcbs s' 2 = Some b \<and> tc_pid b = 2 \<and> tc_child_tid b = None
     \<and> sy_pcbs s' 2 = Some d \<and> pc_tasks d = [2] \<and> pc_wakers d = [(2, 2)] \<and> pc_space d = 0 \<and> 2 \<in> pid2pc s' \<and> status (sy_exec s') 2 = Some Runnable
     \<and> sy_spaces s' = (\<lambda>_. ms)"
proof -
  have f: "next_tid (demo_sys k ms stack) = 2" "sy_spaces (demo_sys k ms stack) = (\<lambda>_. ms)" "pc_space demo_pcb = 0" by (simp_all add: demo_sys_def demo_pcb_def)
  have "sy_tcbs (demo_sys k ms stack) 1 = Some (demo_tcb (ms_token ms) stack)" "recycle_alloc (sy_pids (demo_sys k ms stack)) = (2, PID_ALLOCATOR\<lparr> current := 3 \<rparr>)"
    by (simp_all add: demo_sys_def recycle_alloc_def PID_ALLOCATOR_def)
  then show ?thesis
    unfolding sys_clone_def clone_task_def demo_process
    by (simp add: fl_from_bits_def fl_contains_def clone_flags clone_space_def pid_alloc_def clone_parent_settid_def clone_finish_def clone_process_def Let_def f
        tcb_new_def pcb_clone_def create_task_def queue_task_def)
qed

theorem process_tree_witness:
  "\<forall>k ms stack. \<exists>s'. sys_clone flat_fs (demo_sys k ms stack) 1 0 0x100 0x7000 0 0 0 = Some (Ok 2, s')
     \<and> tree_ok (init_pid s') (ptree s') \<and> dom (ptree s') \<subseteq> recycle_used (sy_pids s') \<and> pid2pc s' \<subseteq> dom (ptree s')"
proof (intro allI)
  fix k ms stack
  obtain s' where c: "sys_clone flat_fs (demo_sys k ms stack) 1 0 0x100 0x7000 0 0 0 = Some (Ok 2, s')" using demo_clone by blast
  have "\<not> fl_contains 0x100 CLONE_PARENT" by (simp add: fl_contains_def CLONE_PARENT_def)
  with c have "(proc_step flat_fs)\<^sup>*\<^sup>* (demo_sys k ms stack) s'" by (intro r_into_rtranclp proc_step.clone)
  from process_tree [OF this demo_inv] c show
    "\<exists>s'. sys_clone flat_fs (demo_sys k ms stack) 1 0 0x100 0x7000 0 0 0 = Some (Ok 2, s')
     \<and> tree_ok (init_pid s') (ptree s') \<and> dom (ptree s') \<subseteq> recycle_used (sy_pids s') \<and> pid2pc s' \<subseteq> dom (ptree s')" by blast
qed

subsection \<open>Exit and wait\<close>

text \<open>
  C11: a process that exits has its exit code recorded, is marked as ended, and keeps no thread, no descriptor and no registered waker;
  its threads leave the table, and its address space holds no area and no page table frame.  Its children become the last children
  of the initial process, which is their parent from then on; no other process changes its place in the tree.
\<close>

theorem exit_proc_effect:
  assumes "exit_proc V s cur code = Some s'" "get_process s cur = Some (p, c)" "tree_ok (init_pid s) (ptree s)"
  shows "(\<exists>d. sy_pcbs s' p = Some d \<and> pc_exit_code d = code \<and> pc_state d = Zombie \<and> pc_tasks d = [] \<and> fds (pc_fds d) = [] \<and> pc_wakers d = [])
    \<and> tid2tc s' = tid2tc s - set (pc_tasks c)
    \<and> areatree (sy_spaces s' (pc_space c)) = [] \<and> pt_frames (ms_pt (sy_spaces s' (pc_space c))) = []
    \<and> (p \<noteq> init_pid s \<longrightarrow> t_children (ptree s') p = []
         \<and> t_children (ptree s') (init_pid s) = t_children (ptree s) (init_pid s) @ pc_children c
         \<and> (\<forall>ch\<in>set (pc_children c). \<exists>cs. ptree s' ch = Some (init_pid s, cs)))
    \<and> (\<forall>x. x \<noteq> p \<and> x \<noteq> init_pid s \<and> x \<notin> set (pc_children c) \<longrightarrow> ptree s' x = ptree s x)"
proof -
  obtain d where d: "sy_pcbs s' p = Some d" "pc_exit_code d = code" "pc_state d = Zombie" "pc_tasks d = []" "fds (pc_fds d) = []" "pc_wakers d = []"
    and t: "ptree s' = t_exit (init_pid s) p (ptree s)" and r: "tid2tc s' = tid2tc s - set (pc_tasks c)"
    "areatree (sy_spaces s' (pc_space c)) = []" "pt_frames (ms_pt (sy_spaces s' (pc_space c))) = []"
    by (rule exit_proc_steps [OF assms(1,2)])
  note g = get_process_tree [OF assms(2)]
  have tr: "(p \<noteq> init_pid s \<longrightarrow> t_children (ptree s') p = []
         \<and> t_children (ptree s') (init_pid s) = t_children (ptree s) (init_pid s) @ pc_children c
         \<and> (\<forall>ch\<in>set (pc_children c). \<exists>cs. ptree s' ch = Some (init_pid s, cs)))
    \<and> (\<forall>x. x \<noteq> p \<and> x \<noteq> init_pid s \<and> x \<notin> set (pc_children c) \<longrightarrow> ptree s' x = ptree s x)"
  proof (cases "p = init_pid s")
    case False
    obtain qi js where i: "ptree s (init_pid s) = Some (qi, js)" using assms(3) by (auto simp: tree_ok_def)
    note at = t_exit_at [OF assms(3) g False i, folded t]
    note c = tree_okD [OF assms(3) g]
    have "\<exists>cs. ptree s' ch = Some (init_pid s, cs)" if "ch \<in> set (pc_children c)" for ch
      using c(2,3) c(4) [OF that] that by (auto simp: at)
    then show ?thesis using False i by (auto simp: at t_children_def)
  qed (simp add: t t_exit_def)
  show ?thesis using d r tr by blast
qed

text \<open>
  C28: the address space that a child made with \<open>CLONE_VM\<close> shares with its parent is emptied when the child exits: the parent is still
  there, on the same address space, and that space has lost all its areas and its page table frames.
\<close>

theorem shared_space_lost:
  assumes "sys_clone V s cur now args0 us ptid tls ctid = Some (Ok ch, s1)" "get_process s cur = Some (p, c)"
    "fl_contains args0 CLONE_VM" "\<not> fl_contains args0 CLONE_THREAD" "exit_proc V s1 (next_tid s) code = Some s2"
  shows "(\<exists>d. sy_pcbs s2 p = Some d \<and> pc_space d = pc_space c) \<and> areatree (sy_spaces s2 (pc_space c)) = []
    \<and> pt_frames (ms_pt (sy_spaces s2 (pc_space c))) = []"
proof -
  let ?f = "args0 AND NOT 0x3f"
  have f: "fl_contains ?f CLONE_VM" "\<not> fl_contains ?f CLONE_THREAD"
    unfolding clone_flags_mask using assms(3,4) .
  have "clone_task V s cur now ?f us ptid tls ctid = Some (Ok ch, s1)" using sys_clone_task [OF assms(1)] by simp
  from this assms(2) show ?thesis
  proof (cases rule: clone_task_cases)
    case (process pid)
    then obtain d b where d: "sy_pcbs s1 pid = Some d" "pc_space d = pc_space c" and b: "sy_tcbs s1 (next_tid s) = Some b" "tc_pid b = pid"
      using f(1) by auto
    have g: "get_process s1 (next_tid s) = Some (pid, d)" using d(1) b process(4) by (auto simp: get_process_Some)
    have "sy_pcbs s p = Some c" using assms(2) by (auto simp: get_process_Some)
    then have p1: "map_option pc_space (sy_pcbs s1 p) = Some (pc_space c)" using process(9) [of p] d by (cases "p = pid") auto
    obtain "areatree (sy_spaces s2 (pc_space d)) = []" "pt_frames (ms_pt (sy_spaces s2 (pc_space d))) = []"
      "map_option pc_space (sy_pcbs s2 p) = map_option pc_space (sy_pcbs s1 p)"
      by (rule exit_proc_steps [OF assms(5) g]) blast
    then show ?thesis using d(2) p1 by auto
  qed (use f in auto)
qed

text \<open>
  C12: wait4 that returns a child returns the first one of the list that has ended and matches the argument; this child leaves the
  list and the table of processes, and with the last reference its pid is free again.  It returns 0 or waits only when no child that
  matches has ended, and then nothing has changed.
\<close>

theorem wait4_exact:
  assumes "sys_wait4 V s cur pid wstatus options last_ref = Some (out, s')" "get_process s cur = Some (p, c)" "proc_inv s" "0 \<notin> set (pc_children c)"
  shows "(\<forall>ch. out = Wret (Ok ch) \<and> ch \<noteq> 0 \<longrightarrow>
      (\<exists>pre post. pc_children c = pre @ ch # post \<and> proc_is_zombie s ch \<and> wait_matches pid ch
         \<and> (\<forall>x\<in>set pre. \<not> (proc_is_zombie s x \<and> wait_matches pid x)) \<and> t_children (ptree s') p = pre @ post)
      \<and> pid2pc s' = pid2pc s - {ch} \<and> (last_ref \<longrightarrow> ptree s' ch = None \<and> ch \<notin> recycle_used (sy_pids s')))
    \<and> (out = Wret (Ok 0) \<or> (\<exists>t. out = Wjoin t) \<or> (\<exists>ts. out = Wany ts) \<longrightarrow>
         s' = s \<and> (\<forall>x\<in>set (pc_children c). \<not> (proc_is_zombie s x \<and> wait_matches pid x)))"
  using assms(1,2)
proof (cases rule: sys_wait4_cases)
  case (reap pre ch post r)
  note e = wait_reap_effect [OF reap(5)] and g = get_process_tree [OF assms(2)]
  have t: "tree_ok (init_pid s) (ptree s)" "recycle_inv (sy_pids s)" using assms(3) by (simp_all add: proc_inv_def)
  have "p \<noteq> ch" using tree_okD(3) [OF t(1) g] reap(1) by auto
  then have kids: "t_children (ptree s') p = pre @ post" using e(1) g by (simp add: t_children_def t_set_children_def)
  have gone: "last_ref \<longrightarrow> ptree s' ch = None \<and> ch \<notin> recycle_used (sy_pids s')"
    using e(1,5) pids.dealloc_used [OF t(2), of ch "sy_pids s'"] by auto
  have "ch \<noteq> 0" using reap(1) assms(4) by auto
  moreover have "\<exists>pre post. pc_children c = pre @ ch # post \<and> proc_is_zombie s ch \<and> wait_matches pid ch
         \<and> (\<forall>x\<in>set pre. \<not> (proc_is_zombie s x \<and> wait_matches pid x)) \<and> t_children (ptree s') p = pre @ post"
    using reap(1-4) kids by blast
  ultimately show ?thesis using reap(6) e(2,4) gone by blast
qed auto

text \<open>
  C30: a parent that waits for any of its children leaves its waker with each child that is still running.  When it has gone on and
  ended, the end of such a child panics the kernel, because its waker list still names the parent.
\<close>

theorem stale_waiter_panics:
  assumes "wait_any_poll e par ts = (False, e1)" "t \<in> set ts"
    "wait_wakers e2 t = wait_wakers e1 t" "status e2 par = Some Zombie" "cur_task e2 = Some t"
  shows "run_task2_ready e2 = None"
proof -
  have join: "join_poll e par t = (b, e') \<Longrightarrow> set (wait_wakers e u) \<subseteq> set (wait_wakers e' u) \<and> (\<not> b \<longrightarrow> par \<in> set (wait_wakers e' t))" for e t b e' u
    by (auto simp: join_poll_def task_join_def set_state_def Let_def split: if_splits)
  have keep: "wait_any_poll e par ts = (False, e1) \<Longrightarrow> set (wait_wakers e u) \<subseteq> set (wait_wakers e1 u)" for e u ts
  proof (induction ts arbitrary: e)
    case (Cons v ts)
    obtain e' where j: "join_poll e par v = (False, e')" "wait_any_poll e' par ts = (False, e1)"
      using Cons.prems(1) by (auto split: prod.splits bool.splits)
    show ?case using join [OF j(1), of u] Cons.IH [OF j(2)] by blast
  qed simp
  have "par \<in> set (wait_wakers e1 t)"
    using assms(1,2)
  proof (induction ts arbitrary: e)
    case (Cons v ts)
    obtain e' where j: "join_poll e par v = (False, e')" "wait_any_poll e' par ts = (False, e1)"
      using Cons.prems(1) by (auto split: prod.splits bool.splits)
    then show ?case using Cons.IH [OF j(2)] Cons.prems(2) join [OF j(1), of t] keep [OF j(2), of t] by auto
  qed simp
  moreover have "wake_list e ws = None" if "par \<in> set ws" "status e par = Some Zombie" for e ws
    using that
  proof (induction ws arbitrary: e)
    case (Cons w ws)
    have "status e' par = Some Zombie" if "wakeup_task e w = Some e'" for e'
      using that Cons.prems(2) by (auto simp: wakeup_task_def set_state_def Let_def split: option.splits task_status.splits if_splits)
    moreover have "wakeup_task e par = None" using Cons.prems(2) by (simp add: wakeup_task_def)
    ultimately show ?case using Cons by (cases "wakeup_task e w") auto
  qed simp
  ultimately show ?thesis
    using assms(3-5) by (auto simp: run_task2_ready_def wake_all_waiters_def set_state_def Let_def)
qed

subsection \<open>The robust list\<close>

text \<open>
  C31: the cleanup of the robust list, which a thread other than the leader runs when it exits, follows user memory without a bound:
  when the first node of the list points to itself and its lock is not owned by the thread, the cleanup does not return.
\<close>

theorem robust_list_diverges:
  assumes "get_process s cur = Some (p, c)" "list_head \<noteq> 0"
    "get_target_ref (sy_mem s) (get_user_token s c) list_head 24 = Some (Ok (Some pa))" "le_usize_at (pm_read (sy_mem s) pa 24) 0 = node"
    "le_usize_at (pm_read (sy_mem s) pa 24) 8 = off" "le_usize_at (pm_read (sy_mem s) pa 24) 16 = 0"
    "node \<noteq> list_head" "node \<noteq> 0" "get_target_ref (sy_mem s) (get_user_token s c) node 8 = Some (Ok (Some pn))" "le_usize (pm_read (sy_mem s) pn 8) = node"
    "get_target_ref (sy_mem s) (get_user_token s c) (node + off) 4 = Some (Ok (Some pl))"
    "(ucast (le_usize (pm_read (sy_mem s) pl 4)) :: u32) AND FUTEX_TID_MASK \<noteq> of_nat cur"
  shows "exit_robust_list_cleanup s cur list_head = None"
proof -
  let ?tok = "get_user_token s c"
  have rel: "release_robust_lock s ?tok cur (node + off) f = Some s" for f
    using assms(11,12) by (simp add: release_robust_lock_def)
  have "node' \<noteq> node \<or> s0 \<noteq> s \<or> (token, tid, h, o') \<noteq> (?tok, cur, list_head, off)"
    if "robust_list_loop s0 token tid h o' node' = Some s'" for s0 token tid h o' node' s'
    using that
  proof (rule robust_list_loop.raw_induct [rotated, where P = "\<lambda>s0 token tid h o' node' s'.
      node' \<noteq> node \<or> s0 \<noteq> s \<or> (token, tid, h, o') \<noteq> (?tok, cur, list_head, off)"])
    fix loop s0 token tid h o' node' s'
    assume ih: "\<And>s0 token tid h o' node' s'. loop s0 token tid h o' node' = Some s' \<Longrightarrow>
        node' \<noteq> node \<or> s0 \<noteq> s \<or> (token, tid, h, o') \<noteq> (?tok, cur, list_head, off)"
      and b: "(if node' = h \<or> node' = 0 then Some s0
      else do {
        r \<leftarrow> get_target_ref (sy_mem s0) token node' 8;
        (case r of
           Inl _ \<Rightarrow> Some s0
         | Inr a \<Rightarrow> do {
             pa \<leftarrow> a;
             let next_node = le_usize (pm_read (sy_mem s0) pa 8);
             s \<leftarrow> release_robust_lock s0 token tid (node' + o') (\<lambda>v. (v AND NOT FUTEX_TID_MASK) OR FUTEX_OWNER_DIED);
             loop s token tid h o' next_node }) }) = Some s'"
    show "node' \<noteq> node \<or> s0 \<noteq> s \<or> (token, tid, h, o') \<noteq> (?tok, cur, list_head, off)"
    proof (rule ccontr)
      assume "\<not> ?thesis"
      then have eq: "node' = node" "s0 = s" "token = ?tok" "tid = cur" "h = list_head" "o' = off" by auto
      have "loop s ?tok cur list_head off node = Some s'" using b assms(7-10) rel unfolding eq by (simp add: Let_def)
      then show False using ih by blast
    qed
  qed
  then have "robust_list_loop s ?tok cur list_head off node \<noteq> Some s'" for s' by blast
  then have "robust_list_loop s ?tok cur list_head off node = None" by (metis not_None_eq)
  then show ?thesis using assms(1-6) by (simp add: exit_robust_list_cleanup_def Let_def)
qed

subsection \<open>A machine with three processes\<close>

text \<open>
  Process 1 is the initial one, process 2 its child with the address space 0, and process 3 the child of 2; task 2 is the only
  task of process 2.  The address space is empty.
\<close>

definition demo_tree :: "task_status \<Rightarrow> (nat \<Rightarrow> u8 list) sys" where
  "demo_tree st = (let s = demo_sys (snd booted) \<lparr> ms_pt = (fst booted)\<lparr> pt_frames := [] \<rparr>, areatree = [] \<rparr> 0;
     child = (\<lambda>p par cs. demo_pcb\<lparr> main_task := p, pc_tasks := [p], pc_children := cs, pc_parent := par, pc_wakers := [] \<rparr>) in
   s\<lparr> sy_pcbs := [1 \<mapsto> demo_pcb\<lparr> pc_children := [2] \<rparr>, 2 \<mapsto> child 2 1 [3], 3 \<mapsto> child 3 2 []],
      sy_tcbs := [1 \<mapsto> demo_tcb 0 0, 2 \<mapsto> (demo_tcb 0 0)\<lparr> tc_pid := 2 \<rparr>], pid2pc := {1, 2, 3}, tid2tc := {1, 2, 3},
      sy_pids := PID_ALLOCATOR\<lparr> current := 4 \<rparr>, sy_exec := set_state (sy_exec s) 2 st \<rparr>)"

lemma demo_tree_ptree: "ptree (demo_tree st) = [1 \<mapsto> (0, [2]), 2 \<mapsto> (1, [3]), 3 \<mapsto> (2, [])]"
  by (rule ext) (simp add: ptree_def demo_tree_def Let_def demo_pcb_def)

lemma demo_tree_fields:
  "init_pid (demo_tree st) = 1" "sy_pids (demo_tree st) = PID_ALLOCATOR\<lparr> current := 4 \<rparr>" "pid2pc (demo_tree st) = {1, 2, 3}"
  "tid2tc (demo_tree st) = {1, 2, 3}" "status (sy_exec (demo_tree st)) 2 = Some st"
  by (simp_all add: demo_tree_def demo_sys_def Let_def set_state_def)

lemma demo_tree_inv: "proc_inv (demo_tree st)"
  unfolding proc_inv_def demo_tree_ptree demo_tree_fields
  by (auto simp: tree_ok_def recycle_inv_def recycle_used_def PID_ALLOCATOR_def split: if_splits)

lemma demo_tree_process:
  "get_process (demo_tree st) 1 = Some (1, demo_pcb\<lparr> pc_children := [2] \<rparr>)"
  "get_process (demo_tree st) 2 = Some (2, demo_pcb\<lparr> main_task := 2, pc_tasks := [2], pc_children := [3], pc_parent := 1, pc_wakers := [] \<rparr>)"
  by (simp_all add: get_process_def demo_tree_def Let_def demo_tcb_def tcb_new_def)

text \<open>A process whose threads ask for nothing at their end, on an address space without pages, exits without a panic.\<close>

lemma exit_proc_returns:
  assumes "get_process s cur = Some (p, c)" "wake_list (sy_exec s) (map snd (pc_wakers c)) = Some e"
    "\<forall>t\<in>set (pc_tasks c). \<exists>b. sy_tcbs s t = Some b \<and> tc_child_tid b = None"
    "\<forall>a\<in>snd ` set (areatree (sy_spaces s (pc_space c))). area_type a \<noteq> Mmap \<and> data_frames a = []" "pt_frames (ms_pt (sy_spaces s (pc_space c))) = []"
  shows "\<exists>s'. exit_proc V s cur code = Some s'"
proof -
  have c: "sy_pcbs s p = Some c" using assms(1) by (auto simp: get_process_Some)
  define s1 where "s1 = upd_pcb p (\<lambda>c. c\<lparr> pc_wakers := [] \<rparr>) (upd_pcb p (\<lambda>c. c\<lparr> pc_exit_code := code, pc_state := Zombie \<rparr>) s)\<lparr> sy_exec := e \<rparr>"
  have w: "proc_wake_all_waiters (upd_pcb p (\<lambda>c. c\<lparr> pc_exit_code := code, pc_state := Zombie \<rparr>) s) p = Some s1"
    using c assms(2) by (simp add: proc_wake_all_waiters_def s1_def)
  have s1: "sy_tcbs s1 = sy_tcbs s" "sy_spaces s1 = sy_spaces s" "sy_pcbs s1 p \<noteq> None" using c by (simp_all add: s1_def)
  have ct: "exit_clear_tids V s1 c ts = Some s1" if "set ts \<subseteq> set (pc_tasks c)" for ts
    using that assms(3) by (induction ts) (fastforce simp: s1)+
  obtain s2 where rp: "reparent_children s1 p = Some s2"
    using s1(3) by (cases "reparent_children s1 p") (auto simp: reparent_children_def Let_def split: if_splits)
  have "sy_spaces (fold (\<lambda>ch s. upd_pcb (init_pid s) (\<lambda>i. i\<lparr> pc_children := pc_children i @ [ch] \<rparr>)
       (upd_pcb ch (\<lambda>d. d\<lparr> pc_parent := init_pid s \<rparr>) s)) cs u) = sy_spaces u" for cs and u :: "'a sys"
    by (induction cs arbitrary: u) simp_all
  then have sp: "sy_spaces s2 = sy_spaces s" using rp s1(2) by (auto simp: reparent_children_def bind_eq_Some_conv Let_def split: if_splits)
  have p2: "sy_pcbs s2 p \<noteq> None" using reparent_keeps [OF rp, of main_task p] s1(3) by auto
  have "recycle_data_pages V fs k (sy_spaces s2 (pc_space c)) = Some (Ok 0, k, \<lparr> ms_pt = (ms_pt (sy_spaces s (pc_space c)))\<lparr> pt_frames := [] \<rparr>, areatree = [] \<rparr>, fs)" for fs k
  proof -
    have "write_back V fs k pt as = Some (Ok (), fs) \<and> areas_drop k as = Some k" if "\<forall>a\<in>set as. area_type a \<noteq> Mmap \<and> data_frames a = []" for as pt
      using that by (induction as) (simp_all add: ma_drop_def)
    from this [of "map snd (areatree (sy_spaces s (pc_space c)))"] show ?thesis using assms(4,5) by (simp add: recycle_data_pages_def sp)
  qed
  then show ?thesis using assms(1) w ct [of "pc_tasks c"] rp p2 by (auto simp: exit_proc_def Let_def)
qed

lemma demo_tree_exit: "\<exists>s'. exit_proc V (demo_tree st) 2 7 = Some s'"
  by (rule exit_proc_returns [OF demo_tree_process(2)]) (simp_all add: demo_tree_def Let_def demo_sys_def demo_pcb_def demo_tcb_def tcb_new_def)

theorem exit_proc_effect_witness:
  "\<exists>s'. exit_proc flat_fs (demo_tree Running) 2 7 = Some s' \<and> t_children (ptree s') 1 = [2, 3] \<and> tid2tc s' = {1, 3}
     \<and> (\<exists>cs. ptree s' 3 = Some (1, cs)) \<and> (\<exists>d. sy_pcbs s' 2 = Some d \<and> pc_exit_code d = 7)"
proof -
  obtain s' where e: "exit_proc flat_fs (demo_tree Running) 2 7 = Some s'" using demo_tree_exit by blast
  have t: "tree_ok (init_pid (demo_tree Running)) (ptree (demo_tree Running))" using demo_tree_inv by (simp add: proc_inv_def)
  have "t_children (ptree (demo_tree Running)) 1 = [2]" by (simp add: demo_tree_ptree t_children_def)
  moreover note x = exit_proc_effect [OF e demo_tree_process(2) t, unfolded demo_tree_fields]
  ultimately have "t_children (ptree s') 1 = [2, 3]" "\<exists>cs. ptree s' 3 = Some (1, cs)" by simp_all
  moreover have "tid2tc s' = {1, 2, 3} - set [2]" using x by simp
  moreover have "{1, 2, 3} - set [2] = {1, 3 :: nat}" by auto
  moreover have "\<exists>d. sy_pcbs s' 2 = Some d \<and> pc_exit_code d = 7" using x by blast
  ultimately show ?thesis using e by metis
qed

theorem wait4_exact_witness:
  "\<exists>s'. sys_wait4 flat_fs (demo_tree Zombie) 1 (- 1) 0 0 True = Some (Wret (Ok 2), s') \<and> pid2pc s' = {1, 3} \<and> ptree s' 2 = None
     \<and> t_children (ptree s') 1 = []"
proof -
  have z: "proc_is_zombie (demo_tree Zombie) 2"
    using demo_tree_fields(5) [of Zombie] by (simp add: proc_is_zombie_def demo_tree_def Let_def)
  obtain d where d: "sy_pcbs (demo_tree Zombie) 2 = Some d" by (simp add: demo_tree_def Let_def)
  have "\<exists>ps. pid_drop (sy_pids (demo_tree Zombie)) 2 = Some ps"
    by (simp add: demo_tree_fields pid_drop_def recycle_dealloc_def PID_ALLOCATOR_def)
  moreover have "(ucast (- 1 :: usize) :: i32) \<noteq> 0x80000000" "fl_from_bits WaitFlags_all 0 = Some 0" by code_simp+
  ultimately have "\<exists>s'. sys_wait4 flat_fs (demo_tree Zombie) 1 (- 1) 0 0 True = Some (Wret (Ok 2), s')"
    using z d unfolding sys_wait4_def demo_tree_process
    by (auto simp: wait_matches_def wait_reap_def wait_put_status_def Let_def)
  then obtain s' where w: "sys_wait4 flat_fs (demo_tree Zombie) 1 (- 1) 0 0 True = Some (Wret (Ok 2), s')" ..
  have kids: "pc_children (demo_pcb\<lparr> pc_children := [2] \<rparr>) = [2]" by simp
  have x: "\<exists>pre post. [2] = pre @ 2 # post \<and> t_children (ptree s') 1 = pre @ post" "pid2pc s' = {1, 2, 3} - {2}" "ptree s' 2 = None"
    using wait4_exact [OF w demo_tree_process(1) demo_tree_inv, unfolded kids demo_tree_fields] by auto
  have "t_children (ptree s') 1 = []" using x(1) by (auto simp: Cons_eq_append_conv)
  moreover have "{1, 2, 3} - {2} = {1, 3 :: nat}" by auto
  ultimately show ?thesis using w x(2,3) by metis
qed

text \<open>An address space with one area that has no page yet.\<close>

definition demo_space :: memory_set where
  "demo_space = \<lparr> ms_pt = (fst booted)\<lparr> pt_frames := [] \<rparr>,
     areatree = [(16, \<lparr> ma_range = \<lparr> get_start = 16, get_end = 20 \<rparr>, data_frames = [], ma_type = Framed, ma_perm = MP_W, area_type = Stack, ma_fd = None,
       mmap_flags = 0 \<rparr>)] \<rparr>"

theorem shared_space_lost_witness:
  "\<exists>s1 s2. sys_clone flat_fs (demo_sys (snd booted) demo_space 0) 1 0 0x100 0x7000 0 0 0 = Some (Ok 2, s1) \<and> areatree (sy_spaces s1 0) \<noteq> []
     \<and> exit_proc flat_fs s1 2 0 = Some s2 \<and> areatree (sy_spaces s2 0) = []"
proof -
  let ?s = "demo_sys (snd booted) demo_space 0"
  obtain s1 b d where c: "sys_clone flat_fs ?s 1 0 0x100 0x7000 0 0 0 = Some (Ok 2, s1)" "sy_tcbs s1 2 = Some b" "tc_pid b = 2" "tc_child_tid b = None"
    "sy_pcbs s1 2 = Some d" "pc_tasks d = [2]" "pc_wakers d = [(2, 2)]" "pc_space d = 0" "2 \<in> pid2pc s1" "status (sy_exec s1) 2 = Some Runnable"
    "sy_spaces s1 = (\<lambda>_. demo_space)"
    using demo_clone by metis
  have g: "get_process s1 2 = Some (2, d)" using c by (auto simp: get_process_Some)
  have "wake_list (sy_exec s1) (map snd (pc_wakers d)) = Some (sy_exec s1)" using c(7,10) by (simp add: wakeup_task_def)
  from exit_proc_returns [OF g this] obtain s2 where e: "exit_proc flat_fs s1 2 0 = Some s2" using c by (auto simp: demo_space_def)
  have "next_tid ?s = 2" "pc_space demo_pcb = 0" by (simp_all add: demo_sys_def demo_pcb_def)
  with shared_space_lost [OF c(1) demo_process, of 0 s2] e have "areatree (sy_spaces s2 0) = []"
    by (simp add: fl_contains_def CLONE_VM_def CLONE_THREAD_def)
  then show ?thesis using c(1,11) e by (auto simp: demo_space_def)
qed

theorem stale_waiter_panics_witness:
  "\<exists>e e1. wait_any_poll e 1 [2, 3] = (False, e1) \<and> run_task2_ready (e1\<lparr> status := (status e1)(1 \<mapsto> Zombie), cur_task := Some 3 \<rparr>) = None"
proof -
  let ?e = "spawn_task (spawn_task (executor_pick (exec_start 1)) 2) 3"
  have "status ?e 2 = Some Runnable" "status ?e 3 = Some Runnable" by (simp_all add: spawn_task_def create_task_def queue_task_def)
  then obtain e1 where w: "wait_any_poll ?e 1 [2, 3] = (False, e1)"
    by (simp add: join_poll_def task_join_def set_state_def Let_def)
  have "run_task2_ready (e1\<lparr> status := (status e1)(1 \<mapsto> Zombie), cur_task := Some 3 \<rparr>) = None"
    by (rule stale_waiter_panics [OF w]) simp_all
  then show ?thesis using w by blast
qed

lemma user_bytes_slice: "c + n \<le> m \<Longrightarrow> user_bytes k root (va + of_nat c) n = take n (drop c (user_bytes k root va m))"
  by (rule nth_equalityI) (simp_all add: user_bytes_def add.assoc)

theorem robust_list_diverges_witness:
  "\<exists>k ms. exit_robust_list_cleanup (demo_sys k ms 0) 1 0x5018 = None"
proof -
  obtain k pt T where d: "pt_wf k pt T" "\<And>n. n \<le> 4080 \<Longrightarrow> user_room k (root_ppn pt) T 0x5010 n" by (rule demo_page) blast
  let ?bs = "le_bytes 8 0x5010 @ le_bytes 8 0x5010 @ le_bytes 8 0 @ le_bytes 8 0"
  define k' where "k' = user_put k (root_ppn pt) 0x5010 ?bs"
  let ?tok = "pt_token pt" and ?ms = "\<lparr> ms_pt = pt, areatree = [] \<rparr>"
  have l: "length ?bs = 32" by simp
  have "user_room k (root_ppn pt) T 0x5010 (length ?bs)" unfolding l by (rule d(2)) simp
  note put = user_room_put [OF d(1) refl this k'_def]
  note tk = pt_wf_token [OF put(1)]
  have room: "user_room k' (root_ppn pt) T 0x5010 32" using put(2) unfolding l .
  have bytes: "user_bytes k' (root_ppn pt) 0x5010 32 = ?bs" using put(3) unfolding l .
  have read: "\<exists>pa. get_target_ref k' ?tok (0x5010 + of_nat c) n = Some (Ok (Some pa)) \<and> pm_read k' pa n = take n (drop c ?bs)"
    if c: "c + n \<le> 32" and n: "0 < n" and page: "va_page_offset (0x5010 + of_nat c) + n \<le> 4096" for c n
  proof -
    have "user_room k' (root_ppn (pt_from_token ?tok)) T (0x5010 + of_nat c) n"
      unfolding tk(1) by (rule user_room_take [OF user_room_drop [OF room]]) (use c in simp_all)
    then obtain pa where pa: "user_pa k' (root_ppn (pt_from_token ?tok)) (0x5010 + of_nat c) = Some pa"
      "get_target_ref k' ?tok (0x5010 + of_nat c) n = Some (Ok (Some pa))" by (rule user_room_refmut [OF tk(2) _ n])
    have "pm_read k' pa n = take n (drop c ?bs)"
      unfolding pm_read_user_bytes [OF pa(1) page] tk(1) user_bytes_slice [OF c] bytes ..
    then show ?thesis using pa(2) by blast
  qed
  obtain ph where ph: "get_target_ref k' ?tok 0x5018 24 = Some (Ok (Some ph))" "pm_read k' ph 24 = le_bytes 8 0x5010 @ le_bytes 8 0 @ le_bytes 8 0"
    using read [of 8 24] by (auto simp: va_page_offset_eq)
  obtain pn where pn: "get_target_ref k' ?tok 0x5010 8 = Some (Ok (Some pn))" "pm_read k' pn 8 = le_bytes 8 0x5010"
    using read [of 0 8] by (auto simp: va_page_offset_eq)
  obtain pl where pl: "get_target_ref k' ?tok 0x5010 4 = Some (Ok (Some pl))" "pm_read k' pl 4 = take 4 (le_bytes 8 0x5010)"
    using read [of 0 4] by (auto simp: va_page_offset_eq)
  have lock: "(ucast (le_usize (take 4 (le_bytes 8 0x5010))) :: u32) AND FUTEX_TID_MASK \<noteq> of_nat 1" by code_simp
  have "exit_robust_list_cleanup (demo_sys k' ?ms 0) 1 0x5018 = None"
    by (rule robust_list_diverges [OF demo_process, where pa = ph and pn = pn and pl = pl and off = 0 and node = "0x5010"])
      (use ph pn pl lock in \<open>simp_all add: get_user_token_def demo_sys_def ms_token_def demo_pcb_def le_usize_at_def\<close>)
  then show ?thesis by blast
qed

end
