(* ===== verification/Spec2Isabelle.thy ===== *)
theory Spec2Isabelle
  imports Page_Table_Props Frame_Props Id_Alloc Kmutex Futex Pte_Riscv User_Copy_Props
    Fd_Syscalls Mmap_Props Signal_Props Process_Props
begin

text \<open>
  Verification of the kernel under \<open>os/src\<close>: a Unix-like kernel in Rust for loongarch64 and riscv64 whose tasks are futures
  that one executor polls.  A task traps into the kernel, the system call runs as part of its future, and before it returns to user
  mode pending signals are delivered.  The memory part gives every process a page table, a tree of areas and lazily allocated,
  copy-on-write pages; the file part gives it a table of descriptors over inodes and pipes; tasks sleep on wait queues, futexes,
  timers and the end of other tasks, and are woken by being put back on the queue of the scheduler.

  \<^bold>\<open>Conventions.\<close>  Machine integers are words of the width of the source (\<open>usize\<close> has 64 bits); the model is that of the release
  build, where arithmetic wraps and debug assertions are off.  The counters of the scheduler (\<open>isize\<close>) and those that number pids, tasks and
  shared objects (\<open>usize\<close>) are unbounded here: they only count up, and would need \<open>2 ^ 63\<close> steps to wrap.  A panic is \<open>None\<close>, an error of the code is \<open>Err\<close> in a sum, early returns are branches.  State is
  passed explicitly: \<open>kmem\<close> is physical memory with the frame allocator and the reference counts, \<open>memory_set\<close> an address space,
  \<open>exec\<close> the executor with the scheduler, \<open>sys\<close> the machine with all processes.  Locks add no state, except where a guard is used
  without being awaited (\<open>Mutex_Guard\<close>); an asynchronous operation is modelled between two points where it may wait, so that a
  waiting future is one call of its \<open>poll\<close>.  The file system behind an inode is the parameter \<open>fs_ops\<close>, the clock an argument.

  \<^bold>\<open>The theories and the code.\<close>

  \<^item> \<open>Prelude\<close>, \<open>Config\<close>, \<open>Errno\<close>, \<open>Btree\<close>, \<open>Bit_Field\<close>, \<open>Bitflags\<close>: shared vocabulary, \<open>config.rs\<close>, \<open>utils/error.rs\<close>, the standard ordered
    map, the vendored crates.
  \<^item> \<open>Resource_Pool\<close>: the contract of allocators of numbers, interpreted for pids (\<open>Id_Alloc\<close>, \<open>task/id.rs\<close>), frames (\<open>Frame_Allocator\<close>,
    \<open>mm/frame_allocator.rs\<close>) and descriptors (\<open>Fd_Table\<close>).
  \<^item> \<open>Address\<close>, \<open>Phys_Mem\<close>, \<open>Pte\<close>, \<open>Pte_Riscv\<close>, \<open>Page_Table\<close>, with \<open>Frame_Props\<close> and \<open>Page_Table_Props\<close>: \<open>mm/address.rs\<close>, \<open>mm/arch/\<close> and the page table of
    \<open>mm/page_table.rs\<close>.  Entries meet the contract \<open>pte_codec\<close> on both architectures.
  \<^item> \<open>User_Buffer\<close>, \<open>User_Copy\<close>, \<open>User_Copy_Props\<close>: access to user memory (the rest of \<open>mm/page_table.rs\<close>).
  \<^item> \<open>Vm_Area\<close>, \<open>Map_Area\<close>, \<open>Shm\<close>, \<open>Memory_Set\<close>, \<open>Memory_Ops\<close>, \<open>Mm_Syscalls\<close>, with \<open>Memory_Props\<close>, \<open>Munmap_Props\<close> and \<open>Mmap_Props\<close>: areas
    (\<open>mm/area.rs\<close>), shared memory (\<open>mm/shm.rs\<close>, \<open>syscall/mm.rs\<close>), address spaces (\<open>mm/memory_set.rs\<close>) and the memory calls of \<open>syscall/process.rs\<close>.
  \<^item> \<open>Scheduler\<close>, \<open>Executor\<close>: \<open>task/schedule.rs\<close>; task status, wakers and the run loop (\<open>task/waker.rs\<close>, \<open>task/processor.rs\<close>, \<open>trap/mod.rs\<close>).
  \<^item> \<open>Clock\<close>, \<open>Waiter_Registry\<close>, \<open>Sleep_List\<close>, \<open>Wait_Queue\<close>, \<open>Kmutex\<close>, \<open>Futex\<close>: \<open>timer.rs\<close>, the contract of lists of waiters and its three
    implementations (\<open>task/sleeplist.rs\<close>, \<open>sync/waitqueue.rs\<close>, \<open>sync/futex.rs\<close>), the sleeping mutex (\<open>sync/mutex.rs\<close>).
  \<^item> \<open>Open_Flags\<close>, \<open>Os_Inode\<close>, \<open>Byte_Stream\<close>, \<open>Pipe\<close>, \<open>Fd_Table\<close>, \<open>Mutex_Guard\<close>, \<open>Fd_Syscalls\<close>: open files (\<open>fs/inode.rs\<close>, \<open>fs/fd.rs\<close>), pipes (\<open>fs/pipe.rs\<close>),
    the descriptor table (\<open>task/fdmanage.rs\<close>) and the descriptor calls of \<open>syscall/fs.rs\<close>.
  \<^item> \<open>Signals\<close>, \<open>Process\<close>, \<open>Process_Exit\<close>, \<open>Signal_Delivery\<close>, with \<open>Process_Lib\<close>, \<open>Signal_Props\<close> and \<open>Process_Props\<close>: signal state and trap contexts (\<open>signal/\<close>,
    \<open>trap/context.rs\<close>, \<open>trap/ucontext.rs\<close>), the blocks of tasks and processes and clone (\<open>task/task.rs\<close>), exit, the robust list and wait
    (\<open>task/mod.rs\<close>, \<open>task/future.rs\<close>, \<open>syscall/process.rs\<close>), sending and delivery (\<open>signal/mod.rs\<close>, \<open>syscall/signal.rs\<close>).

  \<^bold>\<open>What is shown.\<close>  The page table implements a map from pages to frames; mmap, munmap and page faults keep address spaces well formed and
  have the stated effect on areas and pages; user memory is read back as written.  Numbers are never handed out twice; the ready
  queue holds exactly the runnable tasks but those still being created, along every run.  Lists of waiters, futexes and pipes refine queues; descriptor calls
  refine a partial map and keep the table typed.  Clone, exit and wait4 act on the process tree as adding, adopting and
  reaping, and keep it well formed along every sequence of calls without \<open>CLONE_PARENT\<close>; delivery and sigreturn of a signal with a context restore the
  interrupted registers and the mask.  Where the code departs from its own intention, the lemma states what it does: munmap frees pages that stay
  mapped, a mutex waiter loses its registration, unawaited guards panic, a child that shares its parent's memory empties it on exit, a
  plain handler leaves its signal blocked, two tasks that wake each other starve the rest of the ready queue, a waker of an ended parent panics, a cyclic robust list is followed for ever.

  \<^bold>\<open>Loops.\<close>  Loops over lists and ranges are structural recursion; loops bounded by an address are \<open>function\<close>s with a measure.  Loops that
  the code does not bound are \<open>partial_function (option)\<close>, where \<open>None\<close> also stands for not returning: the searches for the end
  of a user string, the segments of a user buffer, retried page faults, reads to the end of a file, the delivery of signals, the
  robust list.  No fuel is used.  That such a loop returns is proved as an equation with \<open>Some\<close>, for the segments of a user
  buffer, for strings with a terminator and for ignored signals.

  \<^bold>\<open>Not modelled.\<close>  The file system itself (lwext4 through its C interface), devices and drivers, the network stubs and path
  lookup: their results come from outside the kernel.  Exec and the first process: they run the ELF parser of a
  third-party crate over files.  Trap entry, context switches, the register crates, boot and the heap: assembly and
  device registers without data of their own.  Poll and select over arbitrary files, statistics and information calls with fixed answers.
  Interrupts taken while the kernel runs, and more than one hart, are not modelled.
\<close>

text \<open>
  C8: pids are unique.  Along every run of \<open>pid_alloc\<close> and drops of the handles it returned, from
  the initial allocator, no operation panics, the live pids are pairwise distinct, and they are
  exactly the numbers the allocator counts as used.
\<close>

theorem pids_unique:
  assumes "pool_polite pid_alloc pid_drop ops (PID_ALLOCATOR, [0])"
  shows "\<exists>a live. pool_run pid_alloc pid_drop ops (PID_ALLOCATOR, [0]) = Some (a, live)
    \<and> distinct live \<and> set live = recycle_used a"
  using pids.run_polite [OF assms] pids.run_live [of ops PID_ALLOCATOR "[0]"] recycle_inv_PID
  by fastforce

theorem pids_unique_witness:
  "\<exists>a live. pool_run pid_alloc pid_drop [PAlloc, PAlloc, PDealloc 1, PAlloc] (PID_ALLOCATOR, [0])
     = Some (a, live) \<and> distinct live \<and> set live = recycle_used a"
  by (rule pids_unique) code_simp



end
